(* ===== verification/Prelude.thy ===== *)
theory Prelude
  imports Main "HOL-Library.Word"
begin

text \<open>
  The vocabulary the components share: \<open>std::string\<close> searches with \<open>npos\<close> as \<open>None\<close>,
  the C-locale character classes, \<open>std::lexicographical_compare\<close>, 64-bit \<open>size_t\<close>, and the
  list lemmas the component proofs use.  Characters are bytes.
\<close>

named_theorems stream_simps \<open>one-step behaviour of the stream operations\<close>
named_theorems map_simps \<open>look-up after update in an ordered map\<close>
named_theorems frame_simps \<open>fields an operation does not change\<close>

type_synonym siz = "64 word"

text \<open>The largest \<open>size_t\<close>, which is also \<open>npos\<close>.\<close>

definition siz_max :: siz where
  "siz_max = - 1"

subsection \<open>Characters\<close>

definition code :: "char \<Rightarrow> nat" where
  "code c = of_char c"

definition NUL :: char where "NUL = CHR 0x00"
definition LF :: char where "LF = CHR 0x0A"
definition CR :: char where "CR = CHR 0x0D"
definition SPC :: char where "SPC = CHR 0x20"
definition TAB :: char where "TAB = CHR 0x09"
definition BSL :: char where "BSL = CHR 0x5C"
definition DQUOTE :: char where "DQUOTE = CHR 0x22"
definition SQUOTE :: char where "SQUOTE = CHR 0x27"

lemmas char_consts = NUL_def LF_def CR_def SPC_def TAB_def BSL_def DQUOTE_def SQUOTE_def

definition isspace :: "char \<Rightarrow> bool" where
  "isspace c = (c = SPC \<or> c = TAB \<or> c = LF \<or> c = CHR 0x0B \<or> c = CHR 0x0C \<or> c = CR)"

definition isdigit :: "char \<Rightarrow> bool" where
  "isdigit c = (48 \<le> code c \<and> code c \<le> 57)"

definition isalpha :: "char \<Rightarrow> bool" where
  "isalpha c = (65 \<le> code c \<and> code c \<le> 90 \<or> 97 \<le> code c \<and> code c \<le> 122)"

definition isalnum :: "char \<Rightarrow> bool" where
  "isalnum c = (isalpha c \<or> isdigit c)"

definition tolower :: "char \<Rightarrow> char" where
  "tolower c = (if 65 \<le> code c \<and> code c \<le> 90 then char_of (code c + 32) else c)"

definition toupper :: "char \<Rightarrow> char" where
  "toupper c = (if 97 \<le> code c \<and> code c \<le> 122 then char_of (code c - 32) else c)"

text \<open>The value of a \<open>char\<close> promoted to \<open>int\<close> where \<open>char\<close> is signed (x86).\<close>

definition schar :: "char \<Rightarrow> int" where
  "schar c = (if code c < 128 then int (code c) else int (code c) - 256)"

lemma code_less_256 [simp]: "code c < 256"
  unfolding code_def by (cases c) (simp add: of_char_def horner_sum_simps)

lemma code_inj: "code c = code d \<longleftrightarrow> c = d"
  unfolding code_def by simp

lemma schar_inj: "schar c = schar d \<longleftrightarrow> c = d"
  using code_less_256 [of c] code_less_256 [of d]
  by (auto simp: schar_def code_inj [symmetric] simp del: code_less_256)

lemma isspace_SPC [simp]: "isspace SPC"
  by (simp add: isspace_def)

lemma isspace_LF [simp]: "isspace LF"
  by (simp add: isspace_def)

lemma isdigit_not_isspace: "isdigit c \<Longrightarrow> \<not> isspace c"
  by (auto simp: isdigit_def isspace_def code_def char_consts)

lemma code_tolower_not_upper: "\<not> (65 \<le> code (tolower c) \<and> code (tolower c) \<le> 90)"
  by (auto simp: tolower_def code_def)

lemma tolower_idem [simp]: "tolower (tolower c) = tolower c"
  by (metis tolower_def code_tolower_not_upper)

subsection \<open>\<open>std::string\<close>\<close>

text \<open>\<open>s.find(c)\<close>; \<open>None\<close> is \<open>npos\<close>.\<close>

fun find_ch :: "char \<Rightarrow> string \<Rightarrow> nat option" where
  "find_ch c [] = None"
| "find_ch c (x # xs) = (if x = c then Some 0 else map_option Suc (find_ch c xs))"

text \<open>\<open>s.find_last_of(c)\<close>.\<close>

fun find_last_ch :: "char \<Rightarrow> string \<Rightarrow> nat option" where
  "find_last_ch c [] = None"
| "find_last_ch c (x # xs) =
     (case find_last_ch c xs of
        Some i \<Rightarrow> Some (Suc i)
      | None \<Rightarrow> if x = c then Some 0 else None)"

fun starts_with :: "string \<Rightarrow> string \<Rightarrow> bool" where
  "starts_with [] s = True"
| "starts_with (p # ps) [] = False"
| "starts_with (p # ps) (x # xs) = (p = x \<and> starts_with ps xs)"

text \<open>\<open>s.find(p)\<close> for a string \<open>p\<close>.\<close>

fun find_str :: "string \<Rightarrow> string \<Rightarrow> nat option" where
  "find_str p [] = (if p = [] then Some 0 else None)"
| "find_str p (x # xs) =
     (if starts_with p (x # xs) then Some 0 else map_option Suc (find_str p xs))"

text \<open>\<open>s.substr(pos, n)\<close> and \<open>s.substr(pos)\<close>, used with \<open>pos \<le> s.size()\<close> only.\<close>

definition substr :: "string \<Rightarrow> nat \<Rightarrow> nat \<Rightarrow> string" where
  "substr s pos n = take n (drop pos s)"

definition substr_from :: "string \<Rightarrow> nat \<Rightarrow> string" where
  "substr_from s pos = drop pos s"

lemma starts_with_iff: "starts_with p s \<longleftrightarrow> (\<exists>t. s = p @ t)"
  by (induction p s rule: starts_with.induct) auto

lemma find_ch_None: "find_ch c s = None \<longleftrightarrow> c \<notin> set s"
  by (induction s) auto

lemma find_ch_notin [simp]: "c \<notin> set s \<Longrightarrow> find_ch c s = None"
  by (simp add: find_ch_None)

lemma find_ch_append [simp]: "c \<notin> set xs \<Longrightarrow> find_ch c (xs @ c # ys) = Some (length xs)"
  by (induction xs) auto

lemma find_ch_append_notin: "c \<notin> set xs \<Longrightarrow> find_ch c (xs @ ys) = map_option ((+) (length xs)) (find_ch c ys)"
  by (cases "find_ch c ys"; induction xs) auto

lemma find_ch_Some:
  "find_ch c s = Some i \<Longrightarrow> i < length s \<and> s ! i = c \<and> c \<notin> set (take i s)"
proof (induction s arbitrary: i)
  case Nil
  then show ?case by simp
next
  case (Cons x xs)
  then show ?case by (cases i) (auto split: if_splits)
qed

lemma find_ch_Some_split:
  "find_ch c s = Some i \<Longrightarrow> s = take i s @ c # drop (Suc i) s"
  using find_ch_Some [of c s i] id_take_nth_drop [of i s] by simp

lemma find_str_not_None: "p \<noteq> [] \<Longrightarrow> find_str p (xs @ p @ ys) \<noteq> None"
  by (induction xs) (auto simp: starts_with_iff neq_Nil_conv)

lemma find_str_Some:
  "find_str p s = Some i \<Longrightarrow> \<exists>a b. s = a @ p @ b \<and> length a = i"
proof (induction p s arbitrary: i rule: find_str.induct)
  case (1 p)
  then show ?case by (auto split: if_splits)
next
  case (2 p x xs)
  show ?case
  proof (cases "starts_with p (x # xs)")
    case True
    with "2.prems" show ?thesis by (auto simp: starts_with_iff)
  next
    case False
    with "2.prems" obtain j where j: "find_str p xs = Some j" "i = Suc j" by auto
    with 2 False obtain a b where "xs = a @ p @ b" "length a = j" by blast
    with j have "x # xs = (x # a) @ p @ b \<and> length (x # a) = i" by simp
    then show ?thesis by blast
  qed
qed

subsection \<open>Decimal output of an unsigned number (\<open>os << n\<close>, \<open>std::to_string\<close>)\<close>

fun show_nat :: "nat \<Rightarrow> string" where
  "show_nat n = (if n < 10 then [char_of (n + 48)] else show_nat (n div 10) @ [char_of (n mod 10 + 48)])"

declare show_nat.simps [simp del]

definition show_int :: "int \<Rightarrow> string" where
  "show_int n = (if n < 0 then CHR ''-'' # show_nat (nat (- n)) else show_nat (nat n))"

definition digit_val :: "char \<Rightarrow> nat" where
  "digit_val c = code c - 48"

definition digits_val :: "string \<Rightarrow> nat" where
  "digits_val ds = foldl (\<lambda>n c. 10 * n + digit_val c) 0 ds"

lemma code_digit: "n < 10 \<Longrightarrow> code (char_of (n + 48 :: nat)) = n + 48"
  by (simp add: code_def)

lemma isdigit_digit: "n < 10 \<Longrightarrow> isdigit (char_of (n + 48 :: nat))"
  by (simp add: isdigit_def code_digit)

lemma show_nat_not_Nil [simp]: "show_nat n \<noteq> []"
  by (subst show_nat.simps) simp

lemma show_nat_digits: "c \<in> set (show_nat n) \<Longrightarrow> isdigit c"
proof (induction n rule: show_nat.induct)
  case (1 n)
  then show ?case
    by (subst (asm) (2) show_nat.simps) (auto simp: isdigit_digit split: if_splits)
qed

lemma digits_val_snoc [simp]: "digits_val (ds @ [c]) = 10 * digits_val ds + digit_val c"
  by (simp add: digits_val_def)

lemma digits_val_show_nat [simp]: "digits_val (show_nat n) = n"
proof (induction n rule: show_nat.induct)
  case (1 n)
  show ?case
  proof (cases "n < 10")
    case True
    then show ?thesis
      by (subst show_nat.simps) (simp add: digits_val_def digit_val_def code_digit)
  next
    case False
    with 1 show ?thesis
      by (subst show_nat.simps) (simp add: digit_val_def code_digit)
  qed
qed

subsection \<open>\<open>std::lexicographical_compare\<close> and the order of \<open>std::string\<close>\<close>

fun lex_lt :: "('a \<Rightarrow> 'a \<Rightarrow> bool) \<Rightarrow> 'a list \<Rightarrow> 'a list \<Rightarrow> bool" where
  "lex_lt lt [] [] = False"
| "lex_lt lt [] (b # bs) = True"
| "lex_lt lt (a # as) [] = False"
| "lex_lt lt (a # as) (b # bs) = (lt a b \<or> \<not> lt b a \<and> lex_lt lt as bs)"

definition char_lt :: "char \<Rightarrow> char \<Rightarrow> bool" where
  "char_lt a b = (code a < code b)"

definition str_lt :: "string \<Rightarrow> string \<Rightarrow> bool" where
  "str_lt = lex_lt char_lt"

subsection \<open>Lists\<close>

definition join_with :: "'a list \<Rightarrow> 'a list list \<Rightarrow> 'a list" where
  "join_with sep xs = (case xs of [] \<Rightarrow> [] | y # ys \<Rightarrow> y @ concat (map (\<lambda>z. sep @ z) ys))"

lemma takeWhile_neq_all [simp]: "c \<notin> set xs \<Longrightarrow> takeWhile (\<lambda>x. x \<noteq> c) xs = xs"
  by (induction xs) auto

lemma dropWhile_neq_all [simp]: "c \<notin> set xs \<Longrightarrow> dropWhile (\<lambda>x. x \<noteq> c) xs = []"
  by (induction xs) auto

lemma takeWhile_neq_append [simp]: "c \<notin> set xs \<Longrightarrow> takeWhile (\<lambda>x. x \<noteq> c) (xs @ c # ys) = xs"
  by (induction xs) auto

lemma dropWhile_neq_append [simp]: "c \<notin> set xs \<Longrightarrow> dropWhile (\<lambda>x. x \<noteq> c) (xs @ c # ys) = c # ys"
  by (induction xs) auto

lemma takeWhile_all_append: "\<forall>x\<in>set xs. P x \<Longrightarrow> takeWhile P (xs @ ys) = xs @ takeWhile P ys"
  by (induction xs) auto

lemma dropWhile_all_append: "\<forall>x\<in>set xs. P x \<Longrightarrow> dropWhile P (xs @ ys) = dropWhile P ys"
  by (induction xs) auto

end
