(* ===== verification/Streams.thy ===== *)
theory Streams
  imports Prelude
begin

text \<open>
  \<open>std::istringstream\<close> (and \<open>std::ifstream\<close> read to its end) as the C++ standard states it: the
  characters still to be read and the state bits.  \<open>badbit\<close> never arises on the streams of the
  program.  Every input function first builds a sentry, which fails on a stream that is not
  \<open>good()\<close>; \<open>peek\<close> builds one too, so peeking again at the end of the input sets \<open>failbit\<close>, a
  fact the message parser depends on.  Functions that assign to a variable take its old
  value, which they return when the sentry fails.
\<close>

record istream =
  buf :: string
  eofbit :: bool
  failbit :: bool

definition str_stream :: "string \<Rightarrow> istream" where
  "str_stream s = \<lparr>buf = s, eofbit = False, failbit = False\<rparr>"

definition good :: "istream \<Rightarrow> bool" where
  "good is = (\<not> eofbit is \<and> \<not> failbit is)"

text \<open>\<open>explicit operator bool\<close>: neither \<open>failbit\<close> nor \<open>badbit\<close>.\<close>

definition ok :: "istream \<Rightarrow> bool" where
  "ok is = (\<not> failbit is)"

definition clear_bits :: "istream \<Rightarrow> istream" where
  "clear_bits is = is\<lparr>eofbit := False, failbit := False\<rparr>"

definition set_fail :: "istream \<Rightarrow> istream" where
  "set_fail is = is\<lparr>failbit := True\<rparr>"

text \<open>The end of the input met by an input function that wanted a character.\<close>

definition hit_eof :: "istream \<Rightarrow> istream" where
  "hit_eof is = is\<lparr>buf := [], eofbit := True\<rparr>"

definition peek :: "istream \<Rightarrow> char option \<times> istream" where
  "peek is =
     (if \<not> good is then (None, set_fail is)
      else case buf is of [] \<Rightarrow> (None, hit_eof is) | c # cs \<Rightarrow> (Some c, is))"

text \<open>\<open>is.get(c)\<close> and \<open>is.get()\<close>.\<close>

definition get_ch :: "istream \<Rightarrow> char option \<times> istream" where
  "get_ch is =
     (if \<not> good is then (None, set_fail is)
      else case buf is of
        [] \<Rightarrow> (None, set_fail (hit_eof is))
      | c # cs \<Rightarrow> (Some c, is\<lparr>buf := cs\<rparr>))"

definition ignore1 :: "istream \<Rightarrow> istream" where
  "ignore1 is =
     (if \<not> good is then set_fail is
      else case buf is of [] \<Rightarrow> hit_eof is | c # cs \<Rightarrow> is\<lparr>buf := cs\<rparr>)"

text \<open>\<open>std::getline(is, s, delim)\<close>.\<close>

definition getline :: "char \<Rightarrow> string \<Rightarrow> istream \<Rightarrow> string \<times> istream" where
  "getline delim s is =
     (if \<not> good is then (s, set_fail is)
      else let l = takeWhile (\<lambda>c. c \<noteq> delim) (buf is)
           in case dropWhile (\<lambda>c. c \<noteq> delim) (buf is) of
                [] \<Rightarrow> (l, (if l = [] then set_fail (hit_eof is) else hit_eof is))
              | d # r \<Rightarrow> (l, is\<lparr>buf := r\<rparr>))"

text \<open>\<open>is >> std::ws\<close>: an unformatted input function, \<open>eofbit\<close> alone at the end.\<close>

definition skip_ws :: "istream \<Rightarrow> istream" where
  "skip_ws is =
     (if \<not> good is then set_fail is
      else case dropWhile isspace (buf is) of [] \<Rightarrow> hit_eof is | r \<Rightarrow> is\<lparr>buf := r\<rparr>)"

text \<open>The sentry of the formatted input functions skips white space and fails at the end.\<close>

definition sentry :: "istream \<Rightarrow> istream" where
  "sentry is =
     (if \<not> good is then set_fail is
      else case dropWhile isspace (buf is) of
             [] \<Rightarrow> set_fail (hit_eof is)
           | r \<Rightarrow> is\<lparr>buf := r\<rparr>)"

text \<open>\<open>is >> s\<close> for a string.\<close>

definition read_word :: "string \<Rightarrow> istream \<Rightarrow> string \<times> istream" where
  "read_word s is =
     (let is1 = sentry is
      in if \<not> good is1 then (s, is1)
         else let w = takeWhile (\<lambda>c. \<not> isspace c) (buf is1)
              in case dropWhile (\<lambda>c. \<not> isspace c) (buf is1) of
                   [] \<Rightarrow> (w, hit_eof is1)
                 | r \<Rightarrow> (w, is1\<lparr>buf := r\<rparr>))"

text \<open>\<open>is >> c\<close> for a char.\<close>

definition read_char :: "char \<Rightarrow> istream \<Rightarrow> char \<times> istream" where
  "read_char c is =
     (let is1 = sentry is
      in if \<not> good is1 then (c, is1)
         else case buf is1 of [] \<Rightarrow> (c, set_fail (hit_eof is1)) | x # xs \<Rightarrow> (x, is1\<lparr>buf := xs\<rparr>))"

text \<open>
  \<open>is >> n\<close> for a \<open>size_t\<close>: an optional sign, digits; no digit stores 0 and fails, a value out
  of range stores the maximum and fails, a minus sign negates modulo \<open>2\<^sup>6\<^sup>4\<close>.
\<close>

definition split_sign :: "string \<Rightarrow> bool \<times> string" where
  "split_sign s = (case s of
       c # r \<Rightarrow> if c = CHR ''-'' then (True, r) else if c = CHR ''+'' then (False, r) else (False, s)
     | [] \<Rightarrow> (False, []))"

definition read_siz :: "siz \<Rightarrow> istream \<Rightarrow> siz \<times> istream" where
  "read_siz n is =
     (let is1 = sentry is
      in if \<not> good is1 then (n, is1)
         else let (neg, r) = split_sign (buf is1);
                  ds = takeWhile isdigit r;
                  rest = dropWhile isdigit r;
                  is2 = (if rest = [] then hit_eof is1 else is1\<lparr>buf := rest\<rparr>)
              in if ds = [] then (0, set_fail is2)
                 else if 2 ^ 64 \<le> digits_val ds then (siz_max, set_fail is2)
                 else ((if neg then - of_nat (digits_val ds) else of_nat (digits_val ds)), is2))"

subsection \<open>Behaviour\<close>

lemmas stream_defs = str_stream_def good_def ok_def clear_bits_def set_fail_def hit_eof_def

lemma str_stream_simps [simp]:
  "buf (str_stream s) = s" "good (str_stream s)" "ok (str_stream s)"
  "eofbit (str_stream s) = False" "failbit (str_stream s) = False"
  by (simp_all add: stream_defs)

lemma str_stream_buf [simp]: "(str_stream s)\<lparr>buf := r\<rparr> = str_stream r"
  by (simp add: str_stream_def)

lemma good_str_stream: "good is \<longleftrightarrow> is = str_stream (buf is)"
  by (cases "is") (auto simp: good_def str_stream_def)

lemma clear_bits_str_stream [simp]: "clear_bits is = str_stream (buf is)"
  by (simp add: clear_bits_def str_stream_def)

lemma peek_str_stream [simp]:
  "peek (str_stream []) = (None, hit_eof (str_stream []))"
  "peek (str_stream (c # s)) = (Some c, str_stream (c # s))"
  by (simp_all add: peek_def)

lemma get_ch_str_stream [simp]:
  "get_ch (str_stream []) = (None, set_fail (hit_eof (str_stream [])))"
  "get_ch (str_stream (c # s)) = (Some c, str_stream s)"
  by (simp_all add: get_ch_def)

lemma ignore1_str_stream [simp]: "ignore1 (str_stream (c # s)) = str_stream s"
  by (simp add: ignore1_def)

lemma set_fail_simps [simp]:
  "buf (set_fail is) = buf is" "eofbit (set_fail is) = eofbit is" "failbit (set_fail is)"
  "\<not> good (set_fail is)" "\<not> ok (set_fail is)"
  by (simp_all add: stream_defs)

lemma hit_eof_simps [simp]:
  "buf (hit_eof is) = []" "eofbit (hit_eof is)" "failbit (hit_eof is) = failbit is"
  "\<not> good (hit_eof is)" "ok (hit_eof is) = ok is"
  by (simp_all add: stream_defs)

lemma clear_bits_simps [simp]:
  "buf (clear_bits is) = buf is" "good (clear_bits is)" "ok (clear_bits is)"
  by (simp_all add: stream_defs)

lemma good_ok [simp]: "good is \<Longrightarrow> ok is"
  by (simp add: stream_defs)

lemma good_buf_update [simp]: "good (is\<lparr>buf := s\<rparr>) = good is" "ok (is\<lparr>buf := s\<rparr>) = ok is"
  by (simp_all add: stream_defs)

lemma peek_simps [stream_simps]:
  "\<not> good is \<Longrightarrow> peek is = (None, set_fail is)"
  "good is \<Longrightarrow> buf is = [] \<Longrightarrow> peek is = (None, hit_eof is)"
  "good is \<Longrightarrow> buf is = c # cs \<Longrightarrow> peek is = (Some c, is)"
  by (simp_all add: peek_def)

lemma get_ch_simps [stream_simps]:
  "\<not> good is \<Longrightarrow> get_ch is = (None, set_fail is)"
  "good is \<Longrightarrow> buf is = [] \<Longrightarrow> get_ch is = (None, set_fail (hit_eof is))"
  "good is \<Longrightarrow> buf is = c # cs \<Longrightarrow> get_ch is = (Some c, is\<lparr>buf := cs\<rparr>)"
  by (simp_all add: get_ch_def)

lemma getline_bad [stream_simps]: "\<not> good is \<Longrightarrow> getline d s is = (s, set_fail is)"
  by (simp add: getline_def)

lemma getline_found [stream_simps]:
  "good is \<Longrightarrow> d \<notin> set l \<Longrightarrow> buf is = l @ d # r \<Longrightarrow> getline d s is = (l, is\<lparr>buf := r\<rparr>)"
  by (simp add: getline_def)

lemma getline_last [stream_simps]:
  "good is \<Longrightarrow> d \<notin> set (buf is) \<Longrightarrow> buf is \<noteq> [] \<Longrightarrow> getline d s is = (buf is, hit_eof is)"
  by (simp add: getline_def)

lemma getline_end [stream_simps]:
  "good is \<Longrightarrow> buf is = [] \<Longrightarrow> getline d s is = ([], set_fail (hit_eof is))"
  by (simp add: getline_def)

lemma get_ch_length: "get_ch is = (Some c, is') \<Longrightarrow> length (buf is) = Suc (length (buf is'))"
  by (auto simp: get_ch_def split: if_splits list.splits)

lemma peek_buf: "peek is = (p, is') \<Longrightarrow> buf is' = buf is"
  by (auto simp: peek_def split: if_splits list.splits)

lemma get_ch_le: "get_ch is = (p, is') \<Longrightarrow> length (buf is') \<le> length (buf is)"
  by (auto simp: get_ch_def split: if_splits list.splits)

lemma get_ch_Some: "get_ch is = (Some c, is') \<Longrightarrow> good is \<and> is' = is\<lparr>buf := tl (buf is)\<rparr> \<and> buf is = c # tl (buf is)"
  by (auto simp: get_ch_def split: if_splits list.splits)

lemma dropWhile_shorter: "dropWhile P xs = y # ys \<Longrightarrow> length ys < length xs"
  using length_dropWhile_le [of P xs] by simp

lemma getline_length:
  "getline d s is = (l, is') \<Longrightarrow> ok is' \<Longrightarrow> length (buf is') < length (buf is)"
proof -
  assume e: "getline d s is = (l, is')" and k: "ok is'"
  show ?thesis
  proof (cases "dropWhile (\<lambda>c. c \<noteq> d) (buf is)")
    case Nil
    with e k show ?thesis
      by (cases "buf is") (auto simp: getline_def Let_def split: if_splits)
  next
    case (Cons x r)
    then have "length r < length (buf is)" by (rule dropWhile_shorter)
    with Cons e k show ?thesis by (auto simp: getline_def Let_def split: if_splits)
  qed
qed

lemma sentry_bad [stream_simps]: "\<not> good is \<Longrightarrow> sentry is = set_fail is"
  by (simp add: sentry_def)

lemma sentry_end [stream_simps]:
  "good is \<Longrightarrow> dropWhile isspace (buf is) = [] \<Longrightarrow> sentry is = set_fail (hit_eof is)"
  unfolding sentry_def by (simp del: dropWhile_eq_Nil_conv)

lemma sentry_found [stream_simps]:
  "good is \<Longrightarrow> dropWhile isspace (buf is) = c # r \<Longrightarrow> sentry is = is\<lparr>buf := c # r\<rparr>"
  by (simp add: sentry_def)

lemma read_word_length:
  "read_word s is = (w, is') \<Longrightarrow> ok is' \<Longrightarrow> length (buf is') < length (buf is)"
proof -
  assume e: "read_word s is = (w, is')" and k: "ok is'"
  let ?b = "dropWhile isspace (buf is)"
  have le: "length ?b \<le> length (buf is)" by (rule length_dropWhile_le)
  have g: "good is"
  proof (rule ccontr)
    assume "\<not> good is"
    with e k show False by (auto simp: read_word_def sentry_bad)
  qed
  show ?thesis
  proof (cases ?b)
    case Nil
    with e k show ?thesis by (auto simp: read_word_def sentry_end [OF g])
  next
    case (Cons x r)
    then have nx: "\<not> isspace x" using hd_dropWhile [of isspace "buf is"] by force
    have "length (dropWhile (\<lambda>c. \<not> isspace c) r) \<le> length r" by (rule length_dropWhile_le)
    moreover have "is' = hit_eof (is\<lparr>buf := x # r\<rparr>) \<or>
        is' = is\<lparr>buf := dropWhile (\<lambda>c. \<not> isspace c) r\<rparr>"
      using e g Cons nx
      by (auto simp: read_word_def sentry_found Let_def split: list.splits)
    ultimately show ?thesis using Cons le by auto
  qed
qed

lemma read_word_found [stream_simps]:
  assumes "good is" "buf is = ws @ w @ c # r" "\<forall>x\<in>set ws. isspace x" "w \<noteq> []"
    "\<forall>x\<in>set w. \<not> isspace x" "isspace c"
  shows "read_word s is = (w, is\<lparr>buf := c # r\<rparr>)"
  using assms
  by (cases w) (simp_all add: read_word_def sentry_def Let_def dropWhile_all_append takeWhile_all_append)

lemma read_word_last [stream_simps]:
  assumes "good is" "buf is = ws @ w" "\<forall>x\<in>set ws. isspace x" "w \<noteq> []" "\<forall>x\<in>set w. \<not> isspace x"
  shows "read_word s is = (w, hit_eof is)"
proof -
  have "takeWhile (\<lambda>x. \<not> isspace x) w = w" and d: "dropWhile (\<lambda>x. \<not> isspace x) w = []"
    using assms(5) by (simp_all add: takeWhile_eq_all_conv)
  moreover have "sentry is = is\<lparr>buf := w\<rparr>"
    using assms by (cases w) (auto simp: dropWhile_all_append intro!: sentry_found)
  ultimately show ?thesis
    using assms(1) by (simp add: read_word_def hit_eof_def del: dropWhile_eq_Nil_conv)
qed

lemma skip_ws_none [stream_simps]:
  "good is \<Longrightarrow> buf is = c # r \<Longrightarrow> \<not> isspace c \<Longrightarrow> skip_ws is = is"
  by (simp add: skip_ws_def)

lemma skip_ws_bad [stream_simps]: "\<not> good is \<Longrightarrow> skip_ws is = set_fail is"
  by (simp add: skip_ws_def)

text \<open>Reading back a number that was written with \<open>os << n\<close>.\<close>

lemma read_siz_show:
  assumes "n < 2 ^ 64" "\<not> isdigit c"
  shows "read_siz m (str_stream (show_nat n @ c # r)) = (of_nat n, (str_stream (c # r)))"
proof -
  obtain x xs where s: "show_nat n = x # xs" by (cases "show_nat n") auto
  then have d: "isdigit x" "\<forall>y\<in>set (show_nat n). isdigit y"
    using show_nat_digits [of _ n] by auto
  have ns: "\<not> isspace x" "x \<noteq> CHR ''-''" "x \<noteq> CHR ''+''"
    using d(1) isdigit_not_isspace by (auto simp: isdigit_def code_def)
  have tk: "takeWhile isdigit (show_nat n @ c # r) = show_nat n"
    "dropWhile isdigit (show_nat n @ c # r) = c # r"
    using d(2) assms(2) by (simp_all add: takeWhile_all_append dropWhile_all_append)
  have se: "sentry (str_stream (show_nat n @ c # r)) = str_stream (show_nat n @ c # r)"
    using ns s by (simp add: sentry_def str_stream_def good_def)
  have sp: "split_sign (show_nat n @ c # r) = (False, show_nat n @ c # r)"
    using ns s by (simp add: split_sign_def)
  show ?thesis
    unfolding read_siz_def Let_def se using assms
    by (simp add: sp tk str_stream_def good_def)
qed

subsection \<open>Lines\<close>

text \<open>The values of \<open>line\<close> in \<open>while(std::getline(is, line)) ...\<close> for a body that leaves \<open>is\<close> alone.\<close>

function lines_of :: "istream \<Rightarrow> string list" where
  "lines_of is =
     (case getline LF [] is of (l, is1) \<Rightarrow> if ok is1 then l # lines_of is1 else [])"
  by pat_completeness auto
termination
  by (relation "measure (\<lambda>is. length (buf is))") (auto dest!: getline_length [OF sym])

declare lines_of.simps [simp del]

definition lines_text :: "string list \<Rightarrow> string" where
  "lines_text ls = concat (map (\<lambda>l. l @ [LF]) ls)"

lemma lines_text_simps [simp]: "lines_text [] = []" "lines_text (l # ls) = l @ LF # lines_text ls"
  by (simp_all add: lines_text_def)

lemma lines_of_text: "\<forall>l\<in>set ls. LF \<notin> set l \<Longrightarrow> lines_of (str_stream (lines_text ls)) = ls"
proof (induction ls)
  case Nil
  show ?case by (subst lines_of.simps) (simp add: stream_simps)
next
  case (Cons l ls)
  then show ?case
    by (subst lines_of.simps) (simp add: getline_found [where l = l and r = "lines_text ls"])
qed

lemma getline_no_delim: "good is \<Longrightarrow> d \<notin> set (fst (getline d x is))"
  by (auto simp: getline_def Let_def split: list.splits dest: set_takeWhileD)

lemma lines_of_no_LF: "l \<in> set (lines_of is) \<Longrightarrow> LF \<notin> set l"
proof (induction "is" rule: lines_of.induct)
  case (1 str)
  obtain k i where g: "getline LF [] str = (k, i)" by fastforce
  have "ok i \<Longrightarrow> LF \<notin> set k"
  proof -
    assume "ok i"
    with g have "good str" by (cases "good str") (auto simp: getline_bad)
    with getline_no_delim [of str LF "[]"] g show ?thesis by simp
  qed
  with 1 g show ?case by (subst (asm) (2) lines_of.simps) (auto split: if_splits)
qed

end
