(* ===== verification/Std_Map.thy ===== *)
theory Std_Map
  imports Prelude
begin

text \<open>
  \<open>std::map\<close> and \<open>std::set\<close>: association lists kept in the order of a comparator, since the
  program iterates over its maps.  Keys are equal when neither is less than the other, so a
  case-insensitive comparator merges keys that differ in case and keeps the spelling first
  inserted.  The locale \<open>comparator\<close> is the contract \<open>std::map\<close> asks of its comparator (a
  strict weak order); it is interpreted on every comparator of the program.
\<close>

type_synonym ('k, 'v) cmap = "('k \<times> 'v) list"

fun cm_find :: "('k \<Rightarrow> 'k \<Rightarrow> bool) \<Rightarrow> 'k \<Rightarrow> ('k, 'v) cmap \<Rightarrow> 'v option" where
  "cm_find lt k [] = None"
| "cm_find lt k ((k', v) # m) =
     (if lt k' k then cm_find lt k m else if lt k k' then None else Some v)"

text \<open>\<open>m[k] = v\<close>.\<close>

fun cm_set :: "('k \<Rightarrow> 'k \<Rightarrow> bool) \<Rightarrow> 'k \<Rightarrow> 'v \<Rightarrow> ('k, 'v) cmap \<Rightarrow> ('k, 'v) cmap" where
  "cm_set lt k v [] = [(k, v)]"
| "cm_set lt k v ((k', w) # m) =
     (if lt k' k then (k', w) # cm_set lt k v m
      else if lt k k' then (k, v) # (k', w) # m
      else (k', v) # m)"

text \<open>\<open>m.erase(k)\<close>.\<close>

fun cm_erase :: "('k \<Rightarrow> 'k \<Rightarrow> bool) \<Rightarrow> 'k \<Rightarrow> ('k, 'v) cmap \<Rightarrow> ('k, 'v) cmap" where
  "cm_erase lt k [] = []"
| "cm_erase lt k ((k', w) # m) =
     (if lt k' k then (k', w) # cm_erase lt k m else if lt k k' then (k', w) # m else m)"

text \<open>\<open>m[k]\<close> as a value: a missing key is inserted with the default value \<open>d\<close>.\<close>

definition cm_at :: "('k \<Rightarrow> 'k \<Rightarrow> bool) \<Rightarrow> 'v \<Rightarrow> 'k \<Rightarrow> ('k, 'v) cmap \<Rightarrow> 'v" where
  "cm_at lt d k m = (case cm_find lt k m of None \<Rightarrow> d | Some v \<Rightarrow> v)"

definition cm_touch :: "('k \<Rightarrow> 'k \<Rightarrow> bool) \<Rightarrow> 'v \<Rightarrow> 'k \<Rightarrow> ('k, 'v) cmap \<Rightarrow> ('k, 'v) cmap" where
  "cm_touch lt d k m = (case cm_find lt k m of None \<Rightarrow> cm_set lt k d m | Some _ \<Rightarrow> m)"

text \<open>\<open>m.insert({k, v})\<close> keeps an entry that is there.\<close>

definition cm_insert :: "('k \<Rightarrow> 'k \<Rightarrow> bool) \<Rightarrow> 'k \<Rightarrow> 'v \<Rightarrow> ('k, 'v) cmap \<Rightarrow> ('k, 'v) cmap" where
  "cm_insert lt k v m = cm_touch lt v k m"

definition cm_sorted :: "('k \<Rightarrow> 'k \<Rightarrow> bool) \<Rightarrow> ('k, 'v) cmap \<Rightarrow> bool" where
  "cm_sorted lt m = sorted_wrt (\<lambda>a b. lt (fst a) (fst b)) m"

text \<open>\<open>std::set\<close>: a map without values.\<close>

type_synonym 'k cset = "'k list"

fun cs_insert :: "('k \<Rightarrow> 'k \<Rightarrow> bool) \<Rightarrow> 'k \<Rightarrow> 'k cset \<Rightarrow> 'k cset" where
  "cs_insert lt k [] = [k]"
| "cs_insert lt k (k' # s) =
     (if lt k' k then k' # cs_insert lt k s else if lt k k' then k # k' # s else k' # s)"

fun cs_erase :: "('k \<Rightarrow> 'k \<Rightarrow> bool) \<Rightarrow> 'k \<Rightarrow> 'k cset \<Rightarrow> 'k cset" where
  "cs_erase lt k [] = []"
| "cs_erase lt k (k' # s) =
     (if lt k' k then k' # cs_erase lt k s else if lt k k' then k' # s else s)"

fun cs_mem :: "('k \<Rightarrow> 'k \<Rightarrow> bool) \<Rightarrow> 'k \<Rightarrow> 'k cset \<Rightarrow> bool" where
  "cs_mem lt k [] = False"
| "cs_mem lt k (k' # s) = (if lt k' k then cs_mem lt k s else \<not> lt k k')"

definition cs_of_list :: "('k \<Rightarrow> 'k \<Rightarrow> bool) \<Rightarrow> 'k list \<Rightarrow> 'k cset" where
  "cs_of_list lt xs = fold (cs_insert lt) xs []"

lemma cm_sorted_Nil [simp]: "cm_sorted lt []"
  by (simp add: cm_sorted_def)

lemma cm_sorted_Cons: "cm_sorted lt (a # m) \<longleftrightarrow> (\<forall>b\<in>set m. lt (fst a) (fst b)) \<and> cm_sorted lt m"
  by (simp add: cm_sorted_def)

subsection \<open>The contract of a comparator\<close>

locale comparator =
  fixes lt :: "'k \<Rightarrow> 'k \<Rightarrow> bool"
  assumes irrefl: "\<not> lt a a"
    and trans: "lt a b \<Longrightarrow> lt b c \<Longrightarrow> lt a c"
    and neg_trans: "lt a c \<Longrightarrow> lt a b \<or> lt b c"
begin

lemma asym: "lt a b \<Longrightarrow> \<not> lt b a"
  using irrefl trans by blast

definition eqv :: "'k \<Rightarrow> 'k \<Rightarrow> bool" where
  "eqv a b = (\<not> lt a b \<and> \<not> lt b a)"

lemma eqv_refl [simp]: "eqv a a"
  by (simp add: eqv_def irrefl)

lemma eqv_sym: "eqv a b \<Longrightarrow> eqv b a"
  by (simp add: eqv_def)

lemma eqv_trans: "eqv a b \<Longrightarrow> eqv b c \<Longrightarrow> eqv a c"
  unfolding eqv_def using neg_trans by blast

lemma lt_eqv_left: "eqv a b \<Longrightarrow> lt a c \<longleftrightarrow> lt b c"
  unfolding eqv_def using neg_trans by blast

lemma lt_eqv_right: "eqv a b \<Longrightarrow> lt c a \<longleftrightarrow> lt c b"
  unfolding eqv_def using neg_trans by blast

lemma set_append: "\<forall>b\<in>set m. lt (fst b) k \<Longrightarrow> cm_set lt k v (m @ m') = m @ cm_set lt k v m'"
  by (induction m) auto

lemma find_append: "\<forall>b\<in>set m. lt (fst b) k \<Longrightarrow> cm_find lt k (m @ m') = cm_find lt k m'"
  by (induction m) auto

lemma keys_cm_set: "x \<in> set (cm_set lt k v m) \<Longrightarrow> fst x = k \<or> fst x \<in> fst ` set m"
  by (induction m) (force split: if_splits)+

lemma sorted_set: "cm_sorted lt m \<Longrightarrow> cm_sorted lt (cm_set lt k v m)"
proof (induction m)
  case Nil
  then show ?case by (simp add: cm_sorted_def)
next
  case (Cons p m)
  obtain k' w where p: "p = (k', w)" by (cases p)
  have above: "\<forall>b\<in>set m. lt k' (fst b)" and s: "cm_sorted lt m"
    using Cons.prems p by (auto simp: cm_sorted_Cons)
  show ?case
  proof (cases "lt k' k")
    case True
    then have "\<forall>b\<in>set (cm_set lt k v m). lt k' (fst b)"
      using above keys_cm_set [of _ k v m] by fastforce
    with True Cons.IH s p show ?thesis by (simp add: cm_sorted_Cons)
  next
    case False
    then show ?thesis using above s p by (auto simp: cm_sorted_Cons intro: trans)
  qed
qed

lemma find_set [map_simps]:
  "cm_find lt k' (cm_set lt k v m) = (if eqv k k' then Some v else cm_find lt k' m)"
proof (induction m)
  case Nil
  then show ?case by (simp add: eqv_def)
next
  case (Cons p m)
  obtain k1 w where p: "p = (k1, w)" by (cases p)
  consider "lt k1 k" | "lt k k1" | "eqv k k1" by (auto simp: eqv_def)
  then show ?case
  proof cases
    case 1
    then show ?thesis using Cons.IH p asym by (auto simp: eqv_def dest: trans neg_trans)
  next
    case 2
    then have "\<not> lt k1 k" by (rule asym)
    with 2 p show ?thesis
      using trans [OF 2, of k'] trans [of k' k k1] asym [of k' k1] by (auto simp: eqv_def)
  next
    case 3
    then have "\<not> lt k1 k" "\<not> lt k k1" by (simp_all add: eqv_def)
    with p show ?thesis
      using lt_eqv_left [OF 3, of k'] lt_eqv_right [OF 3, of k'] asym by (auto simp: eqv_def)
  qed
qed

lemma find_eqv: "eqv k k' \<Longrightarrow> cm_find lt k m = cm_find lt k' m"
  by (induction m) (auto simp: lt_eqv_left [of k k'] lt_eqv_right [of k k'])

lemma find_above: "\<forall>b\<in>set m. lt k (fst b) \<Longrightarrow> cm_find lt k m = None"
  by (cases m) (auto dest: asym)

lemma erase_subset: "set (cm_erase lt k m) \<subseteq> set m"
  by (induction m) (auto split: if_splits)

lemma sorted_erase: "cm_sorted lt m \<Longrightarrow> cm_sorted lt (cm_erase lt k m)"
proof (induction m)
  case (Cons p m)
  then show ?case
    using erase_subset [of k m] by (cases p) (auto simp: cm_sorted_Cons)
qed simp

lemma find_erase [map_simps]:
  "cm_sorted lt m \<Longrightarrow>
    cm_find lt k' (cm_erase lt k m) = (if eqv k k' then None else cm_find lt k' m)"
proof (induction m)
  case Nil
  then show ?case by simp
next
  case (Cons p m)
  obtain k1 w where p: "p = (k1, w)" by (cases p)
  have above: "\<forall>b\<in>set m. lt k1 (fst b)" and s: "cm_sorted lt m"
    using Cons.prems p by (auto simp: cm_sorted_Cons)
  consider "lt k1 k" | "lt k k1" | "eqv k k1" by (auto simp: eqv_def)
  then show ?case
  proof cases
    case 1
    then show ?thesis using Cons.IH [OF s] p asym by (auto simp: eqv_def dest: trans neg_trans)
  next
    case 2
    then have "\<not> lt k1 k" by (rule asym)
    with 2 p show ?thesis
      using lt_eqv_left [of k k'] by (auto simp: eqv_def dest: asym neg_trans)
  next
    case 3
    then have e: "cm_erase lt k ((k1, w) # m) = m" by (simp add: eqv_def)
    have n: "\<not> lt k1 k' \<Longrightarrow> cm_find lt k' m = None"
    proof -
      assume "\<not> lt k1 k'"
      then have "\<forall>b\<in>set m. lt k' (fst b)" using above neg_trans by blast
      then show ?thesis by (rule find_above)
    qed
    show ?thesis
      using n lt_eqv_left [OF 3, of k'] lt_eqv_right [OF 3, of k'] unfolding p e
      by (auto simp: eqv_def dest: asym)
  qed
qed

lemma find_touch [map_simps]:
  "cm_find lt k' (cm_touch lt d k m) =
    (if eqv k k' \<and> cm_find lt k m = None then Some d else cm_find lt k' m)"
  by (simp add: cm_touch_def find_set split: option.splits)

lemma sorted_touch: "cm_sorted lt m \<Longrightarrow> cm_sorted lt (cm_touch lt d k m)"
  by (simp add: cm_touch_def sorted_set split: option.splits)

lemma at_set [map_simps]: "cm_at lt d k' (cm_set lt k v m) = (if eqv k k' then v else cm_at lt d k' m)"
  by (simp add: cm_at_def find_set)

lemma at_touch [map_simps]: "cm_at lt d k' (cm_touch lt d k m) = cm_at lt d k' m"
  by (auto simp: cm_at_def find_touch find_eqv [of k k'] split: option.splits)

lemma mem_insert [map_simps]: "cs_mem lt k' (cs_insert lt k s) \<longleftrightarrow> eqv k k' \<or> cs_mem lt k' s"
proof (induction s)
  case Nil
  then show ?case by (auto simp: eqv_def)
next
  case (Cons k1 s)
  consider "lt k1 k" | "lt k k1" | "eqv k k1" by (auto simp: eqv_def)
  then show ?case
  proof cases
    case 1
    then show ?thesis using Cons.IH asym by (auto simp: eqv_def dest: trans neg_trans)
  next
    case 2
    then have "\<not> lt k1 k" by (rule asym)
    with 2 show ?thesis
      using trans [OF 2, of k'] trans [of k' k k1] asym [of k' k1] by (auto simp: eqv_def)
  next
    case 3
    then have "\<not> lt k1 k" "\<not> lt k k1" by (simp_all add: eqv_def)
    then show ?thesis
      using lt_eqv_left [OF 3, of k'] lt_eqv_right [OF 3, of k'] asym by (auto simp: eqv_def)
  qed
qed

lemma cs_insert_subset: "set (cs_insert lt k s) \<subseteq> insert k (set s)"
  by (induction s) auto

lemma sorted_cs_insert: "sorted_wrt lt s \<Longrightarrow> sorted_wrt lt (cs_insert lt k s)"
proof (induction s)
  case (Cons a s)
  then show ?case using cs_insert_subset [of k s] by (auto dest: trans)
qed simp

lemma sorted_of_list: "sorted_wrt lt (cs_of_list lt xs)"
proof -
  have "sorted_wrt lt s \<Longrightarrow> sorted_wrt lt (fold (cs_insert lt) xs s)" for s
    by (induction xs arbitrary: s) (simp_all add: sorted_cs_insert)
  then show ?thesis by (simp add: cs_of_list_def)
qed

end

text \<open>A comparator that tells any two different keys apart.\<close>

locale linear_comparator = comparator +
  assumes total: "\<not> lt a b \<Longrightarrow> \<not> lt b a \<Longrightarrow> a = b"
begin

lemma eqv_iff [simp]: "eqv a b \<longleftrightarrow> a = b"
  using total by (auto simp: eqv_def irrefl)

lemma set_cs_insert [simp]: "set (cs_insert lt k s) = insert k (set s)"
  by (induction s) (use total in auto)

lemma set_of_list [simp]: "set (cs_of_list lt xs) = set xs"
proof -
  have "set (fold (cs_insert lt) xs s) = set xs \<union> set s" for s
    by (induction xs arbitrary: s) auto
  then show ?thesis by (simp add: cs_of_list_def)
qed

lemma mem_iff: "sorted_wrt lt s \<Longrightarrow> cs_mem lt k s \<longleftrightarrow> k \<in> set s"
proof (induction s)
  case (Cons a s)
  then show ?case using total irrefl asym by auto
qed simp

lemma set_cs_erase: "sorted_wrt lt s \<Longrightarrow> set (cs_erase lt k s) = set s - {k}"
proof (induction s)
  case (Cons a s)
  then show ?case using total [of a k] irrefl asym by (auto dest: trans)
qed simp

lemma sorted_cs_erase: "sorted_wrt lt s \<Longrightarrow> sorted_wrt lt (cs_erase lt k s)"
proof (induction s)
  case (Cons a s)
  then show ?case using set_cs_erase [of s k] by auto
qed simp

lemma find_iff_mem: "cm_sorted lt m \<Longrightarrow> cm_find lt k m = Some v \<longleftrightarrow> (k, v) \<in> set m"
proof (induction m)
  case (Cons p m)
  obtain k1 w where p: "p = (k1, w)" by (cases p)
  have above: "\<forall>b\<in>set m. lt k1 (fst b)" and s: "cm_sorted lt m"
    using Cons.prems p by (auto simp: cm_sorted_Cons)
  show ?case
    using Cons.IH [OF s] above total [of k1 k] irrefl asym unfolding p by force
qed simp

lemma sorted_distinct: "cm_sorted lt m \<Longrightarrow> distinct (map fst m)"
  by (induction m) (use irrefl in \<open>force simp: cm_sorted_Cons\<close>)+

lemma set_last: "cm_sorted lt m \<Longrightarrow> \<forall>b\<in>set m. lt (fst b) k \<Longrightarrow> cm_set lt k v m = m @ [(k, v)]"
  by (induction m) (auto simp: cm_sorted_Cons)

lemma cm_ext:
  "cm_sorted lt m \<Longrightarrow> cm_sorted lt m' \<Longrightarrow> (\<And>k. cm_find lt k m = cm_find lt k m') \<Longrightarrow> m = m'"
proof (induction m arbitrary: m')
  case Nil
  show ?case
  proof (cases m')
    case (Cons q qs)
    then obtain k v where "m' = (k, v) # qs" by (cases q) auto
    with Nil(3) [of k] irrefl show ?thesis by simp
  qed simp
next
  case (Cons p m)
  obtain k v where p: "p = (k, v)" by (cases p)
  have fk: "cm_find lt k m' = Some v" using Cons.prems(3) [of k] p irrefl by simp
  then obtain k2 v2 n where m': "m' = (k2, v2) # n" by (cases m') auto
  have fk2: "cm_find lt k2 (p # m) = Some v2" using Cons.prems(3) [of k2] m' irrefl by simp
  have "k2 = k"
  proof (rule total)
    show "\<not> lt k2 k" using fk2 p asym by (auto split: if_splits)
    show "\<not> lt k k2" using fk m' asym by (auto split: if_splits)
  qed
  with fk m' irrefl have k2: "m' = (k, v) # n" by simp
  have s: "cm_sorted lt m" "cm_sorted lt n" "\<forall>b\<in>set m. lt k (fst b)" "\<forall>b\<in>set n. lt k (fst b)"
    using Cons.prems(1,2) p k2 by (auto simp: cm_sorted_Cons)
  have "cm_find lt j m = cm_find lt j n" for j
  proof (cases "lt k j")
    case True
    with Cons.prems(3) [of j] p k2 show ?thesis by simp
  next
    case False
    then have "\<forall>b\<in>set m. lt j (fst b)" "\<forall>b\<in>set n. lt j (fst b)" using s(3,4) neg_trans by blast+
    then show ?thesis by (simp add: find_above)
  qed
  with Cons.IH [OF s(1,2)] p k2 show ?case by simp
qed

end

subsection \<open>Comparators lifted to strings\<close>

lemma lex_irrefl: "(\<And>a. \<not> lt a a) \<Longrightarrow> \<not> lex_lt lt s s"
  by (induction s) auto

lemma lex_trans:
  assumes c: "comparator lt"
  shows "lex_lt lt a b \<Longrightarrow> lex_lt lt b c \<Longrightarrow> lex_lt lt a c"
proof (induction a arbitrary: b c)
  case Nil
  then show ?case by (cases b; cases c) auto
next
  case (Cons x xs)
  obtain y ys where b: "b = y # ys" using Cons.prems by (cases b) auto
  obtain z zs where d: "c = z # zs" using Cons.prems b by (cases c) auto
  have e: "\<lbrakk>\<not> lt y x; lt y z\<rbrakk> \<Longrightarrow> lt x z" "\<lbrakk>lt x y; \<not> lt z y\<rbrakk> \<Longrightarrow> lt x z" "\<lbrakk>lt x y; lt y z\<rbrakk> \<Longrightarrow> lt x z"
    "\<lbrakk>\<not> lt y x; \<not> lt z y\<rbrakk> \<Longrightarrow> \<not> lt z x"
    using comparator.neg_trans [OF c] comparator.trans [OF c] by blast+
  show ?case using Cons.prems Cons.IH [of ys zs] e comparator.asym [OF c] unfolding b d by auto
qed

lemma lex_neg_trans:
  assumes c: "comparator lt"
  shows "lex_lt lt a c \<Longrightarrow> lex_lt lt a b \<or> lex_lt lt b c"
proof (induction a arbitrary: b c)
  case Nil
  then show ?case by (cases b; cases c) auto
next
  case (Cons x xs)
  obtain z zs where d: "c = z # zs" using Cons.prems by (cases c) auto
  show ?case
  proof (cases b)
    case Nil
    with d show ?thesis by simp
  next
    case (Cons y ys)
    have "lt x z \<Longrightarrow> lt x y \<or> lt y z" "\<lbrakk>\<not> lt z x; lt y x\<rbrakk> \<Longrightarrow> lt y z" "\<lbrakk>\<not> lt z x; lt z y\<rbrakk> \<Longrightarrow> lt x y"
      "lt y x \<Longrightarrow> \<not> lt x y" "lt x z \<Longrightarrow> lt y x \<Longrightarrow> lt y z" "lt x z \<Longrightarrow> lt z y \<Longrightarrow> lt x y"
      using comparator.neg_trans [OF c] comparator.asym [OF c] comparator.trans [OF c] by blast+
    then show ?thesis using Cons.prems Cons.IH [of zs ys] unfolding d Cons by auto
  qed
qed

lemma comparator_lex: "comparator lt \<Longrightarrow> comparator (lex_lt lt)"
proof (rule comparator.intro)
  assume c: "comparator lt"
  show "\<not> lex_lt lt a a" for a by (rule lex_irrefl) (rule comparator.irrefl [OF c])
  show "lex_lt lt a b \<Longrightarrow> lex_lt lt b d \<Longrightarrow> lex_lt lt a d" for a b d by (rule lex_trans [OF c])
  show "lex_lt lt a d \<Longrightarrow> lex_lt lt a b \<or> lex_lt lt b d" for a b d by (rule lex_neg_trans [OF c])
qed

lemma lex_eqv:
  assumes c: "comparator lt"
  shows "\<not> lex_lt lt a b \<and> \<not> lex_lt lt b a \<longleftrightarrow> list_all2 (\<lambda>x y. \<not> lt x y \<and> \<not> lt y x) a b"
proof (induction a arbitrary: b)
  case Nil
  then show ?case by (cases b) auto
next
  case (Cons x xs)
  then show ?case by (cases b) (auto dest: comparator.asym [OF c])
qed

lemma comparator_char_lt: "comparator char_lt"
  by unfold_locales (auto simp: char_lt_def)

interpretation char_cmp: linear_comparator char_lt
  by unfold_locales (auto simp: char_lt_def code_inj)

lemma str_lt_total: "\<not> str_lt a b \<Longrightarrow> \<not> str_lt b a \<Longrightarrow> a = b"
  using lex_eqv [OF comparator_char_lt, of a b]
  by (auto simp: str_lt_def char_lt_def code_inj list_all2_conv_all_nth intro!: nth_equalityI
      dest: spec simp flip: code_inj)

interpretation str_cmp: linear_comparator str_lt
  unfolding str_lt_def linear_comparator_def linear_comparator_axioms_def
  using comparator_lex [OF comparator_char_lt] str_lt_total by (auto simp: str_lt_def)

end
