(* ===== verification/Hol_Lib.thy ===== *)
theory Hol_Lib
  imports Prelude
begin

text \<open>
  The header-only library \<open>hol\<close> is not part of the repository.  The functions of it that the
  program calls are the fields of one record, an argument of every definition that uses them;
  what the program relies on is a named predicate over that record, stating the documented
  behaviour of the function.  \<open>hol_ref\<close> is an instance that has all of it, for the witnesses.
  \<open>h_random\<close> takes the number of draws made so far; \<open>h_split_fold\<close> takes the delimiter, \<open>None\<close>
  where the caller leaves the default; \<open>h_extract\<close> is \<open>extract_delimited_text\<close> and returns the
  text and the position after the second delimiter, \<open>None\<close> for \<open>npos\<close>.
\<close>

record hol =
  h_trim :: "string \<Rightarrow> string"
  h_trim_chars :: "string \<Rightarrow> string \<Rightarrow> string"
  h_trim_right :: "string \<Rightarrow> string"
  h_lower :: "string \<Rightarrow> string"
  h_upper :: "string \<Rightarrow> string"
  h_replace_all :: "string \<Rightarrow> string \<Rightarrow> string \<Rightarrow> string"
  h_split_fold :: "string \<Rightarrow> string option \<Rightarrow> string list"
  h_join :: "string list \<Rightarrow> string \<Rightarrow> string"
  h_random :: "nat \<Rightarrow> string list \<Rightarrow> string"
  h_extract :: "string \<Rightarrow> string \<Rightarrow> string \<Rightarrow> nat \<Rightarrow> (string \<times> nat) option"

subsection \<open>Reference behaviour\<close>

text \<open>Every leftmost occurrence of \<open>a\<close> replaced, the replacement not scanned again.\<close>

function subst_all :: "string \<Rightarrow> string \<Rightarrow> string \<Rightarrow> string" where
  "subst_all a b s =
     (if s = [] then []
      else if a \<noteq> [] \<and> starts_with a s then b @ subst_all a b (drop (length a) s)
      else hd s # subst_all a b (tl s))"
  by pat_completeness auto
termination
  by (relation "measure (\<lambda>(a, b, s). length s)") auto

declare subst_all.simps [simp del]

definition rtrim :: "string \<Rightarrow> string" where
  "rtrim s = rev (dropWhile isspace (rev s))"

definition ltrim :: "string \<Rightarrow> string" where
  "ltrim s = dropWhile isspace s"

definition trim_both :: "string \<Rightarrow> string" where
  "trim_both s = rtrim (ltrim s)"

text \<open>Words separated by single or repeated separators, empty words folded away.\<close>

fun split_on :: "(char \<Rightarrow> bool) \<Rightarrow> string \<Rightarrow> string \<Rightarrow> string list" where
  "split_on p acc [] = (if acc = [] then [] else [acc])"
| "split_on p acc (c # cs) =
     (if p c then (if acc = [] then split_on p [] cs else acc # split_on p [] cs)
      else split_on p (acc @ [c]) cs)"

definition extract_between :: "string \<Rightarrow> string \<Rightarrow> string \<Rightarrow> nat \<Rightarrow> (string \<times> nat) option" where
  "extract_between s d1 d2 pos =
     (case find_str d1 (drop pos s) of
        None \<Rightarrow> None
      | Some i \<Rightarrow>
          let b = pos + i + length d1
          in case find_str d2 (drop b s) of
               None \<Rightarrow> None
             | Some j \<Rightarrow> Some (take j (drop b s), b + j + length d2))"

subsection \<open>What the program relies on\<close>

definition replaces_all :: "hol \<Rightarrow> bool" where
  "replaces_all h = (\<forall>s a b. a \<noteq> [] \<longrightarrow> h_replace_all h s a b = subst_all a b s)"

definition trims :: "hol \<Rightarrow> bool" where
  "trims h = ((\<forall>s. h_trim h s = trim_both s) \<and> (\<forall>s. h_trim_right h s = rtrim s))"

definition trims_chars :: "hol \<Rightarrow> bool" where
  "trims_chars h = (\<forall>s cs. h_trim_chars h s cs =
     rev (dropWhile (\<lambda>c. c \<in> set cs) (rev (dropWhile (\<lambda>c. c \<in> set cs) s))))"

definition lowers :: "hol \<Rightarrow> bool" where
  "lowers h = (\<forall>s. h_lower h s = map tolower s)"

definition uppers :: "hol \<Rightarrow> bool" where
  "uppers h = (\<forall>s. h_upper h s = map toupper s)"

definition picks :: "hol \<Rightarrow> bool" where
  "picks h = (\<forall>n xs. xs \<noteq> [] \<longrightarrow> h_random h n xs \<in> set xs)"

definition joins :: "hol \<Rightarrow> bool" where
  "joins h = (\<forall>xs sep. h_join h xs sep = join_with sep xs)"

definition extracts :: "hol \<Rightarrow> bool" where
  "extracts h = (\<forall>s a b p. h_extract h s a b p = extract_between s a b p)"

definition hol_ref :: hol where
  "hol_ref = \<lparr>h_trim = trim_both,
     h_trim_chars = (\<lambda>s cs. rev (dropWhile (\<lambda>c. c \<in> set cs) (rev (dropWhile (\<lambda>c. c \<in> set cs) s)))),
     h_trim_right = rtrim, h_lower = map tolower, h_upper = map toupper,
     h_replace_all = (\<lambda>s a b. subst_all a b s),
     h_split_fold = (\<lambda>s d. case d of
        None \<Rightarrow> split_on isspace [] s | Some ds \<Rightarrow> split_on (\<lambda>c. c \<in> set ds) [] s),
     h_join = (\<lambda>xs sep. join_with sep xs),
     h_random = (\<lambda>n xs. xs ! (n mod length xs)),
     h_extract = extract_between\<rparr>"

lemma hol_ref_extracts: "extracts hol_ref"
  by (simp add: hol_ref_def extracts_def)

lemma hol_ref_ok: "replaces_all hol_ref" "trims hol_ref" "lowers hol_ref" "picks hol_ref" "joins hol_ref"
  "trims_chars hol_ref" "uppers hol_ref"
  by (simp_all add: hol_ref_def trims_chars_def uppers_def replaces_all_def trims_def lowers_def picks_def joins_def)

subsection \<open>Lemmas\<close>

lemma subst_all_Nil [simp]: "subst_all a b [] = []"
  by (subst subst_all.simps) simp

lemma subst_all_step: "\<not> starts_with a (c # s) \<Longrightarrow> subst_all a b (c # s) = c # subst_all a b s"
  by (subst subst_all.simps) simp

lemma subst_all_hit: "a \<noteq> [] \<Longrightarrow> subst_all a b (a @ s) = b @ subst_all a b s"
  by (subst subst_all.simps) (auto simp: starts_with_iff)

lemma subst_single: "subst_all [c] r s = concat (map (\<lambda>x. if x = c then r else [x]) s)"
proof (induction s)
  case (Cons x s)
  show ?case
  proof (cases "x = c")
    case True
    with Cons.IH show ?thesis using subst_all_hit [of "[c]" r s] by simp
  next
    case False
    with Cons.IH show ?thesis by (simp add: subst_all_step)
  qed
qed simp

lemma subst_absent: "a \<noteq> [] \<Longrightarrow> hd a \<notin> set s \<Longrightarrow> subst_all a b s = s"
proof (induction s)
  case (Cons x s)
  then show ?case by (cases a) (auto simp: subst_all_step)
qed simp

lemma set_rtrim: "set (rtrim s) \<subseteq> set s"
  using set_dropWhileD by (fastforce simp: rtrim_def)

lemma set_trim_both: "set (trim_both s) \<subseteq> set s"
  using set_rtrim [of "ltrim s"] set_dropWhileD by (fastforce simp: trim_both_def ltrim_def)

lemma rtrim_last: "s \<noteq> [] \<Longrightarrow> \<not> isspace (last s) \<Longrightarrow> rtrim s = s"
  by (cases s rule: rev_cases) (auto simp: rtrim_def)

lemma rtrim_rtrim [simp]: "rtrim (rtrim s) = rtrim s"
  by (simp add: rtrim_def dropWhile_idem comp_def)

lemma rtrim_append_space: "isspace c \<Longrightarrow> rtrim (s @ [c]) = rtrim s"
  by (simp add: rtrim_def)

lemma rtrim_append: "\<forall>c\<in>set e. isspace c \<Longrightarrow> s \<noteq> [] \<Longrightarrow> \<not> isspace (last s) \<Longrightarrow> rtrim (s @ e) = s"
proof (induction e rule: rev_induct)
  case Nil
  then show ?case by (simp add: rtrim_last)
next
  case (snoc x xs)
  then show ?case using rtrim_append_space [of x "s @ xs"] by simp
qed

lemma rtrim_prefix: "\<exists>t. s = rtrim s @ t"
proof -
  have "s = rev (dropWhile isspace (rev s)) @ rev (takeWhile isspace (rev s))"
    by (metis rev_append rev_rev_ident takeWhile_dropWhile_id)
  then show ?thesis unfolding rtrim_def by blast
qed

definition trimmed :: "string \<Rightarrow> bool" where
  "trimmed s = (s \<noteq> [] \<and> \<not> isspace (hd s) \<and> \<not> isspace (last s))"

lemma dropWhile_hd: "xs \<noteq> [] \<Longrightarrow> \<not> P (hd xs) \<Longrightarrow> dropWhile P xs = xs"
  by (cases xs) auto

lemma trim_trimmed: "trims h \<Longrightarrow> trimmed s \<Longrightarrow> h_trim h s = s"
  by (simp add: trims_def trimmed_def trim_both_def ltrim_def rtrim_def dropWhile_hd hd_rev)

end
