(* ===== verification/Codec.thy ===== *)
theory Codec
  imports Streams Std_Map Hol_Lib
begin

text \<open>
  Brace serialization (\<open>store.cpp\<close>, top of \<open>store.h\<close>): \<open>escape\<close> and \<open>unescape\<close>, the object reader
  \<open>getobject\<close>, and the stream operators of containers, pairs and maps.  The templates are
  modelled at strings (\<open>write_map\<close>, \<open>read_map\<close>) and, for containers, with the element's output,
  input and insertion as arguments.
\<close>

definition escape :: "hol \<Rightarrow> string \<Rightarrow> string" where
  "escape h s =
     (let s1 = h_replace_all h s [BSL] [BSL, CHR ''0''];
          s2 = h_replace_all h s1 ''{'' [BSL, CHR ''1''];
          s3 = h_replace_all h s2 ''}'' [BSL, CHR ''2'']
      in h_replace_all h s3 '','' [BSL, CHR ''3''])"

definition escaped :: "hol \<Rightarrow> string \<Rightarrow> string" where
  "escaped h cs = escape h cs"

definition unescape :: "hol \<Rightarrow> string \<Rightarrow> string" where
  "unescape h s =
     (let s1 = h_replace_all h s [BSL, CHR ''3''] '','';
          s2 = h_replace_all h s1 [BSL, CHR ''2''] ''}'';
          s3 = h_replace_all h s2 [BSL, CHR ''1''] ''{''
      in h_replace_all h s3 [BSL, CHR ''0''] [BSL])"

definition unescaped :: "hol \<Rightarrow> string \<Rightarrow> string" where
  "unescaped h cs = unescape h cs"

text \<open>\<open>while(d && is.get(c))\<close> of \<open>getobject\<close>.\<close>

function getobject_loop :: "nat \<Rightarrow> string \<Rightarrow> istream \<Rightarrow> string \<times> istream" where
  "getobject_loop d o1 is =
     (if d = 0 then (o1, is)
      else case get_ch is of
             (None, is') \<Rightarrow> (o1, is')
           | (Some c, is') \<Rightarrow>
               let d' = (if c = CHR ''{'' then d + 1 else if c = CHR ''}'' then d - 1 else d)
               in getobject_loop d' (if d' \<noteq> 0 then o1 @ [c] else o1) is')"
  by pat_completeness auto
termination
  by (relation "measure (\<lambda>(d, o1, is). length (buf is))") (auto dest!: get_ch_length [OF sym])

declare getobject_loop.simps [simp del]

definition getobject :: "istream \<Rightarrow> string \<Rightarrow> string \<times> istream" where
  "getobject is o1 =
     (case peek is of (c, is1) \<Rightarrow>
        if c \<noteq> Some (CHR ''{'') then (o1, set_fail is1)
        else getobject_loop 1 [] (ignore1 is1))"

text \<open>\<open>extract\<close> for a string.\<close>

definition extract_str :: "hol \<Rightarrow> istream \<Rightarrow> string \<Rightarrow> string \<times> istream" where
  "extract_str h is s =
     (case getline LF s is of (s1, is1) \<Rightarrow> (if ok is1 then (unescape h s1, is1) else (s1, is1)))"

subsection \<open>Containers\<close>

text \<open>The variable \<open>s\<close> lives across the iterations, as in the code.\<close>

fun write_items :: "hol \<Rightarrow> ('a \<Rightarrow> string) \<Rightarrow> string \<Rightarrow> 'a list \<Rightarrow> string" where
  "write_items h out s [] = []"
| "write_items h out s (i # c) =
     (case getline LF s (str_stream (out i)) of (s1, ss) \<Rightarrow>
        let e = escape h s1 in ''{'' @ e @ ''}'' @ write_items h out e c)"

definition write_container :: "hol \<Rightarrow> ('a \<Rightarrow> string) \<Rightarrow> 'a list \<Rightarrow> string" where
  "write_container h out c = ''{'' @ write_items h out [] c @ ''}''"

lemma getobject_loop_le: "getobject_loop d o1 is = (o2, is') \<Longrightarrow> length (buf is') \<le> length (buf is)"
proof (induction d o1 "is" rule: getobject_loop.induct)
  case (1 d o1 str)
  show ?case
  proof (cases "d = 0")
    case True
    with "1.prems" show ?thesis by (simp add: getobject_loop.simps)
  next
    case False
    obtain c is1 where g: "get_ch str = (c, is1)" by fastforce
    show ?thesis
    proof (cases c)
      case None
      with False g "1.prems" have "is' = is1" by (simp add: getobject_loop.simps [of d])
      with g None show ?thesis by (auto simp: get_ch_def split: if_splits list.splits)
    next
      case (Some x)
      with g have l: "length (buf str) = Suc (length (buf is1))" by (auto dest: get_ch_length)
      have "length (buf is') \<le> length (buf is1)"
        using "1.IH" [OF False g [symmetric] Some refl] "1.prems" False g Some
        by (simp add: getobject_loop.simps [of d] Let_def)
      with l show ?thesis by simp
    qed
  qed
qed

lemma getobject_shorter:
  "getobject is o1 = (o2, is') \<Longrightarrow> ok is' \<Longrightarrow> length (buf is') < length (buf is)"
proof -
  assume e: "getobject is o1 = (o2, is')" and k: "ok is'"
  then obtain cs where g: "good is" and b: "buf is = CHR ''{'' # cs"
    by (auto simp: getobject_def peek_def split: if_splits list.splits)
  then have "getobject_loop 1 [] (is\<lparr>buf := cs\<rparr>) = (o2, is')"
    using e by (simp add: getobject_def peek_def ignore1_def)
  from getobject_loop_le [OF this] b show ?thesis by simp
qed

function read_items ::
  "(istream \<Rightarrow> 'a \<Rightarrow> 'a \<times> istream) \<Rightarrow> 'a \<Rightarrow> ('c \<Rightarrow> 'a \<Rightarrow> 'c) \<Rightarrow> istream \<Rightarrow> string \<Rightarrow> 'c \<Rightarrow> 'c" where
  "read_items ext dflt ins iss line c =
     (case getobject iss line of (line1, iss1) \<Rightarrow>
        if ok iss1 then read_items ext dflt ins iss1 line1 (ins c (fst (ext (str_stream line1) dflt)))
        else c)"
  by pat_completeness auto
termination
  by (relation "measure (\<lambda>(e, d, i, iss, l, c). length (buf iss))")
    (auto dest!: getobject_shorter [OF sym])

declare read_items.simps [simp del]

text \<open>\<open>container.clear()\<close> first, so a protocol error leaves it empty.\<close>

definition read_container ::
  "(istream \<Rightarrow> 'a \<Rightarrow> 'a \<times> istream) \<Rightarrow> 'a \<Rightarrow> ('c \<Rightarrow> 'a \<Rightarrow> 'c) \<Rightarrow> 'c \<Rightarrow> istream \<Rightarrow> 'c \<times> istream" where
  "read_container ext dflt ins cont0 is =
     (case getobject is [] of (line, is1) \<Rightarrow>
        if \<not> ok is1 then (cont0, set_fail is1)
        else (read_items ext dflt ins (str_stream line) line cont0, is1))"

text \<open>\<open>operator<<\<close> and \<open>operator>>\<close> of \<open>std::vector<str>\<close> and \<open>std::set<str>\<close>.\<close>

definition write_str_vec :: "hol \<Rightarrow> string list \<Rightarrow> string" where
  "write_str_vec h vec = write_container h (\<lambda>s. s) vec"

definition read_str_vec :: "hol \<Rightarrow> istream \<Rightarrow> string list \<times> istream" where
  "read_str_vec h is = read_container (extract_str h) [] (\<lambda>c x. c @ [x]) [] is"

definition write_str_set :: "hol \<Rightarrow> string cset \<Rightarrow> string" where
  "write_str_set h s = write_container h (\<lambda>s. s) s"

definition read_str_set :: "hol \<Rightarrow> istream \<Rightarrow> string cset \<times> istream" where
  "read_str_set h is = read_container (extract_str h) [] (\<lambda>c x. cs_insert str_lt x c) [] is"

subsection \<open>Pairs and maps\<close>

definition write_pair :: "hol \<Rightarrow> string \<times> string \<Rightarrow> string" where
  "write_pair h p =
     (let key = escape h (fst p); val = escape h (snd p)
      in ''{{'' @ key @ ''}{'' @ val @ ''}}'')"

definition write_map :: "hol \<Rightarrow> (string, string) cmap \<Rightarrow> string" where
  "write_map h m = ''{'' @ concat (map (write_pair h) m) @ ''}''"

definition read_pair :: "hol \<Rightarrow> istream \<Rightarrow> string \<times> string \<Rightarrow> (string \<times> string) \<times> istream" where
  "read_pair h is p =
     (case getobject is [] of (line, is1) \<Rightarrow>
        if \<not> ok is1 then (p, set_fail is1)
        else
          case getobject (str_stream line) [] of (key, iss1) \<Rightarrow>
          case getobject iss1 [] of (val, iss2) \<Rightarrow>
            if \<not> ok iss2 then (p, set_fail is1)
            else ((fst (extract_str h (str_stream key) (fst p)),
                   fst (extract_str h (str_stream val) (snd p))), is1))"

lemma read_pair_shorter:
  "read_pair h is p = (q, is') \<Longrightarrow> ok is' \<Longrightarrow> length (buf is') < length (buf is)"
  by (auto simp: read_pair_def split: prod.splits if_splits dest: getobject_shorter)

function read_map_loop ::
  "hol \<Rightarrow> istream \<Rightarrow> string \<times> string \<Rightarrow> (string, string) cmap \<Rightarrow> (string, string) cmap" where
  "read_map_loop h iss p m =
     (case read_pair h iss p of (p1, iss1) \<Rightarrow>
        if ok iss1 then read_map_loop h iss1 p1 (cm_insert str_lt (fst p1) (snd p1) m) else m)"
  by pat_completeness auto
termination
  by (relation "measure (\<lambda>(h, iss, p, m). length (buf iss))")
    (auto dest!: read_pair_shorter [OF sym])

declare read_map_loop.simps [simp del]

definition read_map ::
  "hol \<Rightarrow> istream \<Rightarrow> (string, string) cmap \<Rightarrow> (string, string) cmap \<times> istream" where
  "read_map h is m =
     (case getobject is [] of (line, is1) \<Rightarrow>
        if \<not> ok is1 then (m, set_fail is1)
        else (read_map_loop h (str_stream line) ([], []) [], is1))"

subsection \<open>Escaping\<close>

definition esc_ch :: "char \<Rightarrow> string" where
  "esc_ch c =
     (if c = BSL then [BSL, CHR ''0''] else if c = CHR ''{'' then [BSL, CHR ''1'']
      else if c = CHR ''}'' then [BSL, CHR ''2''] else if c = CHR '','' then [BSL, CHR ''3'']
      else [c])"

text \<open>A token: one plain character, or a backslash and a character that is none.\<close>

definition token :: "string \<Rightarrow> bool" where
  "token t = ((\<exists>c. t = [c] \<and> c \<noteq> BSL) \<or> (\<exists>c. t = [BSL, c] \<and> c \<noteq> BSL))"

lemma escape_map: "replaces_all h \<Longrightarrow> escape h s = concat (map esc_ch s)"
proof -
  assume h: "replaces_all h"
  have "concat (map f (concat (map g s))) = concat (map (\<lambda>c. concat (map f (g c))) s)"
    for f g :: "char \<Rightarrow> string"
    by (induction s) auto
  then show ?thesis using h
    by (simp add: escape_def replaces_all_def subst_single)
      (rule arg_cong [of _ _ concat], simp add: esc_ch_def BSL_def)
qed

lemma subst_tokens:
  assumes "\<forall>t\<in>set ts. token t" "d \<noteq> BSL"
  shows "subst_all [BSL, d] b (concat ts) = concat (map (\<lambda>t. if t = [BSL, d] then b else t) ts)"
  using assms(1)
proof (induction ts)
  case (Cons t ts)
  then have IH: "subst_all [BSL, d] b (concat ts) = concat (map (\<lambda>t. if t = [BSL, d] then b else t) ts)"
    by simp
  from Cons.prems consider c where "t = [c]" "c \<noteq> BSL" | "t = [BSL, d]"
    | c where "t = [BSL, c]" "c \<noteq> BSL" "c \<noteq> d"
    by (auto simp: token_def)
  then show ?case
  proof cases
    case (1 c)
    then show ?thesis using IH by (simp add: subst_all_step)
  next
    case 2
    then show ?thesis using IH subst_all_hit [of "[BSL, d]" b] by simp
  next
    case (3 c)
    then show ?thesis using IH by (simp add: subst_all_step)
  qed
qed simp

lemma unescape_escape: "replaces_all h \<Longrightarrow> unescape h (escape h s) = s"
proof -
  assume h: "replaces_all h"
  let ?f = "\<lambda>d b t. if t = [BSL, d] then b else t"
  let ?t1 = "map esc_ch s"
  let ?t2 = "map (?f (CHR ''3'') '','') ?t1"
  let ?t3 = "map (?f (CHR ''2'') ''}'') ?t2"
  let ?t4 = "map (?f (CHR ''1'') ''{'') ?t3"
  have tok: "\<forall>t\<in>set ?t1. token t" "\<forall>t\<in>set ?t2. token t" "\<forall>t\<in>set ?t3. token t" "\<forall>t\<in>set ?t4. token t"
    by (auto simp: token_def esc_ch_def BSL_def)
  have "unescape h (concat ?t1) = concat (map (?f (CHR ''0'') [BSL]) ?t4)"
    using h subst_tokens [OF tok(1), of "CHR ''3''" "'',''"] subst_tokens [OF tok(2), of "CHR ''2''" "''}''"]
      subst_tokens [OF tok(3), of "CHR ''1''" "''{''"] subst_tokens [OF tok(4), of "CHR ''0''" "[BSL]"]
    by (simp add: unescape_def replaces_all_def BSL_def)
  also have "map (?f (CHR ''0'') [BSL]) ?t4 = map (\<lambda>c. [c]) s"
    by (simp add: esc_ch_def BSL_def)
  finally show ?thesis using escape_map [OF h] by simp
qed

lemma set_escape: "replaces_all h \<Longrightarrow> set (escape h s) \<subseteq> set s \<union> {BSL, CHR ''0'', CHR ''1'', CHR ''2'', CHR ''3''}"
  by (auto simp: escape_map esc_ch_def split: if_splits)

lemma escape_no_delims:
  "replaces_all h \<Longrightarrow> c \<in> {CHR ''{'', CHR ''}'', CHR '',''} \<Longrightarrow> c \<notin> set (escape h s)"
  by (auto simp: escape_map esc_ch_def BSL_def split: if_splits)

lemma escape_no_LF: "replaces_all h \<Longrightarrow> LF \<notin> set s \<Longrightarrow> LF \<notin> set (escape h s)"
  by (auto simp: escape_map esc_ch_def BSL_def LF_def split: if_splits)

subsection \<open>Objects\<close>

text \<open>The nesting depth after reading a text from depth \<open>d\<close>, while it stays positive.\<close>

fun nest :: "nat \<Rightarrow> string \<Rightarrow> nat option" where
  "nest d [] = Some d"
| "nest d (c # cs) =
     (if c = CHR ''{'' then nest (Suc d) cs
      else if c = CHR ''}'' then (if d \<le> 1 then None else nest (d - 1) cs)
      else nest d cs)"

lemma nest_append: "nest d (xs @ ys) = Option.bind (nest d xs) (\<lambda>e. nest e ys)"
  by (induction d xs rule: nest.induct) auto

lemma nest_plain: "CHR ''{'' \<notin> set s \<Longrightarrow> CHR ''}'' \<notin> set s \<Longrightarrow> nest d s = Some d"
  by (induction s) auto

lemma nest_escape: "replaces_all h \<Longrightarrow> nest d (escape h s) = Some d"
  by (rule nest_plain) (rule escape_no_delims, assumption, simp)+

lemma nest_braced: "0 < d \<Longrightarrow> nest (Suc d) s = Some (Suc d) \<Longrightarrow> nest d (''{'' @ s @ ''}'') = Some d"
  by (simp add: nest_append)

lemma nest_concat: "0 < d \<Longrightarrow> \<forall>x\<in>set xs. nest d x = Some d \<Longrightarrow> nest d (concat xs) = Some d"
  by (induction xs) (auto simp: nest_append)

lemma getobject_loop_nest:
  "0 < d \<Longrightarrow> nest d t = Some e \<Longrightarrow> good is \<Longrightarrow>
    getobject_loop d o1 (is\<lparr>buf := t @ r\<rparr>) = getobject_loop e (o1 @ t) (is\<lparr>buf := r\<rparr>)"
proof (induction t arbitrary: d o1)
  case (Cons c t)
  have g: "get_ch (is\<lparr>buf := c # t @ r\<rparr>) = (Some c, is\<lparr>buf := t @ r\<rparr>)"
    using Cons.prems by (simp add: stream_simps)
  show ?case
    using Cons.prems Cons.IH [of "Suc d"] Cons.IH [of "d - 1"] Cons.IH [of d]
    by (subst getobject_loop.simps) (auto simp: g Let_def split: if_splits)
qed simp

lemma getobject_braced:
  assumes "nest 1 t = Some 1" "good is" "buf is = ''{'' @ t @ ''}'' @ r"
  shows "getobject is o1 = (t, is\<lparr>buf := r\<rparr>)"
proof -
  have "getobject is o1 = getobject_loop 1 [] (is\<lparr>buf := t @ ''}'' @ r\<rparr>)"
    using assms by (simp add: getobject_def peek_def ignore1_def)
  also have "\<dots> = getobject_loop 1 t (is\<lparr>buf := ''}'' @ r\<rparr>)"
    using getobject_loop_nest [of 1 t 1 "is" "[]" "''}'' @ r"] assms by simp
  also have "\<dots> = (t, is\<lparr>buf := r\<rparr>)"
    using assms(2) by (simp add: getobject_loop.simps get_ch_def)
  finally show ?thesis .
qed

lemma getobject_end: "buf is = [] \<Longrightarrow> \<not> ok (snd (getobject is o1))"
  by (simp add: getobject_def peek_def)

lemma extract_escaped:
  assumes "replaces_all h" "LF \<notin> set s"
  shows "fst (extract_str h (str_stream (escape h s)) x) = s"
proof (cases "escape h s = []")
  case True
  then have "s = []" using unescape_escape [OF assms(1), of s] assms(1)
    by (auto simp: unescape_def replaces_all_def)
  with True show ?thesis by (simp add: extract_str_def getline_end)
next
  case False
  with assms show ?thesis
    by (simp add: extract_str_def getline_last escape_no_LF unescape_escape)
qed

lemma getline_whole: "LF \<notin> set s \<Longrightarrow> fst (getline LF x (str_stream s)) = s"
  by (cases s) (simp_all add: getline_end getline_last)

lemma write_items_concat:
  "\<forall>s\<in>set c. LF \<notin> set s \<Longrightarrow>
    write_items h (\<lambda>s. s) x c = concat (map (\<lambda>s. ''{'' @ escape h s @ ''}'') c)"
proof (induction c arbitrary: x)
  case (Cons s c)
  then show ?case using getline_whole [of s x] by (cases "getline LF x (str_stream s)") (simp add: Let_def)
qed simp

lemma nest_items:
  "replaces_all h \<Longrightarrow> 0 < d \<Longrightarrow> nest d (concat (map (\<lambda>s. ''{'' @ escape h s @ ''}'') c)) = Some d"
  by (rule nest_concat) (auto intro!: nest_braced [simplified] nest_escape)

lemma read_items_items:
  assumes h: "replaces_all h" and nl: "\<forall>s\<in>set c. LF \<notin> set s"
  shows "read_items (extract_str h) dflt ins (str_stream (concat (map (\<lambda>s. ''{'' @ escape h s @ ''}'') c))) line c0
    = foldl ins c0 c"
  using nl
proof (induction c arbitrary: line c0)
  case Nil
  then show ?case using getobject_end [of "str_stream []" line]
    by (subst read_items.simps) (auto split: prod.splits)
next
  case (Cons s c)
  let ?r = "concat (map (\<lambda>s. ''{'' @ escape h s @ ''}'') c)"
  have "getobject (str_stream (''{'' @ escape h s @ ''}'' @ ?r)) line
      = (escape h s, str_stream (''{'' @ escape h s @ ''}'' @ ?r)\<lparr>buf := ?r\<rparr>)"
    by (rule getobject_braced) (simp_all add: nest_escape [OF h])
  then show ?case
    using Cons.prems Cons.IH extract_escaped [OF h, of s dflt] by (subst read_items.simps) simp
qed

lemma read_container_round_trip:
  assumes h: "replaces_all h" and nl: "\<forall>s\<in>set c. LF \<notin> set s"
  shows "read_container (extract_str h) dflt ins c0 (str_stream (write_container h (\<lambda>s. s) c @ r))
    = (foldl ins c0 c, str_stream r)"
proof -
  let ?t = "concat (map (\<lambda>s. ''{'' @ escape h s @ ''}'') c)"
  have w: "write_container h (\<lambda>s. s) c @ r = ''{'' @ ?t @ ''}'' @ r"
    by (simp add: write_container_def write_items_concat [OF nl])
  have "getobject (str_stream (''{'' @ ?t @ ''}'' @ r)) [] =
      (?t, str_stream (''{'' @ ?t @ ''}'' @ r)\<lparr>buf := r\<rparr>)"
    by (rule getobject_braced) (simp_all add: nest_items [OF h, simplified])
  then show ?thesis
    unfolding w read_container_def using read_items_items [OF h nl, of dflt ins ?t c0] by simp
qed

lemma foldl_snoc: "foldl (\<lambda>c x. c @ [x]) c0 c = c0 @ c"
  by (induction c arbitrary: c0) auto

lemma foldl_insert_sorted:
  "sorted_wrt str_lt (c0 @ c) \<Longrightarrow> foldl (\<lambda>c x. cs_insert str_lt x c) c0 c = c0 @ c"
proof (induction c arbitrary: c0)
  case (Cons x c)
  have "cs_insert str_lt x c0 = c0 @ [x]"
    using Cons.prems by (induction c0) auto
  with Cons show ?case by simp
qed simp

subsection \<open>Maps\<close>

lemma nest_pair:
  "replaces_all h \<Longrightarrow> 0 < d \<Longrightarrow> nest d (write_pair h p) = Some d"
  using nest_braced [of d "(''{'' @ escape h (fst p) @ ''}'') @ (''{'' @ escape h (snd p) @ ''}'')"]
    nest_braced [of "Suc d" "escape h (fst p)"] nest_braced [of "Suc d" "escape h (snd p)"]
  by (simp add: write_pair_def Let_def nest_append nest_escape)

lemma read_pair_written:
  assumes h: "replaces_all h" and nl: "LF \<notin> set (fst p)" "LF \<notin> set (snd p)"
  shows "read_pair h (str_stream (write_pair h p @ r)) q = (p, str_stream r)"
proof -
  let ?k = "escape h (fst p)" and ?v = "escape h (snd p)"
  have n: "nest d ?k = Some d" "nest d ?v = Some d" for d
    by (simp_all add: nest_escape [OF h])
  have w: "write_pair h p @ r = ''{'' @ (''{'' @ ?k @ ''}{'' @ ?v @ ''}'') @ ''}'' @ r"
    by (simp add: write_pair_def Let_def)
  have "nest 1 (''{'' @ ?k @ ''}{'' @ ?v @ ''}'') = Some 1"
    by (simp add: nest_append n)
  from getobject_braced [OF this, of "str_stream (write_pair h p @ r)" r "[]"]
  have o1: "getobject (str_stream (write_pair h p @ r)) [] = (''{'' @ ?k @ ''}{'' @ ?v @ ''}'', str_stream r)"
    using w by (simp add: str_stream_def good_def)
  have o2: "getobject (str_stream (''{'' @ ?k @ ''}{'' @ ?v @ ''}'')) [] = (?k, str_stream (''{'' @ ?v @ ''}''))"
    using getobject_braced [OF n(1), of "str_stream (''{'' @ ?k @ ''}{'' @ ?v @ ''}'')" "''{'' @ ?v @ ''}''" "[]"]
    by (simp add: str_stream_def good_def)
  have o3: "getobject (str_stream (''{'' @ ?v @ ''}'')) [] = (?v, str_stream [])"
    using getobject_braced [OF n(2), of "str_stream (''{'' @ ?v @ ''}'')" "[]" "[]"]
    by (simp add: str_stream_def good_def)
  show ?thesis
    using o1 o2 o3 extract_escaped [OF h nl(1)] extract_escaped [OF h nl(2)]
    by (simp add: read_pair_def)
qed

lemma cm_insert_last:
  "cm_sorted str_lt (m @ [(k, v)]) \<Longrightarrow> cm_insert str_lt k v m = m @ [(k, v)]"
proof -
  assume s: "cm_sorted str_lt (m @ [(k, v)])"
  then have b: "\<forall>b\<in>set m. str_lt (fst b) k" and s': "cm_sorted str_lt m"
    by (auto simp: cm_sorted_def sorted_wrt_append)
  have "cm_find str_lt k m = None" using b by (induction m) auto
  with str_cmp.set_last [OF s' b] show ?thesis by (simp add: cm_insert_def cm_touch_def)
qed

lemma read_map_loop_written:
  assumes h: "replaces_all h"
  shows "cm_sorted str_lt (m0 @ m) \<Longrightarrow> \<forall>p\<in>set m. LF \<notin> set (fst p) \<and> LF \<notin> set (snd p) \<Longrightarrow>
    read_map_loop h (str_stream (concat (map (write_pair h) m))) q m0 = m0 @ m"
proof (induction m arbitrary: m0 q)
  case Nil
  have "\<not> ok (snd (read_pair h (str_stream []) q))"
    using getobject_end [of "str_stream []" "[]"] by (auto simp: read_pair_def split: prod.splits)
  then show ?case by (subst read_map_loop.simps) (auto split: prod.splits)
next
  case (Cons p m)
  have "read_pair h (str_stream (write_pair h p @ concat (map (write_pair h) m))) q
      = (p, str_stream (concat (map (write_pair h) m)))"
    using Cons.prems by (intro read_pair_written [OF h]) auto
  moreover have "cm_insert str_lt (fst p) (snd p) m0 = m0 @ [p]"
  proof -
    have "cm_sorted str_lt (m0 @ [p])"
      using Cons.prems(1) by (auto simp: cm_sorted_def sorted_wrt_append)
    then show ?thesis using cm_insert_last [of m0 "fst p" "snd p"] by simp
  qed
  ultimately show ?case using Cons.prems Cons.IH [of "m0 @ [p]" p] by (subst read_map_loop.simps) simp
qed

subsection \<open>Properties\<close>

text \<open>\<open>unescape\<close> undoes \<open>escape\<close> on every string, and an escaped string holds none of the
  delimiters of the format.\<close>

theorem escape_round_trip:
  assumes "replaces_all h"
  shows "unescaped h (escaped h s) = s \<and>
    CHR ''{'' \<notin> set (escaped h s) \<and> CHR ''}'' \<notin> set (escaped h s) \<and> CHR '','' \<notin> set (escaped h s)"
  using unescape_escape [OF assms] escape_no_delims [OF assms]
  by (simp add: unescaped_def escaped_def)

theorem escape_round_trip_witness:
  "unescaped hol_ref (escaped hol_ref (BSL # ''0{,}'')) = BSL # ''0{,}''"
  using escape_round_trip [of hol_ref "BSL # ''0{,}''"] hol_ref_ok by simp

text \<open>C26: A vector of strings of one line each, written and read back, is the same vector, and the
  stream is left just after it; elements that hold braces, commas and backslashes included.\<close>

theorem vec_round_trip:
  assumes "replaces_all h" "\<forall>s\<in>set v. LF \<notin> set s"
  shows "read_str_vec h (str_stream (write_str_vec h v @ r)) = (v, str_stream r)"
  using read_container_round_trip [OF assms, of "[]" "\<lambda>c x. c @ [x]" "[]" r]
  by (simp add: read_str_vec_def write_str_vec_def foldl_snoc)

theorem vec_round_trip_witness:
  "read_str_vec hol_ref (str_stream (write_str_vec hol_ref [''a{'', '',''] @ ''z'')) = ([''a{'', '',''], str_stream ''z'')"
  using vec_round_trip [of hol_ref "[''a{'', '','']" "''z''"] hol_ref_ok by (simp add: LF_def)

text \<open>A set of strings of one line each, written and read back, is the same set.\<close>

theorem set_round_trip:
  assumes "replaces_all h" "sorted_wrt str_lt s" "\<forall>x\<in>set s. LF \<notin> set x"
  shows "read_str_set h (str_stream (write_str_set h s @ r)) = (s, str_stream r)"
  using read_container_round_trip [OF assms(1,3), of "[]" "\<lambda>c x. cs_insert str_lt x c" "[]" r]
    foldl_insert_sorted [of "[]" s] assms(2)
  by (simp add: read_str_set_def write_str_set_def)

theorem set_round_trip_witness:
  "read_str_set hol_ref (str_stream (write_str_set hol_ref [''a'', ''b''] @ [])) = ([''a'', ''b''], str_stream [])"
proof -
  have "sorted_wrt str_lt [''a'', ''b'']" by code_simp
  from set_round_trip [OF _ this, of hol_ref "[]"] show ?thesis using hol_ref_ok by (simp add: LF_def)
qed

text \<open>A map of one-line keys and values, written and read back, is the same map, and the stream
  is left just after it.\<close>

theorem map_round_trip:
  assumes "replaces_all h" "cm_sorted str_lt m" "\<forall>p\<in>set m. LF \<notin> set (fst p) \<and> LF \<notin> set (snd p)"
  shows "read_map h (str_stream (write_map h m @ r)) m0 = (m, str_stream r)"
proof -
  let ?t = "concat (map (write_pair h) m)"
  have w: "write_map h m @ r = ''{'' @ ?t @ ''}'' @ r" by (simp add: write_map_def)
  have n: "nest 1 ?t = Some 1" by (rule nest_concat) (simp_all add: nest_pair [OF assms(1)])
  have "getobject (str_stream (''{'' @ ?t @ ''}'' @ r)) [] = (?t, str_stream (''{'' @ ?t @ ''}'' @ r)\<lparr>buf := r\<rparr>)"
    by (rule getobject_braced [OF n]) simp_all
  then show ?thesis
    unfolding w read_map_def using read_map_loop_written [OF assms(1), of "[]" m "([], [])"] assms(2,3) by simp
qed

theorem map_round_trip_witness:
  "read_map hol_ref (str_stream (write_map hol_ref [(''k'', ''{v}'')] @ ''rest'')) [(''old'', [])] =
    ([(''k'', ''{v}'')], str_stream ''rest'')"
  using map_round_trip [of hol_ref "[(''k'', ''{v}'')]" "''rest''"] hol_ref_ok
  by (simp add: LF_def cm_sorted_def)

end
