(* ===== verification/Message.thy ===== *)
theory Message
  imports Codec
begin

text \<open>
  \<open>message.h\<close> and \<open>message.cpp\<close>: an IRC line split into prefix, command and params, the parameter
  grammar of RFC 2812 read from a stream, the parts of the prefix, the user command of a
  channel line, and serialization.  \<open>std::time(0)\<close> is the argument \<open>now\<close>.
\<close>

record message =
  msg_line :: string
  msg_when :: int
  msg_prefix :: string
  msg_command :: string
  msg_params :: string

definition new_message :: message where
  "new_message = \<lparr>msg_line = [], msg_when = 0, msg_prefix = [], msg_command = [], msg_params = []\<rparr>"

definition clear_message :: "message \<Rightarrow> message" where
  "clear_message m =
     m\<lparr>msg_line := [], msg_when := 0, msg_prefix := [], msg_command := [], msg_params := []\<rparr>"

text \<open>\<open>CSTRING(s)\<close> is \<open>s, sizeof(s)\<close>: the terminating NUL is part of every set.\<close>

definition nospcrlfcl :: string where
  "nospcrlfcl = [NUL, SPC, CR, LF, CHR '':'', NUL]"

definition nospcrlf :: string where
  "nospcrlf = [NUL, SPC, CR, LF, NUL]"

definition nocrlf :: string where
  "nocrlf = [NUL, CR, LF, NUL]"

definition nospcrlfat :: string where
  "nospcrlfat = [NUL, SPC, CR, LF, CHR ''@'', NUL]"

definition bnf_special :: string where
  "bnf_special = ''['' @ '']'' @ [BSL, CHR 0x60] @ ''_^{|}'' @ [NUL]"

text \<open>\<open>std::count(set, is.peek())\<close>: the end of the input is in no set.\<close>

definition in_set :: "string \<Rightarrow> char option \<Rightarrow> bool" where
  "in_set cs p = (case p of None \<Rightarrow> False | Some c \<Rightarrow> c \<in> set cs)"

subsection \<open>Parameters\<close>

function gettrailing_loop :: "istream \<Rightarrow> string \<Rightarrow> istream \<times> string" where
  "gettrailing_loop is trailing =
     (if \<not> ok is then (is, trailing)
      else case peek is of (p, is1) \<Rightarrow>
        if in_set nocrlf p then (is1, trailing)
        else case get_ch is1 of
               (None, is2) \<Rightarrow> (is2, trailing)
             | (Some c, is2) \<Rightarrow> gettrailing_loop is2 (trailing @ [c]))"
  by pat_completeness auto
termination
  by (relation "measure (\<lambda>(is, t). length (buf is))")
    (auto dest!: peek_buf [OF sym] get_ch_length [OF sym])

declare gettrailing_loop.simps [simp del]

definition gettrailing :: "istream \<Rightarrow> istream \<times> string" where
  "gettrailing is =
     (case gettrailing_loop is [] of (is1, trailing) \<Rightarrow>
        ((if eofbit is1 then clear_bits is1 else is1), trailing))"

text \<open>\<open>middle = is.get()\<close> stores the low byte of EOF when there is no character.\<close>

definition byte_of :: "char option \<Rightarrow> char" where
  "byte_of p = (case p of None \<Rightarrow> CHR 0xFF | Some c \<Rightarrow> c)"

function getmiddle_loop :: "istream \<Rightarrow> string \<Rightarrow> istream \<times> string" where
  "getmiddle_loop is middle =
     (if \<not> ok is then (is, middle)
      else case peek is of (p, is1) \<Rightarrow>
        if p = None then (is1, middle)
        else if in_set nospcrlf p then (is1, middle)
        else case get_ch is1 of
               (None, is2) \<Rightarrow> (is2, middle @ [byte_of None])
             | (Some c, is2) \<Rightarrow> getmiddle_loop is2 (middle @ [c]))"
  by pat_completeness auto
termination
  by (relation "measure (\<lambda>(is, m). length (buf is))")
    (auto dest!: peek_buf [OF sym] get_ch_length [OF sym])

declare getmiddle_loop.simps [simp del]

definition getmiddle :: "istream \<Rightarrow> string \<Rightarrow> istream \<times> string" where
  "getmiddle is middle =
     (case (if ok is then peek is else (None, is)) of (p, is1) \<Rightarrow>
        if ok is \<and> in_set nospcrlfcl p then (set_fail is1, middle)
        else case get_ch is1 of (c, is2) \<Rightarrow> getmiddle_loop is2 [byte_of c])"

lemma getmiddle_loop_le:
  "length (buf (fst (getmiddle_loop is m))) \<le> length (buf is)"
proof (induction "is" m rule: getmiddle_loop.induct)
  case (1 str m)
  obtain p is1 c is2 where pk: "peek str = (p, is1)" and g: "get_ch is1 = (c, is2)"
    by (metis surj_pair)
  then show ?case
    using "1.IH" peek_buf [OF pk] get_ch_le [OF g]
    by (subst getmiddle_loop.simps) (fastforce split: option.splits)
qed

lemma getmiddle_le: "length (buf (fst (getmiddle is m))) \<le> length (buf is)"
proof -
  obtain p is1 where pk: "(if ok is then peek is else (None, is)) = (p, is1)" by fastforce
  then have b: "buf is1 = buf is" by (auto dest: peek_buf split: if_splits)
  obtain c is2 where g: "get_ch is1 = (c, is2)" by fastforce
  show ?thesis
    using getmiddle_loop_le [of is2 "[byte_of c]"] get_ch_le [OF g] b
    by (simp add: getmiddle_def pk g)
qed

lemma getmiddle_length: "getmiddle is m = (is', m') \<Longrightarrow> length (buf is') \<le> length (buf is)"
  using getmiddle_le [of "is" m] by simp

text \<open>
  The loop of \<open>getparams\<close>.  \<open>Inl\<close> is the early \<open>return gettrailing(is, trailing)\<close>; \<open>Inr\<close> is the
  state in which the loop ends, with the count \<open>n\<close>.
\<close>

function getparams_loop ::
  "istream \<Rightarrow> nat \<Rightarrow> string list \<Rightarrow> (istream \<times> string list \<times> string) + (istream \<times> nat \<times> string list)" where
  "getparams_loop is n middles =
     (if \<not> (ok is \<and> n < 14) then Inr (is, n, middles)
      else case peek is of (p, is1) \<Rightarrow>
        if p \<noteq> Some SPC then Inr (is1, n, middles)
        else case get_ch is1 of
          (None, is2) \<Rightarrow> Inr (is2, n, middles)
        | (Some c, is2) \<Rightarrow>
          (case peek is2 of (q, is3) \<Rightarrow>
            if q = Some (CHR '':'') \<and> fst (get_ch is3) \<noteq> None
            then (case gettrailing (snd (get_ch is3)) of (is4, trailing) \<Rightarrow> Inl (is4, middles, trailing))
            else
              (case getmiddle is3 [] of (is4, middle) \<Rightarrow>
                if ok is4 then getparams_loop is4 (Suc n) (middles @ [middle])
                else getparams_loop is4 n middles)))"
  by pat_completeness auto
termination
  by (relation "measure (\<lambda>(is, n, ms). length (buf is))")
    (auto dest!: peek_buf [OF sym] get_ch_length [OF sym] getmiddle_length [OF sym])

declare getparams_loop.simps [simp del]

definition getparams :: "istream \<Rightarrow> istream \<times> string list \<times> string" where
  "getparams is =
     (case getparams_loop is 0 [] of
        Inl r \<Rightarrow> r
      | Inr (is1, n, middles) \<Rightarrow>
          if n \<noteq> 14 then (is1, middles, [])
          else case peek is1 of (p, is2) \<Rightarrow>
            if p \<noteq> Some SPC then (is2, middles, [])
            else case get_ch is2 of (c, is3) \<Rightarrow>
              if c = None then (is3, middles, [])
              else case peek is3 of (q, is4) \<Rightarrow>
                if q \<noteq> Some (CHR '':'')
                then (case gettrailing is4 of (is5, trailing) \<Rightarrow> (is5, middles, trailing))
                else case get_ch is4 of (d, is5) \<Rightarrow>
                  if d = None then (is5, middles, [])
                  else (case gettrailing is5 of (is6, trailing) \<Rightarrow> (is6, middles, trailing)))"

definition get_params_mt :: "message \<Rightarrow> bool \<times> string list \<times> string" where
  "get_params_mt m =
     (case getparams (str_stream (msg_params m)) of (is, middles, trailing) \<Rightarrow> (ok is, middles, trailing))"

definition get_params :: "message \<Rightarrow> string list" where
  "get_params m =
     (case get_params_mt m of (b, middles, trailing) \<Rightarrow> if b then middles @ [trailing] else middles)"

definition get_middles :: "message \<Rightarrow> string list" where
  "get_middles m = fst (snd (get_params_mt m))"

definition get_trailing :: "message \<Rightarrow> string" where
  "get_trailing m = snd (snd (get_params_mt m))"

subsection \<open>The prefix\<close>

definition get_servername :: "message \<Rightarrow> string" where
  "get_servername m =
     (if find_ch (CHR ''!'') (msg_prefix m) \<noteq> None \<or> find_ch (CHR ''@'') (msg_prefix m) \<noteq> None then []
      else msg_prefix m)"

definition is_nick :: "string \<Rightarrow> bool" where
  "is_nick nick =
     (case nick of
        [] \<Rightarrow> False
      | c # cs \<Rightarrow>
          if \<not> isalpha c \<and> c \<notin> set bnf_special then False
          else list_all (\<lambda>c. isalnum c \<or> c \<in> set bnf_special \<or> c = CHR ''-'') nick)"

definition allow_nick :: "string \<Rightarrow> string" where
  "allow_nick nick = (if \<not> is_nick nick then [] else nick)"

definition get_nickname :: "message \<Rightarrow> string" where
  "get_nickname m =
     (case find_ch (CHR ''!'') (msg_prefix m) of
        Some pos \<Rightarrow> allow_nick (substr (msg_prefix m) 0 pos)
      | None \<Rightarrow>
          (case find_ch (CHR ''@'') (msg_prefix m) of
             Some pos \<Rightarrow> allow_nick (substr (msg_prefix m) 0 pos)
           | None \<Rightarrow> allow_nick (msg_prefix m)))"

definition get_nick :: "message \<Rightarrow> string" where
  "get_nick m = get_nickname m"

definition is_user :: "string \<Rightarrow> bool" where
  "is_user user = list_all (\<lambda>c. c \<notin> set nospcrlfat) user"

definition allow_user :: "string \<Rightarrow> string" where
  "allow_user user = (if is_user user then user else [])"

text \<open>\<open>(beg = prefix.find('!')) < end\<close> is false when there is no \<open>!\<close>: \<open>npos\<close> is the largest value.\<close>

definition get_user :: "message \<Rightarrow> string" where
  "get_user m =
     (case find_ch (CHR ''@'') (msg_prefix m) of
        None \<Rightarrow> []
      | Some e \<Rightarrow>
          (case find_ch (CHR ''!'') (msg_prefix m) of
             None \<Rightarrow> []
           | Some b \<Rightarrow> if b < e then allow_user (substr (msg_prefix m) (b + 1) (e - (b + 1))) else []))"

definition get_host :: "message \<Rightarrow> string" where
  "get_host m =
     (case find_ch (CHR ''@'') (msg_prefix m) of
        None \<Rightarrow> []
      | Some pos \<Rightarrow> if pos < length (msg_prefix m) - 1 then substr_from (msg_prefix m) (pos + 1) else [])"

text \<open>\<open>prefix.find("!") + 1\<close> wraps to 0 when there is no \<open>!\<close>.\<close>

definition get_userhost :: "message \<Rightarrow> string" where
  "get_userhost m =
     substr_from (msg_prefix m) (case find_ch (CHR ''!'') (msg_prefix m) of None \<Rightarrow> 0 | Some p \<Rightarrow> p + 1)"

subsection \<open>Addressing\<close>

definition from_channel :: "message \<Rightarrow> bool" where
  "from_channel m =
     (case get_params m of [] \<Rightarrow> False | p # ps \<Rightarrow> (case p of [] \<Rightarrow> False | c # cs \<Rightarrow> c = CHR ''#''))"

definition get_to :: "message \<Rightarrow> string" where
  "get_to m = (case get_params m of p # ps \<Rightarrow> p | [] \<Rightarrow> [])"

definition reply_to :: "message \<Rightarrow> string" where
  "reply_to m = (if \<not> from_channel m then get_nickname m else get_to m)"

definition get_user_cmd :: "hol \<Rightarrow> message \<Rightarrow> string" where
  "get_user_cmd h m = h_trim h (fst (getline SPC [] (str_stream (get_trailing m))))"

definition get_user_params :: "hol \<Rightarrow> message \<Rightarrow> string" where
  "get_user_params h m =
     (case getline SPC [] (str_stream (get_trailing m)) of (params, iss) \<Rightarrow>
      case getline LF params iss of (params1, iss1) \<Rightarrow>
        if \<not> ok iss1 then [] else h_trim h params1)"

definition chan_params :: "string set list" where
  "chan_params =
     [{''PRIVMSG'', ''JOIN'', ''MODE'', ''KICK'', ''PART'', ''TOPIC''},
      {''332'', ''333'', ''366'', ''404'', ''474'', ''482'', ''INVITE''},
      {''353'', ''441''}]"

definition chan_start :: string where
  "chan_start = ''#&+!''"

fun get_chan_from :: "string \<Rightarrow> string list \<Rightarrow> nat \<Rightarrow> string set list \<Rightarrow> string" where
  "get_chan_from cmd params i [] = []"
| "get_chan_from cmd params i (s # ss) =
     (if cmd \<in> s \<and> i < length params \<and> params ! i \<noteq> [] \<and> hd (params ! i) \<in> set chan_start
      then params ! i
      else get_chan_from cmd params (Suc i) ss)"

definition get_chan :: "message \<Rightarrow> string" where
  "get_chan m = get_chan_from (msg_command m) (get_params m) 0 chan_params"

subsection \<open>Parsing and printing\<close>

definition parse :: "hol \<Rightarrow> int \<Rightarrow> string \<Rightarrow> message \<Rightarrow> bool \<times> message" where
  "parse h now line m =
     (if line = [] then (False, m)
      else
        let line1 = h_trim_right h line;
            m1 = m\<lparr>msg_line := line1, msg_when := now\<rparr>;
            iss0 = str_stream line1
        in case peek iss0 of (p, iss1) \<Rightarrow>
           case (if p = Some (CHR '':'') then read_word (msg_prefix m1) (ignore1 iss1)
                 else (msg_prefix m1, iss1)) of (pre, iss2) \<Rightarrow>
           case read_word (msg_command m1) iss2 of (cmd, iss3) \<Rightarrow>
           case getline LF (msg_params m1) iss3 of (pars, iss4) \<Rightarrow>
             (ok iss4, m1\<lparr>msg_prefix := pre, msg_command := cmd, msg_params := pars\<rparr>))"

definition parsemsg :: "hol \<Rightarrow> int \<Rightarrow> string \<Rightarrow> message \<Rightarrow> bool \<times> message" where
  "parsemsg h now line m = parse h now line m"

definition write_message :: "hol \<Rightarrow> message \<Rightarrow> string" where
  "write_message h m = ''{'' @ escaped h (msg_line m) @ ''}''"

definition read_message :: "hol \<Rightarrow> int \<Rightarrow> istream \<Rightarrow> message \<Rightarrow> message \<times> istream" where
  "read_message h now is m =
     (case getobject is [] of (obj, is1) \<Rightarrow>
        if \<not> ok is1 then (m, is1)
        else case parsemsg h now (unescaped h obj) m of (b, m1) \<Rightarrow>
          (m1, (if b then is1 else set_fail is1)))"

definition printmsg :: "hol \<Rightarrow> message \<Rightarrow> string" where
  "printmsg h m =
     ''//                  line: '' @ msg_line m @ [LF] @
     ''//                prefix: '' @ msg_prefix m @ [LF] @
     ''//               command: '' @ msg_command m @ [LF] @
     ''//                params: '' @ msg_params m @ [LF] @
     ''// get_servername()     : '' @ get_servername m @ [LF] @
     ''// get_nickname()       : '' @ get_nickname m @ [LF] @
     ''// get_user()           : '' @ get_user m @ [LF] @
     ''// get_host()           : '' @ get_host m @ [LF] @
     ''// get_userhost()       : '' @ get_userhost m @ [LF] @
     ''// get_to()             : '' @ get_to m @ [LF] @
     concat (map (\<lambda>p. ''// param                : '' @ p @ [LF]) (get_params m)) @
     concat (map (\<lambda>p. ''// middle               : '' @ p @ [LF]) (get_middles m)) @
     ''// get_trailing()       : '' @ get_trailing m @ [LF] @
     ''// get_nick()           : '' @ get_nick m @ [LF] @
     ''// get_chan()           : '' @ get_chan m @ [LF] @
     ''// get_user_cmd()       : '' @ get_user_cmd h m @ [LF] @
     ''// get_user_params()    : '' @ get_user_params h m @ [LF]"

subsection \<open>Reading what the grammar allows\<close>

text \<open>The grammar of the comment in \<open>getparams\<close>: \<open>middle\<close> and \<open>trailing\<close>.\<close>

definition is_middle :: "string \<Rightarrow> bool" where
  "is_middle w = (case w of [] \<Rightarrow> False | c # cs \<Rightarrow> c \<notin> set nospcrlfcl \<and> set cs \<inter> set nospcrlf = {})"

definition is_trailing :: "string \<Rightarrow> bool" where
  "is_trailing t = (set t \<inter> set nocrlf = {})"

definition middles_text :: "string list \<Rightarrow> string" where
  "middles_text ms = concat (map (\<lambda>w. SPC # w) ms)"

lemma middles_text_simps [simp]:
  "middles_text [] = []" "middles_text (w # ms) = SPC # w @ middles_text ms"
  by (simp_all add: middles_text_def)

lemma in_set_simps [simp]: "in_set cs None = False" "in_set cs (Some c) = (c \<in> set cs)"
  by (simp_all add: in_set_def)

lemma gettrailing_loop_all:
  "is_trailing t \<Longrightarrow> gettrailing_loop (str_stream t) acc = (set_fail (hit_eof (str_stream [])), acc @ t)"
proof (induction t arbitrary: acc)
  case Nil
  then show ?case by (subst gettrailing_loop.simps) (simp add: stream_simps)
next
  case (Cons c t)
  then show ?case by (subst gettrailing_loop.simps) (simp add: is_trailing_def)
qed

lemma gettrailing_all: "is_trailing t \<Longrightarrow> gettrailing (str_stream t) = (str_stream [], t)"
  by (simp add: gettrailing_def gettrailing_loop_all)

lemma getmiddle_loop_end:
  "set w \<inter> set nospcrlf = {} \<Longrightarrow> getmiddle_loop (str_stream w) acc = (hit_eof (str_stream []), acc @ w)"
proof (induction w arbitrary: acc)
  case Nil
  then show ?case by (subst getmiddle_loop.simps) simp
next
  case (Cons c w)
  then show ?case by (subst getmiddle_loop.simps) simp
qed

lemma getmiddle_loop_space:
  "set w \<inter> set nospcrlf = {} \<Longrightarrow>
    getmiddle_loop (str_stream (w @ SPC # r)) acc = (str_stream (SPC # r), acc @ w)"
proof (induction w arbitrary: acc)
  case Nil
  then show ?case by (subst getmiddle_loop.simps) (simp add: nospcrlf_def)
next
  case (Cons c w)
  then show ?case by (subst getmiddle_loop.simps) simp
qed

lemma getmiddle_read:
  assumes "is_middle w"
  shows "getmiddle (str_stream w) x = (hit_eof (str_stream []), w)"
    and "getmiddle (str_stream (w @ SPC # r)) x = (str_stream (SPC # r), w)"
  using assms
  by (auto simp: is_middle_def getmiddle_def byte_of_def getmiddle_loop_end getmiddle_loop_space
      split: list.splits)

lemma SPC_not_colon [simp]: "SPC \<noteq> CHR '':''"
  by (simp add: SPC_def)

lemma is_middle_not_colon: "is_middle (c # cs) \<Longrightarrow> c \<noteq> CHR '':''"
  by (auto simp: is_middle_def nospcrlfcl_def)

lemma getparams_loop_middle:
  assumes "is_middle w" "n < 14"
  shows "getparams_loop (str_stream (SPC # w @ SPC # r)) n acc
      = getparams_loop (str_stream (SPC # r)) (Suc n) (acc @ [w])"
    and "getparams_loop (str_stream (SPC # w)) n acc
      = getparams_loop (hit_eof (str_stream [])) (Suc n) (acc @ [w])"
proof -
  obtain c cs where w: "w = c # cs" using assms(1) by (cases w) (auto simp: is_middle_def)
  have c: "c \<noteq> CHR '':''" using assms(1) w is_middle_not_colon by simp
  show "getparams_loop (str_stream (SPC # w @ SPC # r)) n acc
      = getparams_loop (str_stream (SPC # r)) (Suc n) (acc @ [w])"
    using assms(2) c getmiddle_read(2) [OF assms(1), of r "[]"]
    by (subst getparams_loop.simps) (simp add: w)
  show "getparams_loop (str_stream (SPC # w)) n acc
      = getparams_loop (hit_eof (str_stream [])) (Suc n) (acc @ [w])"
    using assms(2) c getmiddle_read(1) [OF assms(1), of "[]"]
    by (subst getparams_loop.simps) (simp add: w)
qed

lemma getparams_loop_trailing:
  assumes t: "is_trailing t"
  shows "list_all is_middle ms \<Longrightarrow> n + length ms \<le> 14 \<Longrightarrow>
    getparams_loop (str_stream (middles_text ms @ SPC # CHR '':'' # t)) n acc =
      (if n + length ms < 14 then Inl (str_stream [], acc @ ms, t)
       else Inr (str_stream (SPC # CHR '':'' # t), 14, acc @ ms))"
proof (induction ms arbitrary: n acc)
  case Nil
  then show ?case
    by (subst getparams_loop.simps) (auto simp: gettrailing_all [OF t])
next
  case (Cons w ms)
  have r: "middles_text ms @ SPC # CHR '':'' # t = SPC # tl (middles_text ms @ SPC # CHR '':'' # t)"
    by (cases ms) simp_all
  have "getparams_loop (str_stream (SPC # w @ middles_text ms @ SPC # CHR '':'' # t)) n acc
      = getparams_loop (str_stream (middles_text ms @ SPC # CHR '':'' # t)) (Suc n) (acc @ [w])"
    using getparams_loop_middle(1) [of w n "tl (middles_text ms @ SPC # CHR '':'' # t)" acc] Cons.prems
    by (simp flip: r)
  with Cons show ?case by simp
qed

lemma getparams_loop_end:
  "ms \<noteq> [] \<Longrightarrow> list_all is_middle ms \<Longrightarrow> n + length ms \<le> 14 \<Longrightarrow>
    getparams_loop (str_stream (middles_text ms)) n acc =
      (if n + length ms < 14 then Inr (set_fail (hit_eof (str_stream [])), n + length ms, acc @ ms)
       else Inr (hit_eof (str_stream []), 14, acc @ ms))"
proof (induction ms arbitrary: n acc)
  case (Cons w ms)
  show ?case
  proof (cases ms)
    case Nil
    then show ?thesis
      using Cons.prems getparams_loop_middle(2) [of w n acc]
      by simp (auto simp: getparams_loop.simps [of "hit_eof x" for x] stream_simps)
  next
    case (Cons v vs)
    then show ?thesis
      using Cons.prems Cons.IH [of "Suc n" "acc @ [w]"]
        getparams_loop_middle(1) [of w n "v @ middles_text vs" acc] by simp
  qed
qed simp

lemma getparams_trailing:
  assumes "list_all is_middle ms" "length ms \<le> 14" "is_trailing t"
  shows "getparams (str_stream (middles_text ms @ SPC # CHR '':'' # t)) = (str_stream [], ms, t)"
  using getparams_loop_trailing [OF assms(3,1), of 0 "[]"] assms
  by (simp add: getparams_def gettrailing_all)

lemma getparams_no_trailing:
  assumes "list_all is_middle ms" "length ms \<le> 14" "ms \<noteq> []"
  shows "\<exists>is. getparams (str_stream (middles_text ms)) = (is, ms, []) \<and> \<not> ok is"
  using getparams_loop_end [OF assms(3,1), of 0 "[]"] assms
  by (simp add: getparams_def stream_simps)

text \<open>C13: Reading back a parameter list.  For up to fourteen middles that fit the RFC grammar and a
  trailing parameter without NUL, CR or LF, \<open>get_params\<close> returns exactly the middles followed by
  the trailing parameter, and the accessors return each part.\<close>

theorem params_round_trip:
  assumes "msg_params m = middles_text ms @ SPC # CHR '':'' # t"
    and "list_all is_middle ms" "length ms \<le> 14" "is_trailing t"
  shows "get_params m = ms @ [t] \<and> get_middles m = ms \<and> get_trailing m = t"
  using getparams_trailing [OF assms(2-4)] assms(1)
  by (simp add: get_params_def get_middles_def get_trailing_def get_params_mt_def)

theorem params_round_trip_witness:
  "get_params (new_message\<lparr>msg_params := '' #chan :hello world''\<rparr>) = [''#chan'', ''hello world'']"
  using params_round_trip [of "new_message\<lparr>msg_params := '' #chan :hello world''\<rparr>"
      "[''#chan'']" "''hello world''"]
  by (simp add: SPC_def is_middle_def is_trailing_def nospcrlfcl_def nospcrlf_def nocrlf_def char_consts)

text \<open>Without a trailing parameter \<open>get_params\<close> returns the middles alone, because the second
  \<open>peek\<close> at the end of the stream sets \<open>failbit\<close> and the empty trailing string is then not added.\<close>

theorem params_without_trailing:
  assumes "msg_params m = middles_text ms" and "list_all is_middle ms" "length ms \<le> 14" "ms \<noteq> []"
  shows "get_params m = ms \<and> get_trailing m = []"
  using getparams_no_trailing [OF assms(2-4)] assms(1)
  by (auto simp: get_params_def get_trailing_def get_params_mt_def)

theorem params_without_trailing_witness:
  "get_params (new_message\<lparr>msg_params := '' #chan +o nick''\<rparr>) = [''#chan'', ''+o'', ''nick'']"
  using params_without_trailing [of "new_message\<lparr>msg_params := '' #chan +o nick''\<rparr>"
      "[''#chan'', ''+o'', ''nick'']"]
  by (simp add: SPC_def is_middle_def nospcrlfcl_def nospcrlf_def char_consts)

subsection \<open>Whatever is read fits the grammar\<close>

lemma getmiddle_loop_sound:
  "getmiddle_loop is m = (is', m') \<Longrightarrow> ok is' \<Longrightarrow> \<exists>w. m' = m @ w \<and> set w \<inter> set nospcrlf = {}"
proof (induction "is" m rule: getmiddle_loop.induct)
  case (1 str m)
  obtain p is1 where pk: "peek str = (p, is1)" by fastforce
  obtain c is2 where g: "get_ch is1 = (c, is2)" by fastforce
  show ?case
  proof (cases "\<not> ok str \<or> p = None \<or> in_set nospcrlf p")
    case True
    with "1.prems" pk show ?thesis
      by (subst (asm) getmiddle_loop.simps) (auto split: if_splits)
  next
    case False
    then obtain x where p: "p = Some x" "x \<notin> set nospcrlf" by auto
    from pk p(1) have "c = Some x"
      using g by (auto simp: peek_def get_ch_def split: if_splits list.splits)
    moreover have "getmiddle_loop is2 (m @ [x]) = (is', m')"
      using "1.prems"(1) False pk g \<open>c = Some x\<close> p by (subst (asm) getmiddle_loop.simps) simp
    ultimately obtain w where "m' = (m @ [x]) @ w" "set w \<inter> set nospcrlf = {}"
      using "1.IH" "1.prems"(2) False p pk g by fastforce
    then show ?thesis using p(2) by (intro exI [of _ "x # w"]) simp
  qed
qed

lemma getmiddle_sound: "getmiddle is m = (is', m') \<Longrightarrow> ok is' \<Longrightarrow> is_middle m'"
proof -
  assume e: "getmiddle is m = (is', m')" and k: "ok is'"
  obtain p is1 where pk: "(if ok is then peek is else (None, is)) = (p, is1)" by fastforce
  obtain c is2 where g: "get_ch is1 = (c, is2)" by fastforce
  have l: "\<not> (ok is \<and> in_set nospcrlfcl p)" "getmiddle_loop is2 [byte_of c] = (is', m')"
    using e k unfolding getmiddle_def pk by (auto simp: g split: if_splits)
  have "c \<noteq> None"
  proof
    assume "c = None"
    then have "\<not> ok is2" using g by (auto simp: get_ch_def split: if_splits list.splits)
    with l(2) k show False by (simp add: getmiddle_loop.simps)
  qed
  then obtain x where x: "c = Some x" by auto
  then have "ok is" "p = Some x"
    using pk g by (auto simp: peek_def get_ch_def good_def ok_def set_fail_def split: if_splits list.splits)
  with l(1) have "x \<notin> set nospcrlfcl" by simp
  moreover obtain w where "m' = [x] @ w" "set w \<inter> set nospcrlf = {}"
    using getmiddle_loop_sound [OF l(2) k] x by (auto simp: byte_of_def)
  ultimately show ?thesis by (simp add: is_middle_def)
qed

definition middles_ok :: "nat \<Rightarrow> string list \<Rightarrow> bool" where
  "middles_ok n ms = (list_all is_middle ms \<and> length ms = n \<and> n \<le> 14)"

lemma getparams_loop_sound:
  "middles_ok n ms \<Longrightarrow>
    (case getparams_loop is n ms of
       Inl (is', ms', t) \<Rightarrow> middles_ok (length ms') ms'
     | Inr (is', n', ms') \<Rightarrow> middles_ok n' ms')"
proof (induction "is" n ms rule: getparams_loop.induct)
  case (1 str n ms)
  obtain p is1 where pk: "peek str = (p, is1)" by fastforce
  obtain c is2 where g: "get_ch is1 = (c, is2)" by fastforce
  obtain q is3 where pk3: "peek is2 = (q, is3)" by fastforce
  obtain is4 w where gm: "getmiddle is3 [] = (is4, w)" by fastforce
  obtain is5 t where gt: "gettrailing (snd (get_ch is3)) = (is5, t)" by fastforce
  show ?case
  proof (cases "ok str \<and> n < 14 \<and> p = Some SPC \<and> c \<noteq> None")
    case False
    with "1.prems" show ?thesis
      by (subst getparams_loop.simps) (auto simp: pk g middles_ok_def)
  next
    case True
    then obtain x where c: "c = Some x" by auto
    show ?thesis
    proof (cases "q = Some (CHR '':'') \<and> fst (get_ch is3) \<noteq> None")
      case True
      with \<open>ok str \<and> n < 14 \<and> p = Some SPC \<and> c \<noteq> None\<close> "1.prems" show ?thesis
        by (subst getparams_loop.simps) (auto simp: pk g c pk3 gt middles_ok_def)
    next
      case False
      have step: "getparams_loop str n ms = (if ok is4 then getparams_loop is4 (Suc n) (ms @ [w])
          else getparams_loop is4 n ms)"
        using True False by (subst getparams_loop.simps) (auto simp: pk g c pk3 gm)
      show ?thesis
      proof (cases "ok is4")
        case k: True
        have "middles_ok (Suc n) (ms @ [w])"
          using "1.prems" True getmiddle_sound [OF gm k] by (auto simp: middles_ok_def)
        with "1.IH"(1) True False pk g c pk3 gm k step show ?thesis by auto
      next
        case k: False
        then have "getparams_loop is4 n ms = Inr (is4, n, ms)" by (subst getparams_loop.simps) simp
        with "1.prems" step k show ?thesis by simp
      qed
    qed
  qed
qed

text \<open>Whatever the server sends as parameters, the middles the parser returns are at most
  fourteen, none is empty, none starts with a colon and none holds a NUL, CR, LF or space.\<close>

theorem get_middles_sound: "list_all is_middle (get_middles m) \<and> length (get_middles m) \<le> 14"
proof -
  have "middles_ok 0 []" by (simp add: middles_ok_def)
  note s = getparams_loop_sound [OF this, of "str_stream (msg_params m)"]
  show ?thesis using s
    by (auto simp: get_middles_def get_params_mt_def getparams_def middles_ok_def
        split: sum.splits prod.splits if_splits)
qed

subsection \<open>Lines\<close>

definition plain_word :: "string \<Rightarrow> bool" where
  "plain_word w = (w \<noteq> [] \<and> list_all (\<lambda>c. \<not> isspace c) w)"

lemma read_plain_word:
  assumes "plain_word w"
  shows "read_word x (str_stream (w @ SPC # r)) = (w, str_stream (SPC # r))"
    and "read_word x (str_stream (SPC # w @ SPC # r)) = (w, str_stream (SPC # r))"
  using assms read_word_found [of "str_stream (w @ SPC # r)" "[]" w SPC r x]
    read_word_found [of "str_stream (SPC # w @ SPC # r)" "[SPC]" w SPC r x]
  by (simp_all add: plain_word_def list_all_iff)

lemma getline_params:
  "LF \<notin> set pars \<Longrightarrow> getline LF x (str_stream (SPC # pars)) = (SPC # pars, hit_eof (str_stream []))"
  using getline_last [of "str_stream (SPC # pars)" LF x] by (simp add: SPC_def LF_def hit_eof_def)

text \<open>A line \<open>:prefix command params\<close> with any white space after it (the CR or CR LF the server
  ends it with) is split into exactly these three fields, and the stored line is the line without
  its end.\<close>

theorem parse_prefixed_line:
  assumes "trims h" "plain_word pre" "plain_word cmd"
    and "LF \<notin> set pars" "pars \<noteq> []" "\<not> isspace (last pars)" "\<forall>c\<in>set eol. isspace c"
    and "text = CHR '':'' # pre @ SPC # cmd @ SPC # pars"
  shows "parse h now (text @ eol) m = (True, m\<lparr>msg_line := text, msg_when := now,
           msg_prefix := pre, msg_command := cmd, msg_params := SPC # pars\<rparr>)"
proof -
  have "last text = last pars" "text \<noteq> []" using assms(5,8) by simp_all
  with assms(1,6,7) have r: "h_trim_right h (text @ eol) = text"
    by (simp add: trims_def rtrim_append)
  show ?thesis
    using assms(5,8) r read_plain_word(1) [OF assms(2)] read_plain_word(2) [OF assms(3)]
    by (simp add: parse_def Let_def getline_params [OF assms(4)])
qed

theorem parse_prefixed_line_witness:
  "parse hol_ref 7 ('':a!b@c PING :x'' @ [CR, LF]) new_message
     = (True, \<lparr>msg_line = '':a!b@c PING :x'', msg_when = 7, msg_prefix = ''a!b@c'',
          msg_command = ''PING'', msg_params = '' :x''\<rparr>)"
  using parse_prefixed_line [OF hol_ref_ok(2), of "''a!b@c''" "''PING''" "'':x''" "[CR, LF]" "'':a!b@c PING :x''" 7 new_message]
  by (simp add: plain_word_def isspace_def char_consts new_message_def)

text \<open>A line with a command and nothing after it is legal IRC (and the comment in \<open>parse\<close> says
  the parameters are optional), but \<open>parse\<close> rejects it: reading the command already meets the end
  of the stream, so the \<open>getline\<close> of the parameters fails.\<close>

theorem parse_rejects_bare_command:
  assumes "trims h" "plain_word cmd" "hd cmd \<noteq> CHR '':''" "\<forall>c\<in>set eol. isspace c"
  shows "\<not> fst (parse h now (cmd @ eol) m) \<and> msg_command (snd (parse h now (cmd @ eol) m)) = cmd"
proof -
  obtain c cs where c: "cmd = c # cs" using assms(2) by (cases cmd) (auto simp: plain_word_def)
  have "\<not> isspace (last cmd)" using assms(2) c by (auto simp: plain_word_def list_all_iff)
  with assms(1) c rtrim_append [OF assms(4), of cmd] have r: "h_trim_right h (cmd @ eol) = cmd"
    by (simp add: trims_def)
  have w: "read_word x (str_stream cmd) = (cmd, hit_eof (str_stream []))" for x
    using read_word_last [of "str_stream cmd" "[]" cmd x] assms(2)
    by (simp add: plain_word_def list_all_iff)
  have "peek (str_stream cmd) = (Some c, str_stream cmd)" "c \<noteq> CHR '':''" using assms(3) c by simp_all
  with r w c show ?thesis by (simp add: parse_def Let_def stream_simps)
qed

theorem parse_rejects_bare_command_witness:
  "\<not> fst (parse hol_ref 0 (''QUIT'' @ [CR, LF]) new_message)"
  using parse_rejects_bare_command [OF hol_ref_ok(2), of "''QUIT''" "[CR, LF]" 0 new_message]
  by (simp add: plain_word_def isspace_def char_consts)

subsection \<open>The parts of a prefix\<close>

lemma is_nick_chars: "is_nick n \<Longrightarrow> c \<in> set n \<Longrightarrow> isalnum c \<or> c \<in> set bnf_special \<or> c = CHR ''-''"
  by (auto simp: is_nick_def list_all_iff split: list.splits if_splits)

lemma is_nick_no_seps: "is_nick n \<Longrightarrow> CHR ''!'' \<notin> set n \<and> CHR ''@'' \<notin> set n"
  using is_nick_chars [of n "CHR ''!''"] is_nick_chars [of n "CHR ''@''"]
  by (auto simp: isalnum_def isalpha_def isdigit_def code_def bnf_special_def BSL_def NUL_def)

lemma is_user_no_at: "is_user u \<Longrightarrow> CHR ''@'' \<notin> set u"
  by (auto simp: is_user_def list_all_iff nospcrlfat_def)

text \<open>For a prefix \<open>nick!user@host\<close> with a legal nick and user, the accessors return the three
  parts, \<open>get_userhost\<close> the text after the \<open>!\<close>, and \<open>get_servername\<close> nothing.\<close>

theorem prefix_parts:
  assumes "msg_prefix m = nick @ CHR ''!'' # user @ CHR ''@'' # host"
    and "is_nick nick" "is_user user" "host \<noteq> []"
  shows "get_nickname m = nick \<and> get_user m = user \<and> get_host m = host \<and>
    get_userhost m = user @ CHR ''@'' # host \<and> get_servername m = []"
proof -
  note n = is_nick_no_seps [OF assms(2)] and u = is_user_no_at [OF assms(3)]
  let ?p = "nick @ CHR ''!'' # user @ CHR ''@'' # host"
  have b: "find_ch (CHR ''!'') ?p = Some (length nick)" using n by simp
  have "find_ch (CHR ''@'') ((nick @ CHR ''!'' # user) @ CHR ''@'' # host) = Some (length (nick @ CHR ''!'' # user))"
    using n u by (intro find_ch_append) simp
  then have a: "find_ch (CHR ''@'') ?p = Some (length nick + length user + 1)" by simp
  have d: "drop (length nick + 1) ?p = user @ CHR ''@'' # host"
    "drop (length nick + length user + 2) ?p = host" by simp_all
  show ?thesis
    unfolding get_nickname_def get_user_def get_host_def get_userhost_def get_servername_def
      assms(1) a b option.case substr_def substr_from_def
    using assms(2-4) d by (simp add: allow_nick_def allow_user_def)
qed

theorem prefix_parts_witness:
  "get_user (new_message\<lparr>msg_prefix := ''MyNick!~User@server.com''\<rparr>) = ''~User''"
  using prefix_parts [of "new_message\<lparr>msg_prefix := ''MyNick!~User@server.com''\<rparr>" "''MyNick''" "''~User''" "''server.com''"]
  by (simp add: is_nick_def is_user_def bnf_special_def nospcrlfat_def char_consts isalnum_def
      isalpha_def isdigit_def code_def)

text \<open>The NUL that \<open>sizeof\<close> adds to \<open>bnf_special\<close> makes NUL a legal first character of a nick,
  against the grammar quoted in \<open>get_nickname\<close>.\<close>

theorem is_nick_accepts_NUL: "is_nick (NUL # ''x'')"
  by (simp add: is_nick_def bnf_special_def isalnum_def isalpha_def code_def char_consts)

text \<open>A reply goes to the channel for a line said in a channel, and otherwise to the sender, whose
  nick is empty when the prefix does not start with a legal nick.\<close>

theorem reply_to_cases:
  "reply_to m = (if (\<exists>ps cs. get_params m = (CHR ''#'' # cs) # ps) then hd (get_params m) else get_nickname m)"
  by (auto simp: reply_to_def from_channel_def get_to_def split: list.splits)

subsection \<open>Serialization\<close>

text \<open>Parsing at another time gives the same message with that time in it.\<close>

lemma parsemsg_when:
  assumes "parsemsg h now l m = (r, m1)" "l \<noteq> []"
  shows "parsemsg h now' l m = (r, m1\<lparr>msg_when := now'\<rparr>)"
  using assms by (auto simp: parsemsg_def parse_def Let_def split: prod.splits if_splits)

text \<open>C24: Serializing a parsed message and reading it back into a fresh message, at any later time, gives the
  same line, prefix, command and parameters, and leaves the stream just after it; the time in it is the time
  of the reading and not the one it was parsed at.\<close>

theorem message_round_trip:
  assumes "replaces_all h" "trims h" and "parsemsg h now l new_message = (True, m)"
  shows "read_message h now' (str_stream (write_message h m @ r)) new_message = (m\<lparr>msg_when := now'\<rparr>, str_stream r)"
proof -
  have l: "l \<noteq> []" and ml: "msg_line m = h_trim_right h l"
    using assms(3) by (auto simp: parsemsg_def parse_def Let_def split: if_splits prod.splits)
  have ne: "h_trim_right h l \<noteq> []"
  proof
    assume "h_trim_right h l = []"
    with assms(3) l show False
      by (auto simp: parsemsg_def parse_def Let_def stream_simps read_word_def split: prod.splits if_splits)
  qed
  have "parsemsg h now (h_trim_right h l) new_message = (True, m)"
    using assms(2,3) l ne by (simp add: parsemsg_def parse_def trims_def)
  note same = parsemsg_when [OF this ne, of now']
  have "getobject (str_stream (write_message h m @ r)) [] = (escape h (msg_line m), str_stream r)"
    using getobject_braced [OF nest_escape [OF assms(1), of 1 "msg_line m"], of "str_stream (write_message h m @ r)" r "[]"]
    by (simp add: write_message_def escaped_def)
  then show ?thesis
    using same by (simp add: read_message_def unescaped_def unescape_escape [OF assms(1)] ml)
qed

theorem message_round_trip_witness:
  "read_message hol_ref 9 (str_stream (write_message hol_ref (snd (parsemsg hol_ref 1 ''PING :{a}'' new_message)) @ ''z'')) new_message
     = ((snd (parsemsg hol_ref 1 ''PING :{a}'' new_message))\<lparr>msg_when := 9\<rparr>, str_stream ''z'')"
proof -
  have "fst (parsemsg hol_ref 1 ''PING :{a}'' new_message)" by code_simp
  then have "parsemsg hol_ref 1 ''PING :{a}'' new_message
      = (True, snd (parsemsg hol_ref 1 ''PING :{a}'' new_message))"
    by (cases "parsemsg hol_ref 1 ''PING :{a}'' new_message") simp
  from message_round_trip [OF hol_ref_ok(1,2) this] show ?thesis .
qed

end
