(* ===== verification/Kv_Store.thy ===== *)
theory Kv_Store
  imports Prelude
begin

text \<open>
  The interface of a key-value store with a vector of strings per key: what its clients (the
  bot, the plugins) call, and the laws they rely on.  \<open>same s\<close> tells when two keys name the same
  entry, \<open>legal\<close> which keys and values the store can hold, \<open>inv\<close> is its invariant and \<open>reopen\<close>
  forgets the memory and reads the persistent form again.
\<close>

locale kv_store =
  fixes vec :: "'s \<Rightarrow> string \<Rightarrow> string list"
    and same :: "'s \<Rightarrow> string \<Rightarrow> string \<Rightarrow> bool"
    and legal :: "string \<Rightarrow> string \<Rightarrow> bool"
    and inv :: "'s \<Rightarrow> bool"
    and app :: "string \<Rightarrow> string \<Rightarrow> 's \<Rightarrow> 's"
    and clr :: "string \<Rightarrow> 's \<Rightarrow> 's"
  assumes inv_app: "inv s \<Longrightarrow> legal k v \<Longrightarrow> inv (app k v s)"
    and inv_clr: "inv s \<Longrightarrow> legal k v \<Longrightarrow> inv (clr k s)"
    and same_app: "same (app k v s) = same s"
    and same_clr: "same (clr k s) = same s"
    and same_refl: "same s k k"
    and same_vec: "inv s \<Longrightarrow> same s k k' \<Longrightarrow> vec s k = vec s k'"
    and vec_app: "inv s \<Longrightarrow> vec (app k v s) k' = (if same s k k' then vec s k' @ [v] else vec s k')"
    and vec_clr: "inv s \<Longrightarrow> vec (clr k s) k' = (if same s k k' then [] else vec s k')"
begin

definition fill :: "string \<Rightarrow> string list \<Rightarrow> 's \<Rightarrow> 's" where
  "fill k vs s = fold (app k) vs s"

lemma inv_fill: "inv s \<Longrightarrow> list_all (legal k) vs \<Longrightarrow> inv (fill k vs s)"
  unfolding fill_def by (induction vs arbitrary: s) (simp_all add: inv_app)

lemma vec_fill:
  "inv s \<Longrightarrow> list_all (legal k) vs \<Longrightarrow>
    vec (fill k vs s) k' = (if same s k k' then vec s k' @ vs else vec s k')"
  unfolding fill_def
  by (induction vs arbitrary: s) (auto simp: inv_app vec_app same_app)

text \<open>Clearing a key and adding values one by one sets it to exactly these values.\<close>

lemma vec_replace:
  "inv s \<Longrightarrow> legal k [] \<Longrightarrow> list_all (legal k) vs \<Longrightarrow>
    vec (fill k vs (clr k s)) k' = (if same s k k' then vs else vec s k')"
  by (simp add: vec_fill inv_clr vec_clr same_clr)

end

text \<open>A store whose contents survive a restart.\<close>

locale durable_store = kv_store vec same legal inv app clr
  for vec :: "'s \<Rightarrow> string \<Rightarrow> string list" and same legal inv app clr +
  fixes reopen :: "'s \<Rightarrow> 's"
  assumes vec_reopen: "inv s \<Longrightarrow> vec (reopen s) k = vec s k"
    and inv_reopen: "inv s \<Longrightarrow> inv (reopen s)"
begin

lemma reopen_fill:
  "inv s \<Longrightarrow> list_all (legal k) vs \<Longrightarrow> same s k k' \<Longrightarrow>
    vec (reopen (fill k vs s)) k' = vec s k' @ vs"
  by (simp add: vec_reopen inv_fill vec_fill)

end

end
