(* ===== verification/Stores.thy ===== *)
theory Stores
  imports Streams Std_Map Hol_Lib Kv_Store
begin

unbundle bit_operations_syntax

text \<open>
  \<open>store.h\<close>: the comparator of the keys, \<open>Store\<close>, \<open>MappedStore\<close> and \<open>BackupStore\<close>, the store the
  bot uses.  A file is its content and whether it can be opened for writing; a write that
  throws returns the error beside the state it leaves.  Regular expressions (\<open>std::regex\<close>) and
  \<open>fnmatch\<close> are arguments.
\<close>

record disk_file =
  f_content :: "string option"
  f_writable :: bool

datatype store_error = Unable_To_Save

record matchers =
  m_regex :: "bool \<Rightarrow> string \<Rightarrow> string \<Rightarrow> bool \<Rightarrow> bool"
    \<comment> \<open>icase, regular expression, subject, whole match\<close>
  m_fnmatch :: "nat \<Rightarrow> string \<Rightarrow> string \<Rightarrow> bool"
    \<comment> \<open>flags, pattern, subject\<close>

definition FNM_PATHNAME :: nat where "FNM_PATHNAME = 1"
definition FNM_CASEFOLD :: nat where "FNM_CASEFOLD = 16"
definition FNM_EXTMATCH :: nat where "FNM_EXTMATCH = 32"

subsection \<open>The comparator\<close>

definition ci_type :: "char \<Rightarrow> char \<Rightarrow> bool" where
  "ci_type a b = (schar (tolower a) < schar (tolower b))"

definition ci_cmp :: "bool \<Rightarrow> string \<Rightarrow> string \<Rightarrow> bool" where
  "ci_cmp ci a b = (if ci then lex_lt ci_type a b else str_lt a b)"

lemma comparator_ci_type: "comparator ci_type"
  by unfold_locales (auto simp: ci_type_def)

lemma comparator_ci_cmp: "comparator (ci_cmp ci)"
proof (cases ci)
  case True
  then have "ci_cmp ci = lex_lt ci_type" by (simp add: ci_cmp_def fun_eq_iff)
  with comparator_lex [OF comparator_ci_type] show ?thesis by simp
next
  case False
  then have "ci_cmp ci = str_lt" by (simp add: ci_cmp_def fun_eq_iff)
  with str_cmp.comparator_axioms show ?thesis by simp
qed

interpretation key_cmp: comparator "ci_cmp ci" for ci
  by (rule comparator_ci_cmp)

text \<open>Two keys name the same entry: up to case when the store is case insensitive.\<close>

definition same_key :: "bool \<Rightarrow> string \<Rightarrow> string \<Rightarrow> bool" where
  "same_key ci a b = (if ci then map tolower a = map tolower b else a = b)"

lemma list_all2_ci:
  "list_all2 (\<lambda>x y. \<not> ci_type x y \<and> \<not> ci_type y x) a b \<longleftrightarrow> map tolower a = map tolower b"
  by (induction a arbitrary: b) (auto simp: list_all2_Cons1 ci_type_def map_eq_Cons_conv schar_inj
      not_less intro: antisym dest: antisym simp flip: schar_inj)

lemma eqv_same_key [simp]: "key_cmp.eqv ci a b \<longleftrightarrow> same_key ci a b"
proof (cases ci)
  case True
  then show ?thesis
    using lex_eqv [OF comparator_ci_type, of a b] list_all2_ci [of a b]
    by (simp add: key_cmp.eqv_def ci_cmp_def same_key_def)
next
  case False
  then show ?thesis
    using str_cmp.total str_cmp.irrefl by (auto simp: key_cmp.eqv_def ci_cmp_def same_key_def)
qed

lemma same_key_refl [simp]: "same_key ci a a"
  by (simp add: same_key_def)

subsection \<open>\<open>MappedStore\<close>\<close>

type_synonym str_vec_map = "(string, string list) cmap"

record mapped_store =
  ms_store :: str_vec_map
  ms_ci :: bool

text \<open>\<open>store[k].push_back(v)\<close>.\<close>

definition push_back :: "(string \<Rightarrow> string \<Rightarrow> bool) \<Rightarrow> string \<Rightarrow> string \<Rightarrow> str_vec_map \<Rightarrow> str_vec_map" where
  "push_back lt k v m = cm_set lt k (cm_at lt [] k m @ [v]) m"

definition replace_store :: "bool \<Rightarrow> str_vec_map \<Rightarrow> str_vec_map" where
  "replace_store ci old =
     fold (\<lambda>p m. fold (\<lambda>e m. push_back (ci_cmp ci) (fst p) e m) (snd p) m) old []"

definition case_insensitive :: "bool \<Rightarrow> 'a mapped_store_scheme \<Rightarrow> 'a mapped_store_scheme" where
  "case_insensitive ci s =
     (if ms_ci s = ci then s else s\<lparr>ms_store := replace_store ci (ms_store s), ms_ci := ci\<rparr>)"

definition store_regex_match ::
  "matchers \<Rightarrow> 'a mapped_store_scheme \<Rightarrow> string \<Rightarrow> string \<Rightarrow> bool \<Rightarrow> bool" where
  "store_regex_match mt s r subj full = m_regex mt (ms_ci s) r subj full"

definition store_wild_match ::
  "matchers \<Rightarrow> 'a mapped_store_scheme \<Rightarrow> string \<Rightarrow> string \<Rightarrow> nat \<Rightarrow> bool" where
  "store_wild_match mt s w subj flags =
     (let flags1 = (if ms_ci s then flags OR FNM_CASEFOLD else flags)
      in m_fnmatch mt (flags1 OR FNM_EXTMATCH) w subj)"

definition ci_fix :: "hol \<Rightarrow> bool \<Rightarrow> string \<Rightarrow> string" where
  "ci_fix h ci s = (if ci then h_lower h s else s)"

subsection \<open>\<open>BackupStore\<close>\<close>

record backup_store = mapped_store +
  bs_file :: disk_file

text \<open>One line of the file; \<open>pos\<close> in the code is the position after the colon.\<close>

definition load_line :: "bool \<Rightarrow> string \<Rightarrow> str_vec_map \<Rightarrow> str_vec_map" where
  "load_line ci line m =
     (case find_ch (CHR '':'') line of
        None \<Rightarrow> m
      | Some p \<Rightarrow>
          push_back (ci_cmp ci) (substr line 0 p)
            (substr_from line (min (p + 1 + 1) (length line))) m)"

function load_lines :: "bool \<Rightarrow> string \<Rightarrow> istream \<Rightarrow> str_vec_map \<Rightarrow> str_vec_map" where
  "load_lines ci line ifs m =
     (case getline LF line ifs of (line1, ifs1) \<Rightarrow>
        if ok ifs1 then load_lines ci line1 ifs1 (load_line ci line1 m) else m)"
  by pat_completeness auto
termination
  by (relation "measure (\<lambda>(ci, l, ifs, m). length (buf ifs))") (auto dest!: getline_length [OF sym])

declare load_lines.simps [simp del]

definition load :: "backup_store \<Rightarrow> backup_store" where
  "load s =
     s\<lparr>ms_store :=
        (case f_content (bs_file s) of
           None \<Rightarrow> []
         | Some t \<Rightarrow> load_lines (ms_ci s) [] (str_stream t) [])\<rparr>"

definition entry_text :: "string \<times> string list \<Rightarrow> string" where
  "entry_text p = concat (map (\<lambda>v. fst p @ '': '' @ v @ [LF]) (snd p))"

definition save :: "backup_store \<Rightarrow> store_error option \<times> backup_store" where
  "save s =
     (if f_writable (bs_file s)
      then (None, s\<lparr>bs_file := (bs_file s)\<lparr>f_content := Some (concat (map entry_text (ms_store s)))\<rparr>\<rparr>)
      else (Some Unable_To_Save, s))"

definition ensure_loaded :: "backup_store \<Rightarrow> backup_store" where
  "ensure_loaded s = (if ms_store s = [] then load s else s)"

definition reload :: "backup_store \<Rightarrow> backup_store" where
  "reload s = load s"

text \<open>The constructor reads the file and writes it back.\<close>

definition open_store :: "disk_file \<Rightarrow> store_error option \<times> backup_store" where
  "open_store f = save (reload \<lparr>ms_store = [], ms_ci = False, bs_file = f\<rparr>)"

definition get_keys_if_sreg :: "matchers \<Rightarrow> string \<Rightarrow> backup_store \<Rightarrow> string cset \<times> backup_store" where
  "get_keys_if_sreg mt reg s =
     (let s1 = ensure_loaded s
      in (cs_of_list str_lt (filter (\<lambda>k. store_regex_match mt s1 reg k False) (map fst (ms_store s1))), s1))"

definition get_keys_if_wild :: "matchers \<Rightarrow> string \<Rightarrow> backup_store \<Rightarrow> string cset \<times> backup_store" where
  "get_keys_if_wild mt wld s =
     (let s1 = ensure_loaded s
      in (cs_of_list str_lt (filter (\<lambda>k. store_wild_match mt s1 wld k 0) (map fst (ms_store s1))), s1))"

definition get_keys :: "backup_store \<Rightarrow> string cset \<times> backup_store" where
  "get_keys s = (let s1 = ensure_loaded s in (cs_of_list str_lt (map fst (ms_store s1)), s1))"

definition has_key :: "string \<Rightarrow> backup_store \<Rightarrow> bool \<times> backup_store" where
  "has_key k s =
     (let s1 = ensure_loaded s in (cm_find (ci_cmp (ms_ci s1)) k (ms_store s1) \<noteq> None, s1))"

text \<open>\<open>store[k]\<close> inserts an empty vector for a key that is not there.\<close>

definition touch_key :: "string \<Rightarrow> backup_store \<Rightarrow> backup_store" where
  "touch_key k s = s\<lparr>ms_store := cm_touch (ci_cmp (ms_ci s)) [] k (ms_store s)\<rparr>"

definition vec_at :: "string \<Rightarrow> 'a mapped_store_scheme \<Rightarrow> string list" where
  "vec_at k s = cm_at (ci_cmp (ms_ci s)) [] k (ms_store s)"

definition put_vec :: "string \<Rightarrow> string list \<Rightarrow> backup_store \<Rightarrow> backup_store" where
  "put_vec k v s = s\<lparr>ms_store := cm_set (ci_cmp (ms_ci s)) k v (ms_store s)\<rparr>"

definition get_at :: "string \<Rightarrow> nat \<Rightarrow> string \<Rightarrow> backup_store \<Rightarrow> string \<times> backup_store" where
  "get_at k n dflt s =
     (let s1 = touch_key k (ensure_loaded s)
      in ((if length (vec_at k s1) < n + 1 then dflt else vec_at k s1 ! n), s1))"

definition get :: "string \<Rightarrow> string \<Rightarrow> backup_store \<Rightarrow> string \<times> backup_store" where
  "get k dflt s = get_at k 0 dflt s"

definition get_vec :: "string \<Rightarrow> backup_store \<Rightarrow> string list \<times> backup_store" where
  "get_vec k s = (let s1 = touch_key k (ensure_loaded s) in (vec_at k s1, s1))"

definition get_set :: "string \<Rightarrow> backup_store \<Rightarrow> string cset \<times> backup_store" where
  "get_set k s = (case get_vec k s of (v, s1) \<Rightarrow> (cs_of_list str_lt v, s1))"

definition get_sreg_vec_with_key ::
  "matchers \<Rightarrow> string \<Rightarrow> string \<Rightarrow> backup_store \<Rightarrow> string list \<times> backup_store" where
  "get_sreg_vec_with_key mt k r s =
     (case get_vec k s of (v, s1) \<Rightarrow> (filter (\<lambda>x. store_regex_match mt s1 r x True) v, s1))"

text \<open>The third argument of \<open>wild_match\<close> is the flag word, so \<open>true\<close> is \<open>FNM_PATHNAME\<close>.\<close>

definition get_wild_vec_with_key ::
  "matchers \<Rightarrow> string \<Rightarrow> string \<Rightarrow> backup_store \<Rightarrow> string list \<times> backup_store" where
  "get_wild_vec_with_key mt k w s =
     (case get_vec k s of (v, s1) \<Rightarrow> (filter (\<lambda>x. store_wild_match mt s1 w x 1) v, s1))"

definition clear_store :: "backup_store \<Rightarrow> store_error option \<times> backup_store" where
  "clear_store s = save (s\<lparr>ms_store := []\<rparr>)"

definition clear_key :: "string \<Rightarrow> backup_store \<Rightarrow> store_error option \<times> backup_store" where
  "clear_key k s = save (put_vec k [] (ensure_loaded s))"

definition add :: "string \<Rightarrow> string \<Rightarrow> backup_store \<Rightarrow> store_error option \<times> backup_store" where
  "add k v s = (let s1 = ensure_loaded s in save (put_vec k (vec_at k s1 @ [v]) s1))"

text \<open>\<open>resize(n + 1)\<close> fills with empty strings.\<close>

definition resize :: "nat \<Rightarrow> 'a \<Rightarrow> 'a list \<Rightarrow> 'a list" where
  "resize n d xs = (if n \<le> length xs then take n xs else xs @ replicate (n - length xs) d)"

definition set_nth :: "nat \<Rightarrow> string \<Rightarrow> string list \<Rightarrow> string list" where
  "set_nth n v xs = (if length xs < n + 1 then resize (n + 1) [] xs else xs)[n := v]"

definition set_at :: "string \<Rightarrow> nat \<Rightarrow> string \<Rightarrow> backup_store \<Rightarrow> store_error option \<times> backup_store" where
  "set_at k n v s = (let s1 = ensure_loaded s in save (put_vec k (set_nth n v (vec_at k s1)) s1))"

definition set_key :: "string \<Rightarrow> string \<Rightarrow> backup_store \<Rightarrow> store_error option \<times> backup_store" where
  "set_key k v s = set_at k 0 v s"

text \<open>An exception of \<open>add\<close> ends the loop.\<close>

fun add_all :: "string \<Rightarrow> string list \<Rightarrow> backup_store \<Rightarrow> store_error option \<times> backup_store" where
  "add_all k [] s = (None, s)"
| "add_all k (v # vs) s =
     (case add k v s of (Some e, s1) \<Rightarrow> (Some e, s1) | (None, s1) \<Rightarrow> add_all k vs s1)"

definition set_from :: "string \<Rightarrow> string list \<Rightarrow> backup_store \<Rightarrow> store_error option \<times> backup_store" where
  "set_from k c s =
     (case clear_key k s of (Some e, s1) \<Rightarrow> (Some e, s1) | (None, s1) \<Rightarrow> add_all k c s1)"

text \<open>\<open>get_to<str_vec>\<close>: every value is inserted at \<open>begin()\<close>; \<open>t\<close> lives across the loop.\<close>

fun get_to_loop :: "string list \<Rightarrow> string \<Rightarrow> string list \<Rightarrow> string list" where
  "get_to_loop [] t c = c"
| "get_to_loop (s # vec) t c =
     (case read_word t (str_stream s) of (t1, iss) \<Rightarrow> get_to_loop vec t1 (t1 # c))"

definition get_to_vec :: "string \<Rightarrow> backup_store \<Rightarrow> string list \<times> backup_store" where
  "get_to_vec k s = (case get_vec k s of (vec, s1) \<Rightarrow> (get_to_loop vec [] [], s1))"

subsection \<open>Files and entries\<close>

definition legal_key :: "string \<Rightarrow> bool" where
  "legal_key k = (CHR '':'' \<notin> set k \<and> LF \<notin> set k)"

definition legal_value :: "string \<Rightarrow> bool" where
  "legal_value v = (LF \<notin> set v)"

definition legal_entry :: "string \<Rightarrow> string \<Rightarrow> bool" where
  "legal_entry k v = (legal_key k \<and> legal_value v)"

definition legal_map :: "str_vec_map \<Rightarrow> bool" where
  "legal_map m = (\<forall>p\<in>set m. legal_key (fst p) \<and> list_all legal_value (snd p))"

lemma legal_map_simps [simp]:
  "legal_map []"
  "legal_map ((k, vs) # m) \<longleftrightarrow> legal_key k \<and> list_all legal_value vs \<and> legal_map m"
  by (auto simp: legal_map_def)

lemma load_lines_end: "load_lines ci x (str_stream []) m = m"
  by (subst load_lines.simps) (simp add: stream_simps)

lemma load_lines_line:
  "LF \<notin> set l \<Longrightarrow> load_lines ci x (str_stream (l @ LF # r)) m = load_lines ci l (str_stream r) (load_line ci l m)"
  by (subst load_lines.simps) (simp add: getline_found [where l = l and r = r])

lemma load_line_entry:
  "legal_key k \<Longrightarrow> load_line ci (k @ '': '' @ v) m = push_back (ci_cmp ci) k v m"
  by (simp add: load_line_def legal_key_def substr_def substr_from_def)

lemma load_lines_entry:
  "legal_key k \<Longrightarrow> list_all legal_value vs \<Longrightarrow>
    load_lines ci x (str_stream (entry_text (k, vs) @ r)) m =
    load_lines ci (last (x # map (\<lambda>v. k @ '': '' @ v) vs)) (str_stream r)
      (fold (push_back (ci_cmp ci) k) vs m)"
proof (induction vs arbitrary: x m)
  case Nil
  then show ?case by (simp add: entry_text_def)
next
  case (Cons v vs)
  have lf: "LF \<notin> set (k @ '': '' @ v)"
    using Cons.prems by (auto simp: legal_key_def legal_value_def LF_def)
  have "entry_text (k, v # vs) @ r = (k @ '': '' @ v) @ LF # entry_text (k, vs) @ r"
    by (simp add: entry_text_def)
  then show ?case
    using Cons load_lines_line [OF lf, of ci x "entry_text (k, vs) @ r" m] load_line_entry [of k ci v m]
    by simp
qed

lemma push_back_last:
  "\<forall>b\<in>set m. ci_cmp ci (fst b) k \<Longrightarrow> vs \<noteq> [] \<Longrightarrow>
    fold (push_back (ci_cmp ci) k) vs m = m @ [(k, vs)]"
proof (induction vs rule: rev_induct)
  case (snoc v vs)
  then show ?case
    using key_cmp.irrefl [of ci k]
    by (cases "vs = []") (simp_all add: push_back_def key_cmp.set_append key_cmp.find_append
        key_cmp.set_append [of m ci k _ "[]", simplified] key_cmp.find_append [of m ci k "[]", simplified] cm_at_def)
qed simp

definition drop_empty :: "str_vec_map \<Rightarrow> str_vec_map" where
  "drop_empty m = filter (\<lambda>p. snd p \<noteq> []) m"

lemma load_lines_saved:
  "cm_sorted (ci_cmp ci) (m0 @ m) \<Longrightarrow> legal_map m \<Longrightarrow>
    load_lines ci x (str_stream (concat (map entry_text m))) m0 = m0 @ drop_empty m"
proof (induction m arbitrary: x m0)
  case Nil
  then show ?case by (simp add: load_lines_end drop_empty_def)
next
  case (Cons p m)
  obtain k vs where p: "p = (k, vs)" by (cases p)
  have l: "legal_key k" "list_all legal_value vs" "legal_map m"
    using Cons.prems p by (simp_all add: legal_map_def)
  have s: "cm_sorted (ci_cmp ci) (m0 @ m)" "\<forall>b\<in>set m0. ci_cmp ci (fst b) k"
    using Cons.prems p by (auto simp: cm_sorted_def sorted_wrt_append)
  have s2: "cm_sorted (ci_cmp ci) ((m0 @ [(k, vs)]) @ m)" using Cons.prems p by simp
  show ?case
  proof (cases "vs = []")
    case True
    then show ?thesis
      using Cons.IH [OF s(1) l(3), of x] p by (simp add: entry_text_def drop_empty_def)
  next
    case False
    then show ?thesis
      using Cons.IH [OF s2 l(3)] p load_lines_entry [OF l(1,2), of ci x "concat (map entry_text m)" m0]
        push_back_last [OF s(2) False]
      by (simp add: drop_empty_def)
  qed
qed

lemma at_drop_empty: "cm_sorted (ci_cmp ci) m \<Longrightarrow> cm_at (ci_cmp ci) [] k (drop_empty m) = cm_at (ci_cmp ci) [] k m"
proof (induction m)
  case (Cons p m)
  obtain k1 w where p: "p = (k1, w)" by (cases p)
  have above: "\<forall>b\<in>set m. ci_cmp ci k1 (fst b)" and s: "cm_sorted (ci_cmp ci) m"
    using Cons.prems p by (auto simp: cm_sorted_Cons)
  show ?case
  proof (cases "w = [] \<and> \<not> ci_cmp ci k1 k")
    case True
    then have "\<forall>b\<in>set (drop_empty m). ci_cmp ci k (fst b)"
      using above key_cmp.neg_trans by (fastforce simp: drop_empty_def)
    with True p show ?thesis
      by (simp add: drop_empty_def cm_at_def key_cmp.find_above [of "drop_empty m" ci k, unfolded drop_empty_def])
  next
    case False
    with Cons.IH [OF s] p show ?thesis by (auto simp: drop_empty_def cm_at_def)
  qed
qed (simp add: drop_empty_def)

lemma sorted_load_line: "cm_sorted (ci_cmp ci) m \<Longrightarrow> cm_sorted (ci_cmp ci) (load_line ci l m)"
  by (simp add: load_line_def push_back_def key_cmp.sorted_set split: option.split)

lemma sorted_load_lines: "cm_sorted (ci_cmp ci) m \<Longrightarrow> cm_sorted (ci_cmp ci) (load_lines ci x ifs m)"
proof (induction ci x ifs m rule: load_lines.induct)
  case (1 ci x ifs m)
  then show ?case
    by (subst load_lines.simps) (auto split: prod.splits simp: sorted_load_line)
qed

lemma legal_set:
  "legal_map m \<Longrightarrow> legal_key k \<Longrightarrow> list_all legal_value vs \<Longrightarrow> legal_map (cm_set lt k vs m)"
  by (induction m) auto

lemma legal_at: "legal_map m \<Longrightarrow> list_all legal_value (cm_at lt [] k m)"
  by (induction m) (auto simp: cm_at_def split: option.splits if_splits)

lemma legal_touch: "legal_map m \<Longrightarrow> legal_key k \<Longrightarrow> legal_map (cm_touch lt [] k m)"
  by (simp add: cm_touch_def legal_set split: option.split)

lemma legal_load_line: "legal_map m \<Longrightarrow> LF \<notin> set l \<Longrightarrow> legal_map (load_line ci l m)"
proof -
  assume m: "legal_map m" and l: "LF \<notin> set l"
  show ?thesis
  proof (cases "find_ch (CHR '':'') l")
    case None
    with m show ?thesis by (simp add: load_line_def)
  next
    case (Some p)
    have "legal_key (substr l 0 p)"
      using find_ch_Some [OF Some] l by (auto simp: legal_key_def substr_def dest: in_set_takeD)
    moreover have "legal_value (substr_from l i)" for i
      using l by (auto simp: legal_value_def substr_from_def dest: in_set_dropD)
    ultimately show ?thesis
      using Some m legal_at [OF m] by (simp add: load_line_def push_back_def legal_set)
  qed
qed

lemma legal_load_lines: "legal_map m \<Longrightarrow> legal_map (load_lines ci x ifs m)"
proof (induction ci x ifs m rule: load_lines.induct)
  case (1 ci x ifs m)
  obtain l i where g: "getline LF x ifs = (l, i)" by fastforce
  have "ok i \<Longrightarrow> LF \<notin> set l"
  proof -
    assume "ok i"
    with g have "good ifs" by (cases "good ifs") (auto simp: getline_bad)
    with getline_no_delim [of ifs LF x] g show ?thesis by simp
  qed
  with 1 show ?case by (subst load_lines.simps) (auto simp: g legal_load_line)
qed

subsection \<open>\<open>BackupStore\<close> as a durable key-value store\<close>

text \<open>
  The invariant: the file can be written, keys and values fit the file format, the map is in
  order, and reading the file gives the same vectors as the memory.
\<close>

definition store_inv :: "backup_store \<Rightarrow> bool" where
  "store_inv s =
     (f_writable (bs_file s) \<and> cm_sorted (ci_cmp (ms_ci s)) (ms_store s) \<and> legal_map (ms_store s) \<and>
      (\<forall>k. vec_at k (load s) = vec_at k s))"

definition store_vec :: "backup_store \<Rightarrow> string \<Rightarrow> string list" where
  "store_vec s k = fst (get_vec k s)"

definition store_same :: "backup_store \<Rightarrow> string \<Rightarrow> string \<Rightarrow> bool" where
  "store_same s = same_key (ms_ci s)"

lemma load_simps [simp]: "ms_ci (load s) = ms_ci s" "bs_file (load s) = bs_file s" "load (load s) = load s"
  by (cases "f_content (bs_file s)"; simp add: load_def)+

lemma ensure_loaded_simps [simp]: "ms_ci (ensure_loaded s) = ms_ci s" "bs_file (ensure_loaded s) = bs_file s"
  by (simp_all add: ensure_loaded_def)

lemma vec_at_touch [simp]: "vec_at k' (touch_key k s) = vec_at k' s"
  by (simp add: vec_at_def touch_key_def key_cmp.at_touch)

lemma vec_at_put: "vec_at k' (put_vec k v s) = (if same_key (ms_ci s) k k' then v else vec_at k' s)"
  by (simp add: vec_at_def put_vec_def key_cmp.at_set)

lemma store_vec_alt: "store_vec s k = vec_at k (ensure_loaded s)"
  by (simp add: store_vec_def get_vec_def)

lemma vec_ensure: "store_inv s \<Longrightarrow> vec_at k (ensure_loaded s) = vec_at k s"
  by (simp add: ensure_loaded_def store_inv_def)

lemma sorted_load: "cm_sorted (ci_cmp (ms_ci s)) (ms_store (load s))"
  by (simp add: load_def sorted_load_lines split: option.split)

lemma legal_load: "legal_map (ms_store (load s))"
  by (cases "f_content (bs_file s)") (simp_all add: load_def legal_load_lines)

lemma inv_load: "store_inv s \<Longrightarrow> store_inv (load s)"
  using sorted_load [of s] legal_load [of s] by (simp add: store_inv_def)

lemma inv_ensure: "store_inv s \<Longrightarrow> store_inv (ensure_loaded s)"
  by (simp add: ensure_loaded_def inv_load)

lemma inv_save:
  assumes "f_writable (bs_file s)" "cm_sorted (ci_cmp (ms_ci s)) (ms_store s)" "legal_map (ms_store s)"
  shows "fst (save s) = None" "store_inv (snd (save s))" "ms_store (snd (save s)) = ms_store s"
    "ms_ci (snd (save s)) = ms_ci s"
proof -
  have "ms_store (load (snd (save s))) = drop_empty (ms_store s)"
    using load_lines_saved [of "ms_ci s" "[]" "ms_store s" "[]"] assms by (simp add: save_def load_def)
  then have "vec_at k (load (snd (save s))) = vec_at k s" for k
    using at_drop_empty [OF assms(2), of k] assms(1) by (simp add: vec_at_def save_def)
  then show "store_inv (snd (save s))"
    using assms by (simp add: store_inv_def save_def vec_at_def)
qed (use assms(1) in \<open>simp_all add: save_def\<close>)

lemma inv_put:
  assumes "store_inv s" "legal_key k" "list_all legal_value vs"
  shows "fst (save (put_vec k vs (ensure_loaded s))) = None"
    "store_inv (snd (save (put_vec k vs (ensure_loaded s))))"
    "vec_at k' (snd (save (put_vec k vs (ensure_loaded s)))) =
      (if same_key (ms_ci s) k k' then vs else vec_at k' s)"
    "ms_ci (snd (save (put_vec k vs (ensure_loaded s)))) = ms_ci s"
proof -
  let ?t = "put_vec k vs (ensure_loaded s)"
  have i: "store_inv (ensure_loaded s)" by (rule inv_ensure [OF assms(1)])
  have "f_writable (bs_file ?t)" "cm_sorted (ci_cmp (ms_ci ?t)) (ms_store ?t)" "legal_map (ms_store ?t)"
    using i assms(2,3) by (simp_all add: store_inv_def put_vec_def key_cmp.sorted_set legal_set)
  note sv = inv_save [OF this]
  show "fst (save ?t) = None" "store_inv (snd (save ?t))" "ms_ci (snd (save ?t)) = ms_ci s"
    using sv by (simp_all add: put_vec_def)
  have "vec_at k' (snd (save ?t)) = vec_at k' ?t" using sv(3,4) by (simp add: vec_at_def)
  then show "vec_at k' (snd (save ?t)) = (if same_key (ms_ci s) k k' then vs else vec_at k' s)"
    using vec_ensure [OF assms(1)] by (simp add: vec_at_put)
qed

lemma vec_at_same: "same_key (ms_ci s) k k' \<Longrightarrow> vec_at k s = vec_at k' s"
  using key_cmp.find_eqv [of "ms_ci s" k k' "ms_store s"] by (simp add: vec_at_def cm_at_def)

lemma legal_vec_at: "store_inv s \<Longrightarrow> list_all legal_value (vec_at k s)"
  by (simp add: store_inv_def vec_at_def legal_at)

lemma ms_ci_save [simp]: "ms_ci (snd (save s)) = ms_ci s"
  by (simp add: save_def)

lemma cm_set_not_Nil [simp]: "cm_set lt k v m \<noteq> []"
  by (cases m) (auto split: if_splits)

lemma ensure_put [simp]: "ensure_loaded (snd (save (put_vec k v s))) = snd (save (put_vec k v s))"
  by (simp add: ensure_loaded_def save_def put_vec_def)

lemma vec_at_save [simp]: "vec_at k (snd (save s)) = vec_at k s"
  by (simp add: vec_at_def save_def)

lemma store_vec_put:
  "store_vec (snd (save (put_vec k v s))) k' = (if same_key (ms_ci s) k k' then v else vec_at k' s)"
  by (simp add: store_vec_alt vec_at_put)

interpretation backup: durable_store store_vec store_same legal_entry store_inv
  "\<lambda>k v s. snd (add k v s)" "\<lambda>k s. snd (clear_key k s)" reload
proof (unfold_locales, goal_cases)
  case (1 s k v)
  then show ?case
    using legal_vec_at [OF inv_ensure [OF 1(1)], of k]
    by (simp add: add_def Let_def legal_entry_def inv_put(2))
next
  case (2 s k v)
  then show ?case by (simp add: clear_key_def legal_entry_def inv_put(2))
next
  case (3 k v s)
  show ?case by (simp add: add_def Let_def store_same_def put_vec_def)
next
  case (4 k s)
  show ?case by (simp add: clear_key_def store_same_def put_vec_def)
next
  case (5 s k)
  show ?case by (simp add: store_same_def)
next
  case (6 s k k')
  then show ?case by (simp add: store_vec_alt store_same_def vec_at_same)
next
  case (7 s k v k')
  then show ?case
    using vec_at_same [of "ensure_loaded s" k k']
    by (auto simp: add_def Let_def store_vec_put store_same_def store_vec_alt vec_at_put)
next
  case (8 s k k')
  then show ?case
    by (simp add: clear_key_def store_vec_put store_same_def store_vec_alt vec_at_put)
next
  case (9 s k)
  then show ?case
    by (simp add: store_vec_alt reload_def vec_ensure inv_load) (simp add: store_inv_def)
next
  case (10 s)
  then show ?case by (simp add: reload_def inv_load)
qed

subsection \<open>Properties\<close>

text \<open>C32: Opening a store on a writable file never fails and establishes the invariant, whatever the
  file holds; the vectors are those of the file.\<close>

theorem open_store_inv:
  assumes "f_writable f"
  shows "fst (open_store f) = None \<and> store_inv (snd (open_store f)) \<and>
    store_vec (snd (open_store f)) k =
      vec_at k (load \<lparr>ms_store = [], ms_ci = False, bs_file = f\<rparr>)"
proof -
  let ?s = "load \<lparr>ms_store = [], ms_ci = False, bs_file = f\<rparr>"
  have "f_writable (bs_file ?s)" "cm_sorted (ci_cmp (ms_ci ?s)) (ms_store ?s)" "legal_map (ms_store ?s)"
    using assms sorted_load [of "\<lparr>ms_store = [], ms_ci = False, bs_file = f\<rparr>"] legal_load by simp_all
  note sv = inv_save [OF this]
  have "store_vec (snd (save ?s)) k = vec_at k ?s"
    using vec_ensure [OF sv(2), of k] by (simp add: store_vec_alt)
  with sv(1,2) show ?thesis by (simp add: open_store_def reload_def)
qed

theorem open_store_inv_witness:
  "store_inv (snd (open_store \<lparr>f_content = Some (''nick: bob'' @ [LF]), f_writable = True\<rparr>))"
  using open_store_inv [of "\<lparr>f_content = Some (''nick: bob'' @ [LF]), f_writable = True\<rparr>" "''nick''"] by simp

text \<open>C16: In a store that satisfies its invariant, as opening it on a writable file makes it and adding and
  clearing keep it, adding a value without a line feed under a key without a colon or a line feed appends
  exactly that value under the key (up to case in a case-insensitive store), changes no other key, and the
  result is what a fresh read of the file gives.\<close>

theorem add_durable:
  assumes "store_inv s" "legal_key k" "legal_value v"
  shows "fst (add k v s) = None \<and> store_inv (snd (add k v s)) \<and>
    store_vec (reload (snd (add k v s))) k' =
      (if same_key (ms_ci s) k k' then store_vec s k' @ [v] else store_vec s k')"
proof -
  have l: "legal_entry k v" using assms by (simp add: legal_entry_def)
  have "fst (add k v s) = None"
    using inv_put(1) [OF assms(1,2)] legal_vec_at [OF inv_ensure [OF assms(1)]] assms(3)
    by (simp add: add_def Let_def)
  then show ?thesis
    using backup.inv_app [OF assms(1) l] backup.vec_reopen [OF backup.inv_app [OF assms(1) l]]
      backup.vec_app [OF assms(1)] by (simp add: store_same_def)
qed

theorem add_durable_witness:
  "store_vec (reload (snd (add ''invite'' ''#c'' (snd (open_store \<lparr>f_content = None, f_writable = True\<rparr>))))) ''invite''
     = store_vec (snd (open_store \<lparr>f_content = None, f_writable = True\<rparr>)) ''invite'' @ [''#c'']"
  using add_durable [of "snd (open_store \<lparr>f_content = None, f_writable = True\<rparr>)" "''invite''" "''#c''" "''invite''"]
    open_store_inv [of "\<lparr>f_content = None, f_writable = True\<rparr>" "[]"]
  by (simp add: legal_key_def legal_value_def LF_def)

text \<open>The file format has no escapes: a key with a colon is read back as the part before the colon, and of a
  value with a line feed only the first line is left.\<close>

definition fresh_store :: backup_store where
  "fresh_store = snd (open_store \<lparr>f_content = None, f_writable = True\<rparr>)"

lemma unescaped_entries:
  "store_vec (snd (add ''a:b'' ''v'' fresh_store)) ''a:b'' = [''v'']"
  "store_vec (reload (snd (add ''a:b'' ''v'' fresh_store))) ''a:b'' = []"
  "store_vec (reload (snd (add ''a:b'' ''v'' fresh_store))) ''a'' = ['': v'']"
  "store_vec (reload (snd (add ''k'' (''v'' @ LF # ''w'') fresh_store))) ''k'' = [''v'']"
  by code_simp+

lemma add_all_fill:
  "store_inv s \<Longrightarrow> list_all (legal_entry k) vs \<Longrightarrow> add_all k vs s = (None, backup.fill k vs s)"
proof (induction vs arbitrary: s)
  case Nil
  then show ?case by (simp add: backup.fill_def)
next
  case (Cons v vs)
  then have "fst (add k v s) = None" "store_inv (snd (add k v s))"
    using backup.inv_app [of s k v] legal_vec_at [OF inv_ensure [of s], of k]
    by (simp_all add: add_def Let_def legal_entry_def inv_put(1))
  with Cons show ?case by (cases "add k v s") (simp add: backup.fill_def)
qed

text \<open>\<open>set_from\<close> replaces the vector of a key by exactly the given values, whatever was there,
  and changes no other key.\<close>

theorem set_from_replaces:
  assumes "store_inv s" "legal_key k" "list_all legal_value vs"
  shows "fst (set_from k vs s) = None \<and> store_inv (snd (set_from k vs s)) \<and>
    store_vec (snd (set_from k vs s)) k' = (if same_key (ms_ci s) k k' then vs else store_vec s k')"
proof -
  have l: "legal_entry k []" "list_all (legal_entry k) vs"
    using assms(2,3) by (simp_all add: legal_entry_def legal_value_def list_all_iff)
  have c: "fst (clear_key k s) = None" using inv_put(1) [OF assms(1,2)] by (simp add: clear_key_def)
  note i = backup.inv_clr [OF assms(1) l(1)]
  have "set_from k vs s = (None, backup.fill k vs (snd (clear_key k s)))"
    using c add_all_fill [OF i l(2)] by (cases "clear_key k s") (simp add: set_from_def)
  then show ?thesis
    using backup.inv_fill [OF i l(2)] backup.vec_replace [OF assms(1) l, of k']
    by (simp add: store_same_def)
qed

theorem set_from_replaces_witness:
  "store_vec (snd (set_from ''k'' [''a'', ''b''] (snd (open_store \<lparr>f_content = Some (''k: z'' @ [LF]), f_writable = True\<rparr>)))) ''k''
    = [''a'', ''b'']"
  using set_from_replaces [of "snd (open_store \<lparr>f_content = Some (''k: z'' @ [LF]), f_writable = True\<rparr>)" "''k''" "[''a'', ''b'']" "''k''"]
    open_store_inv [of "\<lparr>f_content = Some (''k: z'' @ [LF]), f_writable = True\<rparr>" "[]"]
  by (simp add: legal_key_def legal_value_def LF_def)

text \<open>When the file cannot be written, \<open>add\<close> throws after it has changed the memory: the value
  is seen by the next reader, the file is unchanged, and a \<open>reload\<close> forgets it.\<close>

theorem add_failure:
  assumes "\<not> f_writable (bs_file s)"
  shows "fst (add k v s) = Some Unable_To_Save \<and>
    store_vec (snd (add k v s)) k = store_vec s k @ [v] \<and>
    bs_file (snd (add k v s)) = bs_file s \<and> reload (snd (add k v s)) = reload s"
proof -
  have "load (put_vec k w (ensure_loaded s)) = load s" for w
    by (cases "f_content (bs_file s)") (simp_all add: load_def put_vec_def ensure_loaded_def)
  then show ?thesis
    using assms by (simp add: add_def Let_def save_def store_vec_alt reload_def)
      (simp add: put_vec_def ensure_loaded_def vec_at_def key_cmp.at_set)
qed

theorem add_failure_witness:
  "fst (add ''k'' ''v'' \<lparr>ms_store = [], ms_ci = False, bs_file = \<lparr>f_content = None, f_writable = False\<rparr>\<rparr>) = Some Unable_To_Save"
  using add_failure [of "\<lparr>ms_store = [], ms_ci = False, bs_file = \<lparr>f_content = None, f_writable = False\<rparr>\<rparr>"] by simp

subsection \<open>Switching case sensitivity\<close>

lemma at_push_all:
  "cm_at (ci_cmp ci) [] k (fold (\<lambda>e m. push_back (ci_cmp ci) k' e m) vs m) =
    cm_at (ci_cmp ci) [] k m @ (if same_key ci k' k then vs else [])"
proof (induction vs arbitrary: m)
  case (Cons v vs)
  have "same_key ci k' k \<Longrightarrow> cm_at (ci_cmp ci) [] k' m = cm_at (ci_cmp ci) [] k m"
    using key_cmp.find_eqv [of ci k' k m] by (simp add: cm_at_def)
  with Cons show ?case by (simp add: push_back_def key_cmp.at_set)
qed simp

lemma at_replace_store:
  "cm_at (ci_cmp ci) [] k (replace_store ci old) =
    concat (map snd (filter (\<lambda>p. same_key ci (fst p) k) old))"
proof -
  have "cm_at (ci_cmp ci) [] k
      (fold (\<lambda>p m. fold (\<lambda>e m. push_back (ci_cmp ci) (fst p) e m) (snd p) m) old m) =
      cm_at (ci_cmp ci) [] k m @ concat (map snd (filter (\<lambda>p. same_key ci (fst p) k) old))" for m
    by (induction old arbitrary: m) (auto simp: at_push_all)
  from this [of "[]"] show ?thesis by (simp add: replace_store_def cm_at_def)
qed

text \<open>Switching a store between case-sensitive and case-insensitive keys loses no value: the
  vector of a key becomes the vectors of all keys that now name the same entry, in key order.\<close>

theorem case_insensitive_merges:
  assumes "ms_ci s \<noteq> ci"
  shows "vec_at k (case_insensitive ci s) =
    concat (map snd (filter (\<lambda>p. same_key ci (fst p) k) (ms_store s)))"
  using assms by (simp add: vec_at_def case_insensitive_def at_replace_store)

theorem case_insensitive_merges_witness:
  "vec_at ''nick'' (case_insensitive True \<lparr>ms_store = [(''Nick'', [''a'']), (''nick'', [''b''])], ms_ci = False\<rparr>)
    = [''a'', ''b'']"
proof -
  have "map tolower ''Nick'' = ''nick''" "map tolower ''nick'' = ''nick''" by code_simp+
  then show ?thesis
    using case_insensitive_merges [of "\<lparr>ms_store = [(''Nick'', [''a'']), (''nick'', [''b''])], ms_ci = False\<rparr>" True "''nick''"]
    by (simp only: same_key_def simp_thms filter.simps list.map fst_conv snd_conv concat.simps
        mapped_store.select_convs if_True append.simps)
qed

text \<open>\<open>get_wild_vec_with_key\<close> passes \<open>true\<close> where \<open>wild_match\<close> takes the \<open>fnmatch\<close> flags, so the
  values are matched with \<open>FNM_PATHNAME\<close> set, under which no wildcard matches a slash; the keys
  are matched without it.\<close>

theorem wild_values_use_pathname:
  "fst (get_wild_vec_with_key mt k w s) =
      filter (m_fnmatch mt ((if ms_ci s then 17 else 1) OR FNM_EXTMATCH) w) (store_vec s k) \<and>
    fst (get_keys_if_wild mt w s) =
      cs_of_list str_lt (filter (m_fnmatch mt ((if ms_ci s then 16 else 0) OR FNM_EXTMATCH) w)
        (map fst (ms_store (ensure_loaded s)))) \<and>
    FNM_PATHNAME = 1"
  by (auto simp: get_wild_vec_with_key_def get_keys_if_wild_def store_wild_match_def store_vec_def
      get_vec_def Let_def FNM_CASEFOLD_def FNM_PATHNAME_def touch_key_def)

end
