(* ===== verification/Irc_Server.thy ===== *)
theory Irc_Server
  imports Message
begin

text \<open>
  \<open>irc-constants.h\<close>, \<open>IrcServer.h\<close> and \<open>IrcServer.cpp\<close>.  A call of one of the command methods of
  \<open>BaseIrcServer\<close> is a value of \<open>irc_op\<close>, so that a queue of delayed calls is a list of values;
  \<open>wire\<close> is the line the method hands to the virtual \<open>send_unlogged\<close>.  The two transports,
  \<open>TestIrcServer\<close> and \<open>RemoteIrcServer\<close>, meet one contract, the locale \<open>irc_transport\<close>.
\<close>

subsection \<open>Constants\<close>

definition PASS :: string where "PASS = ''PASS''"
definition NICK :: string where "NICK = ''NICK''"
definition USER :: string where "USER = ''USER''"
definition JOIN :: string where "JOIN = ''JOIN''"
definition INVITE :: string where "INVITE = ''INVITE''"
definition KICK :: string where "KICK = ''KICK''"
definition PART :: string where "PART = ''PART''"
definition PING :: string where "PING = ''PING''"
definition PONG :: string where "PONG = ''PONG''"
definition PRIVMSG :: string where "PRIVMSG = ''PRIVMSG''"
definition NOTICE :: string where "NOTICE = ''NOTICE''"
definition QUERY :: string where "QUERY = ''QUERY''"
definition WHOIS :: string where "WHOIS = ''WHOIS''"
definition QUIT :: string where "QUIT = ''QUIT''"
definition MODE :: string where "MODE = ''MODE''"
definition AUTH :: string where "AUTH = ''AUTH''"
definition RPL_WELCOME :: string where "RPL_WELCOME = ''001''"
definition RPL_WHOISCHANNELS :: string where "RPL_WHOISCHANNELS = ''319''"
definition RPL_NAMREPLY :: string where "RPL_NAMREPLY = ''353''"
definition ERR_NOORIGIN :: string where "ERR_NOORIGIN = ''409''"
definition ERR_NICKNAMEINUSE :: string where "ERR_NICKNAMEINUSE = ''433''"

lemmas irc_keywords = PASS_def NICK_def USER_def JOIN_def INVITE_def KICK_def PART_def PING_def
  PONG_def PRIVMSG_def NOTICE_def QUERY_def WHOIS_def QUIT_def MODE_def AUTH_def

lemmas irc_numerics = RPL_WELCOME_def RPL_WHOISCHANNELS_def RPL_NAMREPLY_def ERR_NOORIGIN_def
  ERR_NICKNAMEINUSE_def

definition SOH :: char where "SOH = CHR 0x01"

subsection \<open>\<open>BaseIrcServer\<close>\<close>

datatype irc_op =
    Pass string
  | Nick string
  | User string string string
  | Join string string
  | Part string string
  | Ping string
  | Pong string
  | Say string string
  | Ctcp string string
  | Notice string string
  | Whois "string cset"
  | Quit string
  | Kick "string cset" "string cset" string
  | Auth string string
  | Me string string
  | Query string
  | Mode_chan string string string
  | Mode_nick string string
  | Reply message string
  | Reply_pm message string
  | Reply_notice message string
  | Reply_pm_notice message string
  | Raw string

definition ctcp_escape :: "string \<Rightarrow> string" where
  "ctcp_escape s = s"

definition say_line :: "string \<Rightarrow> string \<Rightarrow> string" where
  "say_line to text = PRIVMSG @ '' '' @ to @ '' :'' @ text"

definition notice_line :: "string \<Rightarrow> string \<Rightarrow> string" where
  "notice_line to text = NOTICE @ '' '' @ to @ '' :'' @ text"

text \<open>The local \<open>from\<close> of \<open>reply\<close> and \<open>reply_notice\<close>, and the target they choose.\<close>

definition reply_from :: "message \<Rightarrow> string" where
  "reply_from msg =
     (if msg_prefix msg = [] then []
      else case find_ch (CHR ''!'') (msg_prefix msg) of
             None \<Rightarrow> msg_prefix msg | Some p \<Rightarrow> substr (msg_prefix msg) 0 p)"

definition reply_target :: "message \<Rightarrow> string" where
  "reply_target msg =
     (if get_to msg \<noteq> [] \<and> hd (get_to msg) = CHR ''#'' then get_to msg else reply_from msg)"

fun wire :: "hol \<Rightarrow> irc_op \<Rightarrow> string" where
  "wire h (Pass pwd) = (if pwd = [] then PASS @ '' none'' else PASS @ '' '' @ pwd)"
| "wire h (Nick n) = NICK @ '' '' @ n"
| "wire h (User u m r) = USER @ '' '' @ u @ '' '' @ m @ '' * :'' @ r"
| "wire h (Join channel key) = JOIN @ '' '' @ channel @ '' '' @ key"
| "wire h (Part channel msg) = PART @ '' '' @ channel @ '' '' @ msg"
| "wire h (Ping info) = PING @ '' '' @ info"
| "wire h (Pong info) = PONG @ '' '' @ info"
| "wire h (Say to text) = say_line to text"
| "wire h (Ctcp to text) = PRIVMSG @ '' '' @ to @ '' :'' @ [SOH] @ ctcp_escape text @ [SOH]"
| "wire h (Notice to text) = notice_line to text"
| "wire h (Whois masks) = WHOIS @ '' '' @ h_join h masks '',''"
| "wire h (Quit reason) = QUIT @ '' :'' @ reason"
| "wire h (Kick chans users comment) =
     (let cmd = KICK; cmd = cmd @ '' '' @ h_join h chans '',''; cmd = cmd @ '' '' @ h_join h users '',''
      in cmd @ '' :'' @ comment)"
| "wire h (Auth user pass) = AUTH @ '' '' @ user @ '' '' @ pass"
| "wire h (Me to text) = say_line to ([SOH] @ ''ACTION '' @ text @ [SOH])"
| "wire h (Query nick) = QUERY @ '' '' @ nick"
| "wire h (Mode_chan chan mode nick) = MODE @ '' '' @ chan @ '' '' @ mode @ '' '' @ nick"
| "wire h (Mode_nick nick mode) = MODE @ '' '' @ nick @ '' '' @ mode"
| "wire h (Reply msg text) = say_line (reply_target msg) text"
| "wire h (Reply_pm msg text) = say_line (get_nick msg) text"
| "wire h (Reply_notice msg text) = notice_line (reply_target msg) text"
| "wire h (Reply_pm_notice msg text) = notice_line (get_nick msg) text"
| "wire h (Raw cmd) = cmd"

text \<open>Calling a command method: one \<open>send_unlogged\<close> of the server it is called on.\<close>

definition base_call :: "(string \<Rightarrow> 's \<Rightarrow> (bool \<times> 's) option) \<Rightarrow> hol \<Rightarrow> irc_op \<Rightarrow> 's \<Rightarrow> (bool \<times> 's) option" where
  "base_call send_unlogged h op s = send_unlogged (wire h op) s"

subsection \<open>\<open>TestIrcServer\<close>\<close>

text \<open>
  Whether a file can be opened, and what it holds, is \<open>files\<close> (for reading) and \<open>writable\<close>.  Opening
  a file stream that is open, and closing one that is not, sets its fail bit.
\<close>

record test_server =
  ts_in :: istream
  ts_in_open :: bool
  ts_out :: string
  ts_out_open :: bool
  ts_out_ok :: bool

definition test_file :: "string \<Rightarrow> int \<Rightarrow> string \<Rightarrow> string" where
  "test_file host port suffix =
     host @ ''-'' @ (if port < 10 then ''0'' else []) @ show_int port @ suffix"

definition CRLF :: string where "CRLF = [CR, LF]"

definition test_send_unlogged :: "string \<Rightarrow> test_server \<Rightarrow> bool \<times> test_server" where
  "test_send_unlogged cmd s =
     (let s1 = (if ts_out_ok s \<and> ts_out_open s then s\<lparr>ts_out := ts_out s @ substr cmd 0 510 @ CRLF\<rparr>
                else s\<lparr>ts_out_ok := False\<rparr>)
      in (ts_out_ok s1, s1))"

definition test_connect ::
  "(string \<Rightarrow> string option) \<Rightarrow> (string \<Rightarrow> bool) \<Rightarrow> string \<Rightarrow> int \<Rightarrow> test_server \<Rightarrow> bool \<times> test_server" where
  "test_connect files writable host port s =
     (let ifile = test_file host port ''-in.txt'';
          ofile = test_file host port ''-out.txt'';
          s1 = (if ts_in_open s then s\<lparr>ts_in := set_fail (clear_bits (ts_in s))\<rparr>
                else case files ifile of
                       None \<Rightarrow> s\<lparr>ts_in := set_fail (clear_bits (ts_in s))\<rparr>
                     | Some t \<Rightarrow> s\<lparr>ts_in := str_stream t, ts_in_open := True\<rparr>);
          s2 = (if ts_out_open s1 \<or> \<not> writable ofile then s1\<lparr>ts_out_ok := False\<rparr>
                else s1\<lparr>ts_out := [], ts_out_open := True, ts_out_ok := True\<rparr>)
      in (ok (ts_in s2) \<and> ts_out_ok s2, s2))"

definition test_close :: "test_server \<Rightarrow> test_server" where
  "test_close s =
     s\<lparr>ts_in := (if ts_in_open s then ts_in s else set_fail (ts_in s)), ts_in_open := False,
       ts_out_ok := (ts_out_ok s \<and> ts_out_open s), ts_out_open := False\<rparr>"

definition test_receive :: "string \<Rightarrow> test_server \<Rightarrow> bool \<times> string \<times> test_server" where
  "test_receive line s =
     (case getline LF line (ts_in s) of (line1, is1) \<Rightarrow> (ok is1, line1, s\<lparr>ts_in := is1\<rparr>))"

subsection \<open>\<open>RemoteIrcServer\<close>\<close>

text \<open>
  The socket: what has been written, the results the coming \<open>write_some\<close> calls will have (bytes
  taken, error), and the results of the coming \<open>read_some\<close> calls (bytes, error); when these are used
  up the peer has closed.
\<close>

record remote_server =
  rs_open :: bool
  rs_wire :: string
  rs_writes :: "nat \<Rightarrow> nat \<times> bool"
  rs_calls :: nat
  rs_reads :: "(string \<times> bool) list"

datatype connect_error = System_Error

definition remote_close :: "remote_server \<Rightarrow> remote_server" where
  "remote_close s = (if rs_open s then s\<lparr>rs_open := False\<rparr> else s)"

text \<open>
  \<open>reach\<close> says whether the host can be resolved and reached, and with what replies; the overload of
  \<open>asio::connect\<close> without an \<open>error_code\<close> throws when it cannot.
\<close>

definition remote_connect ::
  "(string \<Rightarrow> int \<Rightarrow> (string \<times> bool) list option) \<Rightarrow> string \<Rightarrow> int \<Rightarrow> remote_server \<Rightarrow>
    (connect_error + bool) \<times> remote_server" where
  "remote_connect reach host port s =
     (let s1 = remote_close s; ec = False
      in case reach host port of
           None \<Rightarrow> (Inl System_Error, s1)
         | Some reads \<Rightarrow>
             let s2 = s1\<lparr>rs_open := True, rs_wire := [], rs_reads := reads\<rparr>
             in (if ec then (Inr False, s2) else (Inr True, s2)))"

partial_function (option) send_loop ::
  "(nat \<Rightarrow> nat \<times> bool) \<Rightarrow> nat \<Rightarrow> string \<Rightarrow> string \<Rightarrow> (bool \<times> string \<times> nat) option" where
  "send_loop writes n rest out =
     (case writes n of (k, ec) \<Rightarrow>
        if drop k rest \<noteq> []
        then (if ec then Some (False, out @ take k rest, Suc n)
              else send_loop writes (Suc n) (drop k rest) (out @ take k rest))
        else Some (True, out @ take k rest, Suc n))"

declare send_loop.simps [code]

definition remote_send_unlogged :: "string \<Rightarrow> remote_server \<Rightarrow> (bool \<times> remote_server) option" where
  "remote_send_unlogged cmd s =
     map_option (\<lambda>(b, out, n). (b, s\<lparr>rs_wire := out, rs_calls := n\<rparr>))
       (send_loop (rs_writes s) (rs_calls s) (cmd @ CRLF) (rs_wire s))"

fun receive_loop :: "(string \<times> bool) list \<Rightarrow> string \<Rightarrow> string \<times> bool \<times> (string \<times> bool) list" where
  "receive_loop [] line = (line, True, [])"
| "receive_loop ((d, ec) # rs) line =
     (if d = [] then (line, ec, rs)
      else if length d < 1024 then (line @ d, ec, rs)
      else receive_loop rs (line @ d))"

definition remote_receive :: "remote_server \<Rightarrow> bool \<times> string \<times> remote_server" where
  "remote_receive s =
     (case receive_loop (rs_reads s) [] of (line, ec, rs) \<Rightarrow> (\<not> ec, line, s\<lparr>rs_reads := rs\<rparr>))"

subsection \<open>The contract of a transport\<close>

text \<open>
  A ready transport takes a command whole: its frame is appended to what was sent and it stays
  ready.  In every state what is sent for a command is a prefix of its frame, the whole of it
  when the call succeeds.
\<close>

locale irc_transport =
  fixes snd_cmd :: "string \<Rightarrow> 's \<Rightarrow> (bool \<times> 's) option"
    and sent :: "'s \<Rightarrow> string"
    and frame :: "string \<Rightarrow> string"
    and ready :: "'s \<Rightarrow> bool"
  assumes snd_ready: "ready s \<Longrightarrow>
      \<exists>s'. snd_cmd c s = Some (True, s') \<and> sent s' = sent s @ frame c \<and> ready s'"
    and snd_some: "snd_cmd c s = Some (b, s') \<Longrightarrow>
      \<exists>p q. frame c = p @ q \<and> sent s' = sent s @ p \<and> (b \<longrightarrow> q = [])"
begin

fun send_ops :: "hol \<Rightarrow> irc_op list \<Rightarrow> 's \<Rightarrow> 's option" where
  "send_ops h [] s = Some s"
| "send_ops h (op # ops) s =
     (case base_call snd_cmd h op s of None \<Rightarrow> None | Some (b, s') \<Rightarrow> send_ops h ops s')"

lemma send_ops_ready:
  "ready s \<Longrightarrow> \<exists>s'. send_ops h ops s = Some s' \<and>
    sent s' = sent s @ concat (map (\<lambda>op. frame (wire h op)) ops) \<and> ready s'"
proof (induction ops arbitrary: s)
  case (Cons op ops)
  obtain s1 where s1: "snd_cmd (wire h op) s = Some (True, s1)" "sent s1 = sent s @ frame (wire h op)" "ready s1"
    using snd_ready [OF Cons.prems, of "wire h op"] by blast
  with Cons.IH [OF s1(3)] show ?case by (auto simp: base_call_def)
qed simp

lemma call_sent:
  "base_call snd_cmd h op s = Some (True, s') \<Longrightarrow> sent s' = sent s @ frame (wire h op)"
  using snd_some [of "wire h op" s True s'] by (auto simp: base_call_def)

end

subsection \<open>The two transports meet it\<close>

definition test_frame :: "string \<Rightarrow> string" where
  "test_frame cmd = substr cmd 0 510 @ CRLF"

definition test_ready :: "test_server \<Rightarrow> bool" where
  "test_ready s = (ts_out_ok s \<and> ts_out_open s)"

interpretation test_srv: irc_transport "\<lambda>c s. Some (test_send_unlogged c s)" ts_out test_frame test_ready
  by unfold_locales
    (auto simp: test_send_unlogged_def test_ready_def test_frame_def Let_def split: if_splits)

definition remote_frame :: "string \<Rightarrow> string" where
  "remote_frame cmd = cmd @ CRLF"

text \<open>\<open>write_some\<close> blocks until it has written at least one byte, or reports an error.\<close>

definition progress :: "(nat \<Rightarrow> nat \<times> bool) \<Rightarrow> bool" where
  "progress w = (\<forall>n. snd (w n) \<or> 0 < fst (w n))"

definition remote_ready :: "remote_server \<Rightarrow> bool" where
  "remote_ready s = (\<forall>n. \<not> snd (rs_writes s n) \<and> 0 < fst (rs_writes s n))"

lemma send_loop_total:
  "progress w \<Longrightarrow> rest \<noteq> [] \<Longrightarrow> \<exists>b out' n'. send_loop w n rest out = Some (b, out', n')"
proof (induction rest arbitrary: n out rule: length_induct)
  case (1 rest)
  obtain k ec where w: "w n = (k, ec)" by fastforce
  show ?case
  proof (cases "drop k rest \<noteq> [] \<and> \<not> ec")
    case True
    with 1(2) w have "0 < k" by (auto simp: progress_def dest: spec [of _ n])
    with 1(3) have "length (drop k rest) < length rest" by simp
    with 1(1,2) True w show ?thesis by (subst send_loop.simps) auto
  next
    case False
    with w show ?thesis by (subst send_loop.simps) auto
  qed
qed

lemma send_loop_all:
  "\<forall>n. \<not> snd (w n) \<and> 0 < fst (w n) \<Longrightarrow> rest \<noteq> [] \<Longrightarrow>
    \<exists>n'. send_loop w n rest out = Some (True, out @ rest, n')"
proof (induction rest arbitrary: n out rule: length_induct)
  case (1 rest)
  obtain k ec where w: "w n = (k, ec)" by fastforce
  with 1(2) have k: "0 < k" "\<not> ec" by (auto dest: spec [of _ n])
  show ?case
  proof (cases "drop k rest = []")
    case True
    with w show ?thesis by (subst send_loop.simps) auto
  next
    case False
    with k 1(3) have "length (drop k rest) < length rest" by simp
    with 1(1,2) False obtain n' where
      "send_loop w (Suc n) (drop k rest) (out @ take k rest) = Some (True, (out @ take k rest) @ drop k rest, n')"
      by blast
    with False w k show ?thesis by (subst send_loop.simps) auto
  qed
qed

lemma send_loop_prefix:
  "send_loop w n rest out = Some y \<Longrightarrow>
    \<exists>p q. rest = p @ q \<and> fst (snd y) = out @ p \<and> (fst y \<longrightarrow> q = [])"
proof (erule send_loop.raw_induct [of "\<lambda>w n rest out y. \<exists>p q. rest = p @ q \<and> fst (snd y) = out @ p \<and> (fst y \<longrightarrow> q = [])", rotated], goal_cases)
  case (1 loop w n rest out y)
  obtain k ec where w: "w n = (k, ec)" by fastforce
  have split: "rest = take k rest @ drop k rest" by simp
  show ?case
  proof (cases "drop k rest \<noteq> [] \<and> \<not> ec")
    case True
    with 1(2) w have "loop w (Suc n) (drop k rest) (out @ take k rest) = Some y" by simp
    from 1(1) [OF this] obtain p q where pq: "drop k rest = p @ q"
      "fst (snd y) = out @ take k rest @ p" "fst y \<longrightarrow> q = []" by auto
    have "rest = (take k rest @ p) @ q" using split unfolding pq(1) by simp
    with pq(2,3) show ?thesis by blast
  next
    case False
    with 1(2) w have "fst (snd y) = out @ take k rest" "fst y \<longrightarrow> drop k rest = []"
      by (auto split: if_splits)
    with split show ?thesis by blast
  qed
qed

interpretation remote_srv: irc_transport remote_send_unlogged rs_wire remote_frame remote_ready
proof (unfold_locales, goal_cases)
  case (1 s c)
  then show ?case
    using send_loop_all [of "rs_writes s" "c @ CRLF" "rs_calls s" "rs_wire s"]
    by (auto simp: remote_send_unlogged_def remote_ready_def remote_frame_def CRLF_def)
next
  case (2 c s b s')
  then obtain out n where y: "send_loop (rs_writes s) (rs_calls s) (c @ CRLF) (rs_wire s) = Some (b, out, n)"
    and s': "s' = s\<lparr>rs_wire := out, rs_calls := n\<rparr>"
    by (auto simp: remote_send_unlogged_def)
  from send_loop_prefix [OF y] s' show ?case by (auto simp: remote_frame_def)
qed

subsection \<open>Properties\<close>

text \<open>When every \<open>write_some\<close> either takes at least one byte or reports an error, sending a command
  to a remote server returns, and what is on the wire is a prefix of the command and its CR LF, all
  of it when the call returns true: a failed call can leave half a line on the connection.\<close>

theorem remote_send_returns:
  assumes "progress (rs_writes s)"
  shows "\<exists>b s' p q. remote_send_unlogged cmd s = Some (b, s') \<and>
    cmd @ CRLF = p @ q \<and> rs_wire s' = rs_wire s @ p \<and> (b \<longrightarrow> q = [])"
proof -
  obtain b out n where "send_loop (rs_writes s) (rs_calls s) (cmd @ CRLF) (rs_wire s) = Some (b, out, n)"
    using send_loop_total [OF assms, of "cmd @ CRLF" "rs_calls s" "rs_wire s"] by (auto simp: CRLF_def)
  then have r: "remote_send_unlogged cmd s = Some (b, s\<lparr>rs_wire := out, rs_calls := n\<rparr>)"
    by (simp add: remote_send_unlogged_def)
  with remote_srv.snd_some [OF r] show ?thesis by (auto simp: remote_frame_def)
qed

theorem remote_send_returns_witness:
  "\<exists>b s'. remote_send_unlogged ''PING 1'' \<lparr>rs_open = True, rs_wire = [], rs_writes = (\<lambda>n. (2, n = 2)),
     rs_calls = 0, rs_reads = []\<rparr> = Some (b, s')"
  using remote_send_returns [of "\<lparr>rs_open = True, rs_wire = [], rs_writes = (\<lambda>n. (2, n = 2)),
     rs_calls = 0, rs_reads = []\<rparr>" "''PING 1''"] by (auto simp: progress_def)

lemma lines_of_CRLF:
  "\<forall>l\<in>set ls. LF \<notin> set l \<Longrightarrow> lines_of (str_stream (concat (map (\<lambda>l. l @ CRLF) ls))) = map (\<lambda>l. l @ [CR]) ls"
proof -
  assume "\<forall>l\<in>set ls. LF \<notin> set l"
  then have "\<forall>l\<in>set (map (\<lambda>l. l @ [CR]) ls). LF \<notin> set l" by (auto simp: char_consts)
  from lines_of_text [OF this] show ?thesis by (simp add: lines_text_def CRLF_def comp_def)
qed

lemma remote_lines:
  assumes "remote_ready s" "rs_wire s = []" "\<forall>op\<in>set ops. LF \<notin> set (wire h op)"
  shows "\<exists>s'. remote_srv.send_ops h ops s = Some s' \<and>
    lines_of (str_stream (rs_wire s')) = map (\<lambda>op. wire h op @ [CR]) ops"
proof -
  obtain s' where s': "remote_srv.send_ops h ops s = Some s'"
    "rs_wire s' = concat (map (\<lambda>op. remote_frame (wire h op)) ops)"
    using remote_srv.send_ops_ready [OF assms(1)] assms(2) by auto
  have "\<forall>l\<in>set (map (wire h) ops). LF \<notin> set l" using assms(3) by auto
  from lines_of_CRLF [OF this] s' show ?thesis by (simp add: remote_frame_def comp_def)
qed

text \<open>C25: On a healthy connection a sequence of commands without line feeds, however the socket splits
  the writes, arrives at the peer as exactly these lines, in order, each ended by CR LF.\<close>

theorem remote_delivers:
  assumes "remote_ready s" "rs_wire s = []" "\<forall>op\<in>set ops. LF \<notin> set (wire h op)"
  shows "\<exists>s'. remote_srv.send_ops h ops s = Some s' \<and>
    lines_of (str_stream (rs_wire s')) = map (\<lambda>op. wire h op @ [CR]) ops"
  using remote_lines [OF assms] .

theorem remote_delivers_witness:
  "\<exists>s'. remote_srv.send_ops hol_ref [Nick ''bot'', Say ''#c'' ''hi'']
      \<lparr>rs_open = True, rs_wire = [], rs_writes = (\<lambda>n. (1, False)), rs_calls = 0, rs_reads = []\<rparr> = Some s' \<and>
    lines_of (str_stream (rs_wire s')) = [''NICK bot'' @ [CR], ''PRIVMSG #c :hi'' @ [CR]]"
  using remote_delivers [of "\<lparr>rs_open = True, rs_wire = [], rs_writes = (\<lambda>n. (1, False)), rs_calls = 0, rs_reads = []\<rparr>"
      "[Nick ''bot'', Say ''#c'' ''hi'']" hol_ref]
  by (simp add: remote_ready_def irc_keywords say_line_def LF_def)

text \<open>\<open>connect\<close> of the remote server never returns false: the only overload of \<open>asio::connect\<close> it
  calls throws, so the test of \<open>ec\<close> is dead and an unreachable server is an exception; the socket
  is closed either way.\<close>

theorem remote_connect_throws:
  "(reach host port = None \<longrightarrow> fst (remote_connect reach host port s) = Inl System_Error \<and>
      \<not> rs_open (snd (remote_connect reach host port s))) \<and>
    (reach host port \<noteq> None \<longrightarrow> fst (remote_connect reach host port s) = Inr True) \<and>
    fst (remote_connect reach host port s) \<noteq> Inr False"
  by (auto simp: remote_connect_def remote_close_def Let_def split: option.splits)

theorem remote_connect_throws_witness:
  "fst (remote_connect (\<lambda>_ _. None) ''irc.example.org'' 6667
      \<lparr>rs_open = False, rs_wire = [], rs_writes = (\<lambda>n. (1, False)), rs_calls = 0, rs_reads = []\<rparr>) = Inl System_Error"
  using remote_connect_throws [of "\<lambda>_ _. None"] by simp

text \<open>\<open>receive\<close> returns what one read gave it and not a line: of a chunk that holds several lines
  the parser sees one message, the prefix, command and parameters of the first line (with its CR),
  and everything after the first line feed is lost.\<close>

theorem chunk_loses_lines:
  assumes "trims h" "plain_word pre" "plain_word cmd" "LF \<notin> set pars"
    and "rest \<noteq> []" "\<not> isspace (last rest)"
    and "chunk = CHR '':'' # pre @ SPC # cmd @ SPC # pars @ CRLF @ rest @ CRLF" "length chunk < 1024"
    and "rs_reads s = [(chunk, False)]"
  shows "fst (remote_receive s) \<and> fst (snd (remote_receive s)) = chunk \<and>
    rs_reads (snd (snd (remote_receive s))) = [] \<and>
    (case parse h now chunk m of (b, m1) \<Rightarrow> b \<and> msg_prefix m1 = pre \<and> msg_command m1 = cmd \<and>
       msg_params m1 = SPC # pars @ [CR])"
proof -
  have c: "chunk \<noteq> []" using assms(7) by simp
  let ?t = "CHR '':'' # pre @ SPC # cmd @ SPC # pars @ CRLF @ rest"
  have "last ?t = last rest" "chunk = ?t @ CRLF" using assms(5,7) by simp_all
  then have r: "h_trim_right h chunk = ?t"
    using assms(1,6) rtrim_append [of CRLF ?t] by (simp add: trims_def CRLF_def isspace_def char_consts code_def)
  have g: "getline LF x (str_stream (SPC # pars @ CRLF @ rest)) = (SPC # pars @ [CR], str_stream rest)" for x
    using getline_found [of "str_stream (SPC # pars @ CRLF @ rest)" LF "SPC # pars @ [CR]" rest x] assms(4)
    by (simp add: CRLF_def char_consts)
  have "parse h now chunk m = (True, m\<lparr>msg_line := ?t, msg_when := now,
      msg_prefix := pre, msg_command := cmd, msg_params := SPC # pars @ [CR]\<rparr>)"
    using c r read_plain_word(1) [OF assms(2)] read_plain_word(2) [OF assms(3)] g
    by (simp add: parse_def Let_def)
  then show ?thesis using c assms(8,9) by (simp add: remote_receive_def)
qed

theorem chunk_loses_lines_witness:
  "msg_params (snd (parse hol_ref 0 ('':s PONG b'' @ CRLF @ ''PING :s'' @ CRLF) new_message)) = '' b'' @ [CR]"
  using chunk_loses_lines [OF hol_ref_ok(2), of "''s''" "''PONG''" "''b''" "''PING :s''"
      "'':s PONG b'' @ CRLF @ ''PING :s'' @ CRLF"
      "\<lparr>rs_open = True, rs_wire = [], rs_writes = (\<lambda>n. (1, False)), rs_calls = 0,
        rs_reads = [('':s PONG b'' @ CRLF @ ''PING :s'' @ CRLF, False)]\<rparr>" 0 new_message]
  by (simp add: plain_word_def isspace_def code_def CRLF_def char_consts split: prod.splits)

text \<open>The test server keeps the 512 bytes of an IRC line, whatever it is given; the remote server
  sends the line whole.\<close>

theorem line_limit:
  assumes "test_ready t" "remote_ready r"
  shows "length (ts_out (snd (test_send_unlogged cmd t))) \<le> length (ts_out t) + 512 \<and>
    (\<exists>r'. remote_send_unlogged cmd r = Some (True, r') \<and>
      length (rs_wire r') = length (rs_wire r) + length cmd + 2)"
proof -
  have "length (test_frame cmd) \<le> 512" by (simp add: test_frame_def substr_def CRLF_def)
  with test_srv.snd_ready [OF assms(1), of cmd] remote_srv.snd_ready [OF assms(2), of cmd]
  show ?thesis by (auto simp: remote_frame_def CRLF_def)
qed

theorem line_limit_witness:
  "length (ts_out (snd (test_send_unlogged (replicate 600 (CHR ''x''))
      \<lparr>ts_in = str_stream [], ts_in_open = True, ts_out = [], ts_out_open = True, ts_out_ok = True\<rparr>))) \<le> 512"
  using line_limit [of "\<lparr>ts_in = str_stream [], ts_in_open = True, ts_out = [], ts_out_open = True, ts_out_ok = True\<rparr>"
      "\<lparr>rs_open = True, rs_wire = [], rs_writes = (\<lambda>n. (1, False)), rs_calls = 0, rs_reads = []\<rparr>"
      "replicate 600 (CHR ''x'')"] by (simp add: test_ready_def remote_ready_def)

text \<open>For a sender \<open>nick!...\<close> with a legal nick, \<open>reply\<close> of the server addresses the same target as
  \<open>message::reply_to\<close>, and \<open>reply_pm\<close> the nick; for a sender \<open>nick@host\<close> without a user the two
  differ: \<open>reply\<close> answers in private to the whole \<open>nick@host\<close>.\<close>

theorem reply_addressing:
  assumes "is_nick nick"
  shows "(msg_prefix m = nick @ CHR ''!'' # r \<longrightarrow>
      wire h (Reply m t) = say_line (reply_to m) t \<and> wire h (Reply_pm m t) = say_line nick t) \<and>
    (msg_prefix m = nick @ CHR ''@'' # host \<longrightarrow> CHR ''!'' \<notin> set host \<longrightarrow> \<not> from_channel m \<longrightarrow>
      reply_to m = nick \<and> wire h (Reply m t) = say_line (nick @ CHR ''@'' # host) t)"
proof -
  note n = is_nick_no_seps [OF assms]
  have ch: "get_to m \<noteq> [] \<and> hd (get_to m) = CHR ''#'' \<longleftrightarrow> from_channel m"
    by (auto simp: from_channel_def get_to_def split: list.splits)
  show ?thesis
    using n assms
    by (auto simp: ch reply_target_def reply_to_def reply_from_def get_nick_def get_nickname_def allow_nick_def
        substr_def)
qed

theorem reply_addressing_witness:
  "wire hol_ref (Reply (new_message\<lparr>msg_prefix := ''bob!b@h''\<rparr>) ''hi'') =
    say_line (reply_to (new_message\<lparr>msg_prefix := ''bob!b@h''\<rparr>)) ''hi''"
  using reply_addressing [of "''bob''" "new_message\<lparr>msg_prefix := ''bob!b@h''\<rparr>"]
  by (simp add: is_nick_def bnf_special_def isalnum_def isalpha_def code_def)

end
