(* ===== verification/Flood.thy ===== *)
theory Flood
  imports Std_Map
begin

text \<open>
  \<open>FloodController\<close>: a queue of delayed calls per channel, served round robin by the dispatcher
  thread, one call per turn.  The mutex makes each operation and each turn one step.  What the
  program relies on is the locale \<open>outbox\<close>: no call is lost, doubled or reordered within its
  channel.
\<close>

subsection \<open>The contract\<close>

datatype 'a event = Send string 'a | Turn

locale outbox =
  fixes pend :: "'s \<Rightarrow> string \<Rightarrow> 'a list"
    and inv :: "'s \<Rightarrow> bool"
    and push :: "string \<Rightarrow> 'a \<Rightarrow> 's \<Rightarrow> 's"
    and turn :: "'s \<Rightarrow> (string \<times> 'a) option \<times> 's"
  assumes inv_push: "inv s \<Longrightarrow> inv (push c x s)"
    and inv_turn: "inv s \<Longrightarrow> inv (snd (turn s))"
    and pend_push: "inv s \<Longrightarrow> pend (push c x s) c' = (if c = c' then pend s c' @ [x] else pend s c')"
    and turn_some: "inv s \<Longrightarrow> turn s = (Some (c, x), s') \<Longrightarrow>
      pend s c = x # pend s' c \<and> (c' \<noteq> c \<longrightarrow> pend s' c' = pend s c')"
    and turn_none: "inv s \<Longrightarrow> turn s = (None, s') \<Longrightarrow> pend s c = [] \<and> pend s' c = []"
begin

fun run :: "'a event list \<Rightarrow> 's \<Rightarrow> (string \<times> 'a) list \<times> 's" where
  "run [] s = ([], s)"
| "run (Send c x # es) s = run es (push c x s)"
| "run (Turn # es) s =
     (case turn s of (out, s1) \<Rightarrow> case run es s1 of (outs, s2) \<Rightarrow>
        ((case out of None \<Rightarrow> outs | Some y \<Rightarrow> y # outs), s2))"

fun sent_to :: "string \<Rightarrow> 'a event list \<Rightarrow> 'a list" where
  "sent_to c [] = []"
| "sent_to c (Send c' x # es) = (if c' = c then x # sent_to c es else sent_to c es)"
| "sent_to c (Turn # es) = sent_to c es"

lemma run_fifo:
  "inv s \<Longrightarrow> run es s = (outs, s') \<Longrightarrow> inv s' \<and>
    map snd (filter (\<lambda>y. fst y = c) outs) @ pend s' c = pend s c @ sent_to c es"
proof (induction es arbitrary: s outs)
  case (Cons e es)
  show ?case
  proof (cases e)
    case (Send c' x)
    with Cons.IH [OF inv_push [OF Cons.prems(1)], of c' x outs] Cons.prems show ?thesis
      by (auto simp: pend_push)
  next
    case Turn
    obtain out s1 where t: "turn s = (out, s1)" by fastforce
    obtain outs1 where r: "run es s1 = (outs1, s')"
      using Cons.prems(2) Turn t by (auto split: prod.splits)
    have i: "inv s1" using inv_turn [OF Cons.prems(1)] t by simp
    note IH = Cons.IH [OF i r]
    show ?thesis
    proof (cases out)
      case None
      with t turn_none [OF Cons.prems(1), of s1 c] IH Cons.prems(2) Turn r show ?thesis by simp
    next
      case (Some y)
      obtain c1 x where y: "y = (c1, x)" by (cases y)
      with Some t have "turn s = (Some (c1, x), s1)" by simp
      from turn_some [OF Cons.prems(1) this, of c] IH Cons.prems(2) Turn r Some t y
      show ?thesis by auto
    qed
  qed
qed simp

end

subsection \<open>The controller\<close>

record 'a flood =
  fl_m :: "(string, 'a list) cmap"
  fl_keys :: "string list"
  fl_idx :: nat
  fl_checks :: siz
  fl_events :: siz
  fl_dispatching :: bool
  fl_futures :: nat

definition new_flood :: "'a flood" where
  "new_flood = \<lparr>fl_m = [], fl_keys = [], fl_idx = 0, fl_checks = 300, fl_events = 1600,
     fl_dispatching = False, fl_futures = 0\<rparr>"

abbreviation que :: "(string, 'a list) cmap \<Rightarrow> string \<Rightarrow> 'a list" where
  "que m c \<equiv> cm_at str_lt [] c m"

definition set_time_between_checks :: "siz \<Rightarrow> 'a flood \<Rightarrow> 'a flood" where
  "set_time_between_checks ms s = s\<lparr>fl_checks := ms\<rparr>"

definition set_time_between_events :: "siz \<Rightarrow> 'a flood \<Rightarrow> 'a flood" where
  "set_time_between_events ms s = s\<lparr>fl_events := ms\<rparr>"

definition fl_send :: "string \<Rightarrow> 'a \<Rightarrow> 'a flood \<Rightarrow> 'a flood" where
  "fl_send channel func s =
     (let m1 = cm_set str_lt channel (que (fl_m s) channel @ [func]) (fl_m s)
      in s\<lparr>fl_m := m1,
           fl_keys := (if channel \<in> set (fl_keys s) then fl_keys s else fl_keys s @ [channel])\<rparr>)"

definition fl_clear :: "'a flood \<Rightarrow> 'a flood" where
  "fl_clear s = s\<lparr>fl_m := [], fl_keys := []\<rparr>"

definition fl_clear_channel :: "string \<Rightarrow> 'a flood \<Rightarrow> 'a flood" where
  "fl_clear_channel channel s =
     (if channel \<in> set (fl_keys s)
      then s\<lparr>fl_m := cm_erase str_lt channel (fl_m s), fl_keys := remove1 channel (fl_keys s)\<rparr>
      else s)"

text \<open>\<open>for(; i < e; ++i) if(!m[keys[i]].empty()) break;\<close>\<close>

function scan :: "string list \<Rightarrow> nat \<Rightarrow> nat \<Rightarrow> (string, 'a list) cmap \<Rightarrow> nat \<times> (string, 'a list) cmap" where
  "scan keys i e m =
     (if i < e
      then (let m1 = cm_touch str_lt [] (keys ! i) m
            in if que m1 (keys ! i) = [] then scan keys (Suc i) e m1 else (i, m1))
      else (i, m))"
  by pat_completeness auto
termination
  by (relation "measure (\<lambda>(ks, i, e, m). e - i)") auto

declare scan.simps [simp del]

definition pop_front :: "nat \<Rightarrow> 'a flood \<Rightarrow> (string \<times> 'a) option \<times> 'a flood" where
  "pop_front i s =
     (let k = fl_keys s ! i; q = que (fl_m s) k
      in (Some (k, hd q), s\<lparr>fl_idx := i, fl_m := cm_set str_lt k (tl q) (fl_m s)\<rparr>))"

text \<open>One turn of the loop of \<open>dispatcher\<close>, between the two pauses.\<close>

definition first_idx :: "'a flood \<Rightarrow> nat" where
  "first_idx s = (if length (fl_keys s) \<le> Suc (fl_idx s) then 0 else Suc (fl_idx s))"

definition turn :: "'a flood \<Rightarrow> (string \<times> 'a) option \<times> 'a flood" where
  "turn s =
     (let n = length (fl_keys s); end1 = first_idx s
      in case scan (fl_keys s) end1 n (fl_m s) of (i, m1) \<Rightarrow>
           if i = n then
             (case scan (fl_keys s) 0 end1 m1 of (j, m2) \<Rightarrow>
                if j = end1 then (None, s\<lparr>fl_idx := j, fl_m := m2\<rparr>)
                else pop_front j (s\<lparr>fl_m := m2\<rparr>))
           else pop_front i (s\<lparr>fl_m := m1\<rparr>))"

text \<open>The pauses of a turn that sends: the second argument of \<open>milliseconds\<close> is a signed count.\<close>

definition pause_before :: "'a flood \<Rightarrow> int" where
  "pause_before s = sint (fl_checks s)"

definition pause_after :: "'a flood \<Rightarrow> int" where
  "pause_after s = sint (fl_events s - fl_checks s)"

definition period :: "'a flood \<Rightarrow> int" where
  "period s = max 0 (pause_before s) + max 0 (pause_after s)"

definition fl_start :: "'a flood \<Rightarrow> 'a flood" where
  "fl_start s =
     (if \<not> fl_dispatching s then s\<lparr>fl_dispatching := True, fl_futures := fl_futures s + 1\<rparr> else s)"

text \<open>\<open>ready\<close>: the dispatcher ends within ten seconds.\<close>

definition fl_stop :: "bool \<Rightarrow> 'a flood \<Rightarrow> 'a flood" where
  "fl_stop ready s =
     (if \<not> fl_dispatching s then s
      else let s1 = s\<lparr>fl_dispatching := False\<rparr>
           in if 0 < fl_futures s1 then (if ready then s1\<lparr>fl_futures := fl_futures s1 - 1\<rparr> else s1) else s1)"

subsection \<open>Invariant\<close>

definition fl_inv :: "'a flood \<Rightarrow> bool" where
  "fl_inv s = (distinct (fl_keys s) \<and> cm_sorted str_lt (fl_m s) \<and>
     (\<forall>c. que (fl_m s) c \<noteq> [] \<longrightarrow> c \<in> set (fl_keys s)))"

definition fl_pend :: "'a flood \<Rightarrow> string \<Rightarrow> 'a list" where
  "fl_pend s c = que (fl_m s) c"

lemma fl_inv_new [simp]: "fl_inv new_flood"
  by (simp add: fl_inv_def new_flood_def cm_at_def)

lemma fl_pend_new [simp]: "que (fl_m new_flood) c = []"
  by (simp add: new_flood_def cm_at_def)

lemma fl_inv_send: "fl_inv s \<Longrightarrow> fl_inv (fl_send c x s)"
  by (auto simp: fl_inv_def fl_send_def Let_def str_cmp.sorted_set str_cmp.at_set)

lemma fl_inv_clear: "fl_inv (fl_clear s)"
  by (simp add: fl_inv_def fl_clear_def cm_at_def)

lemma fl_pend_clear_channel:
  "fl_inv s \<Longrightarrow> fl_pend (fl_clear_channel c s) c' = (if c = c' then [] else fl_pend s c')"
  by (auto simp: fl_inv_def fl_clear_channel_def fl_pend_def cm_at_def str_cmp.find_erase)

lemma fl_inv_clear_channel: "fl_inv s \<Longrightarrow> fl_inv (fl_clear_channel c s)"
  using fl_pend_clear_channel [of s c]
  by (auto simp: fl_inv_def fl_clear_channel_def fl_pend_def str_cmp.sorted_erase split: if_splits)

lemma scan_spec:
  "scan keys i e m = (j, m') \<Longrightarrow> i \<le> e \<Longrightarrow> cm_sorted str_lt m \<Longrightarrow>
    cm_sorted str_lt m' \<and> (\<forall>c. que m' c = que m c) \<and> i \<le> j \<and> j \<le> e \<and>
    (\<forall>l. i \<le> l \<longrightarrow> l < j \<longrightarrow> que m (keys ! l) = []) \<and> (j < e \<longrightarrow> que m (keys ! j) \<noteq> [])"
proof (induction keys i e m rule: scan.induct)
  case (1 keys i e m)
  let ?m1 = "cm_touch str_lt [] (keys ! i) m"
  have t: "que ?m1 c = que m c" for c by (simp add: str_cmp.at_touch)
  have s: "cm_sorted str_lt ?m1" using 1(4) by (rule str_cmp.sorted_touch)
  show ?case
  proof (cases "i < e \<and> que m (keys ! i) = []")
    case True
    then have r: "scan keys (Suc i) e ?m1 = (j, m')"
      using 1(2) t by (subst (asm) scan.simps) (simp add: Let_def)
    from 1(1) [OF _ refl _ r _ s] True t have
      "cm_sorted str_lt m' \<and> (\<forall>c. que m' c = que m c) \<and> Suc i \<le> j \<and> j \<le> e \<and>
       (\<forall>l. Suc i \<le> l \<longrightarrow> l < j \<longrightarrow> que m (keys ! l) = []) \<and> (j < e \<longrightarrow> que m (keys ! j) \<noteq> [])"
      by simp
    with True show ?thesis by (auto simp: not_less_eq_eq le_Suc_eq dest: le_neq_implies_less)
  next
    case False
    with 1(2,3,4) t s show ?thesis by (subst (asm) scan.simps) (auto simp: Let_def split: if_splits)
  qed
qed

lemma pop_front_spec:
  assumes "pop_front i s = (out, s')" "que (fl_m s) (fl_keys s ! i) \<noteq> []"
  shows "out = Some (fl_keys s ! i, hd (que (fl_m s) (fl_keys s ! i))) \<and> fl_keys s' = fl_keys s \<and>
    fl_idx s' = i \<and> (cm_sorted str_lt (fl_m s) \<longrightarrow> cm_sorted str_lt (fl_m s')) \<and>
    (\<forall>c. que (fl_m s') c = (if c = fl_keys s ! i then tl (que (fl_m s) c) else que (fl_m s) c))"
  using assms by (auto simp: pop_front_def Let_def str_cmp.at_set str_cmp.sorted_set)

text \<open>The distance of index \<open>l\<close> from \<open>b\<close> going round \<open>n\<close> places.\<close>

definition cyc :: "nat \<Rightarrow> nat \<Rightarrow> nat \<Rightarrow> nat" where
  "cyc b n l = (if b \<le> l then l - b else l + n - b)"

lemma first_idx_le: "first_idx s \<le> length (fl_keys s)"
  by (simp add: first_idx_def)

lemma turn_spec:
  assumes "fl_inv s" "turn s = (out, s')"
  shows "fl_keys s' = fl_keys s \<and> cm_sorted str_lt (fl_m s') \<and>
    (case out of
       None \<Rightarrow> \<forall>c. fl_pend s c = [] \<and> fl_pend s' c = []
     | Some y \<Rightarrow> \<exists>i<length (fl_keys s). fst y = fl_keys s ! i \<and> fl_idx s' = i \<and>
         fl_pend s (fst y) = snd y # fl_pend s' (fst y) \<and>
         (\<forall>c. c \<noteq> fst y \<longrightarrow> fl_pend s' c = fl_pend s c) \<and>
         (\<forall>l<length (fl_keys s). fl_pend s (fl_keys s ! l) \<noteq> [] \<longrightarrow>
            cyc (first_idx s) (length (fl_keys s)) i \<le> cyc (first_idx s) (length (fl_keys s)) l))"
proof -
  let ?n = "length (fl_keys s)" and ?b = "first_idx s"
  have so: "cm_sorted str_lt (fl_m s)" and ks: "\<And>c. que (fl_m s) c \<noteq> [] \<Longrightarrow> c \<in> set (fl_keys s)"
    using assms(1) by (auto simp: fl_inv_def)
  obtain i m1 where s1: "scan (fl_keys s) ?b ?n (fl_m s) = (i, m1)" by fastforce
  note sp1 = scan_spec [OF s1 first_idx_le so]
  show ?thesis
  proof (cases "i = ?n")
    case False
    with sp1 have i: "i < ?n" "que (fl_m s) (fl_keys s ! i) \<noteq> []" by auto
    have p: "pop_front i (s\<lparr>fl_m := m1\<rparr>) = (out, s')"
      using assms(2) s1 False by (simp add: turn_def Let_def)
    have q: "que (fl_m (s\<lparr>fl_m := m1\<rparr>)) (fl_keys (s\<lparr>fl_m := m1\<rparr>) ! i) \<noteq> []" using i sp1 by simp
    have "\<forall>l<?n. que (fl_m s) (fl_keys s ! l) \<noteq> [] \<longrightarrow> cyc ?b ?n i \<le> cyc ?b ?n l"
      using sp1 i by (auto simp: cyc_def)
    with pop_front_spec [OF p q] sp1 i show ?thesis
      by (auto simp: fl_pend_def intro!: exI [of _ i])
  next
    case True
    obtain j m2 where s2: "scan (fl_keys s) 0 ?b m1 = (j, m2)" by fastforce
    have so1: "cm_sorted str_lt m1" using sp1 by simp
    note sp2 = scan_spec [OF s2 le0 so1]
    have hi: "\<forall>l. ?b \<le> l \<longrightarrow> l < ?n \<longrightarrow> que (fl_m s) (fl_keys s ! l) = []" using sp1 True by auto
    show ?thesis
    proof (cases "j = ?b")
      case None: True
      have "\<forall>l<?n. que (fl_m s) (fl_keys s ! l) = []"
        using hi sp2 sp1 None by (metis le0 not_le)
      then have e: "que (fl_m s) c = []" for c using ks [of c] by (auto simp: in_set_conv_nth)
      show ?thesis using assms(2) s1 s2 True None sp1 sp2 e by (auto simp: turn_def Let_def fl_pend_def)
    next
      case False
      with sp2 have j: "j < ?b" "que (fl_m s) (fl_keys s ! j) \<noteq> []" using sp1 by auto
      then have jn: "j < ?n" using first_idx_le [of s] by simp
      have p: "pop_front j (s\<lparr>fl_m := m2\<rparr>) = (out, s')"
        using assms(2) s1 s2 True False by (simp add: turn_def Let_def)
      have q: "que (fl_m (s\<lparr>fl_m := m2\<rparr>)) (fl_keys (s\<lparr>fl_m := m2\<rparr>) ! j) \<noteq> []" using j sp1 sp2 by simp
      have lo: "\<forall>l<j. que (fl_m s) (fl_keys s ! l) = []" using sp1 sp2 by auto
      have "cyc ?b ?n j \<le> cyc ?b ?n l" if "l < ?n" "que (fl_m s) (fl_keys s ! l) \<noteq> []" for l
      proof -
        have "l < ?b" using hi that by (meson not_le)
        moreover have "j \<le> l" using lo that by (meson not_le)
        ultimately show ?thesis using j by (simp add: cyc_def)
      qed
      with pop_front_spec [OF p q] sp1 sp2 jn j show ?thesis
        by (auto simp: fl_pend_def intro!: exI [of _ j])
    qed
  qed
qed

lemma fl_inv_turn: "fl_inv s \<Longrightarrow> fl_inv (snd (turn s))"
proof -
  assume i: "fl_inv s"
  obtain out s' where t: "turn s = (out, s')" by fastforce
  note ts = turn_spec [OF i t]
  have "c \<in> set (fl_keys s')" if "que (fl_m s') c \<noteq> []" for c
  proof (cases "fl_pend s c = []")
    case True
    with ts that show ?thesis by (auto simp: fl_pend_def split: option.splits) (metis list.distinct(1))
  next
    case False
    with i ts show ?thesis by (auto simp: fl_inv_def fl_pend_def)
  qed
  with ts i t show ?thesis by (simp add: fl_inv_def)
qed

lemma fl_pend_send: "fl_pend (fl_send c x s) c' = (if c = c' then fl_pend s c' @ [x] else fl_pend s c')"
  by (simp add: fl_pend_def fl_send_def Let_def str_cmp.at_set)

interpretation fl: outbox fl_pend fl_inv fl_send turn
proof (unfold_locales, goal_cases)
  case (4 s c x s' c')
  then show ?case using turn_spec [of s "Some (c, x)" s'] by auto
next
  case (5 s s' c)
  then show ?case using turn_spec [of s None s'] by simp
qed (simp_all add: fl_inv_send fl_inv_turn fl_pend_send)

subsection \<open>Properties\<close>

text \<open>C4: However sends and turns of the dispatcher interleave, the calls made for a channel followed by
  those still queued for it are exactly the calls sent to it, in order: none is lost, made twice,
  reordered within its channel or charged to another channel.\<close>

theorem flood_fifo:
  assumes "fl.run es new_flood = (outs, s)"
  shows "map snd (filter (\<lambda>y. fst y = c) outs) @ fl_pend s c = fl.sent_to c es"
  using fl.run_fifo [OF fl_inv_new assms, of c] by (simp add: fl_pend_def new_flood_def cm_at_def)

theorem flood_fifo_witness:
  "let r = fl.run [Send ''#a'' (1::nat), Send ''#b'' 2, Turn, Send ''#a'' 3, Turn] new_flood
   in map snd (filter (\<lambda>y. fst y = ''#a'') (fst r)) @ fl_pend (snd r) ''#a'' = [1, 3]"
  using flood_fifo [of "[Send ''#a'' (1::nat), Send ''#b'' 2, Turn, Send ''#a'' 3, Turn]" _ _ "''#a''"]
  by (simp add: Let_def)

fun turns :: "nat \<Rightarrow> 'a flood \<Rightarrow> (string \<times> 'a) option list \<times> 'a flood" where
  "turns 0 s = ([], s)"
| "turns (Suc n) s = (case turn s of (o1, s1) \<Rightarrow> case turns n s1 of (os, s2) \<Rightarrow> (o1 # os, s2))"

lemma served_within:
  "fl_inv s \<Longrightarrow> p < length (fl_keys s) \<Longrightarrow> fl_pend s (fl_keys s ! p) \<noteq> [] \<Longrightarrow>
    cyc (first_idx s) (length (fl_keys s)) p < k \<Longrightarrow>
    Some (fl_keys s ! p, hd (fl_pend s (fl_keys s ! p))) \<in> set (fst (turns k s))"
proof (induction k arbitrary: s)
  case (Suc k)
  let ?n = "length (fl_keys s)" and ?b = "first_idx s" and ?c = "fl_keys s ! p"
  obtain out s' where t: "turn s = (out, s')" by fastforce
  note ts = turn_spec [OF Suc.prems(1) t]
  obtain c x i where o: "out = Some (c, x)" and i: "i < ?n" "c = fl_keys s ! i" "fl_idx s' = i"
    "fl_pend s c = x # fl_pend s' c" and other: "\<forall>c'. c' \<noteq> c \<longrightarrow> fl_pend s' c' = fl_pend s c'"
    and near: "cyc ?b ?n i \<le> cyc ?b ?n p"
    using ts Suc.prems(2,3) by (cases out) auto
  obtain os s2 where r: "turns k s' = (os, s2)" by fastforce
  show ?case
  proof (cases "?c = c")
    case True
    with o i t r show ?thesis by simp
  next
    case False
    then have ne: "i \<noteq> p" using i by auto
    have fi: "first_idx s' = (if ?n \<le> Suc i then 0 else Suc i)" using ts i by (simp add: first_idx_def)
    have "cyc (first_idx s') ?n p < cyc ?b ?n p"
      using near ne i(1) Suc.prems(2) first_idx_le [of s] unfolding fi cyc_def
      by (auto split: if_splits)
    moreover have "fl_keys s' = fl_keys s" "fl_inv s'"
      using ts fl_inv_turn [OF Suc.prems(1)] t by simp_all
    moreover have "fl_pend s' ?c = fl_pend s ?c" using other False by simp
    ultimately have "Some (?c, hd (fl_pend s ?c)) \<in> set (fst (turns k s'))"
      using Suc.IH [of s'] Suc.prems(2-4) by simp
    with t r show ?thesis by simp
  qed
qed simp

text \<open>C20: No channel starves: the call at the front of a channel's queue is made within as many turns
  as there are channels, however long the other queues are.\<close>

theorem flood_no_starvation:
  assumes "fl_inv s" "fl_pend s c \<noteq> []"
  shows "Some (c, hd (fl_pend s c)) \<in> set (fst (turns (length (fl_keys s)) s))"
proof -
  obtain p where p: "p < length (fl_keys s)" "c = fl_keys s ! p"
    using assms by (auto simp: fl_inv_def fl_pend_def in_set_conv_nth)
  have "cyc (first_idx s) (length (fl_keys s)) p < length (fl_keys s)"
    using p(1) first_idx_le [of s] by (auto simp: cyc_def)
  with served_within [OF assms(1) p(1)] assms(2) p(2) show ?thesis by simp
qed

theorem flood_no_starvation_witness:
  "Some (''#b'', 2) \<in> set (fst (turns 2 (fl_send ''#b'' 2 (fl_send ''#a'' (1::nat) new_flood))))"
proof -
  let ?s = "fl_send ''#b'' 2 (fl_send ''#a'' (1::nat) new_flood)"
  have "fl_keys ?s = [''#a'', ''#b'']" by (simp add: fl_send_def Let_def new_flood_def)
  moreover have "fl_pend ?s ''#b'' = [2]" by (simp add: fl_pend_send) (simp add: fl_pend_def)
  ultimately show ?thesis
    using flood_no_starvation [of ?s "''#b''"] fl_inv_send [OF fl_inv_send [OF fl_inv_new]]
    by (metis One_nat_def Suc_1 length_Cons list.sel(1) list.size(3) not_Cons_self2)
qed

text \<open>A turn makes a call as long as there is one, so as many turns as there are calls empty the queues.\<close>

definition fl_size :: "'a flood \<Rightarrow> nat" where
  "fl_size s = (\<Sum>c\<in>set (fl_keys s). length (fl_pend s c))"

lemma size_turn:
  assumes "fl_inv s" "turn s = (Some (c, x), s')"
  shows "fl_size s = Suc (fl_size s')"
proof -
  note t = fl.turn_some [OF assms]
  have k: "fl_keys s' = fl_keys s" using turn_spec [OF assms] by simp
  have c: "c \<in> set (fl_keys s)" using assms(1) t [of c] by (auto simp: fl_inv_def fl_pend_def)
  have "fl_size s = length (fl_pend s c) + (\<Sum>d\<in>set (fl_keys s) - {c}. length (fl_pend s d))"
    unfolding fl_size_def by (rule sum.remove) (simp_all add: c)
  also have "\<dots> = Suc (length (fl_pend s' c)) + (\<Sum>d\<in>set (fl_keys s) - {c}. length (fl_pend s' d))"
    using t by (intro arg_cong2 [where f = "(+)"] sum.cong) auto
  also have "\<dots> = Suc (fl_size s')"
    unfolding fl_size_def k using sum.remove [OF _ c, of "\<lambda>d. length (fl_pend s' d)"] by simp
  finally show ?thesis .
qed

lemma run_turns_empty:
  "fl_inv s \<Longrightarrow> fl_size s \<le> n \<Longrightarrow> fl.run (replicate n Turn) s = (outs, s') \<Longrightarrow> fl_pend s' c = []"
proof (induction n arbitrary: s outs)
  case 0
  then show ?case by (cases "c \<in> set (fl_keys s)") (auto simp: fl_size_def fl_inv_def fl_pend_def)
next
  case (Suc n)
  obtain out s1 where t: "turn s = (out, s1)" by fastforce
  obtain outs1 where r: "fl.run (replicate n Turn) s1 = (outs1, s')"
    using Suc.prems(3) t by (auto split: prod.splits)
  have i: "fl_inv s1" using fl_inv_turn [OF Suc.prems(1)] t by simp
  have "fl_size s1 \<le> n"
  proof (cases out)
    case None
    with t fl.turn_none [OF Suc.prems(1)] show ?thesis by (simp add: fl_size_def)
  next
    case (Some y)
    with t size_turn [OF Suc.prems(1), of "fst y" "snd y" s1] Suc.prems(2) show ?thesis by simp
  qed
  from Suc.IH [OF i this r] show ?case .
qed

text \<open>\<open>clear(channel)\<close> drops exactly that channel's calls and keeps the invariant, so that the
  dispatcher still finds every other queue.\<close>

theorem flood_clear_channel:
  assumes "fl_inv s"
  shows "fl_inv (fl_clear_channel c s) \<and>
    fl_pend (fl_clear_channel c s) c' = (if c = c' then [] else fl_pend s c')"
  using fl_inv_clear_channel [OF assms] fl_pend_clear_channel [OF assms] by simp

theorem flood_clear_channel_witness:
  "fl_pend (fl_clear_channel ''#a'' (fl_send ''#a'' (1::nat) new_flood)) ''#a'' = []"
  using flood_clear_channel [OF fl_inv_send [OF fl_inv_new], of "''#a''" "''#a''" "1::nat" "''#a''"] by simp

lemma sint_small: assumes "unat (x::siz) < 2 ^ 62" shows "sint x = int (unat x)"
proof -
  have u: "uint x = int (unat x)" by simp
  have "int (unat x) < int (2 ^ 62)" using assms by (simp only: of_nat_less_iff)
  then have l: "uint x < 2 ^ 63" "0 \<le> uint x" unfolding u by simp_all
  have "sint x = signed_take_bit 63 (uint x)" by (simp only: sint_uint) simp
  also have "\<dots> = uint x" using l by (intro signed_take_bit_int_eq_self) linarith+
  finally show ?thesis by simp
qed
lemma sint_diff_small: assumes "unat (x::siz) < 2 ^ 62"  "unat (y::siz) < 2 ^ 62" 
  shows "sint (x - y) = int (unat x) - int (unat y)"
proof -
  have "int (unat x) < int (2 ^ 62)" "int (unat y) < int (2 ^ 62)" using assms by (simp_all only: of_nat_less_iff)
  then have b: "int (unat x) < 2 ^ 62" "int (unat y) < 2 ^ 62" by (simp_all only: of_nat_power of_nat_numeral)
  have e: "(2 :: int) ^ 63 = 2 * 2 ^ 62" by simp
  have p: "0 \<le> int (unat x)" "0 \<le> int (unat y)" by (rule of_nat_0_le_iff)+
  have "sint (x - y) = signed_take_bit 63 (sint x - sint y)"
    by (simp only: sint_word_ariths) simp
  also have "\<dots> = sint x - sint y"
    unfolding sint_small [OF assms(1)] sint_small [OF assms(2)]
    using b p e by (intro signed_take_bit_int_eq_self) linarith+
  finally show ?thesis unfolding sint_small [OF assms(1)] sint_small [OF assms(2)] .
qed

text \<open>The time between two calls is the larger of the two settings: when the time between checks is
  larger than the time between events, the unsigned difference wraps to a negative pause, which
  is none.\<close>

theorem flood_period:
  assumes "unat (fl_checks s) < 2 ^ 62" "unat (fl_events s) < 2 ^ 62"
  shows "period s = int (max (unat (fl_checks s)) (unat (fl_events s)))"
proof -
  have "max 0 (int a) + max 0 (int b - int a) = int (max a b)" for a b :: nat
    by (simp add: max_def)
  then show ?thesis
    unfolding period_def pause_before_def pause_after_def sint_small [OF assms(1)]
      sint_diff_small [OF assms(2,1)] .
qed

theorem flood_period_witness:
  "period (set_time_between_checks 3000 new_flood) = 3000"
  using flood_period [of "set_time_between_checks 3000 new_flood"]
  by (simp add: set_time_between_checks_def new_flood_def)

end
