(* ===== verification/Text_Utils.thy ===== *)
theory Text_Utils
  imports Streams Hol_Lib
begin

text \<open>
  \<open>ios.h\<close>, \<open>ios.cpp\<close>, \<open>utils.h\<close> and \<open>utils.cpp\<close>: reading quoted strings, number ranges, durations and
  wildcard replacement.
\<close>

subsection \<open>\<open>getstring\<close>\<close>

function getstring_loop :: "char \<Rightarrow> string \<Rightarrow> istream \<Rightarrow> string \<times> istream" where
  "getstring_loop term n is =
     (case get_ch is of
        (Some c, is1) \<Rightarrow> if c \<noteq> term then getstring_loop term (n @ [c]) is1 else (n, is1)
      | (None, is1) \<Rightarrow> (n, is1))"
  by pat_completeness auto
termination
  by (relation "measure (\<lambda>(t, n, is). length (buf is))") (auto dest!: get_ch_length [OF sym])

declare getstring_loop.simps [simp del]

text \<open>The terminator, and the stream after an opening quote.\<close>

definition take_quote :: "istream \<Rightarrow> char \<times> istream" where
  "take_quote is = (case get_ch is of (Some q, is1) \<Rightarrow> (q, is1) | (None, is1) \<Rightarrow> (SPC, is1))"

definition quote_term :: "istream \<Rightarrow> char \<times> istream" where
  "quote_term is =
     (case peek (skip_ws is) of (p1, is1) \<Rightarrow>
        if p1 = Some DQUOTE then take_quote is1
        else case peek is1 of (p2, is2) \<Rightarrow>
          if p2 = Some SQUOTE then take_quote is2 else (SPC, is2))"

definition getstring :: "istream \<Rightarrow> string \<Rightarrow> string \<times> istream" where
  "getstring is s =
     (case quote_term is of (term, is1) \<Rightarrow>
      case getstring_loop term [] is1 of (n, is2) \<Rightarrow>
        (if n = [] then (s, set_fail is2) else (n, clear_bits is2)))"

text \<open>\<open>getargs\<close> with string arguments: the values read and whether all were there.\<close>

fun getargs :: "istream \<Rightarrow> string list \<Rightarrow> bool \<times> string list" where
  "getargs is [] = (True, [])"
| "getargs is (t # args) =
     (case getstring is t of (t1, is1) \<Rightarrow>
        if ok is1 then (case getargs is1 args of (b, ts) \<Rightarrow> (b, t1 # ts)) else (False, t1 # args))"

definition getargs_str :: "string \<Rightarrow> string list \<Rightarrow> bool \<times> string list" where
  "getargs_str s args = getargs (str_stream s) args"

lemma getstring_loop_length: "getstring_loop t n is = (r, is') \<Longrightarrow> length r + length (buf is') \<le> length n + length (buf is)"
proof (induction t n "is" rule: getstring_loop.induct)
  case (1 t n str)
  obtain p is1 where g: "get_ch str = (p, is1)" by fastforce
  show ?case
  proof (cases p)
    case None
    with 1(2) g show ?thesis by (subst (asm) getstring_loop.simps) (auto dest: get_ch_le)
  next
    case (Some c)
    with g have l: "length (buf str) = Suc (length (buf is1))" by (auto dest: get_ch_length)
    with 1 g Some show ?thesis
      by (subst (asm) (2) getstring_loop.simps) (fastforce split: if_splits)
  qed
qed

lemma skip_ws_length: "length (buf (skip_ws is)) \<le> length (buf is)"
  using length_dropWhile_le [of isspace "buf is"]
  by (auto simp: skip_ws_def hit_eof_def set_fail_def split: list.splits)

lemma take_quote_length: "take_quote is = (q, is') \<Longrightarrow> length (buf is') \<le> length (buf is)"
  using get_ch_le [of "is"] by (auto simp: take_quote_def split: prod.splits option.splits)

lemma quote_term_length: "quote_term is = (q, is') \<Longrightarrow> length (buf is') \<le> length (buf is)"
proof -
  assume q: "quote_term is = (q, is')"
  obtain p1 is1 where p1: "peek (skip_ws is) = (p1, is1)" by fastforce
  obtain p2 is2 where p2: "peek is1 = (p2, is2)" by fastforce
  have b: "length (buf is1) \<le> length (buf is)" "buf is2 = buf is1"
    using skip_ws_length [of "is"] peek_buf [OF p1] peek_buf [OF p2] by simp_all
  with q p1 p2 take_quote_length [of is1 q is'] take_quote_length [of is2 q is'] show ?thesis
    by (auto simp: quote_term_def split: if_splits)
qed

lemma getstring_length:
  assumes "getstring is s = (s', is')" "ok is'"
  shows "length (buf is') < length (buf is)"
proof -
  obtain t is1 where q: "quote_term is = (t, is1)" by fastforce
  obtain n is2 where l: "getstring_loop t [] is1 = (n, is2)" by fastforce
  from assms q l have "n \<noteq> []" "buf is' = buf is2" by (auto simp: getstring_def split: if_splits)
  with getstring_loop_length [OF l] quote_term_length [OF q] show ?thesis by (cases n) auto
qed

text \<open>The strings read by \<open>while(getstring(is, val)) vals.push_back(val);\<close>.\<close>

function getstrings :: "istream \<Rightarrow> string \<Rightarrow> string list" where
  "getstrings is val =
     (case getstring is val of (val1, is1) \<Rightarrow> if ok is1 then val1 # getstrings is1 val1 else [])"
  by pat_completeness auto
termination
  by (relation "measure (\<lambda>(is, v). length (buf is))") (auto dest!: getstring_length [OF sym])

declare getstrings.simps [simp del]

lemma getstring_loop_found:
  "term \<notin> set w \<Longrightarrow> getstring_loop term n (str_stream (w @ term # r)) = (n @ w, str_stream r)"
  by (induction w arbitrary: n) (subst getstring_loop.simps, force)+

lemma getstring_loop_last:
  "term \<notin> set w \<Longrightarrow> getstring_loop term n (str_stream w) = (n @ w, set_fail (hit_eof (str_stream [])))"
proof (induction w arbitrary: n)
  case Nil
  show ?case by (subst getstring_loop.simps) (simp add: get_ch_def str_stream_def good_def)
next
  case (Cons c w)
  then show ?case by (subst getstring_loop.simps) force
qed

subsection \<open>\<open>parse_rangelist\<close>\<close>

text \<open>\<open>for(siz i = l; i <= u; ++i) items.push_back(i)\<close>: \<open>i\<close> wraps, so the loop need not end.\<close>

partial_function (option) range_loop :: "siz \<Rightarrow> siz \<Rightarrow> siz list \<Rightarrow> siz list option" where
  "range_loop i u items = (if i \<le> u then range_loop (i + 1) u (items @ [i]) else Some items)"

declare range_loop.simps [code]

definition parse_range :: "string \<Rightarrow> siz list \<Rightarrow> siz list option" where
  "parse_range rng items =
     (case getline (CHR ''-'') [] (str_stream rng) of (lb, iss1) \<Rightarrow>
      case getline LF [] iss1 of (ub, iss2) \<Rightarrow>
        if lb = [] then Some items
        else case read_siz 0 (str_stream lb) of (l, is1) \<Rightarrow>
          if \<not> ok is1 then Some items
          else let u = (if ub = [] then l
                        else case read_siz 0 (str_stream ub) of (u, is2) \<Rightarrow> if \<not> ok is2 then l else u)
               in if u < l then Some items else range_loop l u items)"

function rangelist_loop :: "istream \<Rightarrow> string \<Rightarrow> siz list \<Rightarrow> siz list option" where
  "rangelist_loop iss range0 items =
     (case getline (CHR '','') range0 iss of (range1, iss1) \<Rightarrow>
        if ok iss1
        then (case parse_range range1 items of
                None \<Rightarrow> None | Some items1 \<Rightarrow> rangelist_loop iss1 range1 items1)
        else Some items)"
  by pat_completeness auto
termination
  by (relation "measure (\<lambda>(is, r, i). length (buf is))") (auto dest!: getline_length [OF sym])

declare rangelist_loop.simps [simp del]

definition parse_rangelist :: "string \<Rightarrow> siz list \<Rightarrow> siz list option" where
  "parse_rangelist rangelist items = rangelist_loop (str_stream rangelist) [] items"

lemma range_loop_ends:
  "l \<le> u \<Longrightarrow> u \<noteq> siz_max \<Longrightarrow>
    range_loop l u items = Some (items @ map of_nat [unat l..<Suc (unat u)])"
proof (induction "unat u - unat l" arbitrary: l items)
  case 0
  then have lu: "unat l = unat u" by (simp add: word_le_nat_alt)
  have "unat siz_max = 2 ^ 64 - 1"
    by (simp add: siz_max_def unsigned_minus_1_eq_mask mask_eq_exp_minus_1)
  with 0(3) have "unat u \<noteq> 2 ^ 64 - 1" using word_unat_eq_iff [of u siz_max] by simp
  moreover have "unat u < 2 ^ 64" using unsigned_less [of u, where ?'a = nat] by simp
  ultimately have "unat (l + 1) = Suc (unat l)" using lu by (simp add: unat_word_ariths)
  then show ?case using lu word_unat_eq_iff [of l u]
    by (subst range_loop.simps, subst range_loop.simps) (simp add: word_le_nat_alt)
next
  case (Suc k)
  then have lu: "unat l < unat u" by linarith
  then have "unat l + 1 < 2 ^ 64" using unsigned_less [of u, where ?'a = nat] by simp
  then have n: "unat (l + 1) = Suc (unat l)" by (simp add: unat_word_ariths)
  have "range_loop (l + 1) u (items @ [l]) = Some ((items @ [l]) @ map of_nat [unat (l + 1)..<Suc (unat u)])"
    using Suc lu n by (intro Suc(1)) (simp_all add: word_le_nat_alt)
  moreover have "[unat l..<Suc (unat u)] = unat l # [Suc (unat l)..<Suc (unat u)]"
    using lu by (simp add: upt_conv_Cons)
  ultimately show ?case using Suc.prems n by (subst range_loop.simps) simp
qed

lemma range_loop_max: "range_loop i u items = Some y \<Longrightarrow> u \<noteq> siz_max"
proof (erule range_loop.raw_induct [of "\<lambda>i u items y. u \<noteq> siz_max", rotated], goal_cases)
  case (1 loop i u items y)
  then show ?case by (auto simp: siz_max_def not_le split: if_splits)
qed

lemma range_loop_diverges: "range_loop l siz_max items = None"
  using range_loop_max [of l siz_max items] by (cases "range_loop l siz_max items") auto

subsection \<open>\<open>print_duration\<close>\<close>

text \<open>
  The duration is a count of nanoseconds; \<open>duration_cast\<close> rounds to zero.  The days are an
  \<open>int\<close>, wide enough for five million years.
\<close>

definition quot :: "int \<Rightarrow> int \<Rightarrow> int" where
  "quot a b = sgn a * (\<bar>a\<bar> div b)"

lemma quot_nonneg: "0 \<le> a \<Longrightarrow> quot a b = a div b"
  by (simp add: quot_def sgn_if)

definition print_duration :: "int \<Rightarrow> string" where
  "print_duration t =
     (let ns = 10 ^ 9;
          d = quot t (86400 * ns);
          t1 = t - d * 86400 * ns;
          hr = quot t1 (3600 * ns);
          t2 = t1 - hr * 3600 * ns;
          m = quot t2 (60 * ns);
          t3 = t2 - m * 60 * ns;
          s = quot t3 ns
      in (if 86400 * ns \<le> t then show_int d @ ''d '' else []) @
         (if 3600 * ns \<le> t then show_int hr @ ''h '' else []) @
         (if 60 * ns \<le> t then show_int m @ ''m '' else []) @ show_int s @ ''s'')"

subsection \<open>Directories\<close>

text \<open>
  \<open>ls\<close> of \<open>ios.h\<close>: the error number and the files.  The directory is an argument: the error of \<open>opendir\<close>,
  or what \<open>readdir\<close> returns up to its null pointer with the error of \<open>closedir\<close>, 0 when it has none.
\<close>

definition list_dir :: "(string \<Rightarrow> int + (string list \<times> int)) \<Rightarrow> string \<Rightarrow> string list \<Rightarrow> int \<times> string list" where
  "list_dir dir folder files =
     (case dir folder of
        Inl e \<Rightarrow> (e, files)
      | Inr (names, e) \<Rightarrow> (if e \<noteq> 0 then (e, names) else (0, names)))"

subsection \<open>\<open>wild_replace\<close>\<close>

text \<open>\<open>n\<close> counts the draws of \<open>random_element\<close>.\<close>

fun wild_loop :: "hol \<Rightarrow> string list \<Rightarrow> bool \<Rightarrow> nat \<Rightarrow> string \<Rightarrow> string" where
  "wild_loop h rs esc n [] = []"
| "wild_loop h rs esc n (c # cs) =
     (if esc then c # wild_loop h rs False n cs
      else if c = BSL then wild_loop h rs True n cs
      else if c = CHR ''*'' then h_random h n rs @ wild_loop h rs False (n + 1) cs
      else c # wild_loop h rs False n cs)"

definition wild_replace_vec :: "hol \<Rightarrow> string \<Rightarrow> string list \<Rightarrow> string" where
  "wild_replace_vec h wild replacements =
     (if replacements = [] then wild else wild_loop h replacements False 0 wild)"

definition wild_replace :: "hol \<Rightarrow> string \<Rightarrow> string \<Rightarrow> string" where
  "wild_replace h wild replacement = wild_replace_vec h wild [replacement]"

subsection \<open>Properties\<close>

lemma getline_dash:
  "getline (CHR ''-'') x (str_stream (show_nat n @ CHR ''-'' # r)) = (show_nat n, str_stream r)"
proof -
  have "CHR ''-'' \<notin> set (show_nat n)" using show_nat_digits [of "CHR ''-''" n] by (auto simp: isdigit_def code_def)
  then show ?thesis by (simp add: getline_found [where l = "show_nat n" and r = r])
qed

lemma show_nat_no_LF: "LF \<notin> set (show_nat n)"
  using show_nat_digits [of LF n] by (auto simp: isdigit_def code_def LF_def)

lemma read_siz_all:
  assumes "n < 2 ^ 64"
  shows "read_siz m (str_stream (show_nat n)) = (of_nat n, hit_eof (str_stream []))"
proof -
  obtain x xs where s: "show_nat n = x # xs" by (cases "show_nat n") auto
  then have d: "isdigit x" "\<forall>y\<in>set (show_nat n). isdigit y"
    using show_nat_digits [of _ n] by auto
  have ns: "\<not> isspace x" "x \<noteq> CHR ''-''" "x \<noteq> CHR ''+''"
    using d(1) isdigit_not_isspace by (auto simp: isdigit_def code_def)
  have tk: "takeWhile isdigit (show_nat n) = show_nat n" "dropWhile isdigit (show_nat n) = []"
    using d(2) by simp_all
  have se: "sentry (str_stream (show_nat n)) = str_stream (show_nat n)"
    using ns s by (simp add: sentry_def str_stream_def good_def)
  have sp: "split_sign (show_nat n) = (False, show_nat n)"
    using ns s by (simp add: split_sign_def)
  show ?thesis
    unfolding read_siz_def Let_def se using assms
    by (simp add: sp tk str_stream_def good_def hit_eof_def)
qed

text \<open>A range \<open>l-u\<close> in order and below the largest \<open>siz\<close> adds exactly the numbers from \<open>l\<close> to \<open>u\<close>, both
  included, each once and in order, and the loop ends; but when the upper bound is the largest
  \<open>siz\<close>, which is what \<open>-1\<close> reads as, \<open>i <= u\<close> always holds and \<open>parse_rangelist\<close> never returns.\<close>

theorem rangelist_range:
  assumes "l \<le> u" "u < 2 ^ 64 - 1"
  shows "parse_range (show_nat l @ ''-'' @ show_nat u) items = Some (items @ map of_nat [l..<Suc u]) \<and>
    parse_rangelist (show_nat l @ ''--1'') items = None"
proof
  have b: "l < 2 ^ 64" "u < 2 ^ 64" using assms by simp_all
  then have un: "unat (of_nat l :: siz) = l" "unat (of_nat u :: siz) = u"
    by (simp_all add: unat_of_nat)
  have ne: "(of_nat u :: siz) \<noteq> siz_max"
  proof
    assume "(of_nat u :: siz) = siz_max"
    then have "unat (of_nat u :: siz) = unat siz_max" by simp
    with un assms(2) show False
      by (simp add: siz_max_def unsigned_minus_1_eq_mask mask_eq_exp_minus_1)
  qed
  have "(of_nat l :: siz) \<le> of_nat u" using un assms(1) by (simp add: word_le_nat_alt)
  moreover have "getline LF [] (str_stream (show_nat u)) = (show_nat u, hit_eof (str_stream []))"
    using getline_last [of "str_stream (show_nat u)" LF "[]"] show_nat_no_LF by (simp add: hit_eof_def)
  ultimately show "parse_range (show_nat l @ ''-'' @ show_nat u) items = Some (items @ map of_nat [l..<Suc u])"
    using range_loop_ends [of "of_nat l" "of_nat u" items] ne un b
    by (simp add: parse_range_def getline_dash read_siz_all not_less Let_def)
next
  let ?r = "show_nat l @ ''--1''"
  have l: "l < 2 ^ 64" using assms by simp
  have m1: "read_siz 0 (str_stream ''-1'') = (siz_max, hit_eof (str_stream []))"
    by (simp add: read_siz_def sentry_def split_sign_def digits_val_def digit_val_def isdigit_def isspace_def
        code_def siz_max_def hit_eof_def char_consts str_stream_def good_def)
  have m2: "getline LF [] (str_stream ''-1'') = (''-1'', hit_eof (str_stream []))"
    using getline_last [of "str_stream ''-1''" LF "[]"] by (simp add: hit_eof_def LF_def)
  have "parse_range ?r items = None"
    using range_loop_diverges l
    by (simp add: parse_range_def getline_dash m1 m2 read_siz_all not_less siz_max_def Let_def)
  moreover have "CHR '','' \<notin> set ?r"
    using show_nat_digits [of "CHR '',''" l] by (auto simp: isdigit_def code_def)
  ultimately show "parse_rangelist ?r items = None"
    using getline_last [of "str_stream ?r" "CHR '',''" "[]"]
    by (simp add: parse_rangelist_def rangelist_loop.simps [of "str_stream ?r"])
qed

theorem rangelist_range_witness:
  "parse_range (show_nat 9 @ ''-'' @ show_nat 11) [] = Some [9, 10, 11] \<and>
    parse_rangelist (show_nat 9 @ ''--1'') [] = None"
  using rangelist_range [of 9 11 "[]"] by (simp add: upt_rec)

text \<open>\<open>print_duration\<close> splits a duration into days, hours below 24, minutes below 60 and seconds below
  60 that add up to the whole seconds of it, and leaves out the leading units that are zero.\<close>

theorem print_duration_parts:
  assumes "0 \<le> t"
  shows "\<exists>d hr m s. 0 \<le> d \<and> 0 \<le> hr \<and> hr < 24 \<and> 0 \<le> m \<and> m < 60 \<and> 0 \<le> s \<and> s < 60 \<and>
    d * 86400 + hr * 3600 + m * 60 + s = t div 10 ^ 9 \<and>
    print_duration t = (if 0 < d then show_int d @ ''d '' else []) @
      (if 0 < d \<or> 0 < hr then show_int hr @ ''h '' else []) @
      (if 0 < d \<or> 0 < hr \<or> 0 < m then show_int m @ ''m '' else []) @ show_int s @ ''s''"
proof -
  define d where "d = t div 86400000000000"
  define t1 where "t1 = t mod 86400000000000"
  define hr where "hr = t1 div 3600000000000"
  define t2 where "t2 = t1 mod 3600000000000"
  define m where "m = t2 div 60000000000"
  define t3 where "t3 = t2 mod 60000000000"
  define s where "s = t3 div 1000000000"
  define r where "r = t3 mod 1000000000"
  have e: "t = d * 86400000000000 + t1" "t1 = hr * 3600000000000 + t2" "t2 = m * 60000000000 + t3"
    "t3 = s * 1000000000 + r"
    unfolding d_def t1_def hr_def t2_def m_def t3_def s_def r_def by simp_all
  have b: "0 \<le> t1" "t1 < 86400000000000" "0 \<le> t2" "t2 < 3600000000000" "0 \<le> t3" "t3 < 60000000000"
    "0 \<le> r" "r < 1000000000"
    unfolding t1_def t2_def t3_def r_def by simp_all
  have n: "0 \<le> d" "0 \<le> hr" "0 \<le> m" "0 \<le> s"
    using assms b unfolding d_def hr_def m_def s_def by (simp_all add: pos_imp_zdiv_nonneg_iff)
  have p: "print_duration t = (if 0 < d then show_int d @ ''d '' else []) @
      (if 0 < d \<or> 0 < hr then show_int hr @ ''h '' else []) @
      (if 0 < d \<or> 0 < hr \<or> 0 < m then show_int m @ ''m '' else []) @ show_int s @ ''s''"
  proof -
    have i: "86400000000000 \<le> t \<longleftrightarrow> 0 < d" "3600000000000 \<le> t \<longleftrightarrow> 0 < d \<or> 0 < hr"
      "60000000000 \<le> t \<longleftrightarrow> 0 < d \<or> 0 < hr \<or> 0 < m"
      using e b n by linarith+
    have x: "t - 86400000000000 * d = t1" "t1 - 3600000000000 * hr = t2" "t2 - 60000000000 * m = t3"
      using e by linarith+
    have y: "quot t 86400000000000 = d" "quot t1 3600000000000 = hr" "quot t2 60000000000 = m"
      "quot t3 1000000000 = s"
      unfolding d_def hr_def m_def s_def using assms b by (simp_all only: quot_nonneg)
    show ?thesis by (simp add: print_duration_def Let_def x y i)
  qed
  have "t = r + 1000000000 * (d * 86400 + hr * 3600 + m * 60 + s)"
    unfolding distrib_left using e by linarith
  then have "t div 1000000000 = d * 86400 + hr * 3600 + m * 60 + s" using b by simp
  moreover have "hr < 24" "m < 60" "s < 60" using e b by linarith+
  ultimately show ?thesis using p n by (intro exI [of _ d] exI [of _ hr] exI [of _ m] exI [of _ s]) simp
qed

theorem print_duration_parts_witness:
  "print_duration (90061 * 10 ^ 9) = show_int 1 @ ''d '' @ show_int 1 @ ''h '' @ show_int 1 @ ''m '' @ show_int 1 @ ''s''"
proof -
  obtain d hr m s :: int where v: "0 \<le> hr" "hr < 24" "0 \<le> m" "m < 60" "0 \<le> s" "s < 60"
    "d * 86400 + hr * 3600 + m * 60 + s = (90061 * 10 ^ 9) div 10 ^ 9" and
    p: "print_duration (90061 * 10 ^ 9) = (if 0 < d then show_int d @ ''d '' else []) @
      (if 0 < d \<or> 0 < hr then show_int hr @ ''h '' else []) @
      (if 0 < d \<or> 0 < hr \<or> 0 < m then show_int m @ ''m '' else []) @ show_int s @ ''s''"
    using print_duration_parts [of "90061 * 10 ^ 9"] by auto
  have e: "d * 86400 + hr * 3600 + m * 60 + s = 90061" using v(7) by simp
  have d: "d = 1" using v(1-6) e by linarith
  have h: "hr = 1" using v(1-6) e d by linarith
  have m: "m = 1" using v(1-6) e d h by linarith
  have "s = 1" using e d h m by linarith
  with p d h m show ?thesis by simp
qed

end
