(* ===== verification/Bot_Props.thy ===== *)
theory Bot_Props
  imports Streams Std_Map Hol_Lib Stores
begin

text \<open>
  The configuration of \<open>IrcBot\<close> (\<open>ircbot.h\<close>, \<open>ircbot.cpp\<close>): the property map, the accessors and
  the parser \<open>load_props\<close> of the configuration file.  The environment, the files and the clock are
  arguments.  A null pointer from \<open>getenv\<close> made into a string is an error value; a parser run that
  does not end (a file that includes itself) is \<open>None\<close>.
\<close>

record sys =
  y_hol :: hol
  y_match :: matchers
  y_getenv :: "string \<Rightarrow> string option"
  y_file :: "string \<Rightarrow> string option"

datatype bot_error =
    Null_Getenv string
  | Store_Failed store_error
  | Dangling_Plugin nat
  | Bad_Index string
  | Not_Implemented
  | Connect_Failed

record conf =
  cf_props :: "(string, string list) cmap"
  cf_nicks :: "string list"
  cf_user :: string
  cf_mode :: string
  cf_real :: string
  cf_file :: string

subsection \<open>Accessors\<close>

definition conf_has :: "string \<Rightarrow> 'a conf_scheme \<Rightarrow> bool" where
  "conf_has s c = (cm_find str_lt s (cf_props c) \<noteq> None)"

definition conf_get_vec :: "string \<Rightarrow> 'a conf_scheme \<Rightarrow> string list" where
  "conf_get_vec s c =
     (case cm_find str_lt s (cf_props c) of None \<Rightarrow> [] | Some v \<Rightarrow> if v = [] then [] else v)"

definition conf_get :: "string \<Rightarrow> string \<Rightarrow> 'a conf_scheme \<Rightarrow> string" where
  "conf_get s dflt c =
     (case cm_find str_lt s (cf_props c) of
        None \<Rightarrow> dflt | Some v \<Rightarrow> if v = [] then dflt else v ! 0)"

text \<open>
  \<open>get<T>\<close> reads the first value from a stream with \<open>boolalpha\<close>.  A failed read stores false or 0
  (or the extreme value); a value of white space alone leaves the variable unset, taken as 0 here.
\<close>

definition conf_get_bool :: "string \<Rightarrow> bool \<Rightarrow> 'a conf_scheme \<Rightarrow> bool" where
  "conf_get_bool s dflt c =
     (case cm_find str_lt s (cf_props c) of
        None \<Rightarrow> dflt
      | Some v \<Rightarrow> if v = [] then dflt else starts_with ''true'' (dropWhile isspace (v ! 0)))"

definition conf_get_siz :: "string \<Rightarrow> siz \<Rightarrow> 'a conf_scheme \<Rightarrow> siz" where
  "conf_get_siz s dflt c =
     (case cm_find str_lt s (cf_props c) of
        None \<Rightarrow> dflt | Some v \<Rightarrow> if v = [] then dflt else fst (read_siz 0 (str_stream (v ! 0))))"

definition read_int32 :: "string \<Rightarrow> int" where
  "read_int32 s =
     (case split_sign (dropWhile isspace s) of (neg, r) \<Rightarrow>
        let n = int (digits_val (takeWhile isdigit r))
        in if neg then max (- (2 ^ 31)) (- n) else min (2 ^ 31 - 1) n)"

definition conf_get_int :: "string \<Rightarrow> int \<Rightarrow> 'a conf_scheme \<Rightarrow> int" where
  "conf_get_int s dflt c =
     (case cm_find str_lt s (cf_props c) of
        None \<Rightarrow> dflt | Some v \<Rightarrow> if v = [] then dflt else read_int32 (v ! 0))"

definition conf_get_set :: "string \<Rightarrow> 'a conf_scheme \<Rightarrow> string cset" where
  "conf_get_set s c = cs_of_list str_lt (conf_get_vec s c)"

definition conf_get_set_dflt :: "string \<Rightarrow> string \<Rightarrow> 'a conf_scheme \<Rightarrow> string cset" where
  "conf_get_set_dflt s dflt c =
     (let r = conf_get_set s c in if r = [] then cs_insert str_lt dflt r else r)"

definition bot_wild_match :: "matchers \<Rightarrow> string \<Rightarrow> string \<Rightarrow> nat \<Rightarrow> bool" where
  "bot_wild_match mt w s flags = m_fnmatch mt (or flags FNM_EXTMATCH) w s"

definition bot_sreg_match :: "matchers \<Rightarrow> string \<Rightarrow> string \<Rightarrow> bool \<Rightarrow> bool" where
  "bot_sreg_match mt r s full = m_regex mt False r s full"

definition get_wild_keys :: "matchers \<Rightarrow> string \<Rightarrow> 'a conf_scheme \<Rightarrow> string cset" where
  "get_wild_keys mt prefix c =
     fold (\<lambda>p s. if bot_wild_match mt (prefix @ ''*'') (fst p) 0 then cs_insert str_lt (fst p) s else s)
       (cf_props c) []"

definition safe_home :: "sys \<Rightarrow> string" where
  "safe_home y = (case y_getenv y ''HOME'' of Some h \<Rightarrow> h | None \<Rightarrow> [])"

definition DATA_DIR :: string where "DATA_DIR = ''home''"

definition locate_config_dir :: "sys \<Rightarrow> 'a conf_scheme \<Rightarrow> string" where
  "locate_config_dir y c = conf_get DATA_DIR (safe_home y @ ''/'' @ ''.skivvy'') c"

definition locate_config_file :: "sys \<Rightarrow> string \<Rightarrow> 'a conf_scheme \<Rightarrow> string" where
  "locate_config_file y name c =
     (if name = [] \<or> name ! 0 = CHR ''/'' then name else locate_config_dir y c @ ''/'' @ name)"

definition conf_getf :: "sys \<Rightarrow> string \<Rightarrow> string \<Rightarrow> 'a conf_scheme \<Rightarrow> string" where
  "conf_getf y s dflt c = locate_config_file y (conf_get s dflt c) c"

subsection \<open>\<open>load_props\<close>\<close>

text \<open>The environment variables of a line: \<open>pos\<close> is kept while the line changes under it.\<close>

partial_function (option) expand_env :: "sys \<Rightarrow> string \<Rightarrow> nat \<Rightarrow> (bot_error + string) option" where
  "expand_env y line pos =
     (case h_extract (y_hol y) line ''${'' ''}'' pos of
        None \<Rightarrow> Some (Inr line)
      | Some (var, pos1) \<Rightarrow>
          (case y_getenv y var of
             None \<Rightarrow> Some (Inl (Null_Getenv var))
           | Some val \<Rightarrow> expand_env y (h_replace_all (y_hol y) line (''${'' @ var @ ''}'') val) pos1))"

declare expand_env.simps [code]

definition expand_vars :: "hol \<Rightarrow> (string, string) cmap \<Rightarrow> string \<Rightarrow> string" where
  "expand_vars h vars line =
     fold (\<lambda>p l. h_replace_all h l (''${'' @ fst p @ ''}'') (snd p)) vars line"

text \<open>\<open>sgl(sgl(siss(line) >> std::ws, key, ':') >> std::ws, val)\<close>.\<close>

definition key_val :: "string \<Rightarrow> (string \<times> string) option" where
  "key_val line =
     (case getline (CHR '':'') [] (skip_ws (str_stream line)) of (key, iss1) \<Rightarrow>
      case getline LF [] (skip_ws iss1) of (val, iss2) \<Rightarrow>
        if ok iss2 then Some (key, val) else None)"

definition include_path :: "string \<Rightarrow> string \<Rightarrow> string" where
  "include_path configfile val =
     (if val ! 0 = CHR ''/'' then val
      else let file_path = (case find_last_ch (CHR ''/'') configfile of
                              None \<Rightarrow> [] | Some pos \<Rightarrow> substr configfile 0 pos)
           in if file_path \<noteq> [] then file_path @ ''/'' @ val else val)"

text \<open>What a line asks for: go on, or read another file first.\<close>

datatype 'c line_action =
    Next 'c "(string, string) cmap" string
  | Include string 'c "(string, string) cmap" string

definition strip_comment :: "string \<Rightarrow> string" where
  "strip_comment line = (case find_str ''//'' line of None \<Rightarrow> line | Some pos \<Rightarrow> take pos line)"

text \<open>The dispatch on the key.\<close>

definition set_prop ::
  "hol \<Rightarrow> string \<Rightarrow> string \<Rightarrow> 'a conf_scheme \<Rightarrow> (string, string) cmap \<Rightarrow> string \<Rightarrow> 'a conf_scheme line_action" where
  "set_prop h key0 val0 c vars prefix =
     (let key = h_trim h key0; val = h_trim h val0
      in if key = ''nick'' then Next (c\<lparr>cf_nicks := cf_nicks c @ [val]\<rparr>) vars prefix
         else if key = ''user'' then Next (c\<lparr>cf_user := val\<rparr>) vars prefix
         else if key = ''mode'' then Next (c\<lparr>cf_mode := val\<rparr>) vars prefix
         else if key = ''real'' then Next (c\<lparr>cf_real := val\<rparr>) vars prefix
         else if key = ''include'' then
           (if val = [] then Next c vars prefix
            else Include (include_path (cf_file c) val) c vars prefix)
         else Next (c\<lparr>cf_props := push_back str_lt key val (cf_props c)\<rparr>) vars prefix)"

text \<open>A line after the variables are expanded; \<open>find("include:")\<close> is 0, that is false, at the start.\<close>

definition expanded_line ::
  "hol \<Rightarrow> string \<Rightarrow> 'a conf_scheme \<Rightarrow> (string, string) cmap \<Rightarrow> string \<Rightarrow> 'a conf_scheme line_action" where
  "expanded_line h line c vars prefix =
     (if line \<noteq> [] \<and> hd line = CHR ''['' \<and> last line = CHR '']''
      then Next c vars (h_trim h (substr line 1 (length line - 2)))
      else let line1 = (if find_str ''include:'' line \<noteq> Some 0 \<and> prefix \<noteq> [] then prefix @ ''.'' @ line else line)
           in if line1 \<noteq> [] \<and> hd line1 = CHR ''$''
              then (case key_val (drop 1 line1) of
                      None \<Rightarrow> Next c vars prefix
                    | Some (key, val) \<Rightarrow> Next c (cm_set str_lt (h_trim h key) (h_trim h val) vars) prefix)
              else (case key_val line1 of
                      None \<Rightarrow> Next c vars prefix
                    | Some (key, val) \<Rightarrow> set_prop h key val c vars prefix))"

definition props_line ::
  "sys \<Rightarrow> string \<Rightarrow> 'a conf_scheme \<Rightarrow> (string, string) cmap \<Rightarrow> string \<Rightarrow>
    (bot_error + 'a conf_scheme line_action) option" where
  "props_line y line0 c vars prefix =
     (let h = y_hol y; line = h_trim h (strip_comment line0)
      in if line = [] \<or> line ! 0 = CHR ''#'' then Some (Inr (Next c vars prefix))
         else Option.bind (expand_env y (expand_vars h vars line) 0)
           (\<lambda>r. case r of Inl e \<Rightarrow> Some (Inl e) | Inr line1 \<Rightarrow> Some (Inr (expanded_line h line1 c vars prefix))))"

definition open_in :: "sys \<Rightarrow> string \<Rightarrow> istream" where
  "open_in y name = (case y_file y name of None \<Rightarrow> set_fail (str_stream []) | Some t \<Rightarrow> str_stream t)"

partial_function (option) load_props ::
  "sys \<Rightarrow> istream \<Rightarrow> 'a conf_scheme \<Rightarrow> (string, string) cmap \<Rightarrow> string \<Rightarrow>
    (bot_error option \<times> istream \<times> 'a conf_scheme \<times> (string, string) cmap \<times> string) option" where
  "load_props y is c vars prefix =
     (case getline LF [] is of (line, is1) \<Rightarrow>
        if \<not> ok is1
        then Some (None, (if eofbit is1 then clear_bits is1 else is1), c, vars, prefix)
        else Option.bind (props_line y line c vars prefix) (\<lambda>r. case r of
            Inl e \<Rightarrow> Some (Some e, is1, c, vars, prefix)
          | Inr (Next c1 vars1 prefix1) \<Rightarrow> load_props y is1 c1 vars1 prefix1
          | Inr (Include name c1 vars1 prefix1) \<Rightarrow>
              Option.bind (load_props y (open_in y name) c1 vars1 prefix1) (\<lambda>(e, is2, c2, vars2, prefix2).
                case e of
                  Some err \<Rightarrow> Some (Some err, is1, c2, vars2, prefix2)
                | None \<Rightarrow> load_props y is1 c2 vars2 prefix2)))"

declare load_props.simps [code]

text \<open>\<open>operator>>(std::istream&, IrcBot&)\<close> on a file; the result says whether the stream is good.\<close>

definition read_conf :: "sys \<Rightarrow> string \<Rightarrow> 'a conf_scheme \<Rightarrow> (bot_error option \<times> bool \<times> 'a conf_scheme) option" where
  "read_conf y name c =
     map_option (\<lambda>(e, is1, c1, _, _). (e, ok is1, c1)) (load_props y (open_in y name) c [] [])"

subsection \<open>Plain lines\<close>

text \<open>A line \<open>key: value\<close> that no special rule of the parser applies to.\<close>

definition plain_text :: "string \<Rightarrow> bool" where
  "plain_text s = (LF \<notin> set s \<and> find_str ''//'' s = None \<and> find_str ''${'' s = None)"

definition conf_line :: "string \<times> string \<Rightarrow> string" where
  "conf_line p = fst p @ '': '' @ snd p"

definition plain_prop :: "string \<times> string \<Rightarrow> bool" where
  "plain_prop p = (trimmed (fst p) \<and> trimmed (snd p) \<and> CHR '':'' \<notin> set (fst p) \<and>
     hd (fst p) \<notin> {CHR ''#'', CHR ''['', CHR ''$''} \<and> plain_text (conf_line p))"

lemma skip_ws_trimmed: "trimmed s \<Longrightarrow> skip_ws (str_stream s) = str_stream s"
  by (cases s) (auto simp: trimmed_def skip_ws_def)

lemma expand_env_plain:
  "extracts (y_hol y) \<Longrightarrow> find_str ''${'' line = None \<Longrightarrow> expand_env y line 0 = Some (Inr line)"
  by (subst expand_env.simps) (simp add: extracts_def extract_between_def)

lemma key_val_plain:
  assumes "trimmed k" "trimmed v" "CHR '':'' \<notin> set k" "LF \<notin> set v"
  shows "key_val (k @ '': '' @ v) = Some (k, v)"
proof -
  have t: "trimmed (k @ '': '' @ v)" using assms(1,2) by (simp add: trimmed_def)
  have g: "getline (CHR '':'') [] (str_stream (k @ '': '' @ v)) = (k, str_stream ('' '' @ v))"
    using getline_found [of "str_stream (k @ '': '' @ v)" "CHR '':''" k "'' '' @ v" "[]"] assms(3) by simp
  obtain x xs where v: "v = x # xs" "\<not> isspace x" using assms(2) by (cases v) (auto simp: trimmed_def)
  have s: "skip_ws (str_stream ('' '' @ v)) = str_stream v"
    using v by (simp add: skip_ws_def isspace_def char_consts)
  have "getline LF [] (str_stream v) = (v, hit_eof (str_stream []))"
    using getline_last [of "str_stream v" LF "[]"] assms(4) v by (simp add: hit_eof_def)
  with s show ?thesis unfolding key_val_def skip_ws_trimmed [OF t] g by simp
qed

lemma plain_prop_line:
  assumes "trims (y_hol y)" "extracts (y_hol y)" "plain_prop (k, v)"
  shows "props_line y (conf_line (k, v)) c [] [] = Some (Inr (set_prop (y_hol y) k v c [] []))"
proof -
  let ?l = "k @ '': '' @ v"
  have p: "trimmed k" "trimmed v" "CHR '':'' \<notin> set k" "LF \<notin> set ?l" "find_str ''//'' ?l = None"
    "find_str ''${'' ?l = None" "hd k \<noteq> CHR ''#''" "hd k \<noteq> CHR ''[''" "hd k \<noteq> CHR ''$''"
    using assms(3) by (simp_all add: plain_prop_def plain_text_def conf_line_def)
  then have t: "trimmed ?l" "?l \<noteq> []" "hd ?l = hd k" "?l ! 0 = hd k"
    by (auto simp: trimmed_def hd_conv_nth nth_append)
  have e: "expanded_line (y_hol y) ?l c [] [] = set_prop (y_hol y) k v c [] []"
    using t p key_val_plain [OF p(1,2,3)] by (simp add: expanded_line_def del: append_Cons)
  have "strip_comment ?l = ?l" using p(5) unfolding strip_comment_def by simp
  then show ?thesis
    using trim_trimmed [OF assms(1) t(1)] t(2,4) p(7) expand_env_plain [OF assms(2) p(6)] e
    unfolding props_line_def conf_line_def fst_conv snd_conv Let_def expand_vars_def by simp
qed

definition special_keys :: "string list" where
  "special_keys = [''nick'', ''user'', ''mode'', ''real'', ''include'']"

lemma set_prop_plain:
  assumes "trims h" "trimmed k" "trimmed v" "k \<notin> set special_keys"
  shows "set_prop h k v c vars prefix = Next (c\<lparr>cf_props := push_back str_lt k v (cf_props c)\<rparr>) vars prefix"
  using assms by (simp add: set_prop_def trim_trimmed special_keys_def)

lemma conf_get_vec_at: "conf_get_vec k c = cm_at str_lt [] k (cf_props c)"
  by (simp add: conf_get_vec_def cm_at_def split: option.splits)

lemma conf_get_vec_push:
  "conf_get_vec k' (c\<lparr>cf_props := push_back str_lt k v (cf_props c)\<rparr>) =
    (if k = k' then conf_get_vec k' c @ [v] else conf_get_vec k' c)"
  by (simp add: conf_get_vec_at push_back_def str_cmp.at_set)

text \<open>C23: A configuration file of plain \<open>key: value\<close> lines loads without error, and each property holds,
  after the values it had, exactly the values of its lines, in the order of the file.\<close>

theorem plain_conf_loads:
  assumes "trims (y_hol y)" "extracts (y_hol y)"
    and "\<forall>p\<in>set kvs. plain_prop p \<and> fst p \<notin> set special_keys"
  shows "\<exists>is1 c1. load_props y (str_stream (lines_text (map conf_line kvs))) c [] [] = Some (None, is1, c1, [], []) \<and>
    ok is1 \<and> (\<forall>k. conf_get_vec k c1 = conf_get_vec k c @ map snd (filter (\<lambda>p. fst p = k) kvs))"
  using assms(3)
proof (induction kvs arbitrary: c)
  case Nil
  show ?case by (subst load_props.simps) (simp add: stream_simps)
next
  case (Cons p kvs)
  obtain k v where p: "p = (k, v)" by (cases p)
  have pl: "plain_prop (k, v)" "k \<notin> set special_keys" using Cons.prems p by simp_all
  have nl: "LF \<notin> set (conf_line (k, v))" using pl(1) by (simp add: plain_prop_def plain_text_def)
  let ?c = "c\<lparr>cf_props := push_back str_lt k v (cf_props c)\<rparr>"
  have "set_prop (y_hol y) k v c [] [] = Next ?c [] []"
    using pl by (intro set_prop_plain assms(1)) (simp_all add: plain_prop_def)
  then have l: "props_line y (conf_line (k, v)) c [] [] = Some (Inr (Next ?c [] []))"
    using plain_prop_line [OF assms(1,2) pl(1), of c] by simp
  have g: "getline LF [] (str_stream (conf_line (k, v) @ LF # lines_text (map conf_line kvs))) =
      (conf_line (k, v), str_stream (lines_text (map conf_line kvs)))"
    using nl by (simp add: getline_found [where l = "conf_line (k, v)" and r = "lines_text (map conf_line kvs)"])
  from Cons.IH [of ?c] Cons.prems obtain is1 c1 where
    "load_props y (str_stream (lines_text (map conf_line kvs))) ?c [] [] = Some (None, is1, c1, [], [])"
    "ok is1" "\<forall>k'. conf_get_vec k' c1 = conf_get_vec k' ?c @ map snd (filter (\<lambda>p. fst p = k') kvs)"
    by auto
  then show ?case
    by (subst load_props.simps) (simp add: p g l conf_get_vec_push)
qed

theorem plain_conf_loads_witness:
  "\<exists>is1 c1. load_props \<lparr>y_hol = hol_ref, y_match = \<lparr>m_regex = (\<lambda>_ _ _ _. False), m_fnmatch = (\<lambda>_ _ _. False)\<rparr>,
        y_getenv = (\<lambda>_. None), y_file = (\<lambda>_. None)\<rparr>
      (str_stream (lines_text (map conf_line [(''join'', ''#a''), (''ban'', ''*@x''), (''join'', ''#b'')])))
      \<lparr>cf_props = [], cf_nicks = [], cf_user = [], cf_mode = [], cf_real = [], cf_file = ''/c''\<rparr> [] [] =
      Some (None, is1, c1, [], []) \<and> conf_get_vec ''join'' c1 = [''#a'', ''#b'']"
proof -
  have "\<forall>p\<in>set [(''join'', ''#a''), (''ban'', ''*@x''), (''join'', ''#b'')].
      plain_prop p \<and> fst p \<notin> set special_keys"
    by (simp add: plain_prop_def trimmed_def plain_text_def conf_line_def isspace_def char_consts special_keys_def)
  from plain_conf_loads [OF _ _ this, of "\<lparr>y_hol = hol_ref, y_match = \<lparr>m_regex = (\<lambda>_ _ _ _. False), m_fnmatch = (\<lambda>_ _ _. False)\<rparr>,
        y_getenv = (\<lambda>_. None), y_file = (\<lambda>_. None)\<rparr>"
      "\<lparr>cf_props = [], cf_nicks = [], cf_user = [], cf_mode = [], cf_real = [], cf_file = ''/c''\<rparr>"]
  show ?thesis using hol_ref_ok hol_ref_extracts by (auto simp: conf_get_vec_at cm_at_def)
qed

subsection \<open>A file that includes itself\<close>

lemma load_props_self:
  fixes c :: "'a conf_scheme"
  assumes "\<And>c :: 'a conf_scheme. props_line y line c [] [] = Some (Inr (Include name c [] []))"
    and "y_file y name = Some (line @ LF # rest)" "LF \<notin> set line"
  shows "load_props y (open_in y name) c [] [] = None"
proof -
  have g: "getline LF [] (str_stream (line @ LF # rest)) = (line, str_stream rest)"
    using assms(3) by (simp add: getline_found [where l = line and r = rest])
  have no: "y' = y \<longrightarrow> is = open_in y name \<longrightarrow> vars = [] \<longrightarrow> prefix = [] \<longrightarrow> False"
    if "load_props y' is c vars prefix = Some out" for y' "is" and c :: "'a conf_scheme" and vars prefix out
    using that
  proof (rule load_props.raw_induct [of "\<lambda>y' is c vars prefix out. y' = y \<longrightarrow> is = open_in y name \<longrightarrow> vars = [] \<longrightarrow> prefix = [] \<longrightarrow> False", rotated], goal_cases)
    case (1 loop y' str c vars prefix out)
    show ?case
    proof (intro impI)
      assume e: "y' = y" "str = open_in y name" "vars = []" "prefix = []"
      have "loop y (open_in y name) c [] [] \<noteq> None"
        using 1(2) e g assms(1) [of c] by (auto simp: open_in_def assms(2) bind_eq_Some_conv)
      with 1(1) [of y "open_in y name" c "[]" "[]"] show False by auto
    qed
  qed
  show ?thesis
    using no [of y "open_in y name" c "[]" "[]"] by (cases "load_props y (open_in y name) c [] []") auto
qed

text \<open>A configuration file that includes itself is read without end: \<open>load_props\<close> keeps no record of
  the files it is in.\<close>

theorem include_cycle_hangs:
  fixes c :: "'a conf_scheme"
  assumes "trims (y_hol y)" "extracts (y_hol y)"
    and "plain_prop (''include'', name)" "hd name = CHR ''/''"
    and "y_file y name = Some (conf_line (''include'', name) @ LF # rest)"
  shows "read_conf y name c = None"
proof -
  have t: "trimmed name" "trimmed ''include''" "LF \<notin> set (conf_line (''include'', name))"
    using assms(3) by (simp_all add: plain_prop_def plain_text_def)
  then have n: "name \<noteq> []" "name ! 0 = CHR ''/''" using assms(4) by (auto simp: trimmed_def hd_conv_nth)
  have "props_line y (conf_line (''include'', name)) c [] [] = Some (Inr (Include name c [] []))" for c :: "'a conf_scheme"
    using plain_prop_line [OF assms(1-3), of c] trim_trimmed [OF assms(1)] t n
    by (simp add: set_prop_def Let_def include_path_def)
  from load_props_self [OF this assms(5) t(3)] show ?thesis by (simp add: read_conf_def)
qed

theorem include_cycle_hangs_witness:
  "read_conf \<lparr>y_hol = hol_ref, y_match = \<lparr>m_regex = (\<lambda>_ _ _ _. False), m_fnmatch = (\<lambda>_ _ _. False)\<rparr>,
      y_getenv = (\<lambda>_. None), y_file = (\<lambda>_. Some (''include: /c'' @ [LF]))\<rparr> ''/c''
    \<lparr>cf_props = [], cf_nicks = [], cf_user = [], cf_mode = [], cf_real = [], cf_file = ''/c''\<rparr> = None"
  by (rule include_cycle_hangs [where rest = "[]"])
    (use hol_ref_ok hol_ref_extracts in \<open>simp_all add: plain_prop_def trimmed_def plain_text_def conf_line_def isspace_def char_consts\<close>)

end
