(* ===== verification/Plugins.thy ===== *)
theory Plugins
  imports Bot_Props Message
begin

text \<open>
  The plugins of \<open>IrcBot\<close> (\<open>ircbot.h\<close>, \<open>ircbot.cpp\<close>): \<open>BasicIrcBotPlugin\<close>, the loader, the list of
  loaded plugins, the command table, channel access and \<open>execute\<close>.  A plugin object is known by
  its address; the command table and the monitor set hold addresses, which may outlive the
  object.  What the plugin's own code does is an argument; a run of a command is recorded.
\<close>

subsection \<open>State\<close>

record action =
  ac_help :: string
  ac_flags :: nat

definition INVISIBLE :: nat where "INVISIBLE = 1"

record plugin =
  pl_addr :: nat
  pl_id :: string
  pl_name :: string
  pl_version :: string
  pl_actions :: "(string, action) cmap"

type_synonym chan_prefix = "string \<times> string"

record plugs = conf +
  pg_plugins :: "plugin list"
  pg_next :: nat
  pg_inits :: nat
  pg_commands :: "(string, nat) cmap"
  pg_access :: "(string, chan_prefix cset) cmap"
  pg_loaded :: int
  pg_monitors :: "nat cset"
  pg_services :: "(string, nat) cmap"
  pg_runs :: "(nat \<times> string \<times> message) list"

text \<open>
  The dynamic loader (id, name and version of the plugin in a file), the directories, and the
  plugin's own \<open>initialize\<close> at the \<open>n\<close>-th initialization: success, the actions it adds, and
  whether it adds itself as a monitor.
\<close>

record plug_sys =
  ps_dlopen :: "string \<Rightarrow> (string \<times> string \<times> string) option"
  ps_ls :: "string \<Rightarrow> string list option"
  ps_init :: "nat \<Rightarrow> nat \<Rightarrow> bool \<times> (string \<times> action) list \<times> bool"

definition nat_lt :: "nat \<Rightarrow> nat \<Rightarrow> bool" where "nat_lt a b = (a < b)"

definition prefix_lt :: "chan_prefix \<Rightarrow> chan_prefix \<Rightarrow> bool" where
  "prefix_lt a b = str_lt (fst a) (fst b)"

lemma prefix_lt_comparator: "comparator prefix_lt"
  by unfold_locales (auto simp: prefix_lt_def str_cmp.irrefl dest: str_cmp.trans str_cmp.neg_trans)

interpretation nat_cmp: linear_comparator nat_lt
  by unfold_locales (auto simp: nat_lt_def)

interpretation prefix_cmp: comparator prefix_lt
  by (rule prefix_lt_comparator)

subsection \<open>\<open>BasicIrcBotPlugin\<close>\<close>

definition plugin_add :: "string \<times> action \<Rightarrow> plugin \<Rightarrow> plugin" where
  "plugin_add a p = p\<lparr>pl_actions := cm_insert str_lt (fst a) (snd a) (pl_actions p)\<rparr>"

text \<open>Success, the plugin afterwards, and whether it is a monitor now.\<close>

definition plugin_init :: "plug_sys \<Rightarrow> bool \<Rightarrow> nat \<Rightarrow> plugin \<Rightarrow> bool \<times> plugin \<times> bool" where
  "plugin_init ps has_irc n p =
     (if \<not> has_irc then (False, p, False)
      else case ps_init ps (pl_addr p) n of (b, acts, mon) \<Rightarrow>
        (b, fold plugin_add acts (p\<lparr>pl_actions := []\<rparr>), mon))"

definition invisible :: "action \<Rightarrow> bool" where
  "invisible a = (and (ac_flags a) INVISIBLE \<noteq> 0)"

definition plugin_list :: "plugin \<Rightarrow> string list" where
  "plugin_list p = map fst (filter (\<lambda>f. \<not> invisible (snd f)) (pl_actions p))"

text \<open>\<open>actions[cmd]\<close> inserts an action with no function, and calling it throws.\<close>

definition plugin_execute :: "string \<Rightarrow> plugin \<Rightarrow> bool \<times> plugin" where
  "plugin_execute cmd p =
     (cm_find str_lt cmd (pl_actions p) \<noteq> None,
      p\<lparr>pl_actions := cm_touch str_lt \<lparr>ac_help = [], ac_flags = 0\<rparr> cmd (pl_actions p)\<rparr>)"

definition plugin_help :: "string \<Rightarrow> plugin \<Rightarrow> string" where
  "plugin_help cmd p =
     (case cm_find str_lt cmd (pl_actions p) of
        None \<Rightarrow> ''unknown command''
      | Some a \<Rightarrow>
          if invisible a then ''none''
          else let help = ac_help a
               in if help \<noteq> [] \<and> hd help = CHR ''=''
                  then (case cm_find str_lt (drop 1 help) (pl_actions p) of
                          None \<Rightarrow> ''unknown command alias''
                        | Some a2 \<Rightarrow> if invisible a2 then ''none'' else cmd @ '' '' @ ac_help a2)
                  else cmd @ '' '' @ help)"

subsection \<open>The list of plugins\<close>

definition find_plug :: "nat \<Rightarrow> plugin list \<Rightarrow> plugin option" where
  "find_plug a ps = List.find (\<lambda>p. pl_addr p = a) ps"

definition add_plugin :: "plugin \<Rightarrow> 'a plugs_scheme \<Rightarrow> 'a plugs_scheme" where
  "add_plugin p s = s\<lparr>pg_plugins := pg_plugins s @ [p]\<rparr>"

definition has_plugin :: "string \<Rightarrow> string \<Rightarrow> 'a plugs_scheme \<Rightarrow> bool" where
  "has_plugin i version s =
     list_ex (\<lambda>p. pl_id p = i \<and> \<not> str_lt (pl_version p) version) (pg_plugins s)"

definition get_plugin :: "string \<Rightarrow> 'a plugs_scheme \<Rightarrow> plugin option" where
  "get_plugin i s = List.find (\<lambda>p. pl_id p = i) (pg_plugins s)"

fun del_loop :: "string \<Rightarrow> plugin list \<Rightarrow> nat cset \<Rightarrow> plugin list \<times> nat cset" where
  "del_loop i [] mons = ([], mons)"
| "del_loop i (p # ps) mons =
     (if pl_id p \<noteq> i then (case del_loop i ps mons of (ps1, m1) \<Rightarrow> (p # ps1, m1))
      else del_loop i ps (cs_erase nat_lt (pl_addr p) mons))"

definition del_plugin :: "string \<Rightarrow> 'a plugs_scheme \<Rightarrow> 'a plugs_scheme" where
  "del_plugin i s =
     (case del_loop i (pg_plugins s) (pg_monitors s) of (ps, mons) \<Rightarrow>
        s\<lparr>pg_plugins := ps, pg_monitors := mons\<rparr>)"

definition add_monitor :: "nat \<Rightarrow> 'a plugs_scheme \<Rightarrow> 'a plugs_scheme" where
  "add_monitor m s = s\<lparr>pg_monitors := cs_insert nat_lt m (pg_monitors s)\<rparr>"

definition add_rpc_service :: "string \<Rightarrow> nat \<Rightarrow> 'a plugs_scheme \<Rightarrow> 'a plugs_scheme" where
  "add_rpc_service name sv s = s\<lparr>pg_services := cm_set str_lt name sv (pg_services s)\<rparr>"

definition get_rpc_service :: "string \<Rightarrow> 'a plugs_scheme \<Rightarrow> nat option" where
  "get_rpc_service name s = cm_find str_lt name (pg_services s)"

text \<open>\<open>IrcBotPluginLoader\<close>: a new object, whose id replaces every loaded plugin of that id.\<close>

definition load_plugin :: "plug_sys \<Rightarrow> string \<Rightarrow> 'a plugs_scheme \<Rightarrow> plugin option \<times> 'a plugs_scheme" where
  "load_plugin ps path s =
     (case ps_dlopen ps path of
        None \<Rightarrow> (None, s)
      | Some (i, name, version) \<Rightarrow>
          let p = \<lparr>pl_addr = pg_next s, pl_id = i, pl_name = name, pl_version = version, pl_actions = []\<rparr>;
              s1 = s\<lparr>pg_next := pg_next s + 1\<rparr>
          in (Some p, add_plugin p (del_plugin i s1)))"

text \<open>\<open>chan_access[chan].insert(cpf)\<close> for every part of the access list; the key is the whole part.\<close>

function access_loop :: "hol \<Rightarrow> string \<Rightarrow> istream \<Rightarrow> string \<Rightarrow> 'a plugs_scheme \<Rightarrow> 'a plugs_scheme" where
  "access_loop h name iss chan s =
     (case getline (CHR '','') chan iss of (chan1, iss1) \<Rightarrow>
        if \<not> ok iss1 then s
        else let chan2 = h_trim h chan1
             in case getline (CHR ''('') [] (str_stream chan2) of (skip, cs1) \<Rightarrow>
                case getline (CHR '')'') [] cs1 of (prefix, cs2) \<Rightarrow>
                let cpf = (name, h_trim h prefix);
                    m = pg_access s
                in access_loop h name iss1 chan2
                     (s\<lparr>pg_access := cm_set str_lt chan2 (cs_insert prefix_lt cpf (cm_at str_lt [] chan2 m)) m\<rparr>))"
  by pat_completeness auto
termination
  by (relation "measure (\<lambda>(h, n, iss, c, s). length (buf iss))") (auto dest!: getline_length [OF sym])

declare access_loop.simps [simp del]

text \<open>The directories for one line; \<open>ids\<close> are the ids loaded by this call so far.\<close>

fun load_from_dirs ::
  "plug_sys \<Rightarrow> hol \<Rightarrow> string \<Rightarrow> string \<Rightarrow> string list \<Rightarrow> string set \<Rightarrow> 'a plugs_scheme \<Rightarrow> string set \<times> 'a plugs_scheme" where
  "load_from_dirs ps h p access [] ids s = (ids, s)"
| "load_from_dirs ps h p access (dir # dirs) ids s =
     (case ps_ls ps dir of
        None \<Rightarrow> load_from_dirs ps h p access dirs ids s
      | Some files \<Rightarrow>
          if p \<notin> set files then load_from_dirs ps h p access dirs ids s
          else (case load_plugin ps (dir @ ''/'' @ p) s of
                  (None, s1) \<Rightarrow> load_from_dirs ps h p access dirs ids s1
                | (Some pl, s1) \<Rightarrow>
                    if pl_id pl \<in> ids then (ids, del_plugin (pl_id pl) s1)
                    else (insert (pl_id pl) ids, access_loop h (pl_name pl) (str_stream access) [] s1)))"

definition plugin_line :: "hol \<Rightarrow> string \<Rightarrow> string \<times> string" where
  "plugin_line h line =
     (case getline (CHR ''['') [] (str_stream line) of (p, iss1) \<Rightarrow>
      case getline (CHR '']'') [] iss1 of (access, iss2) \<Rightarrow> (h_trim h p, access))"

fun load_lines_plugs ::
  "plug_sys \<Rightarrow> hol \<Rightarrow> string list \<Rightarrow> string list \<Rightarrow> string set \<Rightarrow> 'a plugs_scheme \<Rightarrow> 'a plugs_scheme" where
  "load_lines_plugs ps h dirs [] ids s = s"
| "load_lines_plugs ps h dirs (line # pv) ids s =
     (case plugin_line h line of (p, access) \<Rightarrow>
      case load_from_dirs ps h p access dirs ids s of (ids1, s1) \<Rightarrow>
        load_lines_plugs ps h dirs pv ids1 s1)"

definition DEFAULT_PLUGIN_DIR :: string where "DEFAULT_PLUGIN_DIR = ''/usr/lib/skivvy''"

definition load_plugins :: "plug_sys \<Rightarrow> hol \<Rightarrow> int \<Rightarrow> 'a plugs_scheme \<Rightarrow> 'a plugs_scheme" where
  "load_plugins ps h now s =
     (let s1 = s\<lparr>pg_loaded := now\<rparr>;
          dirs = (if conf_has ''plugin.dir'' s1 then conf_get_vec ''plugin.dir'' s1 else []) @ [DEFAULT_PLUGIN_DIR]
      in load_lines_plugs ps h dirs (conf_get_vec ''plugin'' s1) {} s1)"

text \<open>
  The loop of \<open>init\<close> and of \<open>/reload\<close> over the plugins: one that fails to initialize is erased, the
  commands of the others are registered.
\<close>

fun init_loop :: "plug_sys \<Rightarrow> bool \<Rightarrow> plugin list \<Rightarrow> 'a plugs_scheme \<Rightarrow> plugin list \<times> 'a plugs_scheme" where
  "init_loop ps has_irc [] s = ([], s)"
| "init_loop ps has_irc (p # ps0) s =
     (case plugin_init ps has_irc (pg_inits s) p of (b, p1, mon) \<Rightarrow>
        let s1 = s\<lparr>pg_inits := pg_inits s + 1\<rparr>;
            s2 = (if mon then add_monitor (pl_addr p) s1 else s1)
        in if \<not> b then init_loop ps has_irc ps0 s2
           else case init_loop ps has_irc ps0
                  (s2\<lparr>pg_commands := fold (\<lambda>c m. cm_set str_lt c (pl_addr p1) m) (plugin_list p1) (pg_commands s2)\<rparr>) of
                (ps1, s3) \<Rightarrow> (p1 # ps1, s3))"

definition init_plugins :: "plug_sys \<Rightarrow> bool \<Rightarrow> 'a plugs_scheme \<Rightarrow> 'a plugs_scheme" where
  "init_plugins ps has_irc s =
     (case init_loop ps has_irc (pg_plugins s) s of (l, s1) \<Rightarrow> s1\<lparr>pg_plugins := l\<rparr>)"

definition bot_list :: "'a plugs_scheme \<Rightarrow> string list" where
  "bot_list s = concat (map plugin_list (pg_plugins s))"

subsection \<open>\<open>IrcBotPluginHandle\<close>\<close>

record handle =
  hd_id :: string
  hd_plugin :: "nat option"
  hd_time :: int

definition new_handle :: "string \<Rightarrow> handle" where
  "new_handle i = \<lparr>hd_id = i, hd_plugin = None, hd_time = 0\<rparr>"

definition ensure_plugin :: "int \<Rightarrow> 'a plugs_scheme \<Rightarrow> handle \<Rightarrow> handle" where
  "ensure_plugin now s h =
     (if pg_loaded s > hd_time h
      then h\<lparr>hd_plugin := map_option pl_addr (get_plugin (hd_id h) s), hd_time := now\<rparr> else h)"

subsection \<open>Access and \<open>execute\<close>\<close>

text \<open>\<open>commands[cmd]\<close> is a plugin of the table here; reading its name needs the object.\<close>

definition has_access :: "string \<Rightarrow> string \<Rightarrow> 'a plugs_scheme \<Rightarrow> (bot_error + bool) \<times> 'a plugs_scheme" where
  "has_access cmd chan s =
     (let s1 = s\<lparr>pg_access := cm_touch str_lt [] chan (pg_access s)\<rparr>;
          cps = cm_at str_lt [] chan (pg_access s1)
      in if cps = [] then (Inr False, s1)
         else let a = cm_at str_lt 0 cmd (pg_commands s1)
              in case find_plug a (pg_plugins s1) of
                   None \<Rightarrow> (Inl (Dangling_Plugin a), s1)
                 | Some p \<Rightarrow> (Inr (list_ex (\<lambda>cp. fst cp = pl_name p) cps), s1))"

definition allow_cmd_access :: "string \<Rightarrow> message \<Rightarrow> 'a plugs_scheme \<Rightarrow> (bot_error + bool) \<times> 'a plugs_scheme" where
  "allow_cmd_access cmd msg s =
     (case has_access cmd ''*'' s of
        (Inl e, s1) \<Rightarrow> (Inl e, s1)
      | (Inr True, s1) \<Rightarrow> (Inr True, s1)
      | (Inr False, s1) \<Rightarrow>
          (case (if from_channel msg then has_access cmd (get_to msg) s1 else (Inr False, s1)) of
             (Inl e, s2) \<Rightarrow> (Inl e, s2)
           | (Inr True, s2) \<Rightarrow> (Inr True, s2)
           | (Inr False, s2) \<Rightarrow> has_access cmd ''PM'' s2))"

datatype alias_result = In_use | Alias_of string | No_alias

fun find_alias :: "hol \<Rightarrow> string \<Rightarrow> string \<Rightarrow> string list \<Rightarrow> alias_result" where
  "find_alias h cmd mchan [] = No_alias"
| "find_alias h cmd mchan (c # cs) =
     (case read_word [] (str_stream c) of (chan, is1) \<Rightarrow>
      case read_word [] is1 of (from, is2) \<Rightarrow>
      case read_word [] is2 of (to, is3) \<Rightarrow>
        if \<not> ok is3 then find_alias h cmd mchan cs
        else if h_lower h chan \<noteq> h_lower h mchan then find_alias h cmd mchan cs
        else if to = cmd then In_use
        else if from = cmd then Alias_of to
        else find_alias h cmd mchan cs)"

fun update_plug :: "plugin \<Rightarrow> plugin list \<Rightarrow> plugin list" where
  "update_plug p [] = []"
| "update_plug p (q # qs) = (if pl_addr q = pl_addr p then p # qs else q # update_plug p qs)"

definition run_command :: "string \<Rightarrow> message \<Rightarrow> 'a plugs_scheme \<Rightarrow> bot_error option \<times> 'a plugs_scheme" where
  "run_command cmd msg s =
     (case cm_find str_lt cmd (pg_commands s) of
        None \<Rightarrow> (None, s)
      | Some a \<Rightarrow>
          (case allow_cmd_access cmd msg s of
             (Inl e, s1) \<Rightarrow> (Some e, s1)
           | (Inr False, s1) \<Rightarrow>
               (case find_plug a (pg_plugins s1) of
                  None \<Rightarrow> (Some (Dangling_Plugin a), s1) | Some p \<Rightarrow> (None, s1))
           | (Inr True, s1) \<Rightarrow>
               (case find_plug a (pg_plugins s1) of
                  None \<Rightarrow> (Some (Dangling_Plugin a), s1)
                | Some p \<Rightarrow>
                    (case plugin_execute cmd p of (called, p1) \<Rightarrow>
                       (None, s1\<lparr>pg_plugins := update_plug p1 (pg_plugins s1),
                          pg_runs := pg_runs s1 @ (if called then [(a, cmd, msg)] else [])\<rparr>)))))"

definition bot_execute :: "hol \<Rightarrow> string \<Rightarrow> message \<Rightarrow> 'a plugs_scheme \<Rightarrow> bot_error option \<times> 'a plugs_scheme" where
  "bot_execute h cmd msg s =
     (case find_alias h cmd (get_chan msg) (conf_get_set_dflt ''command.alias'' cmd s) of
        In_use \<Rightarrow> (None, s)
      | Alias_of to \<Rightarrow> run_command (if to = [] then cmd else to) msg s
      | No_alias \<Rightarrow> run_command cmd msg s)"

subsection \<open>Access\<close>

text \<open>A check changes nothing but empty entries of the access table.\<close>

definition access_only :: "'a plugs_scheme \<Rightarrow> 'a plugs_scheme \<Rightarrow> bool" where
  "access_only s s' = (\<exists>m. s' = s\<lparr>pg_access := m\<rparr> \<and> (\<forall>ch. cm_at str_lt [] ch m = cm_at str_lt [] ch (pg_access s)))"

lemma access_only_refl [simp]: "access_only s s"
  unfolding access_only_def by (rule exI [of _ "pg_access s"]) simp

lemma access_only_trans: "access_only s s1 \<Longrightarrow> access_only s1 s2 \<Longrightarrow> access_only s s2"
  by (fastforce simp: access_only_def)

lemma access_only_fields:
  "access_only s s' \<Longrightarrow> pg_commands s' = pg_commands s \<and> pg_plugins s' = pg_plugins s \<and> pg_runs s' = pg_runs s \<and>
    cm_at str_lt [] ch (pg_access s') = cm_at str_lt [] ch (pg_access s)"
  by (auto simp: access_only_def)

definition granted :: "'a plugs_scheme \<Rightarrow> string \<Rightarrow> string \<Rightarrow> bool" where
  "granted s name ch = (name \<in> fst ` set (cm_at str_lt [] ch (pg_access s)))"

lemma has_access_only: "has_access cmd ch s = (r, s1) \<Longrightarrow> access_only s s1"
  by (auto simp: has_access_def Let_def access_only_def str_cmp.at_touch split: if_splits option.splits)

lemma has_access_True:
  "has_access cmd ch s = (Inr True, s1) \<Longrightarrow>
    \<exists>p. find_plug (cm_at str_lt 0 cmd (pg_commands s)) (pg_plugins s) = Some p \<and> granted s (pl_name p) ch"
  by (force simp: has_access_def Let_def granted_def str_cmp.at_touch list_ex_iff
      split: if_splits option.splits)

lemma allow_only: "allow_cmd_access cmd msg s = (r, s1) \<Longrightarrow> access_only s s1"
  by (auto simp: allow_cmd_access_def split: prod.splits sum.splits bool.splits if_splits
      dest!: has_access_only intro: access_only_trans)

definition places :: "message \<Rightarrow> string set" where
  "places msg = {''*'', ''PM''} \<union> (if from_channel msg then {get_to msg} else {})"

lemma granted_only: "access_only s s1 \<Longrightarrow> granted s1 n ch = granted s n ch"
  using access_only_fields [of s s1 ch] by (simp add: granted_def)

lemma allow_True:
  assumes "allow_cmd_access cmd msg s = (Inr True, s1)"
  shows "\<exists>p ch. find_plug (cm_at str_lt 0 cmd (pg_commands s)) (pg_plugins s) = Some p \<and>
    ch \<in> places msg \<and> granted s (pl_name p) ch"
proof -
  have step: "\<exists>p. find_plug (cm_at str_lt 0 cmd (pg_commands s)) (pg_plugins s) = Some p \<and> granted s (pl_name p) ch"
    if "access_only s t" "has_access cmd ch t = (Inr True, t1)" for t t1 ch
    using has_access_True [OF that(2)] access_only_fields [OF that(1)] granted_only [OF that(1)] by auto
  obtain r1 t1 where h1: "has_access cmd ''*'' s = (r1, t1)" by fastforce
  note o1 = has_access_only [OF h1]
  obtain r2 t2 where h2: "(if from_channel msg then has_access cmd (get_to msg) t1 else (Inr False, t1)) = (r2, t2)"
    by fastforce
  have o2: "access_only s t2"
    using h2 o1 access_only_trans [OF o1 has_access_only] by (auto split: if_splits)
  consider "r1 = Inr True" | "r1 = Inr False" "r2 = Inr True" | "r1 = Inr False" "r2 = Inr False"
    using assms h1 h2 by (auto simp: allow_cmd_access_def split: sum.splits bool.splits)
  then show ?thesis
  proof cases
    case 1
    with step [OF access_only_refl, of "''*''"] h1 show ?thesis by (auto simp: places_def)
  next
    case 2
    with h2 step [OF o1, of "get_to msg"] show ?thesis by (auto simp: places_def split: if_splits)
  next
    case 3
    with assms h1 h2 have "has_access cmd ''PM'' t2 = (Inr True, s1)" by (simp add: allow_cmd_access_def)
    from step [OF o2 this] show ?thesis unfolding places_def by blast
  qed
qed

lemma run_command_runs:
  assumes "run_command cmd msg s = (e, s')"
  shows "pg_runs s' = pg_runs s \<or>
    (\<exists>a p ch. pg_runs s' = pg_runs s @ [(a, cmd, msg)] \<and> cm_find str_lt cmd (pg_commands s) = Some a \<and>
      find_plug a (pg_plugins s) = Some p \<and> ch \<in> places msg \<and> granted s (pl_name p) ch)"
proof (cases "cm_find str_lt cmd (pg_commands s)")
  case None
  with assms show ?thesis by (simp add: run_command_def)
next
  case (Some a)
  obtain r s1 where al: "allow_cmd_access cmd msg s = (r, s1)" by fastforce
  note f = access_only_fields [OF allow_only [OF al]]
  show ?thesis
  proof (cases "r = Inr True")
    case True
    with al have al': "allow_cmd_access cmd msg s = (Inr True, s1)" by simp
    show ?thesis
      using assms Some al' f allow_True [OF al']
      by (auto simp: run_command_def cm_at_def plugin_execute_def split: option.splits prod.splits if_splits)
  next
    case False
    with assms Some al f show ?thesis
      by (auto simp: run_command_def split: sum.splits bool.splits option.splits)
  qed
qed

text \<open>With the plugin of the command loaded, a check is a question of the access table alone.\<close>

lemma has_access_eq:
  assumes "cm_find str_lt cmd (pg_commands s) = Some a" "find_plug a (pg_plugins s) = Some p"
  shows "\<exists>s1. has_access cmd ch s = (Inr (granted s (pl_name p) ch), s1) \<and> access_only s s1"
proof -
  obtain r s1 where h: "has_access cmd ch s = (r, s1)" by fastforce
  have "r = Inr (granted s (pl_name p) ch)"
    using h assms
    by (force simp: has_access_def Let_def granted_def str_cmp.at_touch list_ex_iff cm_at_def [of _ 0] split: if_splits)
  with h has_access_only [OF h] show ?thesis by blast
qed

lemma allow_eq:
  assumes "cm_find str_lt cmd (pg_commands s) = Some a" "find_plug a (pg_plugins s) = Some p"
  shows "\<exists>s1. allow_cmd_access cmd msg s = (Inr (\<exists>ch\<in>places msg. granted s (pl_name p) ch), s1)"
proof -
  have step: "\<exists>t1. has_access cmd ch t = (Inr (granted s (pl_name p) ch), t1) \<and> access_only s t1" if "access_only s t" for t ch
    using has_access_eq [of cmd t a p ch] assms access_only_fields [OF that] granted_only [OF that] access_only_trans [OF that]
    by fastforce
  obtain t1 where 1: "has_access cmd ''*'' s = (Inr (granted s (pl_name p) ''*''), t1)" "access_only s t1"
    using step [OF access_only_refl] by blast
  obtain t2 where 2: "has_access cmd (get_to msg) t1 = (Inr (granted s (pl_name p) (get_to msg)), t2)" "access_only s t2"
    using step [OF 1(2)] by blast
  obtain t3 t4 where 3: "has_access cmd ''PM'' t1 = (Inr (granted s (pl_name p) ''PM''), t3)"
    "has_access cmd ''PM'' t2 = (Inr (granted s (pl_name p) ''PM''), t4)"
    using step [OF 1(2)] step [OF 2(2)] by blast
  show ?thesis
    using 1(1) 2(1) 3 by (auto simp: allow_cmd_access_def places_def split: bool.splits)
qed

lemma run_command_granted:
  assumes "cm_find str_lt cmd (pg_commands s) = Some a" "find_plug a (pg_plugins s) = Some p"
    and "cm_find str_lt cmd (pl_actions p) \<noteq> None" "ch \<in> places msg" "granted s (pl_name p) ch"
  shows "fst (run_command cmd msg s) = None \<and> pg_runs (snd (run_command cmd msg s)) = pg_runs s @ [(a, cmd, msg)]"
proof -
  have "(\<exists>ch\<in>places msg. granted s (pl_name p) ch) = True" using assms(4,5) by blast
  with allow_eq [OF assms(1,2), of msg] obtain s1 where a: "allow_cmd_access cmd msg s = (Inr True, s1)" by (simp only:) blast
  with assms access_only_fields [OF allow_only [OF a]] show ?thesis by (simp add: run_command_def plugin_execute_def)
qed

text \<open>The command that a word stands for, when no alias uses up the word.\<close>

definition resolved :: "hol \<Rightarrow> string \<Rightarrow> message \<Rightarrow> 'a plugs_scheme \<Rightarrow> string option" where
  "resolved h cmd msg s =
     (case find_alias h cmd (get_chan msg) (conf_get_set_dflt ''command.alias'' cmd s) of
        In_use \<Rightarrow> None
      | Alias_of to \<Rightarrow> Some (if to = [] then cmd else to)
      | No_alias \<Rightarrow> Some cmd)"

lemma bot_execute_resolved:
  "bot_execute h cmd msg s = (case resolved h cmd msg s of None \<Rightarrow> (None, s) | Some c \<Rightarrow> run_command c msg s)"
  by (simp add: bot_execute_def resolved_def split: alias_result.split)

text \<open>C3: \<open>execute\<close> runs at most one plugin command, the one its word stands for after the aliases, and only
  if the access table grants its plugin everywhere, in the channel the line was said in, or for
  private messages.  If it is granted in one of these places, the plugin is loaded and has the command, then
  it is run: so a grant for private messages opens the command in every channel as well, against what the
  example configuration says of it.\<close>

theorem execute_needs_access:
  assumes "bot_execute h cmd msg s = (e, s')"
  shows "(pg_runs s' = pg_runs s \<or>
      (\<exists>a c p ch. pg_runs s' = pg_runs s @ [(a, c, msg)] \<and> resolved h cmd msg s = Some c \<and>
        cm_find str_lt c (pg_commands s) = Some a \<and> find_plug a (pg_plugins s) = Some p \<and>
        ch \<in> places msg \<and> granted s (pl_name p) ch)) \<and>
    (\<forall>a c p ch. resolved h cmd msg s = Some c \<and> cm_find str_lt c (pg_commands s) = Some a \<and>
        find_plug a (pg_plugins s) = Some p \<and> cm_find str_lt c (pl_actions p) \<noteq> None \<and>
        ch \<in> places msg \<and> granted s (pl_name p) ch \<longrightarrow> pg_runs s' = pg_runs s @ [(a, c, msg)])"
proof (cases "resolved h cmd msg s")
  case None
  with assms show ?thesis by (simp add: bot_execute_resolved)
next
  case (Some c)
  then have r: "run_command c msg s = (e, s')" using assms by (simp add: bot_execute_resolved)
  have "pg_runs s' = pg_runs s @ [(a, c, msg)]"
    if "cm_find str_lt c (pg_commands s) = Some a" "find_plug a (pg_plugins s) = Some p"
      "cm_find str_lt c (pl_actions p) \<noteq> None" "ch \<in> places msg" "granted s (pl_name p) ch" for a p ch
    using run_command_granted [OF that] r by simp
  with run_command_runs [OF r] Some show ?thesis by (simp only: option.inject) blast
qed

definition demo_plugin :: plugin where
  "demo_plugin = \<lparr>pl_addr = 7, pl_id = ''t'', pl_name = ''Trivial'', pl_version = ''1'',
     pl_actions = [(''!quiz'', \<lparr>ac_help = [], ac_flags = 0\<rparr>)]\<rparr>"

definition demo_plugs :: plugs where
  "demo_plugs = \<lparr>cf_props = [], cf_nicks = [''bot''], cf_user = [], cf_mode = [], cf_real = [], cf_file = [],
     pg_plugins = [demo_plugin], pg_next = 8, pg_inits = 0, pg_commands = [(''!quiz'', 7)],
     pg_access = [(''PM'', [(''Trivial'', [])])], pg_loaded = 0, pg_monitors = [], pg_services = [], pg_runs = []\<rparr>"

definition said_in_channel :: message where
  "said_in_channel = new_message\<lparr>msg_prefix := ''a!b@c'', msg_command := ''PRIVMSG'', msg_params := '' #c :!quiz''\<rparr>"

theorem execute_needs_access_witness:
  "\<exists>s'. bot_execute hol_ref ''!quiz'' said_in_channel demo_plugs = (None, s') \<and> from_channel said_in_channel \<and>
    pg_runs s' = [(7, ''!quiz'', said_in_channel)]"
proof -
  have r: "resolved hol_ref ''!quiz'' said_in_channel demo_plugs = Some ''!quiz''" "from_channel said_in_channel"
    "granted demo_plugs (pl_name demo_plugin) ''PM''" "fst (bot_execute hol_ref ''!quiz'' said_in_channel demo_plugs) = None"
    by code_simp+
  have d: "cm_find str_lt ''!quiz'' (pg_commands demo_plugs) = Some 7" "find_plug 7 (pg_plugins demo_plugs) = Some demo_plugin"
    "cm_find str_lt ''!quiz'' (pl_actions demo_plugin) \<noteq> None" "''PM'' \<in> places said_in_channel" "pg_runs demo_plugs = []"
    by (simp_all add: demo_plugs_def demo_plugin_def find_plug_def places_def str_cmp.irrefl)
  obtain s' where x: "bot_execute hol_ref ''!quiz'' said_in_channel demo_plugs = (None, s')"
    using r(4) by (metis prod.collapse)
  with execute_needs_access [OF x] r d show ?thesis by auto
qed

subsection \<open>Plugin objects and addresses\<close>

text \<open>No two loaded plugins have the same id or the same address.\<close>

definition plug_inv :: "'a plugs_scheme \<Rightarrow> bool" where
  "plug_inv s = (distinct (map pl_id (pg_plugins s)) \<and> distinct (map pl_addr (pg_plugins s)) \<and>
     (\<forall>p\<in>set (pg_plugins s). pl_addr p < pg_next s))"

lemma del_loop_filter: "fst (del_loop i ps mons) = filter (\<lambda>p. pl_id p \<noteq> i) ps"
  by (induction i ps mons rule: del_loop.induct) (auto split: prod.splits)

lemma del_plugin_fields [simp]:
  "pg_plugins (del_plugin i s) = filter (\<lambda>p. pl_id p \<noteq> i) (pg_plugins s)"
  "pg_next (del_plugin i s) = pg_next s"
  "pg_commands (del_plugin i s) = pg_commands s"
  by (cases "del_loop i (pg_plugins s) (pg_monitors s)";
      use del_loop_filter [of i "pg_plugins s" "pg_monitors s"] in \<open>simp add: del_plugin_def\<close>)+

lemma plug_inv_filter:
  "plug_inv s \<Longrightarrow> pg_plugins s' = filter P (pg_plugins s) \<Longrightarrow> pg_next s' = pg_next s \<Longrightarrow> plug_inv s'"
  by (auto simp: plug_inv_def distinct_map intro: inj_on_subset)

lemma plug_inv_add:
  "plug_inv s \<Longrightarrow> \<forall>q\<in>set (pg_plugins s). pl_addr q \<noteq> pl_addr p \<and> pl_id q \<noteq> pl_id p \<Longrightarrow>
    pl_addr p < pg_next s \<Longrightarrow> plug_inv (add_plugin p s)"
  by (auto simp: plug_inv_def add_plugin_def)

lemma plug_inv_load:
  assumes "plug_inv s" "load_plugin ps path s = (r, s')"
  shows "plug_inv s'"
proof (cases "ps_dlopen ps path")
  case None
  with assms show ?thesis by (simp add: load_plugin_def)
next
  case (Some x)
  obtain i name version where x: "x = (i, name, version)" by (cases x)
  let ?s1 = "del_plugin i (s\<lparr>pg_next := pg_next s + 1\<rparr>)"
  have "plug_inv (s\<lparr>pg_next := pg_next s + 1\<rparr>)" using assms(1) by (auto simp: plug_inv_def)
  from plug_inv_filter [OF this del_plugin_fields(1,2)] have i1: "plug_inv ?s1" .
  let ?p = "\<lparr>pl_addr = pg_next s, pl_id = i, pl_name = name, pl_version = version, pl_actions = []\<rparr>"
  have "\<forall>q\<in>set (pg_plugins ?s1). pl_addr q \<noteq> pl_addr ?p \<and> pl_id q \<noteq> pl_id ?p"
    using assms(1) by (auto simp: plug_inv_def)
  from plug_inv_add [OF i1 this] have "plug_inv (add_plugin ?p ?s1)" by simp
  moreover have "s' = add_plugin ?p ?s1" using assms(2) Some x by (simp add: load_plugin_def Let_def)
  ultimately show ?thesis by simp
qed

lemma access_loop_fields [simp]:
  "pg_plugins (access_loop h n iss ch s) = pg_plugins s \<and> pg_next (access_loop h n iss ch s) = pg_next s"
proof (induction h n iss ch s rule: access_loop.induct)
  case (1 h n iss ch s)
  then show ?case by (subst (1 2) access_loop.simps) (auto simp: Let_def split: prod.splits)
qed

lemma plug_inv_access: "plug_inv s \<Longrightarrow> plug_inv (access_loop h n iss ch s)"
  by (simp add: plug_inv_def)

lemma plug_inv_dirs: "plug_inv s \<Longrightarrow> plug_inv (snd (load_from_dirs ps h p access dirs ids s))"
proof (induction dirs arbitrary: s)
  case (Cons dir dirs)
  obtain r s1 where l: "load_plugin ps (dir @ ''/'' @ p) s = (r, s1)" by fastforce
  note i1 = plug_inv_load [OF Cons.prems l]
  show ?case
    using Cons.IH [OF Cons.prems] Cons.IH [OF i1] l plug_inv_access [OF i1]
      plug_inv_filter [OF i1 del_plugin_fields(1,2)]
    by (cases r) (simp_all split: option.split)
qed simp

lemma plug_inv_lines: "plug_inv s \<Longrightarrow> plug_inv (load_lines_plugs ps h dirs pv ids s)"
proof (induction pv arbitrary: ids s)
  case (Cons line pv)
  obtain p access where l: "plugin_line h line = (p, access)" by fastforce
  obtain ids1 s1 where d: "load_from_dirs ps h p access dirs ids s = (ids1, s1)" by fastforce
  from plug_inv_dirs [OF Cons.prems, of ps h p access dirs ids] d have "plug_inv s1" by simp
  with Cons.IH l d show ?case by simp
qed simp

text \<open>C31: \<open>load_plugins\<close> keeps the ids of the loaded plugins distinct, and the addresses too, whatever the
  configuration lists and the files hold.\<close>

theorem load_plugins_inv:
  assumes "plug_inv s"
  shows "plug_inv (load_plugins ps h now s)"
  using assms plug_inv_lines [of "s\<lparr>pg_loaded := now\<rparr>"] by (simp add: load_plugins_def Let_def plug_inv_def)

theorem load_plugins_inv_witness:
  "plug_inv (load_plugins \<lparr>ps_dlopen = (\<lambda>_. Some (''t'', ''Trivial'', ''2'')), ps_ls = (\<lambda>_. Some [''a.so'']),
     ps_init = (\<lambda>_ _. (True, [], False))\<rparr> hol_ref 5 (demo_plugs\<lparr>cf_props := [(''plugin'', [''a.so[PM]'', ''a.so[*]''])]\<rparr>))"
  by (rule load_plugins_inv) (simp add: plug_inv_def demo_plugs_def demo_plugin_def)

text \<open>When a second plugin of an id is met, the loader has already replaced the first by it, and the
  check for a unique id then removes it too: no plugin of that id is left, and the commands the
  first one had registered still point at it.\<close>

theorem duplicate_id_lost:
  assumes "ps_ls ps dir = Some files" "p \<in> set files"
    and "ps_dlopen ps (dir @ ''/'' @ p) = Some (i, name, version)" "i \<in> ids"
  shows "get_plugin i (snd (load_from_dirs ps h p access (dir # dirs) ids s)) = None \<and>
    pg_commands (snd (load_from_dirs ps h p access (dir # dirs) ids s)) = pg_commands s"
  using assms
  by (simp add: load_plugin_def add_plugin_def Let_def get_plugin_def find_None_iff)

theorem duplicate_id_lost_witness:
  "get_plugin ''t'' (snd (load_from_dirs \<lparr>ps_dlopen = (\<lambda>_. Some (''t'', ''Trivial'', ''2'')), ps_ls = (\<lambda>_. Some [''a.so'']),
     ps_init = (\<lambda>_ _. (True, [], False))\<rparr> hol_ref ''a.so'' [] [''/lib''] {''t''} demo_plugs)) = None"
  using duplicate_id_lost [of "\<lparr>ps_dlopen = (\<lambda>_. Some (''t'', ''Trivial'', ''2'')), ps_ls = (\<lambda>_. Some [''a.so'']),
     ps_init = (\<lambda>_ _. (True, [], False))\<rparr>" "''/lib''" "[''a.so'']" "''a.so''" "''t''"
    "''Trivial''" "''2''" "{''t''}" hol_ref "[]" "[]" demo_plugs] by simp

text \<open>A channel in an access list with a prefix, \<open>#chan(pre)\<close>, is granted under the key \<open>#chan(pre)\<close>
  and not under \<open>#chan\<close>, so the grant never matches a channel.\<close>

theorem prefixed_access_lost:
  assumes "trims h" "trimmed chan" "CHR ''('' \<notin> set chan" "CHR '','' \<notin> set (chan @ pre)" "CHR '')'' \<notin> set pre"
    and "cm_at str_lt [] chan (pg_access s) = []"
  shows "granted (access_loop h name (str_stream (chan @ ''('' @ pre @ '')'')) [] s) name (chan @ ''('' @ pre @ '')'') \<and>
    \<not> granted (access_loop h name (str_stream (chan @ ''('' @ pre @ '')'')) [] s) name chan"
proof -
  let ?c = "chan @ ''('' @ pre @ '')''"
  have t: "trimmed ?c" using assms(2) by (simp add: trimmed_def isspace_def char_consts)
  have g: "getline (CHR '','') [] (str_stream ?c) = (?c, hit_eof (str_stream []))"
    using getline_last [of "str_stream ?c" "CHR '',''" "[]"] assms(4) by (simp add: hit_eof_def)
  have e: "access_loop h name (hit_eof (str_stream [])) x s' = s'" for x and s' :: "'a plugs_scheme"
    by (subst access_loop.simps) (simp add: getline_bad good_def hit_eof_def)
  obtain skip cs1 where g1: "getline (CHR ''('') [] (str_stream ?c) = (skip, cs1)" by fastforce
  obtain pre1 cs2 where g2: "getline (CHR '')'') [] cs1 = (pre1, cs2)" by fastforce
  have "access_loop h name (str_stream ?c) [] s = s\<lparr>pg_access :=
      cm_set str_lt ?c (cs_insert prefix_lt (name, h_trim h pre1) (cm_at str_lt [] ?c (pg_access s))) (pg_access s)\<rparr>"
    using g g1 g2 e trim_trimmed [OF assms(1) t] by (subst access_loop.simps) (simp add: Let_def)
  moreover have "name \<in> fst ` set (cs_insert prefix_lt (name, q) xs)" for q xs
    by (induction xs) (auto simp: prefix_lt_def dest: str_lt_total)
  moreover have "?c \<noteq> chan" by simp
  ultimately show ?thesis using assms(6) by (simp add: granted_def str_cmp.at_set)
qed

theorem prefixed_access_lost_witness:
  "\<not> granted (access_loop hol_ref ''Trivial'' (str_stream (''#c'' @ ''('' @ ''sk'' @ '')'')) [] demo_plugs) ''Trivial'' ''#c''"
proof -
  have no: "cm_at str_lt [] ''#c'' (pg_access demo_plugs) = []" by code_simp
  show ?thesis using prefixed_access_lost [OF hol_ref_ok(2), of "''#c''" "''sk''" demo_plugs "''Trivial''"] no
  by (simp add: trimmed_def isspace_def char_consts)
qed

text \<open>When a plugin that has registered a command fails to initialize on \<open>/reload\<close>, it is erased and
  its command stays in the table: executing the command then follows the address of an object
  that is gone.\<close>

theorem failed_reload_dangles:
  assumes "plug_inv s" "pg_plugins s = [p]" "pg_commands s = [(cmd, pl_addr p)]"
    and "fst (ps_init ps (pl_addr p) (pg_inits s)) = False"
    and "cm_at str_lt [] ''*'' (pg_access s) \<noteq> []"
  shows "pg_plugins (init_plugins ps True s) = [] \<and>
    fst (run_command cmd msg (init_plugins ps True s)) = Some (Dangling_Plugin (pl_addr p))"
proof -
  obtain acts mon where i: "ps_init ps (pl_addr p) (pg_inits s) = (False, acts, mon)"
    using assms(4) by (cases "ps_init ps (pl_addr p) (pg_inits s)") auto
  have f: "pg_plugins (init_plugins ps True s) = []" "pg_commands (init_plugins ps True s) = [(cmd, pl_addr p)]"
    "pg_access (init_plugins ps True s) = pg_access s"
    using assms(2,3) i by (simp_all add: init_plugins_def plugin_init_def Let_def add_monitor_def)
  then show ?thesis
    using assms(5)
    by (simp add: run_command_def allow_cmd_access_def has_access_def Let_def find_plug_def
        str_cmp.irrefl str_cmp.at_touch cm_at_def [of str_lt 0])
qed

theorem failed_reload_dangles_witness:
  "fst (run_command ''!quiz'' new_message (init_plugins \<lparr>ps_dlopen = (\<lambda>_. None), ps_ls = (\<lambda>_. None),
     ps_init = (\<lambda>_ _. (False, [], False))\<rparr> True (demo_plugs\<lparr>pg_access := [(''*'', [(''Trivial'', [])])]\<rparr>)))
   = Some (Dangling_Plugin 7)"
  using failed_reload_dangles [of "demo_plugs\<lparr>pg_access := [(''*'', [(''Trivial'', [])])]\<rparr>" demo_plugin "''!quiz''"
      "\<lparr>ps_dlopen = (\<lambda>_. None), ps_ls = (\<lambda>_. None), ps_init = (\<lambda>_ _. (False, [], False))\<rparr>" new_message]
  by (simp add: plug_inv_def demo_plugs_def demo_plugin_def cm_at_def str_cmp.irrefl)

end
