(* ===== verification/Bot.thy ===== *)
theory Bot
  imports Plugins Irc_Server Flood Text_Utils
begin

text \<open>
  \<open>IrcBot\<close> (\<open>ircbot.h\<close>, \<open>ircbot.cpp\<close>): the state, the flood-controlled replies, the message events,
  and \<open>exec\<close>, the interpreter of the slash commands.  The calls of the server's command methods
  are recorded in the order they are made, and their results are an argument.  An operation
  returns the error it ends with, if any, and the state; \<open>None\<close> stands for one that does not
  return.
\<close>

subsection \<open>Results\<close>

type_synonym 'b res = "(bot_error option \<times> 'b) option"

definition done_res :: "'b \<Rightarrow> 'b res" where "done_res b = Some (None, b)"

definition and_then :: "'b res \<Rightarrow> ('b \<Rightarrow> 'b res) \<Rightarrow> 'b res" where
  "and_then r f =
     (case r of None \<Rightarrow> None
      | Some (e, b) \<Rightarrow> (case e of Some err \<Rightarrow> Some (Some err, b) | None \<Rightarrow> f b))"

fun for_each :: "('x \<Rightarrow> 'b \<Rightarrow> 'b res) \<Rightarrow> 'x list \<Rightarrow> 'b \<Rightarrow> 'b res" where
  "for_each f [] b = done_res b"
| "for_each f (x # xs) b = and_then (f x b) (for_each f xs)"

lemma and_then_done [simp]: "and_then (done_res b) f = f b"
  by (simp add: and_then_def done_res_def)

lemma and_then_error [simp]: "and_then (Some (Some e, b)) f = Some (Some e, b)" "and_then None f = None"
  by (simp_all add: and_then_def)

subsection \<open>State\<close>

record msgevent =
  me_done :: bool
  me_when :: int
  me_timeout :: int
  me_func :: nat

record bot = plugs +
  b_store :: backup_store
  b_fc :: "irc_op flood"
  b_sent :: "irc_op list"
  b_msgevents :: "(string, msgevent list) cmap"
  b_calls :: "(nat \<times> message) list"
  b_events :: "(nat \<times> message) list"
  b_debug :: bool
  b_done :: bool
  b_connected :: bool
  b_registered :: bool
  b_restart :: bool
  b_pinger_info :: string
  b_nick_number :: nat
  b_nick :: string
  b_chans :: "string cset"
  b_nicks :: "(string, string cset) cmap"
  b_draws :: nat
  b_conns :: nat
  b_uptime :: int
  b_config_loaded :: int

text \<open>
  \<open>bs_ok\<close>: what the \<open>n\<close>-th command method returns; \<open>bs_connect\<close>: what the \<open>n\<close>-th \<open>connect\<close> returns
  or that it throws; \<open>bs_disk\<close>: the file behind a store.
\<close>

record bot_sys = sys +
  bs_plug :: plug_sys
  bs_ok :: "nat \<Rightarrow> irc_op \<Rightarrow> bool"
  bs_connect :: "nat \<Rightarrow> connect_error + bool"
  bs_disk :: "string \<Rightarrow> disk_file"

definition NAME :: string where "NAME = ''IrcBot''"
definition VERSION :: string where "VERSION = ''0.6.0-unset''"

definition send_op :: "bot_sys \<Rightarrow> irc_op \<Rightarrow> bot \<Rightarrow> bool \<times> bot" where
  "send_op y op b = (bs_ok y (length (b_sent b)) op, b\<lparr>b_sent := b_sent b @ [op]\<rparr>)"

definition emit :: "bot_sys \<Rightarrow> irc_op \<Rightarrow> bot \<Rightarrow> bot" where
  "emit y op b = snd (send_op y op b)"

definition draw :: "hol \<Rightarrow> string list \<Rightarrow> bot \<Rightarrow> string \<times> bot" where
  "draw h xs b = (h_random h (b_draws b) xs, b\<lparr>b_draws := b_draws b + 1\<rparr>)"

subsection \<open>Replies through the flood controller\<close>

definition fc_do :: "string \<Rightarrow> irc_op \<Rightarrow> bot \<Rightarrow> bot" where
  "fc_do chan op b = b\<lparr>b_fc := fl_send chan op (b_fc b)\<rparr>"

definition fc_say :: "string \<Rightarrow> string \<Rightarrow> bot \<Rightarrow> bot" where
  "fc_say to text b = fc_do to (Say to text) b"

definition fc_reply :: "message \<Rightarrow> string \<Rightarrow> bot \<Rightarrow> bot" where
  "fc_reply msg text b = fc_do (get_to msg) (Reply msg text) b"

definition fc_reply_pm :: "message \<Rightarrow> string \<Rightarrow> bot \<Rightarrow> bot" where
  "fc_reply_pm msg text b = fc_do (get_to msg) (Reply_pm msg text) b"

definition fc_reply_notice :: "message \<Rightarrow> string \<Rightarrow> bot \<Rightarrow> bot" where
  "fc_reply_notice msg text b = fc_do (get_to msg) (Reply_notice msg text) b"

definition fc_reply_pm_notice :: "message \<Rightarrow> string \<Rightarrow> bot \<Rightarrow> bot" where
  "fc_reply_pm_notice msg text b = fc_do (get_to msg) (Reply_pm_notice msg text) b"

definition fc_reply_help :: "hol \<Rightarrow> message \<Rightarrow> string \<Rightarrow> string \<Rightarrow> bot \<Rightarrow> bot" where
  "fc_reply_help h msg text prefix b =
     fold (\<lambda>s b. fc_do (get_to msg) (Reply msg (prefix @ s)) b) (h_split_fold h text (Some [LF])) b"

definition fc_reply_pm_help :: "hol \<Rightarrow> message \<Rightarrow> string \<Rightarrow> string \<Rightarrow> bot \<Rightarrow> bot" where
  "fc_reply_pm_help h msg text prefix b =
     fold (\<lambda>s b. fc_do (get_to msg) (Reply_pm msg (prefix @ s)) b) (h_split_fold h text (Some [LF])) b"

definition cmd_error :: "hol \<Rightarrow> message \<Rightarrow> string \<Rightarrow> bool \<Rightarrow> bot \<Rightarrow> bool \<times> bot" where
  "cmd_error h msg text rv b = (rv, fc_reply msg (get_user_cmd h msg @ '': '' @ text) b)"

definition cmd_error_pm :: "hol \<Rightarrow> message \<Rightarrow> string \<Rightarrow> bool \<Rightarrow> bot \<Rightarrow> bool \<times> bot" where
  "cmd_error_pm h msg text rv b = (rv, fc_reply_pm msg (get_user_cmd h msg @ '': '' @ text) b)"

text \<open>A turn of the dispatcher makes the call it takes from a queue.\<close>

definition bot_turn :: "bot_sys \<Rightarrow> bot \<Rightarrow> bot" where
  "bot_turn y b =
     (case turn (b_fc b) of (out, fc1) \<Rightarrow>
        let b1 = b\<lparr>b_fc := fc1\<rparr>
        in (case out of None \<Rightarrow> b1 | Some (c, op) \<Rightarrow> emit y op b1))"

subsection \<open>Message events\<close>

definition add_msgevent :: "string \<Rightarrow> msgevent \<Rightarrow> bot \<Rightarrow> bot" where
  "add_msgevent cmd me b =
     b\<lparr>b_msgevents := cm_set str_lt cmd (me # cm_at str_lt [] cmd (b_msgevents b)) (b_msgevents b)\<rparr>"

definition add_msgevent_func :: "int \<Rightarrow> string \<Rightarrow> nat \<Rightarrow> int \<Rightarrow> bot \<Rightarrow> bot" where
  "add_msgevent_func now cmd func timeout b =
     add_msgevent cmd \<lparr>me_done = False, me_when = now, me_timeout = timeout, me_func = func\<rparr> b"

fun msgevent_loop :: "int \<Rightarrow> msgevent list \<Rightarrow> msgevent list \<times> nat list" where
  "msgevent_loop now [] = ([], [])"
| "msgevent_loop now (li # lst) =
     (case msgevent_loop now lst of (l, fs) \<Rightarrow>
        if me_done li then (l, fs)
        else if now - me_when li > me_timeout li then (l, fs)
        else (li # l, me_func li # fs))"

definition dispatch_msgevent :: "int \<Rightarrow> message \<Rightarrow> bot \<Rightarrow> bot" where
  "dispatch_msgevent now msg b =
     (case cm_find str_lt (msg_command msg) (b_msgevents b) of
        None \<Rightarrow> b
      | Some lst \<Rightarrow>
          (case msgevent_loop now lst of (l, fs) \<Rightarrow>
             b\<lparr>b_msgevents := cm_set str_lt (msg_command msg) l (b_msgevents b),
               b_calls := b_calls b @ map (\<lambda>f. (f, msg)) fs\<rparr>))"

text \<open>Every monitor sees the message; its object must still be there.\<close>

definition monitor_event :: "message \<Rightarrow> nat \<Rightarrow> bot \<Rightarrow> bot res" where
  "monitor_event msg m b =
     (case find_plug m (pg_plugins b) of
        None \<Rightarrow> Some (Some (Dangling_Plugin m), b)
      | Some p \<Rightarrow> done_res (b\<lparr>b_events := b_events b @ [(m, msg)]\<rparr>))"

subsection \<open>Channels\<close>

definition add_channel :: "string \<Rightarrow> bot \<Rightarrow> bot" where
  "add_channel c b = b\<lparr>b_chans := cs_insert str_lt c (b_chans b)\<rparr>"

definition official_join :: "bot_sys \<Rightarrow> string \<Rightarrow> bot \<Rightarrow> bot" where
  "official_join y channel b =
     (case send_op y (Join channel []) b of (r, b1) \<Rightarrow>
        if \<not> r then b1
        else let b2 = add_channel channel b1;
                 b3 = (if conf_get_bool ''join.announce'' False b2
                       then emit y (Say channel (NAME @ '' v'' @ VERSION)) b2 else b2);
                 welcomes = conf_get_vec ''welcome'' b3
             in if welcomes = [] then b3
                else (case draw (y_hol y) welcomes b3 of (w, b4) \<Rightarrow> emit y (Say channel w) b4))"

definition leave_all :: "bot_sys \<Rightarrow> bot \<Rightarrow> bot" where
  "leave_all y b =
     (let goodbyes = conf_get_vec ''goodbye'' b
      in fold (\<lambda>c b.
           let b1 = (if goodbyes \<noteq> [] then (case draw (y_hol y) goodbyes b of (g, b1) \<Rightarrow> emit y (Say c g) b1) else b)
           in emit y (Part c []) b1) (b_chans b) b)"

subsection \<open>\<open>exec\<close>\<close>

text \<open>
  The output stream may be null, so every handler is given whether it is there; it returns the
  text written.  \<open>iss\<close> is the stream after the command word and the white space after it.
\<close>

definition out_if :: "bool \<Rightarrow> string \<Rightarrow> string" where
  "out_if os s = (if os then s else [])"

definition reconfigure :: "bot_sys \<Rightarrow> int \<Rightarrow> bot \<Rightarrow> bot res" where
  "reconfigure y now b =
     (case read_conf (sys.truncate y) (cf_file b) (b\<lparr>cf_props := []\<rparr>) of
        None \<Rightarrow> None
      | Some (Some e, good_stream, b1) \<Rightarrow> Some (Some e, b1)
      | Some (None, good_stream, b1) \<Rightarrow> done_res (b1\<lparr>b_config_loaded := now\<rparr>))"

definition reload_plugins :: "bot_sys \<Rightarrow> int \<Rightarrow> bot \<Rightarrow> bot" where
  "reload_plugins y now b = init_plugins (bs_plug y) True (load_plugins (bs_plug y) (y_hol y) now b)"

text \<open>A handler returns the output, the error and the state.\<close>

type_synonym exec_res = "(string \<times> bot_error option \<times> bot) option"

definition exec_ok :: "string \<Rightarrow> bot \<Rightarrow> exec_res" where
  "exec_ok out b = Some (out, None, b)"

definition exec_say :: "bot_sys \<Rightarrow> bool \<Rightarrow> string \<Rightarrow> istream \<Rightarrow> bot \<Rightarrow> exec_res" where
  "exec_say y os line iss b =
     (case read_word [] iss of (chan0, iss1) \<Rightarrow>
        let iss2 = skip_ws iss1; chan = h_trim (y_hol y) chan0
        in if chan \<noteq> []
           then (case getline LF line iss2 of (line1, iss3) \<Rightarrow> exec_ok (out_if os ''OK'') (fc_say chan line1 b))
           else exec_ok (out_if os (''ERROR: /say #channel then some dialogue.'' @ [LF])) b)"

definition exec_ctcp :: "bot_sys \<Rightarrow> bool \<Rightarrow> istream \<Rightarrow> bot \<Rightarrow> exec_res" where
  "exec_ctcp y os iss b =
     (case read_word [] iss of (target, iss1) \<Rightarrow>
        if \<not> ok iss1 then exec_ok (out_if os ''ERROR: ctcp target not found'') b
        else case getline LF [] (skip_ws iss1) of (command, iss2) \<Rightarrow>
          if \<not> ok iss2 then exec_ok (out_if os ''ERROR: ctcp command not found'') b
          else case send_op y (Ctcp target command) b of (r, b1) \<Rightarrow>
            if \<not> r then exec_ok (out_if os ''ERROR: sending ctcp command'') b1
            else exec_ok (out_if os ''OK'') b1)"

definition exec_raw :: "bot_sys \<Rightarrow> istream \<Rightarrow> bot \<Rightarrow> exec_res" where
  "exec_raw y iss b =
     (case getline LF [] iss of (raw, iss1) \<Rightarrow> exec_ok [] (if ok iss1 then emit y (Raw raw) b else b))"

definition exec_nick :: "bot_sys \<Rightarrow> istream \<Rightarrow> bot \<Rightarrow> exec_res" where
  "exec_nick y iss b =
     (case read_word [] iss of (nick, iss1) \<Rightarrow> exec_ok [] (if ok iss1 then emit y (Nick nick) b else b))"

definition exec_msg :: "bot_sys \<Rightarrow> istream \<Rightarrow> bot \<Rightarrow> exec_res" where
  "exec_msg y iss b =
     (case read_word [] iss of (to, iss1) \<Rightarrow>
      case getline LF [] (skip_ws iss1) of (s, iss2) \<Rightarrow> exec_ok [] (if ok iss2 then emit y (Say to s) b else b))"

definition exec_auth :: "bot_sys \<Rightarrow> istream \<Rightarrow> bot \<Rightarrow> exec_res" where
  "exec_auth y iss b =
     (case read_word [] iss of (user, iss1) \<Rightarrow>
      case read_word [] iss1 of (pass, iss2) \<Rightarrow> exec_ok [] (if ok iss2 then emit y (Auth user pass) b else b))"

definition exec_mode :: "bot_sys \<Rightarrow> istream \<Rightarrow> bot \<Rightarrow> exec_res" where
  "exec_mode y iss b =
     (case read_word [] iss of (nick, iss1) \<Rightarrow>
      case getline LF [] (skip_ws iss1) of (mode, iss2) \<Rightarrow>
        exec_ok [] (if ok iss2 then emit y (Mode_nick nick mode) b else b))"

definition exec_whois :: "bot_sys \<Rightarrow> istream \<Rightarrow> bot \<Rightarrow> exec_res" where
  "exec_whois y iss b =
     (case read_word [] iss of (nick, iss1) \<Rightarrow> exec_ok [] (emit y (Whois [nick]) b))"

definition is_chan :: "string \<Rightarrow> bool" where
  "is_chan channel = (channel \<noteq> [] \<and> hd channel = CHR ''#'')"

definition exec_me :: "bot_sys \<Rightarrow> bool \<Rightarrow> string \<Rightarrow> istream \<Rightarrow> bot \<Rightarrow> exec_res" where
  "exec_me y os line iss b =
     (case read_word [] iss of (channel0, iss1) \<Rightarrow>
        let iss2 = skip_ws iss1; channel = h_trim (y_hol y) channel0
        in if is_chan channel
           then (case getline LF line iss2 of (line1, iss3) \<Rightarrow>
                   exec_ok (out_if os ''OK'') (emit y (Me channel line1) b))
           else exec_ok (out_if os (''ERROR: /me #channel then some dialogue.'' @ [LF])) b)"

definition exec_join :: "bot_sys \<Rightarrow> bool \<Rightarrow> istream \<Rightarrow> bot \<Rightarrow> exec_res" where
  "exec_join y os iss b =
     (case read_word [] iss of (channel0, iss1) \<Rightarrow>
      case read_word [] iss1 of (key, iss2) \<Rightarrow>
        let channel = h_trim (y_hol y) channel0
        in if is_chan channel
           then (case send_op y (Join channel key) b of (r, b1) \<Rightarrow>
                   exec_ok (out_if os ''OK'') (if r then add_channel channel b1 else b1))
           else exec_ok (out_if os (''ERROR: /join #channel.'' @ [LF])) b)"

definition exec_part :: "bot_sys \<Rightarrow> bool \<Rightarrow> string \<Rightarrow> istream \<Rightarrow> bot \<Rightarrow> exec_res" where
  "exec_part y os line iss b =
     (case read_word [] iss of (channel0, iss1) \<Rightarrow>
        let iss2 = skip_ws iss1; channel = h_trim (y_hol y) channel0
        in if is_chan channel
           then (case getline LF line iss2 of (line1, iss3) \<Rightarrow>
                   exec_ok (out_if os ''OK'')
                     (if cs_mem str_lt channel (b_chans b)
                      then emit y (Part channel (h_trim (y_hol y) line1))
                             (b\<lparr>b_chans := cs_erase str_lt channel (b_chans b)\<rparr>)
                      else b))
           else exec_ok (out_if os (''ERROR: /part #channel [message].'' @ [LF])) b)"

definition exec_ping :: "bot_sys \<Rightarrow> bool \<Rightarrow> istream \<Rightarrow> bot \<Rightarrow> exec_res" where
  "exec_ping y os iss b =
     (case getline LF [] iss of (dest, iss1) \<Rightarrow>
      case send_op y (Ping dest) b of (r, b1) \<Rightarrow>
        if \<not> r then exec_ok (out_if os ''OK'') b1
        else exec_ok (out_if os (''ERROR: Ping failure.'' @ [LF])) b1)"

definition bot_connect :: "bot_sys \<Rightarrow> bot \<Rightarrow> (connect_error + bool) \<times> bot" where
  "bot_connect y b = (bs_connect y (b_conns b), b\<lparr>b_conns := b_conns b + 1\<rparr>)"

definition exec_reconnect :: "bot_sys \<Rightarrow> bool \<Rightarrow> bot \<Rightarrow> exec_res" where
  "exec_reconnect y os b =
     (case bot_connect y b of
        (Inl e, b1) \<Rightarrow> Some ([], Some Connect_Failed, b1)
      | (Inr r, b1) \<Rightarrow>
          exec_ok (out_if os (if r then ''OK'' else ''ERROR: Unable to reconnect.'' @ [LF])) b1)"

definition exec :: "bot_sys \<Rightarrow> int \<Rightarrow> string \<Rightarrow> bool \<Rightarrow> bot \<Rightarrow> exec_res" where
  "exec y now line os b =
     (if line \<noteq> [] \<and> hd line = CHR ''/''
      then (case read_word [] (str_stream line) of (cmd0, iss0) \<Rightarrow>
              let iss = skip_ws iss0; cmd = h_lower (y_hol y) cmd0
              in if cmd = ''/say'' then exec_say y os line iss b
                 else if cmd = ''/nop'' then exec_ok [] b
                 else if cmd = ''/ctcp'' then exec_ctcp y os iss b
                 else if cmd = ''/raw'' then exec_raw y iss b
                 else if cmd = ''/nick'' then exec_nick y iss b
                 else if cmd = ''/botnick'' then exec_ok (out_if os (b_nick b)) b
                 else if cmd = ''/die'' then exec_ok [] ((leave_all y b)\<lparr>b_done := True\<rparr>)
                 else if cmd = ''/restart'' then exec_ok [] ((leave_all y b)\<lparr>b_restart := True, b_done := True\<rparr>)
                 else if cmd = ''/reconfigure'' then map_option (\<lambda>(e, b1). ([], e, b1)) (reconfigure y now b)
                 else if cmd = ''/reload'' then exec_ok [] (reload_plugins y now b)
                 else if cmd = ''/msg'' then exec_msg y iss b
                 else if cmd = ''/auth'' then exec_auth y iss b
                 else if cmd = ''/mode'' then exec_mode y iss b
                 else if cmd = ''/whois'' then exec_whois y iss b
                 else if cmd = ''/me'' then exec_me y os line iss b
                 else if cmd = ''/join'' then exec_join y os iss b
                 else if cmd = ''/part'' then exec_part y os line iss b
                 else if cmd = ''/ping'' then exec_ping y os iss b
                 else if cmd = ''/reconnect'' then exec_reconnect y os b
                 else exec_ok (out_if os (''ERROR: Unknown command.'' @ [LF])) b)
      else exec_ok (out_if os (''ERROR: Commands begin with /.'' @ [LF])) b)"

text \<open>\<open>exec(cmd)\<close> without an output stream.\<close>

definition exec_quiet :: "bot_sys \<Rightarrow> int \<Rightarrow> string \<Rightarrow> bot \<Rightarrow> bot res" where
  "exec_quiet y now line b = map_option (\<lambda>(out, e, b1). (e, b1)) (exec y now line False b)"

end
