(* ===== verification/Bot_Loop.thy ===== *)
theory Bot_Loop
  imports Bot
begin

text \<open>
  The main loop of \<open>IrcBot::init\<close>: what the bot does with one message, a definition per command of
  the server and per built-in command word, then \<open>init\<close> up to the loop and \<open>exit\<close>.
\<close>

subsection \<open>Messages of the server\<close>

definition on_welcome :: "bot_sys \<Rightarrow> int \<Rightarrow> message \<Rightarrow> bot \<Rightarrow> bot res" where
  "on_welcome y now msg b =
     (let b1 = b\<lparr>b_nick := get_to msg\<rparr>
      in and_then
           (for_each (\<lambda>prop b. exec_quiet y now (h_replace_all (y_hol y) prop ''$me'' (b_nick b)) b)
              (conf_get_vec ''on_connect'' b1) b1)
           (\<lambda>b2.
             let b3 = fold (official_join y) (conf_get_vec ''join'' b2) b2
             in (case get_set ''invite'' (b_store b3) of (chans, st) \<Rightarrow>
                   done_res ((fold (official_join y) chans (b3\<lparr>b_store := st\<rparr>))\<lparr>b_registered := True\<rparr>))))"

text \<open>The words of the trailing parameter.\<close>

function words_loop :: "istream \<Rightarrow> string \<Rightarrow> string list" where
  "words_loop iss nick =
     (case read_word nick iss of (nick1, iss1) \<Rightarrow> if ok iss1 then nick1 # words_loop iss1 nick1 else [])"
  by pat_completeness auto
termination
  by (relation "measure (\<lambda>(is, v). length (buf is))") (auto dest!: read_word_length [OF sym])

declare words_loop.simps [simp del]

definition strip_mode :: "string \<Rightarrow> string" where
  "strip_mode nick =
     (if nick ! 0 = CHR ''@'' \<or> nick ! 0 = CHR ''+'' then substr_from nick 1 else nick)"

definition add_nick :: "string \<Rightarrow> string \<Rightarrow> bot \<Rightarrow> bot" where
  "add_nick channel nick b =
     b\<lparr>b_nicks := cm_set str_lt channel (cs_insert str_lt nick (cm_at str_lt [] channel (b_nicks b))) (b_nicks b)\<rparr>"

definition on_namreply :: "message \<Rightarrow> bot \<Rightarrow> bot" where
  "on_namreply msg b =
     (let params = get_params msg;
          channel = (if length params > 2 then params ! 2 else [])
      in fold (\<lambda>nick b. if nick \<noteq> [] then add_nick channel (strip_mode nick) b else b)
           (words_loop (str_stream (get_trailing msg)) []) b)"

definition on_nick_in_use :: "bot_sys \<Rightarrow> bot \<Rightarrow> bot" where
  "on_nick_in_use y b =
     (if b_nick_number b < length (cf_nicks b)
      then let b1 = emit y (Nick (cf_nicks b ! b_nick_number b)) (b\<lparr>b_nick_number := b_nick_number b + 1\<rparr>)
           in emit y (User (cf_user b1) (cf_mode b1) (cf_real b1)) b1
      else b\<lparr>b_done := True\<rparr>)"

definition on_invite :: "bot_sys \<Rightarrow> message \<Rightarrow> bot \<Rightarrow> bot res" where
  "on_invite y msg b =
     (let params = get_params msg;
          who = (if length params > 0 then params ! 0 else []);
          chan = (if length params > 1 then params ! 1 else [])
      in if chan \<in> set (conf_get_vec ''part'' b) then done_res b
         else if who = b_nick b then
           (let b1 = emit y (Say chan (''I was invited by '' @ get_nickname msg)) (official_join y chan b)
            in (case get_set ''invite'' (b_store b1) of (invited, st) \<Rightarrow>
                  let b2 = b1\<lparr>b_store := st\<rparr>
                  in if \<not> cs_mem str_lt chan invited
                     then (case add ''invite'' chan (b_store b2) of (e, st2) \<Rightarrow>
                             Some (map_option Store_Failed e, b2\<lparr>b_store := st2\<rparr>))
                     else done_res b2))
         else done_res b)"

definition on_join :: "bot_sys \<Rightarrow> message \<Rightarrow> bot \<Rightarrow> bot" where
  "on_join y msg b =
     (let who = get_nickname msg; params = get_params msg
      in case params of
           [] \<Rightarrow> b
         | chan # ps \<Rightarrow>
             if who = b_nick b \<and> chan \<in> set (conf_get_vec ''part'' b)
             then emit y (Part chan ''Not authorized for this channel.'') b
             else let known = cm_at str_lt [] chan (b_nicks b);
                      b1 = b\<lparr>b_nicks := cm_touch str_lt [] chan (b_nicks b)\<rparr>
                  in if who \<noteq> b_nick b \<and> \<not> cs_mem str_lt who known
                     then b1\<lparr>b_nicks := cm_set str_lt chan (cs_insert str_lt who known) (b_nicks b1)\<rparr>
                     else b1)"

definition on_nick :: "message \<Rightarrow> bot \<Rightarrow> bot" where
  "on_nick msg b = (if get_nickname msg = b_nick b then b\<lparr>b_nick := get_trailing msg\<rparr> else b)"

subsection \<open>Built-in commands\<close>

definition pass_ok :: "string \<Rightarrow> bot \<Rightarrow> bool" where
  "pass_ok pass b = (\<not> conf_has ''password'' b \<or> conf_get ''password'' [] b = pass)"

text \<open>\<open>ios::getstring(siss(msg.get_user_params()), pass)\<close>.\<close>

definition read_pass :: "bot_sys \<Rightarrow> message \<Rightarrow> string option" where
  "read_pass y msg =
     (case getstring (str_stream (get_user_params (y_hol y) msg)) [] of (pass, is1) \<Rightarrow>
        if ok is1 then Some pass else None)"

definition do_die :: "bot_sys \<Rightarrow> string \<Rightarrow> message \<Rightarrow> bot \<Rightarrow> bot" where
  "do_die y cmd msg b =
     (case read_pass y msg of
        None \<Rightarrow> fc_reply msg (cmd @ '' <password>'') b
      | Some pass \<Rightarrow>
          if pass_ok pass b then (leave_all y b)\<lparr>b_done := True\<rparr> else fc_reply msg ''Wrong password'' b)"

definition do_uptime :: "bot_sys \<Rightarrow> int \<Rightarrow> message \<Rightarrow> bot \<Rightarrow> bot" where
  "do_uptime y now msg b =
     (let time = print_duration ((now - b_uptime b) * 10 ^ 9)
      in fc_reply msg (''I have been active for '' @ h_trim (y_hol y) time) b)"

definition do_join :: "bot_sys \<Rightarrow> message \<Rightarrow> bot \<Rightarrow> bot" where
  "do_join y msg b =
     (let param = h_split_fold (y_hol y) (get_user_params (y_hol y) msg) None
      in if length param = 2 then
           (if pass_ok (param ! 1) b
            then (case send_op y (Join (param ! 0) []) b of (r, b1) \<Rightarrow>
                    if r then fc_reply msg (b_nick b1 @ '' has requested to join '' @ param ! 0)
                                (add_channel (param ! 0) b1)
                    else b1)
            else fc_reply msg ''Incorrect password.'' b)
         else fc_reply msg ''Usage: !join #channel <password>'' b)"

definition do_part :: "bot_sys \<Rightarrow> message \<Rightarrow> bot \<Rightarrow> bot" where
  "do_part y msg b =
     (let param = h_split_fold (y_hol y) (get_user_params (y_hol y) msg) None
      in if length param = 2 then
           (if pass_ok (param ! 1) b
            then (case send_op y (Part (param ! 0) []) b of (r, b1) \<Rightarrow>
                    if r then fc_reply msg (b_nick b1 @ '' has requested to part '' @ param ! 0)
                                (add_channel (param ! 0) b1)
                    else b1)
            else fc_reply msg ''Incorrect password.'' b)
         else b)"

definition do_reconfigure :: "bot_sys \<Rightarrow> int \<Rightarrow> message \<Rightarrow> bot \<Rightarrow> bot res" where
  "do_reconfigure y now msg b =
     (case read_pass y msg of
        None \<Rightarrow> done_res (fc_reply msg ''!reconfigure <password>'' b)
      | Some pass \<Rightarrow>
          if pass_ok pass b then exec_quiet y now ''/reconfigure'' b
          else done_res (fc_reply msg ''Wrong password'' b))"

definition do_restart :: "bot_sys \<Rightarrow> message \<Rightarrow> bot \<Rightarrow> bot" where
  "do_restart y msg b =
     (case read_pass y msg of
        None \<Rightarrow> fc_reply msg ''!restart <password>'' b
      | Some pass \<Rightarrow>
          let b1 = (if pass_ok pass b then b\<lparr>b_done := True, b_restart := True\<rparr> else b)
          in fc_reply msg ''Wrong password'' b1)"

text \<open>\<open>props[key]\<close> inserts an empty vector for a key that is not there.\<close>

definition do_pset :: "bot_sys \<Rightarrow> message \<Rightarrow> bot \<Rightarrow> bot" where
  "do_pset y msg b =
     (case getstring (str_stream (get_user_params (y_hol y) msg)) [] of (pass, iss) \<Rightarrow>
        if \<not> ok iss then fc_reply msg ''!pset <password> <key>: [<val1> <val2> ...]'' b
        else if pass_ok pass b then
          (case getline (CHR '':'') [] (skip_ws iss) of (key0, iss1) \<Rightarrow>
             let key = h_trim (y_hol y) key0
             in if \<not> ok iss1 \<or> key = [] then fc_reply msg ''Expected <key>: [<val1> <val2> ...]'' b
                else let vals = getstrings iss1 []
                     in if vals = [] then
                          (let b1 = b\<lparr>cf_props := cm_touch str_lt [] key (cf_props b)\<rparr>
                           in fold (\<lambda>p b. fc_reply msg (key @ ''['' @ show_nat (fst p) @ '']: '' @ snd p) b)
                                (enumerate 0 (cm_at str_lt [] key (cf_props b1))) b1)
                        else fc_reply msg (''Property '' @ key @ '' has been set.'')
                               (b\<lparr>cf_props := fold (\<lambda>val m. push_back str_lt key (h_trim (y_hol y) val) m) vals
                                    (cm_erase str_lt key (cf_props b))\<rparr>))
        else fc_reply msg ''Incorrect password.'' b)"

definition do_debug :: "message \<Rightarrow> bot \<Rightarrow> bot" where
  "do_debug msg b =
     (let b1 = b\<lparr>b_debug := \<not> b_debug b\<rparr>
      in fc_reply msg (''Debug mode '' @ (if b_debug b1 then ''on'' else ''off'') @ ''.'') b1)"

text \<open>\<open>IrcBot::help\<close>.  The first key whose value is the command decides.\<close>

definition help_text :: "hol \<Rightarrow> string \<Rightarrow> string list \<Rightarrow> string" where
  "help_text h builtin ts =
     join_with [LF]
       (map (\<lambda>t. builtin @ '' '' @
          h_replace_all h (h_replace_all h (h_replace_all h t [BSL, CHR ''t''] [TAB])
            [BSL, CHR ''n''] [LF]) [BSL, CHR ''s''] ''  '') ts)"

fun help_loop :: "hol \<Rightarrow> string \<Rightarrow> string list \<Rightarrow> bot \<Rightarrow> string option" where
  "help_loop h cmd [] b = None"
| "help_loop h cmd (key # keys) b =
     (let builtin = conf_get key [] b
      in if builtin \<noteq> cmd then help_loop h cmd keys b
         else case find_last_ch (CHR ''.'') key of
                None \<Rightarrow> help_loop h cmd keys b
              | Some pos \<Rightarrow>
                  let trigger = ''trigger.help.'' @ substr_from key (pos + 1)
                  in if conf_has trigger b then Some (help_text h builtin (conf_get_vec trigger b)) else None)"

definition bot_help :: "bot_sys \<Rightarrow> string \<Rightarrow> bot \<Rightarrow> bot_error + string" where
  "bot_help y cmd b =
     (case cm_find str_lt cmd (pg_commands b) of
        Some a \<Rightarrow>
          (case find_plug a (pg_plugins b) of
             None \<Rightarrow> Inl (Dangling_Plugin a) | Some p \<Rightarrow> Inr (plugin_help cmd p))
      | None \<Rightarrow>
          (case help_loop (y_hol y) cmd (get_wild_keys (y_match y) ''trigger.word'' b) b of
             Some t \<Rightarrow> Inr t | None \<Rightarrow> Inr (''No help available for '' @ cmd @ ''.'')))"

text \<open>The list of the built-in command words: several words for a key in brackets.\<close>

definition words_of_key :: "bot \<Rightarrow> string \<Rightarrow> string" where
  "words_of_key b key =
     (let cmds = conf_get_set key b
      in (if cmds = [] then [] else (if length cmds > 1 then ''['' else []) @ join_with '', '' cmds) @
         (if length cmds > 1 then '']'' else []))"

definition do_help :: "bot_sys \<Rightarrow> message \<Rightarrow> bot \<Rightarrow> bot res" where
  "do_help y msg b =
     (let h = y_hol y; params = get_user_params h msg
      in if params \<noteq> [] then
           (case bot_help y params b of
              Inl e \<Rightarrow> Some (Some e, b)
            | Inr t \<Rightarrow> done_res (fc_reply_pm_help h msg t [] b))
         else if msg_prefix msg = [] then done_res b
         else
           (let b1 = fc_reply_pm msg ''List of commands:'' b;
                b2 = fc_reply_pm msg ([TAB] @ ''Built in'') b1;
                b3 = fc_reply_pm msg ([TAB, TAB] @
                       join_with '', '' (map (words_of_key b2) (get_wild_keys (y_match y) ''trigger.word'' b2))) b2;
                b4 = fold (\<lambda>p b. fc_reply_pm msg ([TAB, TAB] @ join_with '', '' (plugin_list p))
                             (fc_reply_pm msg ([TAB] @ pl_name p @ '' '' @ pl_version p) b)) (pg_plugins b3) b3;
                b5 = (if conf_has ''help.append'' b4 then fc_reply_pm msg ''Additional Info:'' b4 else b4)
            in done_res (fold (\<lambda>t b. fc_reply_pm msg ([TAB] @ h_replace_all h t ''$me'' (b_nick b)) b)
                 (conf_get_vec ''help.append'' b5) b5)))"

text \<open>
  Any other word: the \<open>continue\<close> for a banned sender belongs to the loop over the ban list, so the
  command is executed whatever the loop finds.
\<close>

definition ban_hits :: "bot_sys \<Rightarrow> message \<Rightarrow> bot \<Rightarrow> string list" where
  "ban_hits y msg b =
     filter (\<lambda>ban. bot_wild_match (y_match y) ban (get_userhost msg) 0) (conf_get_vec ''ban'' b)"

definition do_other :: "bot_sys \<Rightarrow> string \<Rightarrow> message \<Rightarrow> bot \<Rightarrow> bot res" where
  "do_other y cmd msg b =
     (let logged = map (\<lambda>ban. ''BANNED: '' @ get_nickname msg) (ban_hits y msg b)
      in Some (bot_execute (y_hol y) cmd msg b))"

definition is_word :: "string \<Rightarrow> string \<Rightarrow> string \<Rightarrow> bot \<Rightarrow> bool" where
  "is_word key dflt cmd b = (cs_mem str_lt cmd (conf_get_set_dflt key dflt b))"

definition on_privmsg :: "bot_sys \<Rightarrow> int \<Rightarrow> message \<Rightarrow> bot \<Rightarrow> bot res" where
  "on_privmsg y now msg b =
     (let cmd = h_lower (y_hol y) (get_user_cmd (y_hol y) msg)
      in if is_word ''trigger.word.die'' ''!die'' cmd b then done_res (do_die y cmd msg b)
         else if is_word ''trigger.word.uptime'' ''!uptime'' cmd b then done_res (do_uptime y now msg b)
         else if is_word ''trigger.word.join'' ''!join'' cmd b then done_res (do_join y msg b)
         else if is_word ''trigger.word.part'' ''!part'' cmd b then done_res (do_part y msg b)
         else if is_word ''trigger.word.reconfigure'' ''!reconfigure'' cmd b then do_reconfigure y now msg b
         else if is_word ''trigger.word.restart'' ''!restart'' cmd b then done_res (do_restart y msg b)
         else if is_word ''trigger.word.pset'' ''!pset'' cmd b then done_res (do_pset y msg b)
         else if is_word ''trigger.word.debug'' ''!debug'' cmd b then done_res (do_debug msg b)
         else if is_word ''trigger.word.help'' ''!help'' cmd b then do_help y msg b
         else do_other y cmd msg b)"

subsection \<open>One turn of the main loop\<close>

definition handle :: "bot_sys \<Rightarrow> int \<Rightarrow> message \<Rightarrow> bot \<Rightarrow> bot res" where
  "handle y now msg b =
     (let c = msg_command msg
      in if c = ''END_OF_TEST'' then done_res (b\<lparr>b_done := True\<rparr>)
         else if c = PING then done_res (emit y (Pong (get_trailing msg)) b)
         else if c = PONG then done_res (b\<lparr>b_pinger_info := get_trailing msg\<rparr>)
         else if c = RPL_WELCOME then on_welcome y now msg b
         else if c = RPL_NAMREPLY then done_res (on_namreply msg b)
         else if c = ERR_NOORIGIN then done_res b
         else if c = ERR_NICKNAMEINUSE then done_res (on_nick_in_use y b)
         else if c = RPL_WHOISCHANNELS then done_res b
         else if c = INVITE then on_invite y msg b
         else if c = JOIN then done_res (on_join y msg b)
         else if c = PART then done_res b
         else if c = KICK then done_res b
         else if c = NICK then done_res (on_nick msg b)
         else if c = PRIVMSG then on_privmsg y now msg b
         else done_res b)"

definition process :: "bot_sys \<Rightarrow> int \<Rightarrow> string \<Rightarrow> bot \<Rightarrow> bot res" where
  "process y now line0 b =
     (let line = h_trim (y_hol y) line0
      in if line = [] then done_res b
         else case parsemsg (y_hol y) now line (clear_message new_message) of (r, msg) \<Rightarrow>
           if \<not> r then done_res b
           else and_then
             (for_each (monitor_event msg) (pg_monitors b) (dispatch_msgevent now msg b))
             (handle y now msg))"

text \<open>
  \<open>receive\<close> and what follows it; the wait for the pinger to reconnect is a separate step of the
  machine, so \<open>None\<close> is a failed receive.
\<close>

definition main_turn :: "bot_sys \<Rightarrow> int \<Rightarrow> string option \<Rightarrow> bot \<Rightarrow> bot res" where
  "main_turn y now line b =
     (case line of
        None \<Rightarrow>
          if conf_get_bool ''irc.test.mode'' False b then done_res (b\<lparr>b_done := True\<rparr>)
          else done_res (b\<lparr>b_connected := False, b_registered := False\<rparr>)
      | Some l \<Rightarrow> if b_done b then done_res b else process y now l b)"

subsection \<open>\<open>init\<close> up to the loop, and \<open>exit\<close>\<close>

definition init_flood :: "bot \<Rightarrow> bot" where
  "init_flood b =
     (let b1 = (if conf_has ''flood.poll.time'' b
                then b\<lparr>b_fc := set_time_between_checks (conf_get_siz ''flood.poll.time'' 300 b) (b_fc b)\<rparr> else b)
      in if conf_has ''flood.event.time'' b1
         then b1\<lparr>b_fc := set_time_between_checks (conf_get_siz ''flood.event.time'' 1600 b1) (b_fc b1)\<rparr> else b1)"

definition choose_config :: "bot_sys \<Rightarrow> string \<Rightarrow> bot_error + string" where
  "choose_config y config_file =
     (case y_getenv y ''HOME'' of
        None \<Rightarrow> Inl (Null_Getenv ''HOME'')
      | Some home \<Rightarrow>
          Inr (if config_file \<noteq> [] \<and> y_file y config_file \<noteq> None then config_file
               else home @ ''/.skivvy/skivvy.conf''))"

text \<open>After the configuration is read; the Boolean is the result of \<open>init\<close>, true when the loop starts.\<close>

definition init_resources :: "bot_sys \<Rightarrow> int \<Rightarrow> bot \<Rightarrow> bot_error option \<times> bool \<times> bot" where
  "init_resources y now b =
     (case open_store (bs_disk y (conf_getf (sys.truncate y) ''store.file'' ''store.txt'' b)) of (e, st) \<Rightarrow>
        let b1 = b\<lparr>b_store := st\<rparr>
        in case e of
             Some err \<Rightarrow> (Some (Store_Failed err), False, b)
           | None \<Rightarrow>
               if \<not> conf_get_bool ''irc.test.mode'' False b1 \<and> conf_get_bool ''server.ssl'' False b1
               then (Some Not_Implemented, False, b1)
               else
                 let b2 = load_plugins (bs_plug y) (y_hol y) now b1
                 in if \<not> conf_has ''server.host'' b2 then (None, False, b2)
                    else if cf_nicks b2 = [] then (None, False, b2)
                    else
                      let b3 = init_plugins (bs_plug y) True (b2\<lparr>b_fc := fl_start (b_fc b2)\<rparr>)
                      in (None, True,
                          (if conf_get_bool ''irc.test.mode'' False b3 then b3\<lparr>b_connected := True\<rparr> else b3)))"

definition bot_init :: "bot_sys \<Rightarrow> int \<Rightarrow> string \<Rightarrow> bot \<Rightarrow> (bot_error option \<times> bool \<times> bot) option" where
  "bot_init y now config_file b =
     (let b1 = init_flood b
      in case choose_config y config_file of
           Inl e \<Rightarrow> Some (Some e, False, b1)
         | Inr file \<Rightarrow>
             (case read_conf (sys.truncate y) file (b1\<lparr>cf_file := file\<rparr>) of
                None \<Rightarrow> None
              | Some (e, good_stream, b2) \<Rightarrow>
                  (case e of
                     Some err \<Rightarrow> Some (Some err, False, b2)
                   | None \<Rightarrow>
                       if \<not> good_stream then Some (None, False, b2)
                       else Some (init_resources y now (b2\<lparr>b_config_loaded := now\<rparr>)))))"

definition bot_exit :: "bot_sys \<Rightarrow> bool \<Rightarrow> bot \<Rightarrow> bot" where
  "bot_exit y ready b =
     (let b1 = b\<lparr>b_fc := fl_stop ready (b_fc b), b_done := True\<rparr>
      in emit y (Quit (if b_restart b1 then ''Reeeeeeeeeeeeeeeeeeboot!'' else ''Going off line...'')) b1)"

text \<open>\<open>extract_params\<close>: the values read and whether all were there; a missing one is reported.\<close>

definition extract_params :: "bot_sys \<Rightarrow> message \<Rightarrow> string list \<Rightarrow> bool \<Rightarrow> bot \<Rightarrow> bot_error + (bool \<times> string list \<times> bot)" where
  "extract_params y msg args report b =
     (case getargs (str_stream (get_user_params (y_hol y) msg)) args of (r, vals) \<Rightarrow>
        if r \<or> \<not> report then Inr (r, vals, b)
        else (case bot_help y (get_user_cmd (y_hol y) msg) b of
                Inl e \<Rightarrow> Inl e
              | Inr t \<Rightarrow> Inr (False, vals, fc_reply_help (y_hol y) msg t
                  ([CHR 0x02, CHR 0x03] @ ''04'' @ get_user_cmd (y_hol y) msg @ '': '' @ [CHR 0x03] @ ''01'') b)))"

end
