(* ===== verification/Bot_Facts.thy ===== *)
theory Bot_Facts
  imports Bot_Loop
begin

text \<open>What the built-in commands of the bot do and do not do.\<close>

subsection \<open>A bot to evaluate on\<close>

definition demo_bot :: "(string, string list) cmap \<Rightarrow> bot" where
  "demo_bot props = \<lparr>cf_props = props, cf_nicks = [''bot''], cf_user = ''u'', cf_mode = ''0'', cf_real = ''r'',
     cf_file = ''/c'', pg_plugins = [demo_plugin], pg_next = 8, pg_inits = 0, pg_commands = [(''!quiz'', 7)],
     pg_access = [(''*'', [(''Trivial'', [])])], pg_loaded = 0, pg_monitors = [], pg_services = [], pg_runs = [],
     b_store = \<lparr>ms_store = [], ms_ci = False, bs_file = \<lparr>f_content = None, f_writable = True\<rparr>\<rparr>,
     b_fc = new_flood, b_sent = [], b_msgevents = [], b_calls = [], b_events = [], b_debug = False, b_done = False,
     b_connected = True, b_registered = True, b_restart = False, b_pinger_info = [], b_nick_number = 1,
     b_nick = ''bot'', b_chans = [''#c''], b_nicks = [], b_draws = 0, b_conns = 0, b_uptime = 0, b_config_loaded = 0\<rparr>"

definition demo_sys :: bot_sys where
  "demo_sys = \<lparr>y_hol = hol_ref, y_match = \<lparr>m_regex = (\<lambda>_ _ _ _. False), m_fnmatch = (\<lambda>_ w s. w = s)\<rparr>,
     y_getenv = (\<lambda>v. if v = ''HOME'' then Some ''/h'' else None), y_file = (\<lambda>_. None),
     bs_plug = \<lparr>ps_dlopen = (\<lambda>_. None), ps_ls = (\<lambda>_. None), ps_init = (\<lambda>_ _. (True, [], False))\<rparr>,
     bs_ok = (\<lambda>_ _. True), bs_connect = (\<lambda>_. Inr True), bs_disk = (\<lambda>_. \<lparr>f_content = None, f_writable = True\<rparr>)\<rparr>"

definition say_msg :: "string \<Rightarrow> message" where
  "say_msg text = \<lparr>msg_line = [], msg_when = 0, msg_prefix = ''bob!b@h'', msg_command = ''PRIVMSG'',
     msg_params = '' #c :'' @ text\<rparr>"

subsection \<open>Queued replies\<close>

text \<open>Two states that differ in nothing but the reply queues.\<close>

definition only_fc :: "bot \<Rightarrow> bot \<Rightarrow> bool" where
  "only_fc b b' = (\<exists>fc. b' = b\<lparr>b_fc := fc\<rparr>)"

lemma only_fc_refl [simp]: "only_fc b b"
  unfolding only_fc_def by (rule exI [of _ "b_fc b"]) simp

lemma only_fc_done: "only_fc b b' \<Longrightarrow> b_done b' = b_done b"
  by (auto simp: only_fc_def)

lemma only_fc_trans: "only_fc a b \<Longrightarrow> only_fc b c \<Longrightarrow> only_fc a c"
  by (auto simp: only_fc_def)

lemma only_fc_do [simp]: "only_fc b (fc_do c op b)"
  by (auto simp: only_fc_def fc_do_def)

lemma only_fc_reply [simp]: "only_fc b (fc_reply msg t b)" "only_fc b (fc_reply_pm msg t b)"
  by (simp_all add: fc_reply_def fc_reply_pm_def)

lemma fc_reply_fields [simp]:
  "b_done (fc_reply msg t b) = b_done b" "b_restart (fc_reply msg t b) = b_restart b"
  "b_chans (fc_reply msg t b) = b_chans b" "b_sent (fc_reply msg t b) = b_sent b"
  "cf_props (fc_reply msg t b) = cf_props b" "pg_runs (fc_reply msg t b) = pg_runs b"
  by (simp_all add: fc_reply_def fc_do_def)

lemma pend_reply:
  "fl_pend (b_fc (fc_reply msg t b)) c = fl_pend (b_fc b) c @ (if c = get_to msg then [Reply msg t] else [])"
  by (simp add: fc_reply_def fc_do_def fl_pend_send)

lemma emit_fields [simp]:
  "b_sent (emit y op b) = b_sent b @ [op]" "b_chans (emit y op b) = b_chans b" "b_fc (emit y op b) = b_fc b"
  "b_done (emit y op b) = b_done b" "cf_nicks (emit y op b) = cf_nicks b" "b_nick_number (emit y op b) = b_nick_number b"
  "cf_user (emit y op b) = cf_user b" "cf_mode (emit y op b) = cf_mode b" "cf_real (emit y op b) = cf_real b"
  by (simp_all add: emit_def send_op_def)

subsection \<open>The password\<close>

text \<open>C14: The commands that ask for the password: when one is set, a message that does not give it, neither as its
  first word nor as the second of two, cannot by !die, !restart, !reconfigure, !pset, !join or !part make the bot quit,
  restart, read its configuration again, set a property, or join or leave a channel: the bot sends nothing at once, and
  the only change is in its queued replies.  (An INVITE of the protocol asks for no password.)\<close>

theorem wrong_password_harmless:
  assumes "conf_has ''password'' b" "read_pass y msg \<noteq> Some (conf_get ''password'' [] b)"
    and "\<forall>p. h_split_fold (y_hol y) (get_user_params (y_hol y) msg) None = [p, conf_get ''password'' [] b] \<longrightarrow> False"
  shows "only_fc b (do_die y cmd msg b) \<and> only_fc b (do_restart y msg b) \<and> only_fc b (do_pset y msg b) \<and>
    only_fc b (do_join y msg b) \<and> only_fc b (do_part y msg b) \<and>
    (\<exists>b'. do_reconfigure y now msg b = done_res b' \<and> only_fc b b')"
proof -
  have p: "\<not> pass_ok pass b" if "read_pass y msg = Some pass" for pass
    using assms(1,2) that by (auto simp: pass_ok_def)
  have q: "\<not> pass_ok (ps ! 1) b"
    if s: "h_split_fold (y_hol y) (get_user_params (y_hol y) msg) None = ps" and l: "length ps = 2" for ps
  proof -
    obtain p0 p1 where "ps = [p0, p1]" using l by (auto simp: numeral_2_eq_2 length_Suc_conv)
    with s assms(1,3) show ?thesis by (auto simp: pass_ok_def)
  qed
  have "only_fc b (do_die y cmd msg b)" "only_fc b (do_restart y msg b)"
    "\<exists>b'. do_reconfigure y now msg b = done_res b' \<and> only_fc b b'"
    using p by (auto simp: do_die_def do_restart_def do_reconfigure_def split: option.split)
  moreover have "only_fc b (do_join y msg b)" "only_fc b (do_part y msg b)"
    using q by (auto simp: do_join_def do_part_def Let_def)
  moreover have "only_fc b (do_pset y msg b)"
    using p by (auto simp: do_pset_def read_pass_def split: prod.splits if_splits)
  ultimately show ?thesis by blast
qed

theorem wrong_password_harmless_witness:
  "b_done (do_die demo_sys ''!die'' (say_msg ''!die guess'') (demo_bot [(''password'', [''secret''])])) = False"
proof -
  have a: "conf_has ''password'' (demo_bot [(''password'', [''secret''])])" by code_simp
  have b: "conf_get ''password'' [] (demo_bot [(''password'', [''secret''])]) = ''secret''" by code_simp
  have c: "read_pass demo_sys (say_msg ''!die guess'') = Some ''guess''" by code_simp
  have d: "h_split_fold (y_hol demo_sys) (get_user_params (y_hol demo_sys) (say_msg ''!die guess'')) None = [''guess'']"
    by code_simp
  have e: "b_done (demo_bot p) = False" for p by (simp add: demo_bot_def)
  have "only_fc (demo_bot [(''password'', [''secret''])])
      (do_die demo_sys ''!die'' (say_msg ''!die guess'') (demo_bot [(''password'', [''secret''])]))"
    using wrong_password_harmless [OF a, of demo_sys "say_msg ''!die guess''" "''!die''" 0] b c d by simp
  from only_fc_done [OF this] show ?thesis by (simp add: e)
qed

subsection \<open>\<open>!pset\<close>\<close>

lemma getstring_plain:
  assumes "w \<noteq> []" "\<not> isspace (hd w)" "hd w \<notin> {DQUOTE, SQUOTE}" "SPC \<notin> set w"
  shows "getstring (str_stream (w @ SPC # r)) x = (w, str_stream r)"
proof -
  obtain c cs where w: "w = c # cs" using assms(1) by (cases w) auto
  have "quote_term (str_stream (w @ SPC # r)) = (SPC, str_stream (w @ SPC # r))"
    using assms w by (simp add: quote_term_def skip_ws_def)
  then show ?thesis using getstring_loop_found [of SPC w "[]" r] assms(1,4) by (simp add: getstring_def)
qed

lemma getstrings_end [simp]: "getstrings (str_stream []) x = []"
proof -
  have l: "getstring_loop t n is = (n, set_fail is)" if "\<not> good is" for t n "is"
    using that by (subst getstring_loop.simps) (simp add: get_ch_def)
  have "\<not> good (snd (quote_term (str_stream [])))"
    by (simp add: quote_term_def skip_ws_def peek_def hit_eof_def good_def set_fail_def str_stream_def)
  then have "\<not> ok (snd (getstring (str_stream []) x))"
    by (cases "quote_term (str_stream [])") (simp add: getstring_def l ok_def set_fail_def)
  then show ?thesis by (subst getstrings.simps) (auto split: prod.splits)
qed

text \<open>Asking for the value of a property that is not set creates it with no values.  Asking so for
  \<open>password\<close>, which anyone may do while no password is set, locks the bot: afterwards a password
  counts as set, it is the empty string, and no word is accepted.\<close>

theorem pset_query_locks:
  assumes "trims (y_hol y)" "\<not> conf_has ''password'' b"
    and "get_user_params (y_hol y) msg = w @ SPC # ''password:''"
    and "w \<noteq> []" "\<not> isspace (hd w)" "hd w \<notin> {DQUOTE, SQUOTE}" "SPC \<notin> set w"
  shows "conf_has ''password'' (do_pset y msg b) \<and> (pass \<noteq> [] \<longrightarrow> \<not> pass_ok pass (do_pset y msg b))"
proof -
  let ?b = "b\<lparr>cf_props := cm_touch str_lt [] ''password'' (cf_props b)\<rparr>"
  have n: "cm_find str_lt ''password'' (cf_props b) = None" using assms(2) by (simp add: conf_has_def)
  have g1: "getstring (str_stream (w @ SPC # ''password:'')) [] = (w, str_stream ''password:'')"
    by (rule getstring_plain [OF assms(4-7)])
  have s: "skip_ws (str_stream ''password:'') = str_stream ''password:''"
    by (rule skip_ws_trimmed) (simp add: trimmed_def isspace_def char_consts)
  have g2: "getline (CHR '':'') [] (str_stream ''password:'') = (''password'', str_stream [])"
    using getline_found [of "str_stream ''password:''" "CHR '':''" "''password''" "[]" "[]"] by simp
  have t: "h_trim (y_hol y) ''password'' = ''password''"
    by (rule trim_trimmed [OF assms(1)]) (simp add: trimmed_def isspace_def char_consts)
  have "do_pset y msg b = ?b"
    using assms(2,3) n g1 s g2 t
    by (simp add: do_pset_def pass_ok_def Let_def cm_at_def str_cmp.find_touch)
  then show ?thesis
    using n by (auto simp: pass_ok_def conf_has_def conf_get_def str_cmp.find_touch)
qed

theorem pset_query_locks_witness:
  "\<not> pass_ok ''secret'' (do_pset demo_sys (say_msg ''!pset x password:'') (demo_bot []))"
proof -
  have p: "get_user_params (y_hol demo_sys) (say_msg ''!pset x password:'') = ''x'' @ SPC # ''password:''" by code_simp
  have t: "trims (y_hol demo_sys)" using hol_ref_ok by (simp add: demo_sys_def)
  have n: "\<not> conf_has ''password'' (demo_bot [])" by code_simp
  from pset_query_locks [OF t n p, of "''secret''"] show ?thesis by (simp add: isspace_def char_consts)
qed

subsection \<open>\<open>!part\<close> and \<open>!restart\<close>\<close>

text \<open>After a successful \<open>!part\<close> the channel the bot has just left is in its list of channels, as
  after a \<open>!join\<close>: \<open>!die\<close> will part it again.\<close>

theorem part_keeps_channel:
  assumes "h_split_fold (y_hol y) (get_user_params (y_hol y) msg) None = [chan, pass]" "pass_ok pass b"
    and "bs_ok y (length (b_sent b)) (Part chan [])"
  shows "chan \<in> set (b_chans (do_part y msg b)) \<and> b_sent (do_part y msg b) = b_sent b @ [Part chan []] \<and>
    fl_pend (b_fc (do_part y msg b)) (get_to msg) =
      fl_pend (b_fc b) (get_to msg) @ [Reply msg (b_nick b @ '' has requested to part '' @ chan)]"
  using assms by (simp add: do_part_def Let_def send_op_def add_channel_def pend_reply)

theorem part_keeps_channel_witness:
  "''#d'' \<in> set (b_chans (do_part demo_sys (say_msg ''!part #d x'') (demo_bot [])))"
proof -
  have a: "h_split_fold (y_hol demo_sys) (get_user_params (y_hol demo_sys) (say_msg ''!part #d x'')) None = [''#d'', ''x'']"
    and b: "pass_ok ''x'' (demo_bot [])" by code_simp+
  from part_keeps_channel [OF a b] show ?thesis by (simp add: demo_sys_def)
qed

text \<open>\<open>!restart\<close> with the right password restarts the bot and answers that the password is wrong, the
  answer it also gives to a wrong one.\<close>

theorem restart_reply:
  assumes "read_pass y msg = Some pass"
  shows "b_done (do_restart y msg b) = (b_done b \<or> pass_ok pass b) \<and>
    b_restart (do_restart y msg b) = (b_restart b \<or> pass_ok pass b) \<and>
    fl_pend (b_fc (do_restart y msg b)) (get_to msg) = fl_pend (b_fc b) (get_to msg) @ [Reply msg ''Wrong password'']"
  using assms by (simp add: do_restart_def pend_reply)

theorem restart_reply_witness:
  "b_restart (do_restart demo_sys (say_msg ''!restart secret'') (demo_bot [(''password'', [''secret''])]))"
proof -
  have a: "read_pass demo_sys (say_msg ''!restart secret'') = Some ''secret''"
    and b: "pass_ok ''secret'' (demo_bot [(''password'', [''secret''])])" by code_simp+
  from restart_reply [OF a] b show ?thesis by simp
qed

subsection \<open>Bans\<close>

lemma conf_get_set_other:
  "k \<noteq> k' \<Longrightarrow> conf_get_set_dflt k d (b\<lparr>cf_props := cm_set str_lt k' v (cf_props b)\<rparr>) = conf_get_set_dflt k d b"
  by (simp add: conf_get_set_dflt_def conf_get_set_def conf_get_vec_def str_cmp.find_set)

lemma run_command_props:
  fixes b :: "'a plugs_scheme"
  shows "run_command cmd msg (b\<lparr>cf_props := m\<rparr>) =
    (case run_command cmd msg b of (e, b') \<Rightarrow> (e, b'\<lparr>cf_props := m\<rparr>))"
proof -
  have h: "has_access cmd ch (s\<lparr>cf_props := m\<rparr>) = (case has_access cmd ch s of (r, s') \<Rightarrow> (r, s'\<lparr>cf_props := m\<rparr>))"
    for cmd ch and s :: "'a plugs_scheme"
    by (simp add: has_access_def Let_def split: option.splits)
  have a: "allow_cmd_access cmd msg (b\<lparr>cf_props := m\<rparr>) =
      (case allow_cmd_access cmd msg b of (r, s') \<Rightarrow> (r, s'\<lparr>cf_props := m\<rparr>))"
  proof -
    obtain r1 s1 where 1: "has_access cmd ''*'' b = (r1, s1)" by fastforce
    obtain r2 s2 where 2: "has_access cmd (get_to msg) s1 = (r2, s2)" by fastforce
    obtain r3 s3 where 3: "has_access cmd ''PM'' s2 = (r3, s3)" by fastforce
    obtain r4 s4 where 4: "has_access cmd ''PM'' s1 = (r4, s4)" by fastforce
    have "has_access cmd ''*'' (b\<lparr>cf_props := m\<rparr>) = (r1, s1\<lparr>cf_props := m\<rparr>)"
      "has_access cmd (get_to msg) (s1\<lparr>cf_props := m\<rparr>) = (r2, s2\<lparr>cf_props := m\<rparr>)"
      "has_access cmd ''PM'' (s2\<lparr>cf_props := m\<rparr>) = (r3, s3\<lparr>cf_props := m\<rparr>)"
      "has_access cmd ''PM'' (s1\<lparr>cf_props := m\<rparr>) = (r4, s4\<lparr>cf_props := m\<rparr>)"
      using 1 2 3 4 by (simp_all only: h prod.case)
    then show ?thesis using 1 2 3 4
      by (cases r1; cases r2; simp add: allow_cmd_access_def split: bool.split)
  qed
  obtain r s' where r: "allow_cmd_access cmd msg b = (r, s')" by fastforce
  with a have a': "allow_cmd_access cmd msg (b\<lparr>cf_props := m\<rparr>) = (r, s'\<lparr>cf_props := m\<rparr>)" by simp
  show ?thesis
  proof (cases "cm_find str_lt cmd (pg_commands b)")
    case (Some x)
    with r a' show ?thesis
      by (cases r; cases "find_plug x (pg_plugins s')")
        (auto simp: run_command_def plugin_execute_def split: bool.split)
  qed (simp add: run_command_def)
qed

text \<open>The ban list has no effect: whatever the property \<open>ban\<close> holds, a line said to the bot that is
  not a built-in command runs the same plugin commands as without any ban.\<close>

theorem bans_have_no_effect:
  "do_other y cmd msg (b\<lparr>cf_props := cm_set str_lt ''ban'' bans (cf_props b)\<rparr>) =
    map_option (\<lambda>(e, b'). (e, b'\<lparr>cf_props := cm_set str_lt ''ban'' bans (cf_props b)\<rparr>)) (do_other y cmd msg b)"
  by (simp add: do_other_def bot_execute_def conf_get_set_other run_command_props
      split: alias_result.split prod.split)

subsection \<open>Nicks\<close>

text \<open>When the server refuses nick after nick, the bot offers the configured nicks from the current
  position on, each once, in order and with the user information after it, and gives up
  when there is none left.\<close>

theorem nicks_tried_in_order:
  assumes "b_nick_number b + n \<le> length (cf_nicks b)"
  shows "b_sent ((on_nick_in_use y ^^ n) b) =
      b_sent b @ concat (map (\<lambda>i. [Nick (cf_nicks b ! i), User (cf_user b) (cf_mode b) (cf_real b)])
        [b_nick_number b..<b_nick_number b + n]) \<and>
    b_nick_number ((on_nick_in_use y ^^ n) b) = b_nick_number b + n \<and>
    b_done ((on_nick_in_use y ^^ n) b) = b_done b \<and>
    (b_nick_number b + n = length (cf_nicks b) \<longrightarrow> b_done ((on_nick_in_use y ^^ Suc n) b))"
proof -
  have "m \<le> n \<longrightarrow> b_sent ((on_nick_in_use y ^^ m) b) =
      b_sent b @ concat (map (\<lambda>i. [Nick (cf_nicks b ! i), User (cf_user b) (cf_mode b) (cf_real b)])
        [b_nick_number b..<b_nick_number b + m]) \<and>
    b_nick_number ((on_nick_in_use y ^^ m) b) = b_nick_number b + m \<and>
    b_done ((on_nick_in_use y ^^ m) b) = b_done b \<and> cf_nicks ((on_nick_in_use y ^^ m) b) = cf_nicks b \<and>
    cf_user ((on_nick_in_use y ^^ m) b) = cf_user b \<and> cf_mode ((on_nick_in_use y ^^ m) b) = cf_mode b \<and>
    cf_real ((on_nick_in_use y ^^ m) b) = cf_real b" for m
    using assms by (induction m) (auto simp: on_nick_in_use_def Let_def)
  from this [of n] show ?thesis by (simp add: on_nick_in_use_def)
qed

theorem nicks_tried_in_order_witness:
  "b_sent ((on_nick_in_use demo_sys ^^ 1) (demo_bot []\<lparr>cf_nicks := [''a'', ''b'']\<rparr>)) = [Nick ''b'', User ''u'' ''0'' ''r''] \<and>
    b_done ((on_nick_in_use demo_sys ^^ 2) (demo_bot []\<lparr>cf_nicks := [''a'', ''b'']\<rparr>))"
  using nicks_tried_in_order [of "demo_bot []\<lparr>cf_nicks := [''a'', ''b'']\<rparr>" 1 demo_sys]
  by (simp add: demo_bot_def numeral_2_eq_2)

subsection \<open>\<open>exec\<close>\<close>

text \<open>\<open>/part #chan\<close> and \<open>/say #chan\<close> without a text use the whole command line as the text: the failed
  read leaves the variable \<open>line\<close> as it was.\<close>

theorem exec_echoes_line:
  assumes "trims (y_hol y)" "lowers (y_hol y)" "list_all (\<lambda>c. \<not> isspace c) chan" "is_chan chan"
    and "cs_mem str_lt chan (b_chans b)"
  shows "(\<exists>b'. exec y now (''/part '' @ chan) True b = Some (''OK'', None, b') \<and>
      b_sent b' = b_sent b @ [Part chan (''/part '' @ chan)] \<and> b_chans b' = cs_erase str_lt chan (b_chans b)) \<and>
    exec y now (''/say '' @ chan) True b = Some (''OK'', None, fc_say chan (''/say '' @ chan) b)"
proof -
  have c: "chan \<noteq> []" "\<forall>x\<in>set chan. \<not> isspace x" "\<not> isspace (last chan)" "\<not> isspace (hd chan)"
    using assms(3,4) by (auto simp: is_chan_def list_all_iff isspace_def char_consts)
  have t: "h_trim (y_hol y) chan = chan" "h_trim (y_hol y) (''/part '' @ chan) = ''/part '' @ chan"
    using c by - (rule trim_trimmed [OF assms(1)], simp add: trimmed_def isspace_def char_consts last_append)+
  have w: "read_word [] (str_stream (''/part '' @ chan)) = (''/part'', str_stream ('' '' @ chan))"
    "read_word [] (str_stream (''/say '' @ chan)) = (''/say'', str_stream ('' '' @ chan))"
    using read_word_found [of "str_stream (''/part '' @ chan)" "[]" "''/part''" SPC chan "[]"]
      read_word_found [of "str_stream (''/say '' @ chan)" "[]" "''/say''" SPC chan "[]"]
    by (simp_all add: isspace_def char_consts)
  have s: "skip_ws (str_stream ('' '' @ chan)) = str_stream chan"
    using c by (cases chan) (auto simp: skip_ws_def isspace_def char_consts)
  have rc: "read_word [] (str_stream chan) = (chan, hit_eof (str_stream []))"
    using read_word_last [of "str_stream chan" "[]" chan "[]"] c by (simp add: hit_eof_def)
  have f: "getline LF x (skip_ws (hit_eof (str_stream []))) = (x, set_fail (set_fail (hit_eof (str_stream []))))" for x
    by (simp add: skip_ws_def getline_def good_def hit_eof_def)
  have l: "h_lower (y_hol y) ''/part'' = ''/part''" "h_lower (y_hol y) ''/say'' = ''/say''"
  proof -
    have "map tolower ''/part'' = ''/part''" "map tolower ''/say'' = ''/say''" by code_simp+
    with assms(2) show "h_lower (y_hol y) ''/part'' = ''/part''" "h_lower (y_hol y) ''/say'' = ''/say''"
      by (simp_all only: lowers_def)
  qed
  show ?thesis
    using assms(4,5) c w s rc f l t
    by (simp add: exec_def exec_part_def exec_say_def exec_ok_def out_if_def Let_def)
qed

theorem exec_echoes_line_witness:
  "\<exists>b'. exec demo_sys 0 (''/part '' @ ''#c'') True (demo_bot []) = Some (''OK'', None, b') \<and>
     b_sent b' = [Part ''#c'' (''/part '' @ ''#c'')]"
proof -
  have t: "trims (y_hol demo_sys)" "lowers (y_hol demo_sys)" using hol_ref_ok by (simp_all add: demo_sys_def)
  have a: "list_all (\<lambda>c. \<not> isspace c) ''#c''" "is_chan ''#c''" "cs_mem str_lt ''#c'' (b_chans (demo_bot []))"
    "b_sent (demo_bot []) = []"
    by (simp_all add: isspace_def char_consts is_chan_def demo_bot_def str_cmp.irrefl)
  from exec_echoes_line [OF t a(1-3), of 0] a(4) show ?thesis by auto
qed

end
