(* ===== verification/Bot_Safe.thy ===== *)
theory Bot_Safe
  imports Bot_Facts "HOL-Library.Sublist"
begin

text \<open>
  What every operation of the bot keeps: the invariants of the flood controller and of the plugin
  table, \<open>done\<close> once it is set, the commands already sent and the nicks already configured.  The
  relation \<open>safe\<close> says this of two states; a lemma per operation shows it.
\<close>

subsection \<open>What the lower layers leave alone\<close>

definition conf_frame :: "'a conf_scheme \<Rightarrow> 'a conf_scheme \<Rightarrow> bool" where
  "conf_frame c c' = (conf.more c' = conf.more c \<and> prefix (cf_nicks c) (cf_nicks c'))"

lemma conf_frame_refl [simp]: "conf_frame c c"
  by (simp add: conf_frame_def)

lemma conf_frame_trans: "conf_frame a b \<Longrightarrow> conf_frame b c \<Longrightarrow> conf_frame a c"
  by (auto simp: conf_frame_def)

lemma conf_frame_props [simp]: "conf_frame c (c\<lparr>cf_props := p\<rparr>)"
  by (simp add: conf_frame_def)

lemma set_prop_frame:
  "set_prop h k v c vars pre = Next c1 vars1 pre1 \<Longrightarrow> conf_frame c c1"
  "set_prop h k v c vars pre = Include name c1 vars1 pre1 \<Longrightarrow> conf_frame c c1"
  by (auto simp: set_prop_def Let_def conf_frame_def split: if_splits)

lemma expanded_line_frame:
  "expanded_line h line c vars pre = Next c1 vars1 pre1 \<Longrightarrow> conf_frame c c1"
  "expanded_line h line c vars pre = Include name c1 vars1 pre1 \<Longrightarrow> conf_frame c c1"
  by (auto simp: expanded_line_def Let_def dest: set_prop_frame split: if_splits option.splits)

lemma sum_case_Inr:
  "(case r of Inl e \<Rightarrow> Some (Inl e) | Inr l \<Rightarrow> Some (Inr (f l))) = Some (Inr a) \<longleftrightarrow> (\<exists>l. r = Inr l \<and> f l = a)"
  by (cases r) auto

lemma props_line_frame:
  "props_line y line c vars pre = Some (Inr (Next c1 vars1 pre1)) \<Longrightarrow> conf_frame c c1"
  "props_line y line c vars pre = Some (Inr (Include name c1 vars1 pre1)) \<Longrightarrow> conf_frame c c1"
  by (auto simp: props_line_def Let_def bind_eq_Some_conv sum_case_Inr dest: expanded_line_frame split: if_splits)

text \<open>What a reflexive and transitive relation needs, to hold between a configuration and the one that the
  parser makes of it: that it holds across one line.\<close>

lemma load_props_rel:
  fixes R :: "'a conf_scheme \<Rightarrow> 'a conf_scheme \<Rightarrow> bool"
  assumes refl: "\<And>c. R c c" and tr: "\<And>a b c. R a b \<Longrightarrow> R b c \<Longrightarrow> R a c"
    and step: "\<And>line c vars pre c1 vars1 pre1. props_line y line c vars pre = Some (Inr (Next c1 vars1 pre1)) \<Longrightarrow> R c c1"
      "\<And>line c vars pre name c1 vars1 pre1. props_line y line c vars pre = Some (Inr (Include name c1 vars1 pre1)) \<Longrightarrow> R c c1"
    and run: "load_props y is c vars pre = Some (e, is1, c1, vars1, pre1)"
  shows "R c c1"
proof -
  have "y' = y \<longrightarrow> R c (fst (snd (snd out)))"
    if "load_props y' is c vars pre = Some out" for y' "is" and c :: "'a conf_scheme" and vars pre out
    using that
  proof (rule load_props.raw_induct [of "\<lambda>y' is c vars pre out. y' = y \<longrightarrow> R c (fst (snd (snd out)))", rotated],
      goal_cases)
    case (1 loop y' str c vars pre out)
    obtain line is1 where g: "getline LF [] str = (line, is1)" by fastforce
    have "R c (fst (snd (snd out)))" if y: "y' = y"
    proof (cases "ok is1")
      case False
      with 1(2) g refl show ?thesis by (auto split: if_splits)
    next
      case True
      then obtain r where r: "props_line y line c vars pre = Some r"
        using 1(2) g y by (auto simp: bind_eq_Some_conv)
      show ?thesis
      proof (cases r)
        case (Inl e)
        with 1(2) g True r y refl show ?thesis by auto
      next
        case (Inr a)
        show ?thesis
        proof (cases a)
          case (Next c1 vars1 pre1)
          with 1(2) g True r Inr y have "loop y is1 c1 vars1 pre1 = Some out" by simp
          from 1(1) [OF this] step(1) [OF r [unfolded Inr Next]] show ?thesis by (blast intro: tr)
        next
          case (Include name c1 vars1 pre1)
          then obtain e is2 c2 vars2 pre2 where i: "loop y (open_in y name) c1 vars1 pre1 = Some (e, is2, c2, vars2, pre2)"
            and o: "(case e of Some err \<Rightarrow> Some (Some err, is1, c2, vars2, pre2)
              | None \<Rightarrow> loop y is1 c2 vars2 pre2) = Some out"
            using 1(2) g True r Inr y by (auto simp: bind_eq_Some_conv)
          have f: "R c c2" using step(2) [OF r [unfolded Inr Include]] 1(1) [OF i] tr by fastforce
          show ?thesis using o f 1(1) [of y is1 c2 vars2 pre2 out] by (cases e) (auto intro: tr)
        qed
      qed
    qed
    then show ?case by blast
  qed
  from this [OF run] show ?thesis by simp
qed

lemma load_props_frame: "load_props y is c vars pre = Some (e, is1, c1, vars1, pre1) \<Longrightarrow> conf_frame c c1"
  by (rule load_props_rel [where R = conf_frame]) (auto dest: props_line_frame intro: conf_frame_trans)

lemma read_conf_frame: "read_conf y name c = Some (e, g, c1) \<Longrightarrow> conf_frame c c1"
  by (auto simp: read_conf_def dest: load_props_frame)

definition plugs_frame :: "'a plugs_scheme \<Rightarrow> 'a plugs_scheme \<Rightarrow> bool" where
  "plugs_frame s s' = (plugs.more s' = plugs.more s \<and> cf_nicks s' = cf_nicks s \<and> cf_props s' = cf_props s \<and>
     cf_user s' = cf_user s \<and> cf_mode s' = cf_mode s \<and> cf_real s' = cf_real s)"

lemma plugs_frame_trans: "plugs_frame a b \<Longrightarrow> plugs_frame b c \<Longrightarrow> plugs_frame a c"
  by (simp add: plugs_frame_def)

lemma plugs_frame_simps [simp]:
  "plugs_frame s s" "plugs_frame s (s\<lparr>pg_plugins := x1\<rparr>)" "plugs_frame s (s\<lparr>pg_next := x2\<rparr>)"
  "plugs_frame s (s\<lparr>pg_inits := x3\<rparr>)" "plugs_frame s (s\<lparr>pg_commands := x4\<rparr>)"
  "plugs_frame s (s\<lparr>pg_access := x5\<rparr>)" "plugs_frame s (s\<lparr>pg_loaded := x6\<rparr>)"
  "plugs_frame s (s\<lparr>pg_monitors := x7\<rparr>)" "plugs_frame s (s\<lparr>pg_runs := x8\<rparr>)"
  by (simp_all add: plugs_frame_def)

lemma del_plugin_frame [simp]: "plugs_frame s (del_plugin i s)"
  by (simp add: del_plugin_def plugs_frame_def split: prod.splits)

lemma add_plugin_frame [simp]: "plugs_frame s (add_plugin p s)"
  by (simp add: add_plugin_def plugs_frame_def)

lemma load_plugin_frame: "load_plugin ps path s = (r, s') \<Longrightarrow> plugs_frame s s'"
  by (auto simp: load_plugin_def Let_def add_plugin_def del_plugin_def plugs_frame_def split: option.splits prod.splits)

lemma access_loop_frame [simp]: "plugs_frame s (access_loop h n iss chan s)"
proof (induction h n iss chan s rule: access_loop.induct)
  case (1 h n iss chan s)
  obtain chan1 iss1 where g: "getline (CHR '','') chan iss = (chan1, iss1)" by fastforce
  show ?case
  proof (cases "ok iss1")
    case False
    with g show ?thesis by (subst access_loop.simps) simp
  next
    case True
    obtain skip cs1 where s: "getline (CHR ''('') [] (str_stream (h_trim h chan1)) = (skip, cs1)" by fastforce
    obtain pre cs2 where p: "getline (CHR '')'') [] cs1 = (pre, cs2)" by fastforce
    have n: "\<not> \<not> ok iss1" using True by simp
    note ih = 1 [OF g [symmetric] n refl s [symmetric] p [symmetric] refl refl]
    show ?thesis using g True s p ih
      by (subst access_loop.simps) (auto simp: Let_def intro: plugs_frame_trans [rotated])
  qed
qed

lemma load_from_dirs_frame: "plugs_frame s (snd (load_from_dirs ps h p access dirs ids s))"
proof (induction dirs arbitrary: s)
  case (Cons dir dirs)
  obtain r s1 where l: "load_plugin ps (dir @ ''/'' @ p) s = (r, s1)" by fastforce
  from Cons.IH [of s] Cons.IH [of s1] l load_plugin_frame [OF l] show ?case
    by (auto split: option.split intro: plugs_frame_trans)
qed simp

lemma load_lines_frame: "plugs_frame s (load_lines_plugs ps h dirs pv ids s)"
proof (induction pv arbitrary: ids s)
  case (Cons line pv)
  obtain p access where l: "plugin_line h line = (p, access)" by fastforce
  obtain ids1 s1 where d: "load_from_dirs ps h p access dirs ids s = (ids1, s1)" by fastforce
  from l d Cons.IH [of s1 ids1] load_from_dirs_frame [of s ps h p access dirs ids] show ?case
    by (auto intro: plugs_frame_trans)
qed simp

lemma load_plugins_frame [simp]: "plugs_frame s (load_plugins ps h now s)"
  by (auto simp: load_plugins_def Let_def intro: plugs_frame_trans [OF _ load_lines_frame])

lemma init_loop_frame: "init_loop ps irc l s = (l', s') \<Longrightarrow> plugs_frame s s'"
proof (induction l arbitrary: s l' s')
  case (Cons p l)
  from Cons.prems show ?case
    by (auto simp: Let_def plugs_frame_def add_monitor_def split: prod.splits if_splits dest!: Cons.IH)
qed simp

lemma init_plugins_frame [simp]: "plugs_frame s (init_plugins ps irc s)"
  by (auto simp: init_plugins_def split: prod.split dest!: init_loop_frame intro: plugs_frame_trans)

subsection \<open>The plugin table\<close>

lemma plug_inv_load_plugins: "plug_inv s \<Longrightarrow> plug_inv (load_plugins ps h now s)"
  using plug_inv_lines [of "s\<lparr>pg_loaded := now\<rparr>"] by (simp add: load_plugins_def Let_def plug_inv_def)

lemma plugin_adds_keep [simp]:
  "pl_addr (fold plugin_add acts p) = pl_addr p" "pl_id (fold plugin_add acts p) = pl_id p"
  by (induction acts arbitrary: p) (simp_all add: plugin_add_def)

lemma plugin_init_keeps: "plugin_init ps irc n p = (b, p1, mon) \<Longrightarrow> pl_addr p1 = pl_addr p \<and> pl_id p1 = pl_id p"
  by (auto simp: plugin_init_def split: if_splits prod.splits)

lemma init_loop_table:
  "init_loop ps irc l s = (l', s') \<Longrightarrow>
    subseq (map pl_id l') (map pl_id l) \<and> subseq (map pl_addr l') (map pl_addr l) \<and> pg_next s' = pg_next s"
proof (induction l arbitrary: s l' s')
  case (Cons p l)
  from Cons.prems show ?case
    by (auto simp: Let_def add_monitor_def split: prod.splits if_splits dest!: Cons.IH plugin_init_keeps)
qed simp

lemma plug_inv_addrs:
  "plug_inv s = (distinct (map pl_id (pg_plugins s)) \<and> distinct (map pl_addr (pg_plugins s)) \<and>
     (\<forall>a\<in>set (map pl_addr (pg_plugins s)). a < pg_next s))"
  by (simp add: plug_inv_def)

lemma subseq_distinct: "subseq xs ys \<Longrightarrow> set xs \<subseteq> set ys \<and> (distinct ys \<longrightarrow> distinct xs)"
  by (induction rule: list_emb.induct) auto

lemma plug_inv_init_plugins: "plug_inv s \<Longrightarrow> plug_inv (init_plugins ps irc s)"
proof -
  assume i: "plug_inv s"
  obtain l s1 where l: "init_loop ps irc (pg_plugins s) s = (l, s1)" by fastforce
  from init_loop_table [OF l] i show ?thesis
    by (auto simp: plug_inv_addrs init_plugins_def l simp del: set_map dest!: subseq_distinct)
qed

lemma update_plug_keeps:
  "pl_id p1 = pl_id p \<Longrightarrow> pl_addr p1 = pl_addr p \<Longrightarrow> p \<in> set l \<Longrightarrow> distinct (map pl_addr l) \<Longrightarrow>
    map pl_id (update_plug p1 l) = map pl_id l \<and> map pl_addr (update_plug p1 l) = map pl_addr l"
  by (induction l) (auto simp: image_iff)

lemma find_plug_in: "find_plug a l = Some p \<Longrightarrow> p \<in> set l"
  by (auto simp: find_plug_def find_Some_iff in_set_conv_nth)

lemma has_access_keeps: "has_access cmd ch s = (r, s') \<Longrightarrow> plugs_frame s s' \<and> pg_plugins s' = pg_plugins s \<and> pg_next s' = pg_next s"
  by (auto simp: has_access_def Let_def plugs_frame_def split: if_splits option.splits)

lemma allow_cmd_access_keeps:
  "allow_cmd_access cmd msg s = (r, s') \<Longrightarrow> plugs_frame s s' \<and> pg_plugins s' = pg_plugins s \<and> pg_next s' = pg_next s"
  by (auto simp: allow_cmd_access_def split: prod.splits sum.splits bool.splits if_splits dest!: has_access_keeps
    intro: plugs_frame_trans)

lemma run_command_cases:
  assumes "run_command cmd msg s = (e, s')" "cm_find str_lt cmd (pg_commands s) = Some a"
    "allow_cmd_access cmd msg s = (r, s1)"
  obtains (same) "s' = s1"
  | (ran) p where "find_plug a (pg_plugins s1) = Some p"
      "s' = s1\<lparr>pg_plugins := update_plug (snd (plugin_execute cmd p)) (pg_plugins s1), pg_runs := pg_runs s'\<rparr>"
  using assms by (auto simp: run_command_def split: sum.splits bool.splits option.splits prod.splits)

lemma run_command_keeps:
  assumes "run_command cmd msg s = (e, s')"
  shows "plugs_frame s s' \<and> (plug_inv s \<longrightarrow> plug_inv s')"
proof (cases "cm_find str_lt cmd (pg_commands s)")
  case (Some a)
  obtain r s1 where r: "allow_cmd_access cmd msg s = (r, s1)" by fastforce
  note k = allow_cmd_access_keeps [OF r]
  have i: "plug_inv s \<longrightarrow> plug_inv s1" using k by (simp add: plug_inv_def)
  from assms Some r show ?thesis
  proof (cases rule: run_command_cases)
    case same
    with k i show ?thesis by simp
  next
    case (ran p)
    have "plug_inv s1 \<longrightarrow> plug_inv s'"
      using update_plug_keeps [of "snd (plugin_execute cmd p)" p "pg_plugins s1"] find_plug_in [OF ran(1)]
      by (subst ran(2)) (auto simp: plug_inv_addrs plugin_execute_def simp del: set_map)
    moreover have "plugs_frame s1 s'" by (subst ran(2)) (simp add: plugs_frame_def)
    ultimately show ?thesis using k i by (auto intro: plugs_frame_trans)
  qed
qed (use assms in \<open>simp add: run_command_def\<close>)

lemma bot_execute_keeps:
  "bot_execute h cmd msg s = (e, s') \<Longrightarrow> plugs_frame s s' \<and> (plug_inv s \<longrightarrow> plug_inv s')"
  by (auto simp: bot_execute_def Let_def split: alias_result.splits dest: run_command_keeps)

subsection \<open>The relation\<close>

definition safe :: "bot \<Rightarrow> bot \<Rightarrow> bool" where
  "safe b b' = ((fl_inv (b_fc b) \<longrightarrow> fl_inv (b_fc b')) \<and> (plug_inv b \<longrightarrow> plug_inv b') \<and>
     (b_done b \<longrightarrow> b_done b') \<and> prefix (b_sent b) (b_sent b') \<and> prefix (cf_nicks b) (cf_nicks b'))"

lemma safe_refl [simp]: "safe b b"
  by (simp add: safe_def)

lemma safe_trans: "safe a b \<Longrightarrow> safe b c \<Longrightarrow> safe a c"
  by (auto simp: safe_def intro: prefix_order.trans)

text \<open>Fields that the relation does not speak of.\<close>

lemma safe_updates [simp]:
  "safe a (b\<lparr>cf_props := x1\<rparr>) = safe a b" "safe a (b\<lparr>b_store := x2\<rparr>) = safe a b"
  "safe a (b\<lparr>b_msgevents := x3\<rparr>) = safe a b" "safe a (b\<lparr>b_calls := x4\<rparr>) = safe a b"
  "safe a (b\<lparr>b_events := x5\<rparr>) = safe a b" "safe a (b\<lparr>b_debug := x6\<rparr>) = safe a b"
  "safe a (b\<lparr>b_connected := x7\<rparr>) = safe a b" "safe a (b\<lparr>b_registered := x8\<rparr>) = safe a b"
  "safe a (b\<lparr>b_restart := x9\<rparr>) = safe a b" "safe a (b\<lparr>b_pinger_info := x10\<rparr>) = safe a b"
  "safe a (b\<lparr>b_nick_number := x11\<rparr>) = safe a b" "safe a (b\<lparr>b_nick := x12\<rparr>) = safe a b"
  "safe a (b\<lparr>b_chans := x13\<rparr>) = safe a b" "safe a (b\<lparr>b_nicks := x14\<rparr>) = safe a b"
  "safe a (b\<lparr>b_draws := x15\<rparr>) = safe a b" "safe a (b\<lparr>b_conns := x16\<rparr>) = safe a b"
  "safe a (b\<lparr>b_uptime := x17\<rparr>) = safe a b" "safe a (b\<lparr>b_config_loaded := x18\<rparr>) = safe a b"
  "safe a (b\<lparr>cf_file := x19\<rparr>) = safe a b"
  by (simp_all add: safe_def plug_inv_def)

lemma safe_done: "safe a b \<Longrightarrow> safe a (b\<lparr>b_done := True\<rparr>)"
  by (simp add: safe_def plug_inv_def)

lemma safe_send: "safe a b \<Longrightarrow> safe a (snd (send_op y op b))"
  by (auto simp: safe_def send_op_def plug_inv_def intro: prefix_order.trans)

lemma safe_emit: "safe a b \<Longrightarrow> safe a (emit y op b)"
  by (simp add: emit_def safe_send)

lemma safe_draw: "safe a b \<Longrightarrow> safe a (snd (draw h xs b))"
  by (simp add: draw_def)

lemma safe_fc_do: "safe a b \<Longrightarrow> safe a (fc_do c op b)"
  by (simp add: safe_def fc_do_def plug_inv_def fl_inv_send)

lemma fold_all: "(\<And>x b. x \<in> set xs \<Longrightarrow> P b \<Longrightarrow> P (f x b)) \<Longrightarrow> P b \<Longrightarrow> P (fold f xs b)"
  by (induction xs arbitrary: b) auto

lemma safe_fold: "(\<And>x b. safe a b \<Longrightarrow> safe a (f x b)) \<Longrightarrow> safe a b \<Longrightarrow> safe a (fold f xs b)"
  by (rule fold_all)

lemma safe_frame: "safe a b \<Longrightarrow> plugs_frame b b' \<Longrightarrow> plug_inv b \<longrightarrow> plug_inv b' \<Longrightarrow> safe a b'"
proof -
  assume "safe a b" "plugs_frame b b'" "plug_inv b \<longrightarrow> plug_inv b'"
  moreover have "b_fc b' = b_fc b \<and> b_done b' = b_done b \<and> b_sent b' = b_sent b"
    using \<open>plugs_frame b b'\<close> by (cases b, cases b') (simp add: plugs_frame_def)
  ultimately show ?thesis by (auto simp: safe_def plugs_frame_def)
qed

lemma safe_conf_frame: "safe a b \<Longrightarrow> conf_frame b b' \<Longrightarrow> safe a b'"
proof -
  assume s: "safe a b" "conf_frame b b'"
  moreover have "b_fc b' = b_fc b \<and> b_done b' = b_done b \<and> b_sent b' = b_sent b \<and> (plug_inv b' = plug_inv b)"
    using s(2) by (cases b, cases b') (simp add: conf_frame_def plug_inv_def)
  ultimately show ?thesis by (auto simp: safe_def conf_frame_def intro: prefix_order.trans)
qed

lemmas safe_intros = safe_done safe_send safe_emit safe_draw safe_fc_do

lemma safe_replies:
  "safe a b \<Longrightarrow> safe a (fc_say to t b)" "safe a b \<Longrightarrow> safe a (fc_reply msg t b)"
  "safe a b \<Longrightarrow> safe a (fc_reply_pm msg t b)" "safe a b \<Longrightarrow> safe a (fc_reply_pm_help h msg t p b)"
  "safe a b \<Longrightarrow> safe a (fc_reply_help h msg t p b)"
  by (auto simp: fc_say_def fc_reply_def fc_reply_pm_def fc_reply_pm_help_def fc_reply_help_def
    intro!: safe_fc_do safe_fold)

lemma safe_turn: "safe a b \<Longrightarrow> safe a (bot_turn y b)"
proof -
  assume "safe a b"
  moreover obtain out fc1 where t: "turn (b_fc b) = (out, fc1)" by fastforce
  ultimately have "safe a (b\<lparr>b_fc := fc1\<rparr>)"
    using fl_inv_turn [of "b_fc b"] by (simp add: safe_def plug_inv_def)
  with t show ?thesis by (auto simp: bot_turn_def Let_def split: option.split intro: safe_emit)
qed

text \<open>Operations that may fail: what holds of the state they end in.\<close>

definition res_all :: "('b \<Rightarrow> bool) \<Rightarrow> 'b res \<Rightarrow> bool" where
  "res_all P r = (\<forall>e b'. r = Some (e, b') \<longrightarrow> P b')"

lemma res_all_simps [simp]:
  "res_all P (done_res b) = P b" "res_all P (Some (e, b)) = P b" "res_all P None"
  by (auto simp: res_all_def done_res_def)

lemma res_all_and_then: "(\<And>b. P b \<Longrightarrow> res_all P (f b)) \<Longrightarrow> res_all P r \<Longrightarrow> res_all P (and_then r f)"
  by (auto simp: and_then_def res_all_def split: option.split)

lemma res_all_for_each: "(\<And>x b. x \<in> set xs \<Longrightarrow> P b \<Longrightarrow> res_all P (f x b)) \<Longrightarrow> P b \<Longrightarrow> res_all P (for_each f xs b)"
  by (induction xs arbitrary: b) (auto intro: res_all_and_then)

definition exec_all :: "(bot \<Rightarrow> bool) \<Rightarrow> exec_res \<Rightarrow> bool" where
  "exec_all P r = (\<forall>out e b'. r = Some (out, e, b') \<longrightarrow> P b')"

lemma exec_all_simps [simp]:
  "exec_all P (exec_ok out b) = P b" "exec_all P (Some (out, e, b)) = P b"
  "exec_all P (map_option (\<lambda>(e, b1). (out, e, b1)) r) = res_all P r"
  "exec_all P (map_option (Pair out) r) = res_all P r"
  by (auto simp: exec_all_def exec_ok_def res_all_def)

lemma res_all_quiet: "exec_all P (exec y now line False b) \<Longrightarrow> res_all P (exec_quiet y now line b)"
  by (auto simp: exec_quiet_def exec_all_def res_all_def split_beta)

abbreviation "safe_res a \<equiv> res_all (safe a)"
abbreviation "safe_exec a \<equiv> exec_all (safe a)"

subsection \<open>The operations\<close>

lemma safe_join: "safe a b \<Longrightarrow> safe a (official_join y chan b)"
  by (auto simp: official_join_def add_channel_def Let_def split_beta intro!: safe_intros)

lemma safe_leave: "safe a b \<Longrightarrow> safe a (leave_all y b)"
  by (auto simp: leave_all_def Let_def split_beta intro!: safe_intros safe_fold)

lemma safe_reconfigure: "safe a b \<Longrightarrow> safe_res a (reconfigure y now b)"
  by (auto simp: reconfigure_def split: option.split prod.split
    dest!: read_conf_frame intro: safe_conf_frame [rotated])

lemma safe_reload: "safe a b \<Longrightarrow> safe a (reload_plugins y now b)"
  unfolding reload_plugins_def
  by (rule safe_frame [OF safe_frame [OF _ load_plugins_frame] init_plugins_frame])
    (auto intro: plug_inv_init_plugins plug_inv_load_plugins)

lemma safe_exec_handlers:
  assumes "safe a b"
  shows "safe_exec a (exec_say y os line iss b)" "safe_exec a (exec_ctcp y os iss b)"
    "safe_exec a (exec_raw y iss b)" "safe_exec a (exec_nick y iss b)" "safe_exec a (exec_msg y iss b)"
    "safe_exec a (exec_auth y iss b)" "safe_exec a (exec_mode y iss b)" "safe_exec a (exec_whois y iss b)"
    "safe_exec a (exec_me y os line iss b)" "safe_exec a (exec_join y os iss b)"
    "safe_exec a (exec_part y os line iss b)" "safe_exec a (exec_ping y os iss b)"
    "safe_exec a (exec_reconnect y os b)"
  using assms
  by (auto simp: exec_say_def exec_ctcp_def exec_raw_def exec_nick_def exec_msg_def exec_auth_def exec_mode_def
    exec_whois_def exec_me_def exec_join_def exec_part_def exec_ping_def exec_reconnect_def bot_connect_def
    add_channel_def Let_def split_beta split: sum.split intro!: safe_intros safe_replies)

lemma safe_exec_exec: "safe a b \<Longrightarrow> safe_exec a (exec y now line os b)"
  by (simp add: exec_def Let_def split_beta safe_exec_handlers safe_reconfigure safe_reload safe_leave safe_done)

lemma safe_exec_quiet: "safe a b \<Longrightarrow> safe_res a (exec_quiet y now line b)"
  by (rule res_all_quiet) (rule safe_exec_exec)

lemma safe_welcome: "safe a b \<Longrightarrow> safe_res a (on_welcome y now msg b)"
  by (auto simp: on_welcome_def Let_def split_beta
    intro!: res_all_and_then res_all_for_each safe_exec_quiet safe_fold safe_join)

lemma safe_namreply: "safe a b \<Longrightarrow> safe a (on_namreply msg b)"
  by (auto simp: on_namreply_def add_nick_def Let_def intro!: safe_fold)

lemma safe_nick_in_use: "safe a b \<Longrightarrow> safe a (on_nick_in_use y b)"
  by (auto simp: on_nick_in_use_def Let_def intro!: safe_intros)

lemma safe_invite: "safe a b \<Longrightarrow> safe_res a (on_invite y msg b)"
  by (auto simp: on_invite_def Let_def split_beta intro!: safe_intros safe_join)

lemma safe_on_join: "safe a b \<Longrightarrow> safe a (on_join y msg b)"
  by (auto simp: on_join_def Let_def split: list.split intro!: safe_intros)

lemma safe_words:
  assumes "safe a b"
  shows "safe a (do_die y cmd msg b)" "safe a (do_uptime y now msg b)" "safe a (do_join y msg b)"
    "safe a (do_part y msg b)" "safe_res a (do_reconfigure y now msg b)" "safe a (do_restart y msg b)"
    "safe a (do_debug msg b)" "safe a (on_nick msg b)"
  using assms
  by (auto simp: do_die_def do_uptime_def do_join_def do_part_def do_reconfigure_def do_restart_def do_debug_def
    on_nick_def add_channel_def Let_def split_beta split: option.split
    intro!: safe_intros safe_replies safe_leave safe_exec_quiet)

lemma safe_pset: "safe a b \<Longrightarrow> safe a (do_pset y msg b)"
  by (auto simp: do_pset_def Let_def split_beta intro!: safe_replies safe_fold)

lemma safe_help: "safe a b \<Longrightarrow> safe_res a (do_help y msg b)"
  by (auto simp: do_help_def Let_def split_beta split: sum.split intro!: safe_replies safe_fold)

lemma safe_other: "safe a b \<Longrightarrow> safe_res a (do_other y cmd msg b)"
  by (auto simp: do_other_def res_all_def dest!: bot_execute_keeps [OF sym] bot_execute_keeps intro: safe_frame)

lemma safe_privmsg: "safe a b \<Longrightarrow> safe_res a (on_privmsg y now msg b)"
  by (simp add: on_privmsg_def Let_def safe_words safe_pset safe_help safe_other)

lemma safe_handle: "safe a b \<Longrightarrow> safe_res a (handle y now msg b)"
  by (simp add: handle_def Let_def safe_words safe_welcome safe_namreply safe_nick_in_use safe_invite safe_on_join
    safe_privmsg safe_intros)

lemma safe_monitor: "safe a b \<Longrightarrow> safe_res a (monitor_event msg m b)"
  by (auto simp: monitor_event_def split: option.split)

lemma safe_dispatch: "safe a b \<Longrightarrow> safe a (dispatch_msgevent now msg b)"
  by (auto simp: dispatch_msgevent_def split_beta split: option.split)

lemma safe_process: "safe a b \<Longrightarrow> safe_res a (process y now line b)"
  by (auto simp: process_def Let_def split_beta
    intro!: res_all_and_then res_all_for_each safe_handle safe_monitor safe_dispatch)

lemma safe_main_turn: "safe a b \<Longrightarrow> safe_res a (main_turn y now line b)"
  by (auto simp: main_turn_def split: option.split intro: safe_process safe_done)

lemma safe_exit: "safe a b \<Longrightarrow> safe a (bot_exit y ready b)"
proof -
  assume "safe a b"
  moreover have "fl_inv (fl_stop ready f) = fl_inv f" for f :: "irc_op flood"
    by (simp add: fl_stop_def fl_inv_def Let_def)
  ultimately have "safe a (b\<lparr>b_fc := fl_stop ready (b_fc b)\<rparr>)" by (simp add: safe_def plug_inv_def)
  then show ?thesis by (simp add: bot_exit_def Let_def safe_intros)
qed

end
