(* ===== verification/Bot_Machine.thy ===== *)
theory Bot_Machine
  imports Bot_Safe
begin

text \<open>
  The threads of a running bot (\<open>IrcBot::init\<close>, \<open>IrcBot::pinger\<close>, the dispatcher of the flood
  controller, a console that calls \<open>exec\<close>) as a step relation.  A step is what a thread does between
  two of its waits; a wait is a state in which the thread looks at its condition again whenever it
  is scheduled.  The threads share the bot without locks; the interleaving of steps is the part of
  their concurrency that is modelled.  What plugins do is not in the source, so they are one more thread
  that may at any time make any call the bot offers them (\<open>plug_call\<close>): the code of a command, the events
  and the threads of a plugin.
\<close>

subsection \<open>The pinger\<close>

datatype png =
    P_top
  | P_dial nat nat
  | P_wait
  | P_check
  | P_pinged string nat
  | P_stop
  | P_threw
  | P_fault bot_error

definition retries :: "bot \<Rightarrow> nat" where
  "retries b = unat (of_int (conf_get_int ''server.retries'' 10 b) :: siz)"

definition first_nick :: "bot_sys \<Rightarrow> bot \<Rightarrow> png \<times> bot" where
  "first_nick y b =
     (let i = b_nick_number b; b1 = b\<lparr>b_nick_number := i + 1\<rparr>
      in if i < length (cf_nicks b1)
         then let b2 = emit y (Nick (cf_nicks b1 ! i)) b1
              in (P_wait, emit y (User (cf_user b2) (cf_mode b2) (cf_real b2)) b2)
         else (P_fault (Bad_Index ''info.nicks''), b1))"

text \<open>After the loop of connection attempts, which ended at \<open>attempt\<close>.\<close>

definition dialled :: "bot_sys \<Rightarrow> nat \<Rightarrow> nat \<Rightarrow> bot \<Rightarrow> png \<times> bot" where
  "dialled y attempt rt b =
     (let b1 = (if \<not> attempt < rt then b\<lparr>b_done := True\<rparr> else b)
      in if \<not> b_done b1
         then first_nick y
                (emit y (Pass (conf_get ''server.password'' [] b1)) (b1\<lparr>b_connected := True, b_registered := False\<rparr>))
         else (P_check, b1))"

definition dial :: "bot_sys \<Rightarrow> nat \<Rightarrow> nat \<Rightarrow> bot \<Rightarrow> png \<times> bot" where
  "dial y attempt rt b =
     (if b_done b then dialled y attempt rt b
      else case bot_connect y b of
             (Inl e, b1) \<Rightarrow> (P_threw, b1)
           | (Inr True, b1) \<Rightarrow> dialled y attempt rt b1
           | (Inr False, b1) \<Rightarrow>
               if attempt < rt then (P_dial (attempt + 1) rt, b1) else dialled y attempt rt b1)"

text \<open>Three minutes after the ping, or when the bot is done.\<close>

definition ping_verdict :: "bot_sys \<Rightarrow> string \<Rightarrow> bot \<Rightarrow> bot" where
  "ping_verdict y tok b =
     (let b1 = b\<lparr>b_connected := (b_pinger_info b = tok)\<rparr>;
          b2 = (if \<not> b_connected b1 then b1\<lparr>b_registered := False, b_nick_number := 0\<rparr> else b1)
      in if length (cf_nicks b2) > 1 \<and> b_nick b2 \<noteq> cf_nicks b2 ! 0
         then emit y (Nick (cf_nicks b2 ! 0)) (b2\<lparr>b_nick_number := 1\<rparr>) else b2)"

text \<open>\<open>tok\<close>: the random number of a new ping.\<close>

fun pinger :: "bot_sys \<Rightarrow> string \<Rightarrow> png \<times> bot \<Rightarrow> png \<times> bot" where
  "pinger y tok (P_top, b) = (if \<not> b_done b then (P_dial 0 (retries b), b) else (P_stop, b))"
| "pinger y tok (P_dial attempt rt, b) = dial y attempt rt b"
| "pinger y tok (P_wait, b) =
     (if \<not> b_done b \<and> b_connected b \<and> \<not> b_registered b then (P_wait, b) else (P_check, b))"
| "pinger y tok (P_check, b) =
     (if \<not> b_done b \<and> b_connected b \<and> b_registered b then (P_pinged tok 180, emit y (Ping tok) b) else (P_top, b))"
| "pinger y tok (P_pinged t count, b) =
     (if \<not> b_done b \<and> count - 1 \<noteq> 0 then (P_pinged t (count - 1), b) else (P_check, ping_verdict y t b))"
| "pinger y tok (P_stop, b) = (P_stop, b)"
| "pinger y tok (P_threw, b) = (P_threw, b)"
| "pinger y tok (P_fault e, b) = (P_fault e, b)"

subsection \<open>The main thread\<close>

datatype main_pc = M_await | M_loop | M_reconnect | M_exit | M_stop | M_hang | M_fault bot_error

definition main_thread :: "bot_sys \<Rightarrow> int \<Rightarrow> string option \<Rightarrow> bool \<Rightarrow> main_pc \<times> bot \<Rightarrow> main_pc \<times> bot" where
  "main_thread y now line ready s =
     (case s of (pc, b) \<Rightarrow>
        case pc of
          M_await \<Rightarrow> if \<not> b_done b \<and> \<not> b_connected b then (M_await, b) else (M_loop, b)
        | M_loop \<Rightarrow>
            if b_done b then (M_exit, b)
            else (case main_turn y now line b of
                    None \<Rightarrow> (M_hang, b)
                  | Some (Some e, b1) \<Rightarrow> (M_fault e, b1)
                  | Some (None, b1) \<Rightarrow>
                      (if line = None \<and> \<not> conf_get_bool ''irc.test.mode'' False b then M_reconnect else M_loop, b1))
        | M_reconnect \<Rightarrow> if \<not> b_done b \<and> \<not> b_connected b then (M_reconnect, b) else (M_loop, b)
        | M_exit \<Rightarrow> (M_stop, bot_exit y ready b)
        | M_stop \<Rightarrow> (M_stop, b)
        | M_hang \<Rightarrow> (M_hang, b)
        | M_fault e \<Rightarrow> (M_fault e, b))"

subsection \<open>The plugins\<close>

text \<open>
  The calls by which a plugin changes the bot: \<open>fc_do\<close>, behind which are \<open>fc_say\<close>, every \<open>fc_reply\<close> and \<open>cmd_error\<close>;
  a command of the server that \<open>get_irc_server\<close> returns; \<open>official_join\<close>, \<open>add_channel\<close>, \<open>add_msgevent\<close>,
  \<open>add_monitor\<close> and \<open>add_rpc_service\<close>.  \<open>exec\<close> is the step of the console.
\<close>

datatype bot_call =
    Queue string irc_op
  | Send irc_op
  | Join_Officially string
  | Add_Channel string
  | On_Message string msgevent
  | Watch nat
  | Serve string nat

fun plug_call :: "bot_sys \<Rightarrow> bot_call \<Rightarrow> bot \<Rightarrow> bot" where
  "plug_call y (Queue c op) b = fc_do c op b"
| "plug_call y (Send op) b = emit y op b"
| "plug_call y (Join_Officially c) b = official_join y c b"
| "plug_call y (Add_Channel c) b = add_channel c b"
| "plug_call y (On_Message cmd me) b = add_msgevent cmd me b"
| "plug_call y (Watch m) b = add_monitor m b"
| "plug_call y (Serve name sv) b = add_rpc_service name sv b"

subsection \<open>The machine\<close>

record mach =
  mc_main :: main_pc
  mc_png :: png
  mc_bot :: bot

inductive mach_step :: "bot_sys \<Rightarrow> mach \<Rightarrow> mach \<Rightarrow> bool" for y where
  main: "main_thread y now line ready (mc_main m, mc_bot m) = (pc, b) \<Longrightarrow>
    mach_step y m (m\<lparr>mc_main := pc, mc_bot := b\<rparr>)"
| ping: "pinger y tok (mc_png m, mc_bot m) = (pc, b) \<Longrightarrow> mach_step y m (m\<lparr>mc_png := pc, mc_bot := b\<rparr>)"
| dispatch: "fl_dispatching (b_fc (mc_bot m)) \<Longrightarrow> mach_step y m (m\<lparr>mc_bot := bot_turn y (mc_bot m)\<rparr>)"
| console: "exec y now line True (mc_bot m) = Some (out, e, b) \<Longrightarrow> mach_step y m (m\<lparr>mc_bot := b\<rparr>)"
| plugin: "mach_step y m (m\<lparr>mc_bot := plug_call y c (mc_bot m)\<rparr>)"

inductive_cases mach_stepE: "mach_step y m m'"

definition new_bot :: "int \<Rightarrow> bot" where
  "new_bot now = \<lparr>cf_props = [], cf_nicks = [], cf_user = [], cf_mode = [], cf_real = [], cf_file = [],
     pg_plugins = [], pg_next = 0, pg_inits = 0, pg_commands = [], pg_access = [], pg_loaded = 0,
     pg_monitors = [], pg_services = [], pg_runs = [],
     b_store = \<lparr>ms_store = [], ms_ci = False, bs_file = \<lparr>f_content = None, f_writable = False\<rparr>\<rparr>,
     b_fc = new_flood, b_sent = [], b_msgevents = [], b_calls = [], b_events = [], b_debug = False, b_done = False,
     b_connected = False, b_registered = False, b_restart = False, b_pinger_info = [], b_nick_number = 0,
     b_nick = [], b_chans = [], b_nicks = [], b_draws = 0, b_conns = 0, b_uptime = now, b_config_loaded = 0\<rparr>"

text \<open>The machine when \<open>init\<close> has come to its wait; in test mode there is no pinger.\<close>

definition start :: "bot \<Rightarrow> mach" where
  "start b = \<lparr>mc_main = M_await,
     mc_png = (if conf_get_bool ''irc.test.mode'' False b then P_stop else P_top), mc_bot = b\<rparr>"

subsection \<open>A configuration to evaluate on\<close>

definition conf_text :: string where
  "conf_text = ''nick: bot'' @ [LF] @ ''server.host: h'' @ [LF] @ ''flood.poll.time: 1000'' @ [LF]"

definition mach_sys :: "connect_error + bool \<Rightarrow> bot_sys" where
  "mach_sys r = demo_sys\<lparr>y_file := (\<lambda>f. if f = ''/c'' then Some conf_text else None), bs_connect := (\<lambda>_. r)\<rparr>"

definition ready_bot :: "connect_error + bool \<Rightarrow> bot" where
  "ready_bot r = (case bot_init (mach_sys r) 0 ''/c'' (new_bot 0) of Some (_, _, b) \<Rightarrow> b | None \<Rightarrow> new_bot 0)"

lemma ready_bot_facts:
  "map_option (\<lambda>(e, ok, b). (e, ok, cf_nicks b, cm_find str_lt ''flood.poll.time'' (cf_props b), b_nick_number b, b_connected b,
       conf_get_int ''server.retries'' 10 b, conf_get_bool ''irc.test.mode'' False b))
    (bot_init (mach_sys r) 0 ''/c'' (new_bot 0)) =
   Some (None, True, [''bot''], Some [''1000''], 0, False, 10, False)"
  by code_simp

subsection \<open>Invariant\<close>

lemma safe_first_nick: "safe a b \<Longrightarrow> safe a (snd (first_nick y b))"
  by (auto simp: first_nick_def Let_def intro!: safe_intros)

lemma safe_dialled: "safe a b \<Longrightarrow> safe a (snd (dialled y n rt b))"
  by (auto simp: dialled_def Let_def intro!: safe_intros safe_first_nick)

lemma safe_dial: "safe a b \<Longrightarrow> safe a (snd (dial y n rt b))"
  by (auto simp: dial_def bot_connect_def split: sum.split bool.split intro!: safe_dialled)

lemma safe_pinger: "safe a b \<Longrightarrow> safe a (snd (pinger y tok (p, b)))"
  by (cases p) (auto simp: safe_dial ping_verdict_def Let_def intro!: safe_intros)

lemma safe_main: "safe a b \<Longrightarrow> safe a (snd (main_thread y now line ready (pc, b)))"
  using safe_main_turn [of a b y now line] safe_exit [of a b y ready]
  by (cases pc) (auto simp: main_thread_def res_all_def split: option.split prod.split)

lemma safe_tables [simp]:
  "safe a (b\<lparr>pg_monitors := x1\<rparr>) = safe a b" "safe a (b\<lparr>pg_services := x2\<rparr>) = safe a b"
  by (simp_all add: safe_def plug_inv_def)

lemma safe_plug_call: "safe a b \<Longrightarrow> safe a (plug_call y c b)"
  by (cases c) (simp_all add: safe_fc_do safe_emit safe_join add_channel_def add_msgevent_def add_monitor_def
    add_rpc_service_def)

lemma safe_step: "mach_step y m m' \<Longrightarrow> safe (mc_bot m) (mc_bot m')"
proof (induction rule: mach_step.cases)
  case (main now line ready m pc b)
  then show ?case
    using safe_main [OF safe_refl, where y = y and now = now and line = line and ready = ready
      and pc = "mc_main m" and a = "mc_bot m"] by simp
next
  case (ping tok m pc b)
  then show ?case
    using safe_pinger [OF safe_refl, where y = y and tok = tok and p = "mc_png m" and a = "mc_bot m"] by simp
next
  case (dispatch m)
  then show ?case by (simp add: safe_turn)
next
  case (console now line m out e b)
  then show ?case
    using safe_exec_exec [OF safe_refl, where y = y and now = now and line = line and os = True and a = "mc_bot m"]
    by (simp add: exec_all_def)
next
  case (plugin m c)
  then show ?case by (simp add: safe_plug_call)
qed

lemma safe_steps: "(mach_step y)\<^sup>*\<^sup>* m m' \<Longrightarrow> safe (mc_bot m) (mc_bot m')"
  by (induction rule: rtranclp_induct) (auto dest: safe_step intro: safe_trans)

lemma frame_bot:
  fixes b b' :: bot
  shows "conf_frame b b' \<Longrightarrow> b_fc b' = b_fc b \<and> b_sent b' = b_sent b \<and> b_done b' = b_done b"
    "plugs_frame b b' \<Longrightarrow> b_fc b' = b_fc b \<and> b_sent b' = b_sent b \<and> b_done b' = b_done b"
  by (cases b, cases b', simp add: conf_frame_def plugs_frame_def)+

text \<open>A bot that \<open>init\<close> has made ready.\<close>

lemma init_resources_ready:
  assumes "init_resources y now b = (e, True, b')"
  shows "b_fc b' = fl_start (b_fc b) \<and> b_sent b' = b_sent b \<and> b_done b' = b_done b \<and> cf_nicks b' \<noteq> [] \<and>
    (plug_inv b \<longrightarrow> plug_inv b')"
proof -
  obtain st where st: "open_store (bs_disk y (conf_getf (sys.truncate y) ''store.file'' ''store.txt'' b)) = (None, st)"
    using assms by (cases "open_store (bs_disk y (conf_getf (sys.truncate y) ''store.file'' ''store.txt'' b))")
      (auto simp: init_resources_def Let_def split: option.splits)
  let ?b2 = "load_plugins (bs_plug y) (y_hol y) now (b\<lparr>b_store := st\<rparr>)"
  let ?b3 = "init_plugins (bs_plug y) True (?b2\<lparr>b_fc := fl_start (b_fc ?b2)\<rparr>)"
  have n: "cf_nicks ?b2 \<noteq> []" and b': "b' = (if conf_get_bool ''irc.test.mode'' False ?b3 then ?b3\<lparr>b_connected := True\<rparr> else ?b3)"
    using assms st by (auto simp: init_resources_def Let_def split: if_splits)
  have f2: "plugs_frame (b\<lparr>b_store := st\<rparr>) ?b2" and f3: "plugs_frame (?b2\<lparr>b_fc := fl_start (b_fc ?b2)\<rparr>) ?b3"
    by simp_all
  have "plug_inv b \<longrightarrow> plug_inv ?b3"
  proof
    assume "plug_inv b"
    then have "plug_inv (b\<lparr>b_store := st\<rparr>)" by (simp add: plug_inv_def)
    then have "plug_inv ?b2" by (rule plug_inv_load_plugins)
    then have "plug_inv (?b2\<lparr>b_fc := fl_start (b_fc ?b2)\<rparr>)" by (simp add: plug_inv_def)
    then show "plug_inv ?b3" by (rule plug_inv_init_plugins)
  qed
  then show ?thesis
    using n frame_bot(2) [OF f2] frame_bot(2) [OF f3] f2 f3 unfolding b' by (auto simp: plug_inv_def plugs_frame_def)
qed

lemma bot_init_ready:
  assumes "bot_init y now file b = Some (e, True, b')"
  shows "b_fc b' = fl_start (b_fc (init_flood b)) \<and> b_sent b' = b_sent b \<and> b_done b' = b_done b \<and>
    cf_nicks b' \<noteq> [] \<and> (plug_inv b \<longrightarrow> plug_inv b')"
proof -
  let ?b1 = "init_flood b"
  have i: "b_sent ?b1 = b_sent b" "b_done ?b1 = b_done b" "plug_inv ?b1 = plug_inv b"
    by (simp_all add: init_flood_def Let_def plug_inv_def)
  obtain f e1 b2 where r: "read_conf (sys.truncate y) f (?b1\<lparr>cf_file := f\<rparr>) = Some (None, e1, b2)"
    and n: "init_resources y now (b2\<lparr>b_config_loaded := now\<rparr>) = (e, True, b')"
    using assms by (auto simp: bot_init_def Let_def split: sum.splits option.splits if_splits)
  have c: "conf_frame (?b1\<lparr>cf_file := f\<rparr>) b2" by (rule read_conf_frame [OF r])
  have "plug_inv b2 = plug_inv ?b1" using c
    by (cases b2, cases "?b1") (simp add: conf_frame_def plug_inv_def)
  then show ?thesis
    using i init_resources_ready [OF n] frame_bot(1) [OF c] by (simp add: plug_inv_def)
qed

lemma ready_invs:
  assumes "bot_init y now file (new_bot t) = Some (e, True, b)"
  shows "fl_inv (b_fc b)" "plug_inv b" "cf_nicks b \<noteq> []" "\<not> b_done b" "b_sent b = []"
proof -
  have f: "fl_inv (fl_start (b_fc (init_flood (new_bot t))))"
    by (simp add: init_flood_def new_bot_def conf_has_def fl_start_def fl_inv_def cm_at_def new_flood_def)
  have p: "plug_inv (new_bot t)" "\<not> b_done (new_bot t)" "b_sent (new_bot t) = []"
    by (simp_all add: plug_inv_def new_bot_def)
  show "fl_inv (b_fc b)" "plug_inv b" "cf_nicks b \<noteq> []" "\<not> b_done b" "b_sent b = []"
    using bot_init_ready [OF assms] f p by auto
qed

text \<open>The main thread stops only when the bot is done, and then \<open>QUIT\<close> has been sent.\<close>

definition stop_inv :: "mach \<Rightarrow> bool" where
  "stop_inv m = ((mc_main m \<in> {M_exit, M_stop} \<longrightarrow> b_done (mc_bot m)) \<and>
     (mc_main m = M_stop \<longrightarrow> (\<exists>t. Quit t \<in> set (b_sent (mc_bot m)))))"

lemma stop_inv_step:
  assumes "mach_step y m m'" "stop_inv m"
  shows "stop_inv m'"
proof -
  note s = safe_step [OF assms(1)]
  from assms(1) show ?thesis
  proof (cases rule: mach_step.cases)
    case (main now line ready pc b)
    show ?thesis
    proof (cases "mc_main m")
      case M_stop
      with main assms(2) show ?thesis by (auto simp: main_thread_def stop_inv_def)
    next
      case M_exit
      with main show ?thesis by (auto simp: main_thread_def stop_inv_def bot_exit_def Let_def)
    qed (use main in \<open>auto simp: main_thread_def stop_inv_def split: if_splits option.splits prod.splits\<close>)
  qed (use s assms(2) in \<open>auto simp: stop_inv_def safe_def dest: set_mono_prefix\<close>)
qed

lemma stop_inv_steps: "(mach_step y)\<^sup>*\<^sup>* m m' \<Longrightarrow> stop_inv m \<Longrightarrow> stop_inv m'"
  by (induction rule: rtranclp_induct) (auto dest: stop_inv_step)

text \<open>Where an exception comes from that ends the main thread.\<close>

definition turn_threw :: "bot_sys \<Rightarrow> bot \<Rightarrow> bot_error \<Rightarrow> bool" where
  "turn_threw y b0 e = (\<exists>m now line b. (mach_step y)\<^sup>*\<^sup>* (start b0) m \<and> mc_main m = M_loop \<and> \<not> b_done (mc_bot m) \<and>
     main_turn y now (Some line) (mc_bot m) = Some (Some e, b))"

lemma fault_steps:
  assumes "(mach_step y)\<^sup>*\<^sup>* (start b0) m" "mc_main m = M_fault e"
  shows "turn_threw y b0 e"
  using assms
proof (induction rule: rtranclp_induct)
  case base
  then show ?case by (simp add: start_def)
next
  case (step m1 m2)
  from step.hyps(2) show ?case
  proof (cases rule: mach_step.cases)
    case (main now line ready pc b)
    show ?thesis
    proof (cases "mc_main m1 = M_fault e")
      case False
      with main step.prems have l: "mc_main m1 = M_loop" "\<not> b_done (mc_bot m1)" "main_turn y now line (mc_bot m1) = Some (Some e, b)"
        by (auto simp: main_thread_def split: main_pc.splits if_splits option.splits prod.splits)
      then obtain t where "line = Some t" by (cases line) (auto simp: main_turn_def done_res_def split: if_splits)
      with l step.hyps(1) show ?thesis by (auto simp: turn_threw_def)
    qed (use step.IH in blast)
  qed (use step.IH step.prems in simp_all)
qed


lemma ready_bot_init:
  "\<exists>b. bot_init (mach_sys r) 0 ''/c'' (new_bot 0) = Some (None, True, b) \<and> cf_nicks b = [''bot''] \<and>
     cm_find str_lt ''flood.poll.time'' (cf_props b) = Some [''1000''] \<and> b_nick_number b = 0 \<and> \<not> b_connected b \<and> 0 < retries b \<and>
     \<not> conf_get_bool ''irc.test.mode'' False b"
proof -
  obtain b where b: "bot_init (mach_sys r) 0 ''/c'' (new_bot 0) = Some (None, True, b)"
    "cf_nicks b = [''bot'']" "cm_find str_lt ''flood.poll.time'' (cf_props b) = Some [''1000'']" "b_nick_number b = 0"
    "\<not> b_connected b" "conf_get_int ''server.retries'' 10 b = 10" "\<not> conf_get_bool ''irc.test.mode'' False b"
    using ready_bot_facts [of r] by auto
  have "0 < retries b" using b(6) by (simp add: retries_def)
  with b show ?thesis by blast
qed


text \<open>The settings of the flood controller in the configuration have no effect: \<open>init\<close> looks for them
  before it reads the configuration, and the times stay the default ones.\<close>

theorem flood_settings_ignored:
  assumes "bot_init y now file (new_bot t) = Some (e, True, b)"
  shows "fl_checks (b_fc b) = fl_checks (new_flood :: irc_op flood) \<and>
    fl_events (b_fc b) = fl_events (new_flood :: irc_op flood)"
  using bot_init_ready [OF assms]
  by (simp add: init_flood_def new_bot_def conf_has_def fl_start_def)

theorem flood_settings_ignored_witness:
  "\<exists>b. bot_init (mach_sys (Inr True)) 0 ''/c'' (new_bot 0) = Some (None, True, b) \<and>
     cm_find str_lt ''flood.poll.time'' (cf_props b) = Some [''1000''] \<and> fl_checks (b_fc b) = 300"
proof -
  obtain b where b: "bot_init (mach_sys (Inr True)) 0 ''/c'' (new_bot 0) = Some (None, True, b)"
    "cm_find str_lt ''flood.poll.time'' (cf_props b) = Some [''1000'']"
    using ready_bot_init by blast
  have "fl_checks (new_flood :: irc_op flood) = 300" by (simp add: new_flood_def)
  with flood_settings_ignored [OF b(1)] have "fl_checks (b_fc b) = 300" by simp
  with b show ?thesis by blast
qed

subsection \<open>The pinger\<close>

lemma failing_dials:
  assumes "\<And>n. bs_connect y n = Inr False" "\<not> b_done b" "a \<le> rt"
  shows "\<exists>b'. ((pinger y tok) ^^ (rt - a + 1)) (P_dial a rt, b) = (P_check, b') \<and> b_done b' \<and> b_sent b' = b_sent b"
  using assms(2,3)
proof (induction "rt - a" arbitrary: a b)
  case 0
  then show ?case using assms(1) by (auto simp: dial_def bot_connect_def dialled_def)
next
  case (Suc d)
  then have d: "d = rt - (a + 1)" "a + 1 \<le> rt" "rt - a = Suc d" "a < rt" by auto
  have "pinger y tok (P_dial a rt, b) = (P_dial (a + 1) rt, b\<lparr>b_conns := b_conns b + 1\<rparr>)"
    using assms(1) Suc.prems d by (simp add: dial_def bot_connect_def)
  with Suc.hyps(1) [OF d(1) _ d(2), of "b\<lparr>b_conns := b_conns b + 1\<rparr>"] Suc.prems(1) d(1,3)
  show ?case by (simp add: funpow_swap1)
qed

text \<open>When every connection attempt fails, the pinger gives up after \<open>server.retries\<close> further attempts:
  it sets \<open>done\<close>, sends nothing and stops.\<close>

theorem pinger_gives_up:
  assumes "\<And>n. bs_connect y n = Inr False" "\<not> b_done b"
  shows "\<exists>b'. ((pinger y tok) ^^ (retries b + 4)) (P_top, b) = (P_stop, b') \<and> b_done b' \<and> b_sent b' = b_sent b"
proof -
  let ?p = "pinger y tok" and ?r = "retries b"
  obtain b' where b': "(?p ^^ (?r + 1)) (P_dial 0 ?r, b) = (P_check, b')" "b_done b'" "b_sent b' = b_sent b"
    using failing_dials [OF assms, of 0 ?r tok] by auto
  have 1: "?p (P_top, b) = (P_dial 0 ?r, b)" using assms(2) by simp
  have e: "(?p ^^ (?r + 4)) x = ?p (?p ((?p ^^ (?r + 1)) (?p x)))" for x
    by (simp add: numeral_eq_Suc funpow_swap1)
  have "(?p ^^ (?r + 4)) (P_top, b) = (P_stop, b')" unfolding e 1 b'(1) using b'(2) by simp
  with b' show ?thesis by blast
qed

theorem pinger_gives_up_witness:
  "\<exists>b'. ((pinger (mach_sys (Inr False)) ''1'') ^^ (retries (new_bot 0) + 4)) (P_top, new_bot 0) = (P_stop, b') \<and> b_done b'"
proof -
  have c: "bs_connect (mach_sys (Inr False)) n = Inr False" for n by (simp add: mach_sys_def)
  have d: "\<not> b_done (new_bot 0)" by (simp add: new_bot_def)
  from pinger_gives_up [OF c d] show ?thesis by blast
qed

text \<open>A bot with a single nick can reach a state in which the pinger indexes the list of nicks beyond
  its end: it connects, a receive fails, and at the reconnection \<open>nick_number\<close>, which only a ping
  timeout resets, is the length of the list.\<close>

theorem reconnect_nick_index:
  assumes "\<And>n. bs_connect y n = Inr True" "\<not> b_done b" "retries b > 0" "cf_nicks b = [nick]" "b_nick_number b = 0"
    and "\<not> conf_get_bool ''irc.test.mode'' False b" "\<not> b_connected b"
  shows "\<exists>m. (mach_step y)\<^sup>*\<^sup>* (start b) m \<and> mc_png m = P_fault (Bad_Index ''info.nicks'')"
proof -
  let ?m = "\<lambda>pc p b. \<lparr>mc_main = pc, mc_png = p, mc_bot = b\<rparr>"
  have ping: "mach_step y (?m pc p b) (?m pc p' b')" if "pinger y [] (p, b) = (p', b')" for pc p p' and b b' :: bot
    using mach_step.ping [of y "[]" "?m pc p b"] that by simp
  have main: "mach_step y (?m pc p b) (?m pc' p b')"
    if "main_thread y 0 None True (pc, b) = (pc', b')" for pc p pc' and b b' :: bot
    using mach_step.main [of y 0 None True "?m pc p b"] that by simp
  let ?r = "retries b"
  let ?e = "P_fault (Bad_Index ''info.nicks'')"
  obtain b1 where b1: "dial y 0 ?r b = (P_wait, b1)" "\<not> b_done b1" "b_connected b1" "cf_nicks b1 = [nick]"
    "b_nick_number b1 = 1" "cf_props b1 = cf_props b"
    using assms by (simp add: dial_def bot_connect_def dialled_def first_nick_def Let_def emit_def send_op_def)
  let ?b2 = "b1\<lparr>b_connected := False, b_registered := False\<rparr>"
  have t: "\<not> conf_get_bool ''irc.test.mode'' False b1" using assms(6) b1(6) by (simp add: conf_get_bool_def)
  have r2: "retries ?b2 = ?r" using b1(6) by (simp add: retries_def conf_get_int_def)
  have b2: "\<not> b_done ?b2" "\<not> b_connected ?b2" using b1 by simp_all
  obtain b3 where b3: "dial y 0 ?r ?b2 = (?e, b3)"
    using assms(1,3) b1
    by (simp add: dial_def bot_connect_def dialled_def first_nick_def Let_def emit_def send_op_def)
  have s0: "start b = ?m M_await P_top b" using assms(6) by (simp add: start_def)
  have 1: "mach_step y (?m M_await P_top b) (?m M_await (P_dial 0 ?r) b)" by (rule ping) (use assms(2) in simp)
  have 2: "mach_step y (?m M_await (P_dial 0 ?r) b) (?m M_await P_wait b1)"
    by (rule ping) (simp only: pinger.simps b1(1))
  have 3: "mach_step y (?m M_await P_wait b1) (?m M_loop P_wait b1)"
    by (rule main) (use b1(3) in \<open>simp add: main_thread_def\<close>)
  have 4: "mach_step y (?m M_loop P_wait b1) (?m M_reconnect P_wait ?b2)"
    by (rule main) (use b1(2) t in \<open>simp add: main_thread_def main_turn_def done_res_def\<close>)
  have 5: "mach_step y (?m M_reconnect P_wait ?b2) (?m M_reconnect P_check ?b2)" by (rule ping) simp
  have 6: "mach_step y (?m M_reconnect P_check ?b2) (?m M_reconnect P_top ?b2)" by (rule ping) simp
  have 7: "mach_step y (?m M_reconnect P_top ?b2) (?m M_reconnect (P_dial 0 ?r) ?b2)"
    by (rule ping) (use b2 r2 in simp)
  have 8: "mach_step y (?m M_reconnect (P_dial 0 ?r) ?b2) (?m M_reconnect ?e b3)"
    by (rule ping) (simp only: pinger.simps b3)
  have "(mach_step y)\<^sup>*\<^sup>* (start b) (?m M_reconnect ?e b3)"
    unfolding s0 using 1 2 3 4 5 6 7 8 by (meson converse_rtranclp_into_rtranclp rtranclp.rtrancl_refl)
  then show ?thesis by fastforce
qed

theorem reconnect_nick_index_witness:
  "\<exists>b m. bot_init (mach_sys (Inr True)) 0 ''/c'' (new_bot 0) = Some (None, True, b) \<and>
     (mach_step (mach_sys (Inr True)))\<^sup>*\<^sup>* (start b) m \<and> mc_png m = P_fault (Bad_Index ''info.nicks'')"
proof -
  obtain b where b: "bot_init (mach_sys (Inr True)) 0 ''/c'' (new_bot 0) = Some (None, True, b)" "cf_nicks b = [''bot'']"
    "b_nick_number b = 0" "\<not> b_connected b" "0 < retries b" "\<not> conf_get_bool ''irc.test.mode'' False b"
    using ready_bot_init by blast
  have c: "bs_connect (mach_sys (Inr True)) n = Inr True" for n by (simp add: mach_sys_def)
  from reconnect_nick_index [OF c ready_invs(4) [OF b(1)] b(5,2,3,6,4)] b(1) show ?thesis by blast
qed

end
