(* ===== verification/Http.thy ===== *)
theory Http
  imports Streams Std_Map Hol_Lib
begin

text \<open>
  The HTTP half of \<open>network.cpp\<close>: cookies, response headers and the two ways a body is
  delimited.  The stream holds the whole response.  \<open>std::mktime\<close> and the clock are
  arguments; a member that no constructor sets is \<open>None\<close> until it is assigned.
\<close>

subsection \<open>Numbers read with \<open>>>\<close>\<close>

definition isxdigit :: "char \<Rightarrow> bool" where
  "isxdigit c = (isdigit c \<or> 65 \<le> code c \<and> code c \<le> 70 \<or> 97 \<le> code c \<and> code c \<le> 102)"

definition xdigit_val :: "char \<Rightarrow> nat" where
  "xdigit_val c = (if isdigit c then code c - 48 else if code c \<le> 70 then code c - 55 else code c - 87)"

definition xdigits_val :: "string \<Rightarrow> nat" where
  "xdigits_val ds = foldl (\<lambda>n c. 16 * n + xdigit_val c) 0 ds"

text \<open>\<open>is >> std::hex >> n\<close> for a \<open>size_t\<close>: as in base ten, with an optional \<open>0x\<close>.\<close>

definition drop_0x :: "string \<Rightarrow> string" where
  "drop_0x s = (if starts_with ''0x'' s \<or> starts_with ''0X'' s then drop 2 s else s)"

definition read_hex :: "siz \<Rightarrow> istream \<Rightarrow> siz \<times> istream" where
  "read_hex n is =
     (let is1 = sentry is
      in if \<not> good is1 then (n, is1)
         else let (neg, r) = split_sign (buf is1);
                  ds = takeWhile isxdigit (drop_0x r);
                  rest = dropWhile isxdigit (drop_0x r);
                  is2 = (if rest = [] then hit_eof is1 else is1\<lparr>buf := rest\<rparr>)
              in if ds = [] then (0, set_fail is2)
                 else if 2 ^ 64 \<le> xdigits_val ds then (siz_max, set_fail is2)
                 else ((if neg then - of_nat (xdigits_val ds) else of_nat (xdigits_val ds)), is2))"

text \<open>\<open>is >> n\<close> for an \<open>int\<close>; the old value is kept when the sentry fails.\<close>

definition read_int :: "int option \<Rightarrow> istream \<Rightarrow> int option \<times> istream" where
  "read_int n is =
     (let is1 = sentry is
      in if \<not> good is1 then (n, is1)
         else let (neg, r) = split_sign (buf is1);
                  ds = takeWhile isdigit r;
                  rest = dropWhile isdigit r;
                  is2 = (if rest = [] then hit_eof is1 else is1\<lparr>buf := rest\<rparr>);
                  v = (if neg then - int (digits_val ds) else int (digits_val ds))
              in if ds = [] then (Some 0, set_fail is2)
                 else if v < - (2 ^ 31) then (Some (- (2 ^ 31)), set_fail is2)
                 else if 2 ^ 31 \<le> v then (Some (2 ^ 31 - 1), set_fail is2)
                 else (Some v, is2))"

subsection \<open>Cookies\<close>

record cookie =
  ck_key :: string
  ck_val :: string
  ck_domain :: string
  ck_path :: string
  ck_expires :: "int option"
  ck_secure :: bool
  ck_httponly :: bool

definition new_cookie :: cookie where
  "new_cookie = \<lparr>ck_key = [], ck_val = [], ck_domain = [], ck_path = [], ck_expires = None,
     ck_secure = False, ck_httponly = False\<rparr>"

text \<open>The members of \<open>std::tm\<close> that the constructor of \<open>cookie\<close> reads from the text of a date.\<close>

record tm6 =
  tm_mday :: "int option"
  tm_mon :: "int option"
  tm_year :: "int option"
  tm_hour :: "int option"
  tm_min :: "int option"
  tm_sec :: "int option"

definition read_date :: "string \<Rightarrow> tm6" where
  "read_date att =
     (let (_, i0) = getline (CHR '','') att (str_stream att);
          (d, i1) = read_int None i0;
          (mo, i2) = read_int None (ignore1 i1);
          (y, i3) = read_int None (ignore1 i2);
          (h, i4) = read_int None i3;
          (mi, i5) = read_int None (ignore1 i4);
          (s, _) = read_int None (ignore1 i5)
      in \<lparr>tm_mday = d, tm_mon = mo, tm_year = map_option (\<lambda>n. n - 1900) y, tm_hour = h,
          tm_min = mi, tm_sec = s\<rparr>)"

lemma getline_le: "length (buf (snd (getline d s is))) \<le> length (buf is)"
proof -
  have "length (dropWhile (\<lambda>c. c \<noteq> d) (buf is)) \<le> length (buf is)" by (rule length_dropWhile_le)
  then show ?thesis by (auto simp: getline_def Let_def split: list.splits)
qed

lemma skip_ws_le: "length (buf (skip_ws is)) \<le> length (buf is)"
proof -
  have "length (dropWhile isspace (buf is)) \<le> length (buf is)" by (rule length_dropWhile_le)
  then show ?thesis by (auto simp: skip_ws_def split: list.splits)
qed

text \<open>One attribute: what the loop does after the name up to \<open>=\<close> has been read into \<open>att\<close>.\<close>

definition cookie_att :: "(tm6 \<Rightarrow> int) \<Rightarrow> string \<Rightarrow> istream \<Rightarrow> cookie \<Rightarrow> cookie \<times> istream" where
  "cookie_att mktime att is c =
     (if att = ''Domain'' then
        (let (v, is1) = getline (CHR '';'') (ck_domain c) is in (c\<lparr>ck_domain := v\<rparr>, is1))
      else if att = ''Path'' then
        (let (v, is1) = getline (CHR '';'') (ck_path c) is in (c\<lparr>ck_path := v\<rparr>, is1))
      else if att = ''Expires'' then
        (let (v, is1) = getline (CHR '';'') att is in (c\<lparr>ck_expires := Some (mktime (read_date v))\<rparr>, is1))
      else if att = ''Secure'' then (c\<lparr>ck_secure := True\<rparr>, is)
      else if att = ''HttpOnly'' then (c\<lparr>ck_httponly := True\<rparr>, is)
      else (c, is))"

lemma cookie_att_le: "length (buf (snd (cookie_att mk att is c))) \<le> length (buf is)"
proof -
  have "length (buf j) \<le> length (buf is)" if "getline d s is = (v, j)" for d s v j
    using getline_le [of d s "is"] that by simp
  then show ?thesis by (auto simp: cookie_att_def split: prod.splits)
qed

function cookie_loop :: "(tm6 \<Rightarrow> int) \<Rightarrow> istream \<Rightarrow> cookie \<Rightarrow> cookie" where
  "cookie_loop mktime is c =
     (case getline (CHR ''='') [] is of (att, is1) \<Rightarrow>
        if \<not> ok is1 then c
        else case cookie_att mktime att is1 c of (c1, is2) \<Rightarrow> cookie_loop mktime (skip_ws is2) c1)"
  by pat_completeness auto
termination
proof (relation "measure (\<lambda>(mk, is, c). length (buf is))", goal_cases)
  case (2 mk "is" c att is1 c1 is2)
  then have a: "(att, is1) = getline (CHR ''='') [] is" "ok is1" "(c1, is2) = cookie_att mk att is1 c"
    by simp_all
  have "length (buf is1) < length (buf is)" using getline_length [OF a(1) [symmetric]] a(2) by simp
  moreover have "length (buf is2) \<le> length (buf is1)"
    using cookie_att_le [of mk att is1 c] a(3) by (metis snd_conv)
  moreover have "length (buf (skip_ws is2)) \<le> length (buf is2)" by (rule skip_ws_le)
  ultimately show ?case by simp
qed simp

declare cookie_loop.simps [simp del]

definition parse_cookie :: "(tm6 \<Rightarrow> int) \<Rightarrow> string \<Rightarrow> cookie" where
  "parse_cookie mktime data =
     (let (k, is1) = getline (CHR ''='') [] (str_stream data);
          (v, is2) = getline (CHR '';'') [] is1
      in cookie_loop mktime (skip_ws is2) (new_cookie\<lparr>ck_key := k, ck_val := v\<rparr>))"

text \<open>\<open>is_expired\<close> of a cookie without a date compares an indeterminate value, \<open>None\<close>.\<close>

definition is_expired :: "int \<Rightarrow> cookie \<Rightarrow> bool option" where
  "is_expired now c = map_option (\<lambda>t. \<not> t > now) (ck_expires c)"

type_synonym cookie_jar = "(string, cookie) cmap"

definition get_cookie_header :: "cookie_jar \<Rightarrow> string \<Rightarrow> string" where
  "get_cookie_header cookies domain =
     (if cookies = [] then []
      else ''Cookie:'' @ snd (fold (\<lambda>(_, c) (sep, out). (''; '', out @ sep @ ck_key c @ ''='' @ ck_val c))
             cookies ('' '', [])))"

subsection \<open>Headers\<close>

type_synonym header_map = "(string \<times> string) list"

text \<open>\<open>std::multimap::insert\<close>: behind the entries with an equal key.\<close>

fun mm_insert :: "('k \<Rightarrow> 'k \<Rightarrow> bool) \<Rightarrow> 'k \<Rightarrow> 'v \<Rightarrow> ('k \<times> 'v) list \<Rightarrow> ('k \<times> 'v) list" where
  "mm_insert lt k v [] = [(k, v)]"
| "mm_insert lt k v ((k', w) # m) =
     (if lt k k' then (k, v) # (k', w) # m else (k', w) # mm_insert lt k v m)"

definition add_header :: "hol \<Rightarrow> string \<Rightarrow> header_map \<Rightarrow> header_map" where
  "add_header h line hs =
     (let (key, is1) = read_word [] (str_stream line);
          (val, is2) = getline LF [] is1
      in if ok is1 \<and> ok is2
         then mm_insert str_lt (h_lower h (h_trim_chars h key ('' '' @ [TAB, CR, LF, CHR '':'']))) (h_trim h val) hs
         else hs)"

function header_loop :: "hol \<Rightarrow> istream \<Rightarrow> header_map \<Rightarrow> header_map \<times> istream" where
  "header_loop h is hs =
     (if \<not> ok is then (hs, is)
      else case getline LF [] is of (line, is1) \<Rightarrow>
        if \<not> ok is1 \<or> h_trim h line = [] then (hs, is1)
        else header_loop h is1 (add_header h (h_trim h line) hs))"
  by pat_completeness auto
termination
  by (relation "measure (\<lambda>(h, is, hs). length (buf is))") (auto dest!: getline_length [OF sym])

declare header_loop.simps [simp del]

definition read_http_headers :: "hol \<Rightarrow> istream \<Rightarrow> header_map \<Rightarrow> header_map \<times> istream" where
  "read_http_headers h is hs =
     (case getline LF [] is of (line, is1) \<Rightarrow>
        if \<not> ok is1 then (hs, is1) else header_loop h is1 hs)"

definition read_http_cookies :: "(tm6 \<Rightarrow> int) \<Rightarrow> istream \<Rightarrow> header_map \<Rightarrow> cookie_jar \<Rightarrow> cookie_jar \<times> istream" where
  "read_http_cookies mktime is hs jar =
     (fold (\<lambda>(k, v) j.
        if k = ''set-cookie''
        then (let c = parse_cookie mktime v in cm_set str_lt (ck_domain c @ ''/'' @ ck_path c) c j)
        else j) hs jar, is)"

subsection \<open>Bodies\<close>

text \<open>\<open>for(char c; len && is.get(c); --len) oss.put(c);\<close>\<close>

function get_chars :: "siz \<Rightarrow> istream \<Rightarrow> string \<times> istream" where
  "get_chars len is =
     (if len = 0 then ([], is)
      else case get_ch is of
        (None, is1) \<Rightarrow> ([], is1)
      | (Some c, is1) \<Rightarrow> (case get_chars (len - 1) is1 of (s, is2) \<Rightarrow> (c # s, is2)))"
  by pat_completeness auto
termination
  by (relation "measure (\<lambda>(len, is). length (buf is))") (simp, metis case_prod_conv get_ch_length in_measure lessI)

declare get_chars.simps [simp del]

lemma drop_0x_le: "length (drop_0x s) \<le> length s"
  by (simp add: drop_0x_def)

lemma split_sign_le: "length (snd (split_sign s)) \<le> length s"
  by (simp add: split_sign_def split: list.splits)

lemma takeWhile_nonempty_shorter: "takeWhile P s \<noteq> [] \<Longrightarrow> length (dropWhile P s) < length s"
  by (cases s) (auto simp: le_imp_less_Suc length_dropWhile_le split: if_splits)

lemma sentry_le: "length (buf (sentry is)) \<le> length (buf is)"
proof -
  have "length (dropWhile isspace (buf is)) \<le> length (buf is)" by (rule length_dropWhile_le)
  then show ?thesis by (auto simp: sentry_def split: list.splits)
qed

lemma sentry_ok: "ok (sentry is) \<Longrightarrow> good (sentry is)"
proof (cases "good is")
  case True
  then show "ok (sentry is) \<Longrightarrow> good (sentry is)"
    by (cases "dropWhile isspace (buf is)") (simp_all add: sentry_end sentry_found)
qed (simp add: sentry_bad)

lemma read_hex_length:
  assumes e: "read_hex n is = (v, is')" and k: "ok is'"
  shows "length (buf is') < length (buf is)"
proof -
  obtain neg r where sp: "split_sign (buf (sentry is)) = (neg, r)" by fastforce
  have g: "good (sentry is)"
  proof (rule ccontr)
    assume b: "\<not> good (sentry is)"
    with e have "is' = sentry is" by (simp add: read_hex_def)
    with k b show False using sentry_ok by simp
  qed
  have d: "takeWhile isxdigit (drop_0x r) \<noteq> []"
    using e k g sp by (auto simp: read_hex_def Let_def)
  have "length (dropWhile isxdigit (drop_0x r)) < length (drop_0x r)"
    using d by (rule takeWhile_nonempty_shorter)
  also have "length (drop_0x r) \<le> length (buf is)"
    using drop_0x_le [of r] split_sign_le [of "buf (sentry is)"] sentry_le [of "is"] sp by simp
  finally have l: "length (dropWhile isxdigit (drop_0x r)) < length (buf is)" .
  have "buf is' = dropWhile isxdigit (drop_0x r)"
    using e k g d sp by (auto simp: read_hex_def Let_def simp del: dropWhile_eq_Nil_conv split: if_splits)
  with l show ?thesis by simp
qed

lemma get_chars_le: "length (buf (snd (get_chars n is))) \<le> length (buf is)"
proof (induction n "is" rule: get_chars.induct)
  case (1 n i)
  show ?case
  proof (cases "n = 0")
    case False
    obtain p i1 where g: "get_ch i = (p, i1)" by fastforce
    have "length (buf i1) \<le> length (buf i)" using g by (rule get_ch_le)
    with 1 False g show ?thesis
      by (subst get_chars.simps) (fastforce split: option.splits prod.splits)
  qed (simp add: get_chars.simps)
qed

function chunk_loop :: "istream \<Rightarrow> string \<Rightarrow> string \<times> istream" where
  "chunk_loop is data =
     (case read_hex 0 is of (len, is1) \<Rightarrow>
        if \<not> ok is1 \<or> len = 0 then (data, is1)
        else case getline LF [] is1 of (_, is2) \<Rightarrow>
          case get_chars len is2 of (s, is3) \<Rightarrow> chunk_loop is3 (data @ s))"
  by pat_completeness auto
termination
proof (relation "measure (\<lambda>(is, data). length (buf is))", goal_cases)
  case (2 "is" data len is1 l is2 s is3)
  then have a: "(len, is1) = read_hex 0 is" "ok is1" "(l, is2) = getline LF [] is1"
    "(s, is3) = get_chars len is2"
    by simp_all
  have "length (buf is1) < length (buf is)" using read_hex_length a by metis
  moreover have "length (buf is2) \<le> length (buf is1)"
    using getline_le [of LF "[]" is1] a(3) by (metis snd_conv)
  moreover have "length (buf is3) \<le> length (buf is2)"
    using get_chars_le [of len is2] a(4) by (metis snd_conv)
  ultimately show ?case by simp
qed simp

declare chunk_loop.simps [simp del]

definition read_chunked_encoding :: "istream \<Rightarrow> string \<times> istream" where
  "read_chunked_encoding is = chunk_loop is []"

fun body_loop :: "istream \<Rightarrow> header_map \<Rightarrow> string \<Rightarrow> string \<times> istream" where
  "body_loop is [] data = (data, is)"
| "body_loop is ((k, v) # hs) data =
     (if k = ''transfer-encoding'' \<and> v = ''chunked'' then read_chunked_encoding is
      else if k = ''content-length'' then
        (case read_siz 0 (str_stream v) of (len, is1) \<Rightarrow>
           if ok is1 then get_chars len is else body_loop is hs data)
      else body_loop is hs data)"

definition read_http_response_data :: "istream \<Rightarrow> header_map \<Rightarrow> string \<Rightarrow> string \<times> istream" where
  "read_http_response_data is hs data = body_loop is hs data"

subsection \<open>Hexadecimal numbers (\<open>os << std::hex << n\<close>)\<close>

definition hex_digit :: "nat \<Rightarrow> char" where
  "hex_digit n = (if n < 10 then char_of (n + 48) else char_of (n + 87))"

fun show_hex :: "nat \<Rightarrow> string" where
  "show_hex n = (if n < 16 then [hex_digit n] else show_hex (n div 16) @ [hex_digit (n mod 16)])"

declare show_hex.simps [simp del]

lemma code_hex_digit: "n < 16 \<Longrightarrow> code (hex_digit n) = (if n < 10 then n + 48 else n + 87)"
  by (simp add: hex_digit_def code_def)

lemma hex_digit_simps [simp]:
  "n < 16 \<Longrightarrow> xdigit_val (hex_digit n) = n" "n < 16 \<Longrightarrow> isxdigit (hex_digit n)"
  by (auto simp: xdigit_val_def isxdigit_def isdigit_def code_hex_digit)

lemma show_hex_not_Nil [simp]: "show_hex n \<noteq> []"
  by (subst show_hex.simps) simp

lemma show_hex_xdigits: "c \<in> set (show_hex n) \<Longrightarrow> isxdigit c"
proof (induction n rule: show_hex.induct)
  case (1 n)
  then show ?case by (subst (asm) (2) show_hex.simps) (auto split: if_splits)
qed

lemma xdigits_val_snoc [simp]: "xdigits_val (ds @ [c]) = 16 * xdigits_val ds + xdigit_val c"
  by (simp add: xdigits_val_def)

lemma xdigits_val_show_hex [simp]: "xdigits_val (show_hex n) = n"
proof (induction n rule: show_hex.induct)
  case (1 n)
  show ?case
  proof (cases "n < 16")
    case True
    then show ?thesis by (subst show_hex.simps) (simp add: xdigits_val_def)
  next
    case False
    with 1 show ?thesis by (subst show_hex.simps) simp
  qed
qed

lemma isxdigit_facts:
  "isxdigit c \<Longrightarrow> \<not> isspace c" "isxdigit c \<Longrightarrow> c \<noteq> CHR ''-''" "isxdigit c \<Longrightarrow> c \<noteq> CHR ''+''"
  "isxdigit c \<Longrightarrow> c \<noteq> CHR ''x''" "isxdigit c \<Longrightarrow> c \<noteq> CHR ''X''"
  by (auto simp: isxdigit_def isdigit_def isspace_def code_def char_consts)

lemma isxdigit_0: "isxdigit (CHR ''0'')"
  by (simp add: isxdigit_def isdigit_def code_def)

lemma drop_0x_none: "\<forall>c\<in>set ds. isxdigit c \<Longrightarrow> \<not> isxdigit x \<Longrightarrow> x \<noteq> CHR ''x'' \<Longrightarrow> x \<noteq> CHR ''X'' \<Longrightarrow>
  drop_0x (ds @ x # r) = ds @ x # r"
  using isxdigit_facts(4,5) isxdigit_0
  by (cases ds; cases "tl ds") (auto simp: drop_0x_def)

lemma read_hex_show:
  assumes "n < 2 ^ 64" "\<forall>c\<in>set ws. isspace c" "isspace x"
  shows "read_hex m (str_stream (ws @ show_hex n @ x # r)) = (of_nat n, str_stream (x # r))"
proof -
  let ?s = "show_hex n @ x # r"
  obtain y ys where s: "show_hex n = y # ys" by (cases "show_hex n") auto
  have d: "\<forall>c\<in>set (show_hex n). isxdigit c" using show_hex_xdigits by blast
  then have y: "isxdigit y" using s by simp
  have nx: "\<not> isxdigit x" "x \<noteq> CHR ''x''" "x \<noteq> CHR ''X''"
    using assms(3) isxdigit_facts(1) by (auto simp: isspace_def char_consts)
  have "dropWhile isspace (ws @ ?s) = ?s"
    using assms(2) isxdigit_facts(1) [OF y] s by (simp add: dropWhile_all_append)
  then have se: "sentry (str_stream (ws @ ?s)) = str_stream ?s"
    using s by (simp add: sentry_found)
  have sp: "split_sign ?s = (False, ?s)"
    using s isxdigit_facts(2,3) [OF y] by (simp add: split_sign_def)
  have tk: "takeWhile isxdigit ?s = show_hex n" "dropWhile isxdigit ?s = x # r"
    using d nx by (simp_all add: takeWhile_all_append dropWhile_all_append)
  show ?thesis
    unfolding read_hex_def Let_def se using assms(1) drop_0x_none [OF d nx, of r]
    by (simp add: sp tk)
qed

subsection \<open>Bodies read back\<close>

lemma siz_of_nat_0: "n < 2 ^ 64 \<Longrightarrow> (of_nat n :: siz) = 0 \<longleftrightarrow> n = 0"
  by (simp add: word_of_nat_eq_0_iff dvd_imp_le nat_dvd_not_less) (auto dest: dvd_imp_le)

lemma get_chars_take:
  "n < 2 ^ 64 \<Longrightarrow> n \<le> length s \<Longrightarrow> get_chars (of_nat n) (str_stream s) = (take n s, str_stream (drop n s))"
proof (induction n arbitrary: s)
  case 0
  then show ?case by (simp add: get_chars.simps)
next
  case (Suc n)
  then obtain c r where s: "s = c # r" by (cases s) auto
  have nz: "(of_nat (Suc n) :: siz) \<noteq> 0"
    using siz_of_nat_0 [OF Suc.prems(1)] by blast
  have "get_chars (of_nat n) (str_stream r) = (take n r, str_stream (drop n r))"
    using Suc s by simp
  with nz s show ?case by (subst get_chars.simps) simp
qed

definition chunk :: "string \<Rightarrow> string" where
  "chunk s = show_hex (length s) @ [CR, LF] @ s @ [CR, LF]"

definition chunk_ok :: "string \<Rightarrow> bool" where
  "chunk_ok s = (s \<noteq> [] \<and> length s < 2 ^ 64)"

lemma chunk_loop_chunks:
  "\<forall>s\<in>set ss. chunk_ok s \<Longrightarrow> \<forall>c\<in>set ws. isspace c \<Longrightarrow>
    chunk_loop (str_stream (ws @ concat (map chunk ss) @ ''0'' @ CR # LF # rest)) data =
      (data @ concat ss, str_stream (CR # LF # rest))"
proof (induction ss arbitrary: ws data)
  case Nil
  have "read_hex 0 (str_stream (ws @ show_hex 0 @ CR # LF # rest)) = (of_nat 0, str_stream (CR # LF # rest))"
    using Nil.prems by (intro read_hex_show) (simp_all add: isspace_def)
  moreover have "show_hex 0 = ''0''" by code_simp
  ultimately show ?case by (subst chunk_loop.simps) simp
next
  case (Cons s ss)
  let ?r = "concat (map chunk ss) @ ''0'' @ CR # LF # rest"
  have l: "length s < 2 ^ 64" "s \<noteq> []" using Cons.prems by (simp_all add: chunk_ok_def)
  have "read_hex 0 (str_stream (ws @ show_hex (length s) @ CR # LF # s @ CR # LF # ?r)) =
      (of_nat (length s), str_stream (CR # LF # s @ CR # LF # ?r))"
    using Cons.prems l by (intro read_hex_show) (simp_all add: isspace_def)
  moreover have "(of_nat (length s) :: siz) \<noteq> 0"
    using l by (simp add: siz_of_nat_0)
  moreover have "getline LF [] (str_stream (CR # LF # s @ CR # LF # ?r)) = ([CR], str_stream (s @ CR # LF # ?r))"
    by (subst getline_found [where l = "[CR]"]) (simp_all add: char_consts)
  moreover have "get_chars (of_nat (length s)) (str_stream (s @ CR # LF # ?r)) = (s, str_stream (CR # LF # ?r))"
    using l by (subst get_chars_take) simp_all
  moreover have "chunk_loop (str_stream ([CR, LF] @ ?r)) (data @ s) =
      ((data @ s) @ concat ss, str_stream (CR # LF # rest))"
    using Cons.prems by (intro Cons.IH) (simp_all add: isspace_def)
  ultimately show ?case by (subst chunk_loop.simps) (simp add: chunk_def)
qed

subsection \<open>Responses read back\<close>

definition header_line :: "string \<times> string \<Rightarrow> string" where
  "header_line p = fst p @ '': '' @ snd p @ [CR]"

definition header_ok :: "string \<times> string \<Rightarrow> bool" where
  "header_ok p = (fst p \<noteq> [] \<and> (\<forall>c\<in>set (fst p). \<not> isspace c \<and> c \<noteq> CHR '':'') \<and>
     trimmed (snd p) \<and> LF \<notin> set (snd p))"

lemma set_mm_insert [simp]: "set (mm_insert lt k v m) = insert (k, v) (set m)"
  by (induction m) (auto split: if_splits)

lemma set_fold_mm_insert:
  "set (fold (\<lambda>p. mm_insert lt (f p) (g p)) ps m) = (\<lambda>p. (f p, g p)) ` set ps \<union> set m"
  by (induction ps arbitrary: m) auto

lemma add_header_line:
  assumes h: "trims h" "trims_chars h" "lowers h" and p: "header_ok p"
  shows "add_header h (h_trim h (header_line p)) hs = mm_insert str_lt (map tolower (fst p)) (snd p) hs"
    and "h_trim h (header_line p) \<noteq> []" and "LF \<notin> set (header_line p)"
proof -
  obtain n v where p2: "p = (n, v)" by (cases p)
  have n: "n \<noteq> []" "\<forall>c\<in>set n. \<not> isspace c \<and> c \<noteq> CHR '':''" and v: "trimmed v" "LF \<notin> set v"
    using p p2 by (simp_all add: header_ok_def)
  let ?l = "n @ '': '' @ v"
  have t: "trimmed ?l" using n v by (simp add: trimmed_def)
  have "h_trim h (?l @ [CR]) = rtrim (?l @ [CR])"
    using h(1) t n dropWhile_hd [of "?l @ [CR]" isspace] by (simp add: trims_def trim_both_def ltrim_def)
  also have "\<dots> = ?l" using t rtrim_append [of "[CR]" ?l] by (simp add: trimmed_def isspace_def)
  finally have l: "h_trim h (header_line p) = ?l" by (simp add: header_line_def p2)
  then show "h_trim h (header_line p) \<noteq> []" using n by simp
  show "LF \<notin> set (header_line p)"
    using n v by (auto simp: header_line_def p2 char_consts isspace_def)
  have w: "read_word [] (str_stream ?l) = (n @ '':'', str_stream ('' '' @ v))"
    using n by (subst read_word_found [where ws = "[]" and w = "n @ '':''" and c = "CHR '' ''" and r = v])
      (auto simp: isspace_def char_consts)
  have g: "getline LF [] (str_stream ('' '' @ v)) = ('' '' @ v, hit_eof (str_stream ('' '' @ v)))"
    using v by (subst getline_last) (simp_all add: char_consts)
  have v1: "h_trim h ('' '' @ v) = v"
    using h(1) v trim_trimmed [OF h(1) v(1)] by (simp add: trims_def trim_both_def ltrim_def isspace_def char_consts)
  let ?cs = "'' '' @ [TAB, CR, LF, CHR '':'']"
  have nc: "\<forall>c\<in>set n. c \<notin> set ?cs" using n(2) by (auto simp: isspace_def char_consts)
  have "dropWhile (\<lambda>c. c \<in> set ?cs) (n @ '':'') = n @ '':''"
    using n nc by (intro dropWhile_hd) simp_all
  moreover have "dropWhile (\<lambda>c. c \<in> set ?cs) (rev (n @ '':'')) = rev n"
    using n nc dropWhile_hd [of "rev n" "\<lambda>c. c \<in> set ?cs"] by (simp add: hd_rev)
  ultimately have k: "h_trim_chars h (n @ '':'') ?cs = n"
    using h(2) unfolding trims_chars_def by simp
  show "add_header h (h_trim h (header_line p)) hs = mm_insert str_lt (map tolower (fst p)) (snd p) hs"
    unfolding l add_header_def Let_def w prod.case g using h(3) k v1 p2
    by (simp add: lowers_def)
qed

lemma header_loop_lines:
  assumes h: "trims h" "trims_chars h" "lowers h"
  shows "\<forall>p\<in>set ps. header_ok p \<Longrightarrow>
    header_loop h (str_stream (lines_text (map header_line ps) @ CR # LF # body)) hs =
      (fold (\<lambda>p. mm_insert str_lt (map tolower (fst p)) (snd p)) ps hs, str_stream body)"
proof (induction ps arbitrary: hs)
  case Nil
  have "h_trim h [CR] = []" using h(1) by (simp add: trims_def trim_both_def rtrim_def ltrim_def isspace_def)
  moreover have "getline LF [] (str_stream (CR # LF # body)) = ([CR], str_stream body)"
    by (subst getline_found [where l = "[CR]"]) (simp_all add: char_consts)
  ultimately show ?case by (subst header_loop.simps) simp
next
  case (Cons p ps)
  let ?r = "lines_text (map header_line ps) @ CR # LF # body"
  have "getline LF [] (str_stream (header_line p @ LF # ?r)) = (header_line p, str_stream ?r)"
    using Cons.prems add_header_line(3) [OF h] by (subst getline_found) simp_all
  then show ?case
    using Cons add_header_line [OF h, of p] by (subst header_loop.simps) simp
qed

lemma body_loop_chunked:
  "(''transfer-encoding'', ''chunked'') \<in> set hs \<Longrightarrow> \<forall>p\<in>set hs. fst p \<noteq> ''content-length'' \<Longrightarrow>
    body_loop is hs data = read_chunked_encoding is"
  by (induction hs) auto

text \<open>C10: A response with any status line, headers whose names have no white space and no colon and whose values
  stand behind a colon and a space, trimmed and on one line, none of them a length, then a chunked encoding and non-empty chunks: reading the headers and then
  the data gives the concatenation of the chunks, whatever bytes they hold, and leaves the stream right behind the last
  chunk.  The status is not looked at: against the comment of the header file, a response that is not 200 OK is read
  in the same way.\<close>

theorem chunked_response_read:
  assumes "trims h" "trims_chars h" "lowers h"
    and "\<forall>p\<in>set ps. header_ok p \<and> map tolower (fst p) \<noteq> ''content-length''"
    and "\<forall>s\<in>set ss. chunk_ok s" and "LF \<notin> set status"
    and "resp = lines_text (status # map header_line (ps @ [(''Transfer-Encoding'', ''chunked'')])) @ [CR, LF] @
      concat (map chunk ss) @ ''0'' @ [CR, LF] @ rest"
  shows "(case read_http_headers h (str_stream resp) [] of (hm, is1) \<Rightarrow> read_http_response_data is1 hm data) =
    (concat ss, str_stream ([CR, LF] @ rest))"
proof -
  let ?te = "(''Transfer-Encoding'', ''chunked'')"
  let ?b = "concat (map chunk ss) @ ''0'' @ CR # LF # rest"
  let ?qs = "ps @ [?te]"
  let ?ins = "\<lambda>p. mm_insert str_lt (map tolower (fst p)) (snd p)"
  have te: "header_ok ?te"
    by (simp add: header_ok_def trimmed_def isspace_def char_consts)
  have lower: "map tolower ''Transfer-Encoding'' = ''transfer-encoding''"
    "map tolower ''Transfer-Encoding'' \<noteq> ''content-length''"
    by code_simp+
  have ne: "\<forall>p\<in>set ?qs. map tolower (fst p) \<noteq> ''content-length''"
    using assms(4) lower(2) by (auto simp del: list.map)
  have q: "\<forall>p\<in>set ?qs. header_ok p" using assms(4) te by auto
  have "getline LF [] (str_stream resp) =
      (status, str_stream (lines_text (map header_line ?qs) @ CR # LF # ?b))"
    unfolding assms(7) using assms(6) by (subst getline_found [where l = status]) simp_all
  then have r: "read_http_headers h (str_stream resp) [] = (fold ?ins ?qs [], str_stream ?b)"
    using header_loop_lines [OF assms(1-3) q, where body = ?b and hs = "[]"]
    by (simp add: read_http_headers_def del: map_append fold_append)
  have s: "set (fold ?ins ?qs []) = (\<lambda>p. (map tolower (fst p), snd p)) ` set ?qs"
    using set_fold_mm_insert [of str_lt "\<lambda>p. map tolower (fst p)" snd ?qs "[]"] by simp
  have b: "body_loop (str_stream ?b) (fold ?ins ?qs []) data = read_chunked_encoding (str_stream ?b)"
  proof (rule body_loop_chunked)
    show "(''transfer-encoding'', ''chunked'') \<in> set (fold ?ins ?qs [])"
      unfolding s by (rule image_eqI [where x = ?te]) (simp_all only: lower(1) fst_conv snd_conv, simp)
    show "\<forall>p\<in>set (fold ?ins ?qs []). fst p \<noteq> ''content-length''"
      unfolding s using ne by (simp only: ball_simps fst_conv) blast?
  qed
  show ?thesis
    unfolding r prod.case read_http_response_data_def b
    using chunk_loop_chunks [OF assms(5), of "[]" rest "[]"]
    by (simp add: read_chunked_encoding_def)
qed

theorem chunked_response_read_witness:
  "(case read_http_headers hol_ref (str_stream
      (lines_text (''HTTP/1.1 200 OK'' # map header_line ([(''Server'', ''x'')] @ [(''Transfer-Encoding'', ''chunked'')])) @
       [CR, LF] @ concat (map chunk [''ab'', ''c'']) @ ''0'' @ [CR, LF] @ ''!'')) []
    of (hm, is1) \<Rightarrow> read_http_response_data is1 hm []) = (''abc'', str_stream ([CR, LF] @ ''!''))"
proof -
  have 1: "\<forall>p\<in>set [(''Server'', ''x'')]. header_ok p \<and> map tolower (fst p) \<noteq> ''content-length''"
    by (simp add: header_ok_def trimmed_def isspace_def char_consts tolower_def)
  have 2: "\<forall>s\<in>set [''ab'', ''c'']. chunk_ok s" by (simp add: chunk_ok_def)
  have 3: "LF \<notin> set ''HTTP/1.1 200 OK''" by (simp add: char_consts)
  have 4: "concat [''ab'', ''c''] = ''abc''" by simp
  show ?thesis
    by (rule chunked_response_read [OF hol_ref_ok(2,6,3) 1 2 3 refl, unfolded 4])
qed

text \<open>A header without white space behind its name is dropped.\<close>

lemma header_needs_space:
  assumes "line \<noteq> []" "\<forall>c\<in>set line. \<not> isspace c"
  shows "add_header h line hs = hs"
proof -
  have "read_word [] (str_stream line) = (line, hit_eof (str_stream line))"
    using assms by (intro read_word_last [where ws = "[]"]) simp_all
  then show ?thesis by (simp add: add_header_def getline_bad)
qed

subsection \<open>Cookies in the jar\<close>

definition cookie_jar_key :: "cookie \<Rightarrow> string" where
  "cookie_jar_key c = ck_domain c @ ''/'' @ ck_path c"

text \<open>The jar is keyed by domain and path and not by the name of the cookie: of all the cookies a
  response sets for one domain and path only the last is kept.\<close>

theorem cookies_overwritten:
  assumes "cookie_jar_key (parse_cookie mk v) = k"
    and "\<forall>p\<in>set hs. fst p = ''set-cookie'' \<longrightarrow> cookie_jar_key (parse_cookie mk (snd p)) = k"
  shows "fst (read_http_cookies mk is (hs @ [(''set-cookie'', v)]) []) = [(k, parse_cookie mk v)]"
proof -
  let ?f = "\<lambda>(n, v) j. if n = ''set-cookie''
    then (let c = parse_cookie mk v in cm_set str_lt (ck_domain c @ ''/'' @ ck_path c) c j) else j"
  have "j = [] \<or> (\<exists>c. j = [(k, c)]) \<Longrightarrow> fold ?f hs j = [] \<or> (\<exists>c. fold ?f hs j = [(k, c)])" for j
    using assms(2)
  proof (induction hs arbitrary: j)
    case (Cons p hs)
    obtain n w where p: "p = (n, w)" by (cases p)
    have "?f p j = [] \<or> (\<exists>c. ?f p j = [(k, c)])"
      using Cons.prems p by (auto simp: Let_def cookie_jar_key_def str_cmp.irrefl)
    with Cons.IH [of "?f p j"] Cons.prems(2) show ?case by simp
  qed simp
  from this [of "[]"] show ?thesis
    using assms(1) by (auto simp: read_http_cookies_def Let_def cookie_jar_key_def str_cmp.irrefl)
qed

theorem cookies_overwritten_witness:
  "fst (read_http_cookies (\<lambda>_. 0) (str_stream [])
      ([(''set-cookie'', ''session=1'')] @ [(''set-cookie'', ''lang=en'')]) []) =
    [(''/'', parse_cookie (\<lambda>_. 0) ''lang=en'')]"
  by (rule cookies_overwritten) (code_simp, simp, code_simp)

text \<open>The date format of the comment, \<open>Wdy, DD-Mon-YYYY HH:MM:SS GMT\<close>, names the month, which the
  extraction into an \<open>int\<close> cannot read: the rest of the date is never read.\<close>

lemma cookie_date_unread:
  assumes "CHR '','' \<notin> set wdy" "ds \<noteq> []" "\<forall>c\<in>set ds. isdigit c" "digits_val ds < 2 ^ 31" "isalpha m"
  shows "read_date (wdy @ '', '' @ ds @ ''-'' @ m # rest) =
    \<lparr>tm_mday = Some (int (digits_val ds)), tm_mon = Some 0, tm_year = None, tm_hour = None,
     tm_min = None, tm_sec = None\<rparr>"
proof -
  let ?s = "str_stream (wdy @ '', '' @ ds @ ''-'' @ m # rest)"
  have m: "\<not> isspace m" "\<not> isdigit m" "m \<noteq> CHR ''-''" "m \<noteq> CHR ''+''"
    using assms(5) by (auto simp: isalpha_def isspace_def isdigit_def code_def char_consts)
  obtain d r where ds: "ds = d # r" using assms(2) by (cases ds) auto
  have d: "\<not> isspace d" "d \<noteq> CHR ''-''" "d \<noteq> CHR ''+''"
    using assms(3) ds isdigit_not_isspace by (auto simp: isdigit_def code_def)
  have nd: "\<not> isdigit (CHR ''-'')" by (simp add: isdigit_def code_def)
  have sp: "isspace (CHR '' '')" by (simp add: isspace_def char_consts)
  have 0: "getline (CHR '','') att ?s = (wdy, str_stream ('' '' @ ds @ ''-'' @ m # rest))" for att
    using assms(1) by (subst getline_found [where l = wdy]) simp_all
  have "sentry (str_stream ('' '' @ ds @ ''-'' @ m # rest)) = str_stream (ds @ ''-'' @ m # rest)"
    using d ds sp by (subst sentry_found [where c = d and r = "r @ ''-'' @ m # rest"]) simp_all
  then have 1: "read_int None (str_stream ('' '' @ ds @ ''-'' @ m # rest)) =
      (Some (int (digits_val ds)), str_stream (''-'' @ m # rest))"
    using assms(2,3,4) d ds nd
    by (simp add: read_int_def Let_def split_sign_def takeWhile_all_append dropWhile_all_append)
  have "sentry (str_stream (m # rest)) = str_stream (m # rest)"
    using m by (subst sentry_found [where c = m and r = rest]) simp_all
  then have 2: "read_int None (str_stream (m # rest)) = (Some 0, set_fail (str_stream (m # rest)))"
    using m by (simp add: read_int_def Let_def split_sign_def)
  have 3: "\<not> good i \<Longrightarrow> read_int None i = (None, set_fail i)" "\<not> good i \<Longrightarrow> ignore1 i = set_fail i" for i
    by (simp_all add: read_int_def sentry_bad ignore1_def)
  show ?thesis
    unfolding read_date_def Let_def 0 prod.case 1 by (simp add: 2 3)
qed

end
