(* ===== verification/Html.thy ===== *)
theory Html
  imports Http
begin

text \<open>
  The text half of \<open>network.cpp\<close>: URL encoding and decoding, entities, and the readers of tags
  and elements.  The replacement loops search the whole text again after each replacement, so
  they may run for ever (\<open>None\<close>) unless the replacement is shorter, as it is in both tables.
\<close>

subsection \<open>URLs\<close>

text \<open>\<open>os << std::hex << int(c)\<close>: a negative \<open>char\<close> becomes a 32-bit number.\<close>

definition hex_char :: "char \<Rightarrow> string" where
  "hex_char c = show_hex (nat (schar c mod 2 ^ 32))"

definition urlencode :: "string \<Rightarrow> string" where
  "urlencode url = concat (map (\<lambda>c. if isalnum c then [c] else CHR ''%'' # hex_char c) url)"

text \<open>\<open>while((p = s.find(key)) != npos) s.replace(p, key.size(), rep);\<close>\<close>

partial_function (option) replace_loop :: "string \<Rightarrow> string \<Rightarrow> string \<Rightarrow> string option" where
  "replace_loop key rep s =
     (case find_str key s of
        None \<Rightarrow> Some s
      | Some p \<Rightarrow> replace_loop key rep (take p s @ rep @ drop (p + length key) s))"

declare replace_loop.simps [code]

fun replace_table :: "(string \<times> string) list \<Rightarrow> string \<Rightarrow> string option" where
  "replace_table [] s = Some s"
| "replace_table ((k, r) # t) s =
     (case replace_loop k r s of None \<Rightarrow> None | Some s1 \<Rightarrow> replace_table t s1)"

text \<open>\<open>oss.fill('0'); oss << "%" << std::setw(2) << std::hex << i\<close>, for \<open>i < 256\<close>.\<close>

definition escape_of :: "nat \<Rightarrow> string" where
  "escape_of i = CHR ''%'' # (let s = show_hex i in replicate (2 - length s) (CHR ''0'') @ s)"

definition urlism :: "hol \<Rightarrow> (string, string) cmap" where
  "urlism h = fold (\<lambda>i m. cm_set str_lt (h_upper h (escape_of i)) [char_of i]
       (cm_set str_lt (h_lower h (escape_of i)) [char_of i] m)) [0..<256] []"

definition urldecode :: "hol \<Rightarrow> string \<Rightarrow> string option" where
  "urldecode h s = replace_table (urlism h) s"

subsection \<open>Entities\<close>

text \<open>The entries of the table in the order of the source; a \<open>std::map\<close> keeps them sorted.\<close>

definition utf_cent :: string where "utf_cent = [CHR 0xC2, CHR 0xA2]"
definition utf_pound :: string where "utf_pound = [CHR 0xC2, CHR 0xA3]"
definition utf_euro :: string where "utf_euro = [CHR 0xE2, CHR 0x82, CHR 0xAC]"
definition utf_sect :: string where "utf_sect = [CHR 0xC2, CHR 0xA7]"
definition utf_copy :: string where "utf_copy = [CHR 0xC2, CHR 0xA9]"
definition utf_reg :: string where "utf_reg = [CHR 0xC2, CHR 0xAE]"
definition utf_trade :: string where "utf_trade = [CHR 0xE2, CHR 0x84, CHR 0xA2]"

definition ents :: "(string, string) cmap" where
  "ents = fold (\<lambda>(k, v). cm_insert str_lt k v)
     [(''&lt;'', ''<''), (''&#60;'', ''>''), (''&gt;'', ''>''), (''&#61;'', ''>''),
      (''&nbsp;'', '' ''), (''&#160;'', '' ''), (''&amp;'', ''&''), (''&#38;'', ''&''),
      (''&cent;'', utf_cent), (''&#162;'', utf_cent), (''&pound;'', utf_pound), (''&#163;'', utf_pound),
      (''&euro;'', utf_euro), (''&#8364;'', utf_euro), (''&sect;'', utf_sect), (''&#167;'', utf_sect),
      (''&copy;'', utf_copy), (''&#169;'', utf_copy), (''&reg;'', utf_reg), (''&#174;'', utf_reg),
      (''&trade;'', utf_trade), (''&#8482;'', utf_trade), (''&quot;'', [DQUOTE])] []"

definition fix_entities :: "string \<Rightarrow> string option" where
  "fix_entities s = replace_table ents s"

subsection \<open>Tags\<close>

text \<open>
  The inner loop of \<open>read_tag\<close> and \<open>read_tag_by_att\<close>: the text up to the closing tag, with \<open>s\<close> and
  the output as they were.
\<close>

function tag_body :: "string \<Rightarrow> istream \<Rightarrow> string \<Rightarrow> string \<Rightarrow> string \<times> string \<times> istream" where
  "tag_body tag is s os =
     (case getline (CHR ''>'') s is of (s1, is1) \<Rightarrow>
        if \<not> ok is1 \<or> find_str (''/'' @ tag) s1 \<noteq> None then (os, s1, is1)
        else case getline (CHR ''<'') s1 is1 of (s2, is2) \<Rightarrow>
          tag_body tag is2 s2 (os @ ''<'' @ s1 @ ''>'' @ (if ok is2 then s2 else [])))"
  by pat_completeness auto
termination
proof (relation "measure (\<lambda>(tag, is, s, os). length (buf is))", goal_cases)
  case (2 tag "is" s os s1 is1 s2 is2)
  then have "length (buf is1) < length (buf is)"
    using getline_length [of "CHR ''>''" s "is" s1 is1] by simp
  moreover have "length (buf is2) \<le> length (buf is1)"
    using getline_le [of "CHR ''<''" s1 is1] 2 by (metis snd_conv)
  ultimately show ?case by simp
qed simp

declare tag_body.simps [simp del]

function tag_loop :: "string \<Rightarrow> (string \<Rightarrow> bool) \<Rightarrow> istream \<Rightarrow> string \<Rightarrow> string \<Rightarrow> string \<times> istream" where
  "tag_loop tag found is s os =
     (case getline (CHR ''<'') s is of (s1, is1) \<Rightarrow>
        if \<not> ok is1 then (os, is1)
        else case getline (CHR ''>'') s1 is1 of (s2, is2) \<Rightarrow>
          if ok is2 \<and> found s2
          then case getline (CHR ''<'') s2 is2 of (s3, is3) \<Rightarrow>
            (case tag_body tag is3 s3 (if ok is3 then os @ s3 else os) of (os1, _, is4) \<Rightarrow> (os1, is4))
          else tag_loop tag found is2 s2 os)"
  by pat_completeness auto
termination
proof (relation "measure (\<lambda>(tag, found, is, s, os). length (buf is))", goal_cases)
  case (2 tag found "is" s os s1 is1 s2 is2)
  then have "length (buf is1) < length (buf is)"
    using getline_length [of "CHR ''<''" s "is" s1 is1] by simp
  moreover have "length (buf is2) \<le> length (buf is1)"
    using getline_le [of "CHR ''>''" s1 is1] 2 by (metis snd_conv)
  ultimately show ?case by simp
qed simp

declare tag_loop.simps [simp del]

definition read_tag :: "istream \<Rightarrow> string \<Rightarrow> string \<Rightarrow> string \<times> istream" where
  "read_tag is os tag = tag_loop tag (\<lambda>s. find_str tag s = Some 0) is [] os"

definition read_tag_by_att :: "istream \<Rightarrow> string \<Rightarrow> string \<Rightarrow> string \<Rightarrow> string \<Rightarrow> string \<times> istream" where
  "read_tag_by_att is os tag att val =
     (let att1 = att @ [CHR ''='', SQUOTE] @ val @ [SQUOTE];
          att2 = att @ [CHR ''='', DQUOTE] @ val @ [DQUOTE]
      in tag_loop tag (\<lambda>s. find_str tag s = Some 0 \<and> (find_str att1 s \<noteq> None \<or> find_str att2 s \<noteq> None)) is [] os)"

lemma tag_body_le: "length (buf (snd (snd (tag_body tag is s os)))) \<le> length (buf is)"
proof (induction tag "is" s os rule: tag_body.induct)
  case (1 tag i s os)
  obtain s1 i1 where g1: "getline (CHR ''>'') s i = (s1, i1)" by fastforce
  obtain s2 i2 where g2: "getline (CHR ''<'') s1 i1 = (s2, i2)" by fastforce
  have "length (buf i1) \<le> length (buf i)" "length (buf i2) \<le> length (buf i1)"
    using getline_le [of "CHR ''>''" s i] getline_le [of "CHR ''<''" s1 i1] g1 g2 by simp_all
  then show ?case
    using "1.IH" [OF g1 [symmetric] _ g2 [symmetric]] g1 g2 by (subst tag_body.simps) (auto intro: order_trans)
qed

lemma tag_loop_length:
  "tag_loop tag found is s os = (os', is') \<Longrightarrow> ok is' \<Longrightarrow> length (buf is') < length (buf is)"
proof (induction tag found "is" s os rule: tag_loop.induct)
  case (1 tag found i s os)
  obtain s1 i1 where g1: "getline (CHR ''<'') s i = (s1, i1)" by fastforce
  obtain s2 i2 where g2: "getline (CHR ''>'') s1 i1 = (s2, i2)" by fastforce
  obtain s3 i3 where g3: "getline (CHR ''<'') s2 i2 = (s3, i3)" by fastforce
  have le: "length (buf i2) \<le> length (buf i1)" "length (buf i3) \<le> length (buf i2)"
    using getline_le [of "CHR ''>''" s1 i1] getline_le [of "CHR ''<''" s2 i2] g2 g3 by simp_all
  show ?case
  proof (cases "ok i1")
    case False
    with "1.prems" g1 show ?thesis by (subst (asm) tag_loop.simps) simp
  next
    case True
    then have l1: "length (buf i1) < length (buf i)" using getline_length [OF g1] by simp
    show ?thesis
    proof (cases "ok i2 \<and> found s2")
      case True
      obtain a b i4 where "tag_body tag i3 s3 (if ok i3 then os @ s3 else os) = (a, b, i4)" using prod_cases3 by blast
      moreover from this have "length (buf i4) \<le> length (buf i3)"
        using tag_body_le [of tag i3 s3 "if ok i3 then os @ s3 else os"] by simp
      ultimately show ?thesis
        using "1.prems"(1) g1 g2 g3 True \<open>ok i1\<close> le l1 by (subst (asm) tag_loop.simps) simp
    next
      case False
      then have "tag_loop tag found i2 s2 os = (os', is')"
        using "1.prems"(1) g1 g2 \<open>ok i1\<close> by (subst (asm) tag_loop.simps) auto
      from "1.IH" [OF g1 [symmetric] _ g2 [symmetric] False this] "1.prems"(2) \<open>ok i1\<close> le l1 show ?thesis by simp
    qed
  qed
qed

subsection \<open>Elements\<close>

text \<open>
  \<open>is.putback('<')\<close> behind a \<open>getline\<close> that stops at \<open><\<close>: \<open>eofbit\<close> is cleared, and the character read
  last must be \<open><\<close>, which it is not when the line was ended by the end of the input.
\<close>

definition putback_lt :: "istream \<Rightarrow> istream" where
  "putback_lt is =
     (if eofbit is then set_fail (is\<lparr>eofbit := False\<rparr>) else is\<lparr>buf := CHR ''<'' # buf is\<rparr>)"

function element_loop :: "istream \<Rightarrow> string \<Rightarrow> siz \<Rightarrow> string \<Rightarrow> string \<times> istream" where
  "element_loop is t d tag =
     (if \<not> ok is then (tag, is)
      else case getline (CHR ''<'') t is of (t1, is1) \<Rightarrow>
        case getline (CHR ''>'') t1 is1 of (t2, is2) \<Rightarrow>
          let tag1 = (if ok is1 then tag @ t1 else tag)
          in if \<not> ok is2 then (tag1, is2)
             else if t2 \<noteq> [] \<and> hd t2 \<noteq> CHR ''/'' \<and> last t2 \<noteq> CHR ''/''
             then element_loop is2 t2 (d + 1) (tag1 @ ''<'' @ t2 @ ''>'')
             else if t2 \<noteq> [] \<and> hd t2 = CHR ''/''
             then (if d - 1 = 0 then (tag1 @ ''<'' @ t2 @ ''>'', is2)
                   else element_loop is2 t2 (d - 1) (tag1 @ ''<'' @ t2 @ ''>''))
             else element_loop is2 t2 d (tag1 @ ''<'' @ t2 @ ''>''))"
  by pat_completeness auto
termination
proof (relation "measure (\<lambda>(is, t, d, tag). length (buf is))", goal_cases)
  case 1
  show ?case by simp
next
  case (2 "is" t d tag t1 is1 t2 is2)
  then have "length (buf is2) < length (buf is1)"
    using getline_length [of "CHR ''>''" t1 is1 t2 is2] by simp
  moreover have "length (buf is1) \<le> length (buf is)"
    using getline_le [of "CHR ''<''" t "is"] 2 by (metis snd_conv)
  ultimately show ?case by simp
next
  case (3 "is" t d tag t1 is1 t2 is2)
  then have "length (buf is2) < length (buf is1)"
    using getline_length [of "CHR ''>''" t1 is1 t2 is2] by simp
  moreover have "length (buf is1) \<le> length (buf is)"
    using getline_le [of "CHR ''<''" t "is"] 3 by (metis snd_conv)
  ultimately show ?case by simp
next
  case (4 "is" t d tag t1 is1 t2 is2)
  then have "length (buf is2) < length (buf is1)"
    using getline_length [of "CHR ''>''" t1 is1 t2 is2] by simp
  moreover have "length (buf is1) \<le> length (buf is)"
    using getline_le [of "CHR ''<''" t "is"] 4 by (metis snd_conv)
  ultimately show ?case by simp
qed

declare element_loop.simps [simp del]

definition read_element :: "istream \<Rightarrow> string \<times> istream" where
  "read_element is =
     (case peek is of (p, is1) \<Rightarrow>
        if p \<noteq> Some (CHR ''<'')
        then case getline (CHR ''<'') [] is1 of (t, is2) \<Rightarrow>
          (if ok is2 then (t, putback_lt is2) else ([], is2))
        else element_loop is1 [] 0 [])"

subsection \<open>Text of a page\<close>

definition page_text :: "hol \<Rightarrow> string \<Rightarrow> string option" where
  "page_text h s = (case fix_entities s of None \<Rightarrow> None | Some t \<Rightarrow> urldecode h t)"

function html_loop :: "hol \<Rightarrow> istream \<Rightarrow> string \<Rightarrow> string option" where
  "html_loop h is out =
     (case getline (CHR ''<'') [] is of (s, is1) \<Rightarrow>
        if \<not> ok is1 then Some out
        else case page_text h s of
          None \<Rightarrow> None
        | Some t \<Rightarrow> (case getline (CHR ''>'') s is1 of (_, is2) \<Rightarrow> html_loop h is2 (out @ t)))"
  by pat_completeness auto
termination
proof (relation "measure (\<lambda>(h, is, out). length (buf is))", goal_cases)
  case (2 h "is" out s is1 t u is2)
  then have "length (buf is1) < length (buf is)"
    using getline_length [of "CHR ''<''" "[]" "is" s is1] by simp
  moreover have "length (buf is2) \<le> length (buf is1)"
    using getline_le [of "CHR ''>''" s is1] 2 by (metis snd_conv)
  ultimately show ?case by simp
qed simp

declare html_loop.simps [simp del]

definition html_to_text :: "hol \<Rightarrow> string \<Rightarrow> string option" where
  "html_to_text h html = html_loop h (str_stream html) []"

subsection \<open>The loops end\<close>

lemma replace_loop_step:
  "find_str key s = None \<Longrightarrow> replace_loop key rep s = Some s"
  "find_str key s = Some p \<Longrightarrow>
    replace_loop key rep s = replace_loop key rep (take p s @ rep @ drop (p + length key) s)"
  by (subst replace_loop.simps, simp)+

lemma replace_loop_ends:
  "length rep < length key \<Longrightarrow> \<exists>t. replace_loop key rep s = Some t \<and> length t \<le> length s"
proof (induction "length s" arbitrary: s rule: less_induct)
  case less
  show ?case
  proof (cases "find_str key s")
    case None
    then show ?thesis by (subst replace_loop.simps) simp
  next
    case (Some p)
    then obtain a b where s: "s = a @ key @ b" "length a = p" using find_str_Some by blast
    let ?s = "a @ rep @ b"
    have "length ?s < length s" using s less.prems by simp
    with less obtain t where "replace_loop key rep ?s = Some t" "length t \<le> length ?s" by blast
    with Some s less.prems show ?thesis by (subst replace_loop.simps) simp
  qed
qed

definition shrinking :: "(string \<times> string) list \<Rightarrow> bool" where
  "shrinking t = (\<forall>(k, r)\<in>set t. length r < length k)"

lemma replace_table_ends:
  "shrinking t \<Longrightarrow> \<exists>u. replace_table t s = Some u \<and> length u \<le> length s"
proof (induction t arbitrary: s)
  case (Cons e t)
  obtain k r where e: "e = (k, r)" by (cases e)
  then obtain s1 where "replace_loop k r s = Some s1" "length s1 \<le> length s"
    using Cons.prems replace_loop_ends [of r k s] by (auto simp: shrinking_def)
  moreover obtain u where "replace_table t s1 = Some u" "length u \<le> length s1"
    using Cons by (fastforce simp: shrinking_def)
  ultimately show ?case using e by auto
qed simp

lemma ents_sorted: "ents =
    [(''&#160;'', '' ''), (''&#162;'', utf_cent), (''&#163;'', utf_pound), (''&#167;'', utf_sect),
     (''&#169;'', utf_copy), (''&#174;'', utf_reg), (''&#38;'', ''&''), (''&#60;'', ''>''), (''&#61;'', ''>''),
     (''&#8364;'', utf_euro), (''&#8482;'', utf_trade), (''&amp;'', ''&''), (''&cent;'', utf_cent),
     (''&copy;'', utf_copy), (''&euro;'', utf_euro), (''&gt;'', ''>''), (''&lt;'', ''<''), (''&nbsp;'', '' ''),
     (''&pound;'', utf_pound), (''&quot;'', [DQUOTE]), (''&reg;'', utf_reg), (''&sect;'', utf_sect),
     (''&trade;'', utf_trade)]"
  by (simp add: ents_def cm_insert_def cm_touch_def str_lt_def char_lt_def code_def)

lemma shrinking_ents: "shrinking ents"
  by (simp add: shrinking_def ents_sorted utf_cent_def utf_pound_def utf_euro_def utf_sect_def utf_copy_def
      utf_reg_def utf_trade_def)

lemma length_show_hex: "n < 256 \<Longrightarrow> length (show_hex n) = (if n < 16 then 1 else 2)"
  by (subst show_hex.simps, subst show_hex.simps) auto

lemma length_escape_of: "i < 256 \<Longrightarrow> length (escape_of i) = 3"
  by (simp add: escape_of_def Let_def length_show_hex)

lemma keys_of_set: "fst ` set (cm_set str_lt k v m) = insert k (fst ` set m)"
proof (induction m)
  case (Cons e m)
  obtain a b where e: "e = (a, b)" by (cases e)
  consider "str_lt a k" | "\<not> str_lt a k" "str_lt k a" | "\<not> str_lt a k" "\<not> str_lt k a" "a = k"
    using str_cmp.total by blast
  then show ?case using Cons.IH e by cases auto
qed simp

lemma entries_cm_set: "e \<in> set (cm_set str_lt k v m) \<Longrightarrow> e = (k, v) \<or> e \<in> set m"
  by (induction m) (use str_cmp.total in \<open>auto split: if_splits\<close>)

lemma urlism_entries:
  "(k, r) \<in> set (urlism h) \<Longrightarrow>
    \<exists>i<256. (k = h_lower h (escape_of i) \<or> k = h_upper h (escape_of i)) \<and> r = [char_of i]"
proof -
  let ?f = "\<lambda>i m. cm_set str_lt (h_upper h (escape_of i)) [char_of i :: char]
       (cm_set str_lt (h_lower h (escape_of i)) [char_of i] m)"
  have "(k, r) \<in> set (fold ?f is m) \<Longrightarrow> (k, r) \<in> set m \<or>
      (\<exists>i\<in>set is. (k = h_lower h (escape_of i) \<or> k = h_upper h (escape_of i)) \<and> r = [char_of i])" for "is" m
    by (induction "is" arbitrary: m) (auto dest!: entries_cm_set)
  from this [of "[0..<256]" "[]"] show "(k, r) \<in> set (urlism h) \<Longrightarrow> ?thesis"
    by (auto simp: urlism_def)
qed

lemma urlism_keys: "i < 256 \<Longrightarrow> h_lower h (escape_of i) \<in> fst ` set (urlism h)"
proof -
  let ?f = "\<lambda>i m. cm_set str_lt (h_upper h (escape_of i)) [char_of i :: char]
       (cm_set str_lt (h_lower h (escape_of i)) [char_of i] m)"
  have "fst ` set m \<union> h_lower h ` escape_of ` set is \<subseteq> fst ` set (fold ?f is m)" for "is" m
  proof (induction "is" arbitrary: m)
    case (Cons a "is")
    from Cons [of "?f a m"] show ?case by (auto simp: keys_of_set)
  qed simp
  from this [of "[]" "[0..<256]"] show "i < 256 \<Longrightarrow> ?thesis"
    by (fastforce simp: urlism_def)
qed

lemma shrinking_urlism: "lowers h \<Longrightarrow> uppers h \<Longrightarrow> shrinking (urlism h)"
  by (auto simp: shrinking_def lowers_def uppers_def length_escape_of dest!: urlism_entries)

lemma getline_split_length:
  "getline d x is = (l, is') \<Longrightarrow> ok is' \<Longrightarrow> length l + length (buf is') \<le> length (buf is)"
proof -
  assume e: "getline d x is = (l, is')" and k: "ok is'"
  have "length (buf is) = length (takeWhile (\<lambda>c. c \<noteq> d) (buf is)) + length (dropWhile (\<lambda>c. c \<noteq> d) (buf is))"
    by (metis length_append takeWhile_dropWhile_id)
  with e k show ?thesis by (auto simp: getline_def Let_def split: list.splits if_splits)
qed

lemma page_text_ends:
  assumes "lowers h" "uppers h"
  shows "\<exists>t. page_text h s = Some t \<and> length t \<le> length s"
proof -
  obtain u where u: "fix_entities s = Some u" "length u \<le> length s"
    using replace_table_ends [OF shrinking_ents, of s] by (auto simp: fix_entities_def)
  obtain t where "urldecode h u = Some t" "length t \<le> length u"
    using replace_table_ends [OF shrinking_urlism [OF assms], of u] by (auto simp: urldecode_def)
  with u show ?thesis by (simp add: page_text_def)
qed

lemma html_loop_ends:
  "lowers h \<Longrightarrow> uppers h \<Longrightarrow> \<exists>t. html_loop h is out = Some t \<and> length t \<le> length out + length (buf is)"
proof (induction h "is" out rule: html_loop.induct)
  case (1 h "is" out)
  obtain s is1 where g: "getline (CHR ''<'') [] is = (s, is1)" by fastforce
  obtain l is2 where g2: "getline (CHR ''>'') s is1 = (l, is2)" by fastforce
  show ?case
  proof (cases "ok is1")
    case False
    then show ?thesis by (subst html_loop.simps) (simp add: g)
  next
    case True
    obtain t where t: "page_text h s = Some t" "length t \<le> length s"
      using page_text_ends [OF "1.prems", of s] by blast
    have "length s + length (buf is1) \<le> length (buf is)" using g True by (rule getline_split_length)
    moreover have "length (buf is2) \<le> length (buf is1)" using getline_le [of "CHR ''>''" s is1] g2 by simp
    moreover obtain v where "html_loop h is2 (out @ t) = Some v" "length v \<le> length (out @ t) + length (buf is2)"
      using "1.IH" [OF g [symmetric] _ t(1) g2 [symmetric] "1.prems"] True by auto
    ultimately show ?thesis using t(2) by (subst html_loop.simps) (simp add: g g2 t(1) True)
  qed
qed

text \<open>C22: Taking the tags out of a page, with its entities and escapes replaced, always returns,
  although every replacement loop searches its own output again; no text gets longer.\<close>

theorem html_to_text_total:
  assumes "lowers h" "uppers h"
  shows "\<exists>t. html_to_text h html = Some t \<and> length t \<le> length html"
  using html_loop_ends [OF assms, of "str_stream html" "[]"] by (simp add: html_to_text_def)

theorem html_to_text_total_witness:
  "\<exists>t. html_to_text hol_ref ''<b>1 &lt; 2</b>'' = Some t \<and> length t \<le> length ''<b>1 &lt; 2</b>''"
  by (rule html_to_text_total [OF hol_ref_ok(3,7)])

subsection \<open>Elements\<close>

text \<open>A document: an element with the text of its opening tag, an empty element, text.\<close>

datatype xml = Elem string "xml list" | Self string | Txt string

definition elem_name :: "string \<Rightarrow> string" where
  "elem_name n = takeWhile (\<lambda>c. \<not> isspace c) n"

fun render :: "xml \<Rightarrow> string" where
  "render (Elem n ks) = ''<'' @ n @ ''>'' @ concat (map render ks) @ ''</'' @ elem_name n @ ''>''"
| "render (Self n) = ''<'' @ n @ ''/>''"
| "render (Txt t) = t"

fun wf_xml :: "xml \<Rightarrow> bool" where
  "wf_xml (Elem n ks) = (n \<noteq> [] \<and> hd n \<noteq> CHR ''/'' \<and> last n \<noteq> CHR ''/'' \<and> CHR ''>'' \<notin> set n \<and> list_all wf_xml ks)"
| "wf_xml (Self n) = (n \<noteq> [] \<and> hd n \<noteq> CHR ''/'' \<and> CHR ''>'' \<notin> set n)"
| "wf_xml (Txt t) = (CHR ''<'' \<notin> set t)"

fun depth :: "xml \<Rightarrow> nat" where
  "depth (Elem n ks) = Suc (fold max (map depth ks) 0)"
| "depth (Self n) = 0"
| "depth (Txt t) = 0"

lemma fold_max_ge: "x \<in> set xs \<or> x \<le> a \<Longrightarrow> (x :: nat) \<le> fold max xs a"
  by (induction xs arbitrary: a) (auto simp: le_max_iff_disj)

text \<open>What one node does to the loop: it is skipped, and the text so far grows by the node; \<open>u\<close> is
  text behind the last tag, which the loop has not read yet.\<close>

definition skips :: "siz \<Rightarrow> string \<Rightarrow> bool" where
  "skips d s = (\<forall>u t tag R. CHR ''<'' \<notin> set u \<longrightarrow>
     (\<exists>u' t' tag'. CHR ''<'' \<notin> set u' \<and> tag' @ u' = tag @ u @ s \<and>
        element_loop (str_stream (u @ s @ R)) t d tag = element_loop (str_stream (u' @ R)) t' d tag'))"

lemma skips_Nil: "skips d []"
  by (auto simp: skips_def)

lemma skips_append: "skips d a \<Longrightarrow> skips d b \<Longrightarrow> skips d (a @ b)"
  unfolding skips_def
proof (intro allI impI, goal_cases)
  case (1 u t tag R)
  from 1(1,3) obtain u1 t1 tag1 where a: "CHR ''<'' \<notin> set u1" "tag1 @ u1 = tag @ u @ a"
    "element_loop (str_stream (u @ a @ b @ R)) t d tag = element_loop (str_stream (u1 @ b @ R)) t1 d tag1"
    by blast
  from 1(2) a(1) obtain u2 t2 tag2 where b: "CHR ''<'' \<notin> set u2" "tag2 @ u2 = tag1 @ u1 @ b"
    "element_loop (str_stream (u1 @ b @ R)) t1 d tag1 = element_loop (str_stream (u2 @ R)) t2 d tag2"
    by blast
  show ?case using a b by (intro exI [of _ u2] exI [of _ t2] exI [of _ tag2]) simp
qed

text \<open>One turn of the loop over the text \<open>u\<close> and the tag \<open>n\<close>.\<close>

lemma element_turn:
  assumes "CHR ''<'' \<notin> set u" "CHR ''>'' \<notin> set n"
  shows "element_loop (str_stream (u @ ''<'' @ n @ ''>'' @ R)) t d tag =
    (if n \<noteq> [] \<and> hd n \<noteq> CHR ''/'' \<and> last n \<noteq> CHR ''/''
     then element_loop (str_stream R) n (d + 1) (tag @ u @ ''<'' @ n @ ''>'')
     else if n \<noteq> [] \<and> hd n = CHR ''/''
     then (if d - 1 = 0 then (tag @ u @ ''<'' @ n @ ''>'', str_stream R)
           else element_loop (str_stream R) n (d - 1) (tag @ u @ ''<'' @ n @ ''>''))
     else element_loop (str_stream R) n d (tag @ u @ ''<'' @ n @ ''>''))"
proof -
  have "getline (CHR ''<'') t (str_stream (u @ ''<'' @ n @ ''>'' @ R)) = (u, str_stream (n @ ''>'' @ R))"
    using assms(1) by (subst getline_found [where l = u]) simp_all
  moreover have "getline (CHR ''>'') u (str_stream (n @ ''>'' @ R)) = (n, str_stream R)"
    using assms(2) by (subst getline_found [where l = n]) simp_all
  ultimately show ?thesis by (subst element_loop.simps) (simp add: Let_def)
qed

lemma skips_node:
  "wf_xml k \<Longrightarrow> d \<noteq> 0 \<Longrightarrow> unat d + depth k < 2 ^ 64 \<Longrightarrow> skips d (render k)"
proof (induction k arbitrary: d)
  case (Txt x)
  show ?case
    unfolding skips_def
  proof (intro allI impI, goal_cases)
    case (1 u t tag R)
    with Txt show ?case by (intro exI [of _ "u @ x"] exI [of _ t] exI [of _ tag]) simp
  qed
next
  case (Self n)
  show ?case
    unfolding skips_def
  proof (intro allI impI, goal_cases)
    case (1 u t tag R)
    with Self have "element_loop (str_stream (u @ render (Self n) @ R)) t d tag =
        element_loop (str_stream R) (n @ ''/'') d (tag @ u @ render (Self n))"
      using element_turn [of u "n @ ''/''" R t d tag] by simp
    then show ?case by (intro exI [of _ "[]"] exI [of _ "n @ ''/''"] exI [of _ "tag @ u @ render (Self n)"]) simp
  qed
next
  case (Elem n ks)
  have d: "unat (d + 1) = unat d + 1" "d + 1 \<noteq> 0"
    using Elem.prems(3) by (auto simp: unat_word_ariths unat_eq_0 [symmetric])
  have "list_all (\<lambda>k. skips (d + 1) (render k)) ks"
    unfolding list_all_iff
  proof
    fix k
    assume k: "k \<in> set ks"
    with Elem.prems have "wf_xml k" "depth k < depth (Elem n ks)"
      by (auto simp: list_all_iff less_Suc_eq_le intro!: fold_max_ge)
    with Elem.IH [OF k _ d(2)] Elem.prems(3) d(1) show "skips (d + 1) (render k)" by simp
  qed
  then have ks: "skips (d + 1) (concat (map render ks))"
    by (induction ks) (auto simp: skips_Nil skips_append)
  let ?c = "''/'' @ elem_name n"
  have c: "CHR ''>'' \<notin> set ?c" using Elem.prems(1) set_takeWhileD by (fastforce simp: elem_name_def)
  show ?case
    unfolding skips_def
  proof (intro allI impI, goal_cases)
    case (1 u t tag R)
    let ?ks = "concat (map render ks)" and ?R = "''<'' @ ?c @ ''>'' @ R"
    have "element_loop (str_stream (u @ render (Elem n ks) @ R)) t d tag =
        element_loop (str_stream ([] @ ?ks @ ?R)) n (d + 1) (tag @ u @ ''<'' @ n @ ''>'')"
      using 1 Elem.prems(1) element_turn [of u n "?ks @ ?R" t d tag] by simp
    also obtain u' t' tag' where k: "CHR ''<'' \<notin> set u'" "tag' @ u' = (tag @ u @ ''<'' @ n @ ''>'') @ ?ks"
      "element_loop (str_stream ([] @ ?ks @ ?R)) n (d + 1) (tag @ u @ ''<'' @ n @ ''>'') =
       element_loop (str_stream (u' @ ?R)) t' (d + 1) tag'"
      using ks unfolding skips_def by (metis append_Nil empty_iff list.set(1))
    note k(3)
    also have "element_loop (str_stream (u' @ ?R)) t' (d + 1) tag' =
        element_loop (str_stream R) ?c d (tag' @ u' @ ''<'' @ ?c @ ''>'')"
      using element_turn [OF k(1) c, of R t' "d + 1" tag'] Elem.prems(2) by simp
    also have "tag' @ u' @ ''<'' @ ?c @ ''>'' = tag @ u @ render (Elem n ks)"
      using arg_cong [OF k(2), of "\<lambda>x. x @ ''<'' @ ?c @ ''>''"] by simp
    finally have "element_loop (str_stream (u @ render (Elem n ks) @ R)) t d tag =
        element_loop (str_stream ([] @ R)) ?c d (tag @ u @ render (Elem n ks))" by simp
    then show ?case
      by (intro exI [of _ "[]"] exI [of _ ?c] exI [of _ "tag @ u @ render (Elem n ks)"] conjI) simp_all
  qed
qed

text \<open>A comment or a processing instruction counts as a tag that opens an element, and so does the end of an attribute behind
  a bracket: the element is read on up to the end of the next one, or of the stream.\<close>

lemma over_read:
  "read_element (str_stream ''<p><!-- c --></p>x</q>y'') = (''<p><!-- c --></p>x</q>'', str_stream ''y'')"
  "read_element (str_stream ''<p><?php ?></p>x</q>y'') = (''<p><?php ?></p>x</q>'', str_stream ''y'')"
  "read_element (str_stream ''<p><br a=>/></p>x</q>y'') = (''<p><br a=>/></p>x</q>'', str_stream ''y'')"
  by code_simp+

text \<open>C11: At the start of a well-formed element that is made of elements, empty elements and text only, without
  comments, processing instructions and declarations, and whose tags have no closing bracket within their attributes and are nested less than 2 to the
  64 deep, \<open>read_element\<close> returns exactly the element with all it contains, and leaves the stream right behind it.\<close>

theorem read_element_exact:
  assumes "wf_xml (Elem n ks)" "depth (Elem n ks) < 2 ^ 64"
  shows "read_element (str_stream (render (Elem n ks) @ rest)) = (render (Elem n ks), str_stream rest)"
proof -
  let ?ks = "concat (map render ks)" and ?c = "''/'' @ elem_name n"
  let ?R = "''<'' @ ?c @ ''>'' @ rest"
  have "skips 1 (render k)" if k: "k \<in> set ks" for k
  proof (rule skips_node)
    show "wf_xml k" using assms(1) k by (simp add: list_all_iff)
    have "depth k \<le> fold max (map depth ks) 0" using k by (intro fold_max_ge) simp
    then show "unat (1 :: siz) + depth k < 2 ^ 64" using assms(2) by simp
  qed simp
  then have ks: "skips 1 ?ks" by (induction ks) (auto simp: skips_Nil skips_append)
  have c: "CHR ''>'' \<notin> set ?c" using assms(1) set_takeWhileD by (fastforce simp: elem_name_def)
  have "read_element (str_stream (render (Elem n ks) @ rest)) =
      element_loop (str_stream ([] @ ''<'' @ n @ ''>'' @ ?ks @ ?R)) [] 0 []"
    by (simp add: read_element_def)
  also have "\<dots> = element_loop (str_stream ([] @ ?ks @ ?R)) n 1 (''<'' @ n @ ''>'')"
    using assms(1) element_turn [of "[]" n "?ks @ ?R" "[]" 0 "[]"] by simp
  finally have 1: "read_element (str_stream (render (Elem n ks) @ rest)) =
      element_loop (str_stream ([] @ ?ks @ ?R)) n 1 (''<'' @ n @ ''>'')" .
  obtain u' t' tag' where k: "CHR ''<'' \<notin> set u'" "tag' @ u' = (''<'' @ n @ ''>'') @ ?ks"
    "element_loop (str_stream ([] @ ?ks @ ?R)) n 1 (''<'' @ n @ ''>'') =
     element_loop (str_stream (u' @ ?R)) t' 1 tag'"
    using ks unfolding skips_def by (metis append_Nil empty_iff list.set(1))
  have "tag' @ u' @ ''<'' @ ?c @ ''>'' = render (Elem n ks)"
    using arg_cong [OF k(2), of "\<lambda>x. x @ ''<'' @ ?c @ ''>''"] by simp
  then show ?thesis
    unfolding 1 k(3) using element_turn [OF k(1) c, of rest t' 1 tag'] by simp
qed

theorem read_element_exact_witness:
  "read_element (str_stream (render (Elem ''ul id=1'' [Txt ''a'', Self ''br'', Elem ''li'' [Txt ''x'']]) @ ''z'')) =
    (''<ul id=1>a<br/><li>x</li></ul>'', str_stream ''z'')"
proof -
  have r: "render (Elem ''ul id=1'' [Txt ''a'', Self ''br'', Elem ''li'' [Txt ''x'']]) = ''<ul id=1>a<br/><li>x</li></ul>''"
    by code_simp
  show ?thesis
    using read_element_exact [of "''ul id=1''" "[Txt ''a'', Self ''br'', Elem ''li'' [Txt ''x'']]" "''z''"] unfolding r
    by simp
qed

subsection \<open>Decoding what was encoded\<close>

text \<open>
  A text during the decoding of \<open>urlencode s\<close>: a list of characters, each with a flag that says
  whether it stands for itself or is still escaped.
\<close>

definition esc :: "char \<Rightarrow> string" where
  "esc c = CHR ''%'' # hex_char c"

definition shown :: "(bool \<times> char) list \<Rightarrow> string" where
  "shown ts = concat (map (\<lambda>(f, c). if f then [c] else esc c) ts)"

definition url_char :: "char \<Rightarrow> bool" where
  "url_char c = (16 \<le> code c \<and> code c < 128 \<and> c \<noteq> CHR ''%'')"

definition mark :: "string \<Rightarrow> (bool \<times> char) list \<Rightarrow> (bool \<times> char) list" where
  "mark k ts = map (\<lambda>(f, c). (f \<or> esc c = k, c)) ts"

lemma isxdigit_not_percent: "isxdigit c \<Longrightarrow> c \<noteq> CHR ''%''"
  by (auto simp: isxdigit_def isdigit_def code_def)

lemma esc_two_digits:
  assumes "url_char c"
  obtains a b where "esc c = [CHR ''%'', a, b]" "isxdigit a" "isxdigit b" "xdigits_val [a, b] = code c"
proof -
  have c: "16 \<le> code c" "code c < 128" using assms by (simp_all add: url_char_def)
  then have h: "hex_char c = show_hex (code c)" by (simp add: hex_char_def schar_def)
  have s: "show_hex (code c) = [hex_digit (code c div 16), hex_digit (code c mod 16)]"
    using c by (subst show_hex.simps, subst show_hex.simps) simp
  show thesis
    using that [of "hex_digit (code c div 16)" "hex_digit (code c mod 16)"] h s c xdigits_val_show_hex [of "code c"]
    by (simp add: esc_def)
qed

lemma shown_simps [simp]:
  "shown [] = []" "shown ((True, c) # ts) = c # shown ts" "shown ((False, c) # ts) = esc c @ shown ts"
  "shown (xs @ ys) = shown xs @ shown ys"
  by (simp_all add: shown_def)

lemma find_str_here: "find_str k (k @ s) = Some 0"
  by (cases "k @ s") (auto simp: starts_with_iff, metis)

lemma find_in_shown:
  assumes "length k = 3" "hd k = CHR ''%''" "\<forall>(f, c)\<in>set ts. url_char c"
  shows "find_str k (shown ts) = None \<longleftrightarrow> (\<forall>(f, c)\<in>set ts. f \<or> esc c \<noteq> k)"
    and "find_str k (shown ts) = Some p \<Longrightarrow>
      \<exists>xs c ys. ts = xs @ (False, c) # ys \<and> esc c = k \<and> length (shown xs) = p"
proof -
  obtain x y where k: "k = [CHR ''%'', x, y]"
    using assms(1,2) by (cases k; cases "tl k"; cases "tl (tl k)") auto
  have skip: "c \<noteq> CHR ''%'' \<Longrightarrow> find_str k (c # s) = map_option Suc (find_str k s)" for c s
    by (simp add: k)
  have "(find_str k (shown ts) = None \<longleftrightarrow> (\<forall>(f, c)\<in>set ts. f \<or> esc c \<noteq> k)) \<and>
    (\<forall>p. find_str k (shown ts) = Some p \<longrightarrow>
      (\<exists>xs c ys. ts = xs @ (False, c) # ys \<and> esc c = k \<and> length (shown xs) = p))"
    using assms(3)
  proof (induction ts)
    case Nil
    show ?case by (simp add: k)
  next
    case (Cons t ts)
    obtain f c where t: "t = (f, c)" by (cases t)
    have c: "url_char c" using Cons.prems t by simp
    have IH: "find_str k (shown ts) = None \<longleftrightarrow> (\<forall>(f, c)\<in>set ts. f \<or> esc c \<noteq> k)"
      "\<And>p. find_str k (shown ts) = Some p \<Longrightarrow> \<exists>xs c ys. ts = xs @ (False, c) # ys \<and> esc c = k \<and> length (shown xs) = p"
      using Cons by auto
    obtain a b where e: "esc c = [CHR ''%'', a, b]" "isxdigit a" "isxdigit b" using esc_two_digits [OF c] .
    have more: "\<exists>xs d ys. t # ts = xs @ (False, d) # ys \<and> esc d = k \<and> length (shown xs) = length (shown [t]) + q"
      if "find_str k (shown ts) = Some q" for q
    proof -
      from IH(2) [OF that] obtain xs d ys where "ts = xs @ (False, d) # ys" "esc d = k" "length (shown xs) = q"
        by blast
      then show ?thesis
        using t by (intro exI [of _ "t # xs"] exI [of _ d] exI [of _ ys]) (cases f; simp)
    qed
    consider "f" | "\<not> f" "esc c = k" | "\<not> f" "esc c \<noteq> k" by blast
    then show ?case
    proof cases
      case 1
      have "find_str k (shown (t # ts)) = map_option Suc (find_str k (shown ts))"
        using 1 t c skip by (simp add: url_char_def)
      then show ?thesis using 1 t IH(1) more by auto
    next
      case 2
      then have "find_str k (shown (t # ts)) = Some 0" using t by (simp add: find_str_here)
      then show ?thesis using 2 t by (auto intro!: exI [of _ "[]"])
    next
      case 3
      have "\<not> starts_with k (CHR ''%'' # a # b # shown ts)" using 3(2) e(1) by (auto simp: k)
      then have "find_str k (CHR ''%'' # a # b # shown ts) = map_option Suc (find_str k (a # b # shown ts))"
        by (simp only: find_str.simps if_False)
      then have "find_str k (shown (t # ts)) = map_option (\<lambda>n. Suc (Suc (Suc n))) (find_str k (shown ts))"
        using 3(1) t e(1) unfolding skip [OF isxdigit_not_percent [OF e(2)]] skip [OF isxdigit_not_percent [OF e(3)]]
        by (simp add: option.map_comp comp_def)
      then show ?thesis using 3 t IH(1) more e(1) by auto
    qed
  qed
  then show "find_str k (shown ts) = None \<longleftrightarrow> (\<forall>(f, c)\<in>set ts. f \<or> esc c \<noteq> k)"
    "find_str k (shown ts) = Some p \<Longrightarrow> \<exists>xs c ys. ts = xs @ (False, c) # ys \<and> esc c = k \<and> length (shown xs) = p"
    by blast+
qed

lemma shown_append_flag: "shown (xs @ (True, c) # ys) = shown xs @ c # shown ys"
  by simp

text \<open>A replacement that stands for the right character marks every occurrence of its key.\<close>

definition right_entry :: "string \<Rightarrow> string \<Rightarrow> bool" where
  "right_entry k r = (length k = 3 \<and> hd k = CHR ''%'' \<and> (\<exists>c. r = [c] \<and> (\<forall>d. url_char d \<and> esc d = k \<longrightarrow> d = c)))"

lemma mark_none: "\<forall>(f, c)\<in>set ts. f \<or> esc c \<noteq> k \<Longrightarrow> mark k ts = ts"
  by (induction ts) (auto simp: mark_def)

lemma set_mark: "(\<forall>(f, c)\<in>set ts. url_char c) \<Longrightarrow> (\<forall>(f, c)\<in>set (mark k ts). url_char c)"
  by (auto simp: mark_def)

lemma replace_loop_marks:
  assumes "right_entry k r"
  shows "\<forall>(f, c)\<in>set ts. url_char c \<Longrightarrow> replace_loop k r (shown ts) = Some (shown (mark k ts))"
proof (induction "length (filter (\<lambda>t. \<not> fst t) ts)" arbitrary: ts rule: less_induct)
  case less
  from assms obtain c where k: "length k = 3" "hd k = CHR ''%''" and r: "r = [c]"
    and u: "\<And>d. url_char d \<Longrightarrow> esc d = k \<Longrightarrow> d = c"
    by (auto simp: right_entry_def)
  show ?case
  proof (cases "find_str k (shown ts)")
    case None
    then have "mark k ts = ts" using find_in_shown(1) [OF k less.prems] by (intro mark_none) simp
    with None show ?thesis by (subst replace_loop.simps) simp
  next
    case (Some p)
    from find_in_shown(2) [OF k less.prems Some] obtain xs d ys
      where ts: "ts = xs @ (False, d) # ys" "esc d = k" "length (shown xs) = p" by blast
    have d: "d = c" using u ts less.prems by auto
    let ?ts = "xs @ (True, c) # ys"
    have "replace_loop k r (shown ?ts) = Some (shown (mark k ?ts))"
      using less.prems ts d by (intro less.hyps) auto
    moreover have "take p (shown ts) @ r @ drop (p + length k) (shown ts) = shown ?ts"
      using ts r by simp
    moreover have "mark k ?ts = mark k ts" using ts d by (simp add: mark_def)
    ultimately show ?thesis using Some by (subst replace_loop.simps) simp
  qed
qed

lemma replace_table_marks:
  "\<forall>(k, r)\<in>set tb. right_entry k r \<Longrightarrow> \<forall>(f, c)\<in>set ts. url_char c \<Longrightarrow>
    replace_table tb (shown ts) = Some (shown (map (\<lambda>(f, c). (f \<or> esc c \<in> fst ` set tb, c)) ts))"
proof (induction tb arbitrary: ts)
  case Nil
  then show ?case by (simp add: case_prod_unfold)
next
  case (Cons e tb)
  obtain k r where e: "e = (k, r)" by (cases e)
  then have "replace_loop k r (shown ts) = Some (shown (mark k ts))"
    using Cons.prems by (intro replace_loop_marks) auto
  moreover have "map (\<lambda>(f, c). (f \<or> esc c \<in> fst ` set tb, c)) (mark k ts) =
      map (\<lambda>(f, c). (f \<or> esc c \<in> fst ` set (e # tb), c)) ts"
    using e by (auto simp: mark_def)
  ultimately show ?case
    using Cons.IH [of "mark k ts"] Cons.prems set_mark [of ts k] e by simp
qed

subsection \<open>The table of escapes\<close>

lemma hex_case: "n < 16 \<Longrightarrow> tolower (hex_digit n) = hex_digit n"
  "isxdigit c \<Longrightarrow> xdigit_val (toupper c) = xdigit_val c"
proof -
  show "n < 16 \<Longrightarrow> tolower (hex_digit n) = hex_digit n"
    by (auto simp: tolower_def code_hex_digit)
  have "n < 256 \<Longrightarrow> code (char_of n) = n" for n :: nat by (simp add: code_def)
  then have "code (char_of (code c - 32)) = code c - 32" using code_less_256 [of c] less_imp_diff_less by blast
  then show "isxdigit c \<Longrightarrow> xdigit_val (toupper c) = xdigit_val c"
    by (auto simp: toupper_def xdigit_val_def isxdigit_def isdigit_def)
qed

lemma escape_of_digits:
  "i < 256 \<Longrightarrow> escape_of i = [CHR ''%'', hex_digit (i div 16), hex_digit (i mod 16)]"
proof -
  assume i: "i < 256"
  then have "i div 16 < 16" by (simp add: less_mult_imp_div_less)
  then have "show_hex i = (if i < 16 then [hex_digit i] else [hex_digit (i div 16), hex_digit (i mod 16)])"
    using i by (subst show_hex.simps, subst show_hex.simps) simp
  moreover have "hex_digit 0 = CHR ''0''" by code_simp
  ultimately show ?thesis by (simp add: escape_of_def Let_def)
qed

lemma urlism_right:
  assumes "lowers h" "uppers h" "(k, r) \<in> set (urlism h)"
  shows "right_entry k r"
proof -
  from urlism_entries [OF assms(3)] obtain i where i: "i < 256" "r = [char_of i]"
    "k = map tolower (escape_of i) \<or> k = map toupper (escape_of i)"
    using assms(1,2) by (auto simp: lowers_def uppers_def)
  have p: "tolower (CHR ''%'') = CHR ''%''" "toupper (CHR ''%'') = CHR ''%''" by code_simp+
  obtain a b where k: "k = [CHR ''%'', a, b]" and v: "xdigits_val [a, b] = i"
    using i p hex_case escape_of_digits [OF i(1)] by (auto simp: xdigits_val_def)
  have "d = char_of i" if "url_char d" "esc d = k" for d
  proof -
    have "code d = i" using esc_two_digits [OF that(1)] that(2) k v by (metis list.inject)
    then show ?thesis by (metis char_of_char code_def)
  qed
  then show ?thesis using k i by (simp add: right_entry_def)
qed

lemma urlism_has:
  assumes "lowers h" "url_char c"
  shows "esc c \<in> fst ` set (urlism h)"
proof -
  have c: "16 \<le> code c" "code c < 128" using assms by (simp_all add: url_char_def)
  have s: "show_hex (code c) = [hex_digit (code c div 16), hex_digit (code c mod 16)]"
    using c by (subst show_hex.simps, subst show_hex.simps) simp
  have "tolower (CHR ''%'') = CHR ''%''" by code_simp
  then have "h_lower h (escape_of (code c)) = esc c"
    using assms(1) c s hex_case(1) by (simp add: lowers_def escape_of_digits esc_def hex_char_def schar_def)
  then show ?thesis using urlism_keys [of "code c" h] c by simp
qed

text \<open>C21: Decoding an encoded URL gives the URL back, as long as its characters are ASCII, at least 16
  and not the percent sign.\<close>

theorem url_round_trip:
  assumes "lowers h" "uppers h" "\<forall>c\<in>set url. url_char c"
  shows "urldecode h (urlencode url) = Some url"
proof -
  let ?ts = "map (\<lambda>c. (isalnum c, c)) url"
  have "urlencode url = shown ?ts"
    by (induction url) (simp_all add: urlencode_def shown_def esc_def)
  moreover have "replace_table (urlism h) (shown ?ts) =
      Some (shown (map (\<lambda>(f, c). (f \<or> esc c \<in> fst ` set (urlism h), c)) ?ts))"
    using urlism_right [OF assms(1,2)] assms(3) by (intro replace_table_marks) auto
  moreover have "map (\<lambda>(f, c). (f \<or> esc c \<in> fst ` set (urlism h), c)) ?ts = map (Pair True) url"
    using urlism_has [OF assms(1)] assms(3) by simp
  moreover have "shown (map (Pair True) url) = url" by (induction url) simp_all
  ultimately show ?thesis by (simp only: urldecode_def)
qed

theorem url_round_trip_witness:
  "urldecode hol_ref (urlencode ''a b&c=/d'') = Some ''a b&c=/d''"
proof (rule url_round_trip [OF hol_ref_ok(3,7)])
  show "\<forall>c\<in>set ''a b&c=/d''. url_char c" by code_simp
qed

text \<open>Below 16 the escape has one digit only and runs into the next character: two URLs have the
  same encoding.\<close>

lemma urlencode_not_injective: "urlencode [CHR 0x02, CHR ''0''] = urlencode '' ''"
  by code_simp

text \<open>A byte of a multi-byte character is negative as a \<open>char\<close> and is encoded with eight digits.\<close>

lemma urlencode_utf8: "urlencode [CHR 0xC3] = ''%ffffffc3''"
proof -
  have "hex_digit 15 = CHR ''f''" "hex_digit 12 = CHR ''c''" "hex_digit 3 = CHR ''3''" by code_simp+
  then have "show_hex 4294967235 = ''ffffffc3''" by (simp add: show_hex.simps)
  moreover have "schar (CHR 0xC3) mod 2 ^ 32 = 4294967235" "\<not> isalnum (CHR 0xC3)"
    by (simp_all add: schar_def isalnum_def isalpha_def isdigit_def code_def)
  ultimately show ?thesis by (simp add: urlencode_def hex_char_def)
qed

text \<open>The numeric entity of \<open><\<close> becomes \<open>>\<close>, and text that was escaped twice is unescaped twice.\<close>

lemma entity_faults: "fix_entities ''&#60;'' = Some ''>''" "fix_entities ''&amp;lt;'' = Some ''<''"
  by (simp_all add: fix_entities_def ents_sorted replace_loop_step)

end
