(* ===== verification/Bot_Db.thy ===== *)
theory Bot_Db
  imports Streams Std_Map
begin

text \<open>
  The database of the plugins (\<open>botdb.h\<close>, \<open>botdb.cpp\<close>): one file per key, a line per value, with
  the values kept in memory and written when the transaction ends.  The file system is a
  record; \<open>fs_path\<close> is the name \<open>fs::path\<close> builds for a key of a plugin.
\<close>

record filesys =
  fs_text :: "string \<Rightarrow> string option"
  fs_writable :: "string \<Rightarrow> bool"
  fs_path :: "string \<Rightarrow> string \<Rightarrow> string"

record botdb =
  bd_plugin :: string
  bd_changed :: "string cset"
  bd_data :: "(string, string list) cmap"

datatype db_error = Bad_Index

definition new_botdb :: "string \<Rightarrow> botdb" where
  "new_botdb plugin_id = \<lparr>bd_plugin = plugin_id, bd_changed = [], bd_data = []\<rparr>"

subsection \<open>Values\<close>

text \<open>\<open>str_vec& get(key)\<close>: a key that is not there is inserted.\<close>

definition bd_at :: "string \<Rightarrow> botdb \<Rightarrow> string list" where
  "bd_at key s = cm_at str_lt [] key (bd_data s)"

definition bd_touch :: "string \<Rightarrow> botdb \<Rightarrow> botdb" where
  "bd_touch key s = s\<lparr>bd_data := cm_touch str_lt [] key (bd_data s)\<rparr>"

definition bd_put :: "string \<Rightarrow> string list \<Rightarrow> botdb \<Rightarrow> botdb" where
  "bd_put key v s = s\<lparr>bd_data := cm_set str_lt key v (bd_data s)\<rparr>"

text \<open>\<open>v.resize(n)\<close>: shortened or filled up with empty strings.\<close>

definition resize :: "nat \<Rightarrow> string list \<Rightarrow> string list" where
  "resize n v = take n v @ replicate (n - length v) []"

text \<open>\<open>set\<close>; the index after the resizing is out of range when \<open>idx + 1\<close> wraps around.\<close>

definition db_set :: "string \<Rightarrow> string \<Rightarrow> siz \<Rightarrow> botdb \<Rightarrow> db_error + botdb" where
  "db_set key val idx s =
     (let v = resize (unat (idx + 1)) (bd_at key s)
      in if unat idx < length v
         then (let s1 = bd_put key (v[unat idx := val]) s
               in Inr (s1\<lparr>bd_changed := cs_insert str_lt key (bd_changed s1)\<rparr>))
         else Inl Bad_Index)"

definition db_add :: "string \<Rightarrow> string \<Rightarrow> botdb \<Rightarrow> botdb" where
  "db_add key val s =
     (let s1 = bd_put key (bd_at key s @ [val]) s
      in s1\<lparr>bd_changed := cs_insert str_lt key (bd_changed s1)\<rparr>)"

definition db_get :: "string \<Rightarrow> string \<Rightarrow> botdb \<Rightarrow> string \<times> botdb" where
  "db_get key dflt s =
     (let s1 = bd_touch key s; v = bd_at key s1 in (if v = [] then dflt else hd v, s1))"

definition db_get_all :: "string \<Rightarrow> botdb \<Rightarrow> string list \<times> botdb" where
  "db_get_all key s = (bd_at key s, bd_touch key s)"

subsection \<open>Files\<close>

definition db_file :: "string \<Rightarrow> botdb \<Rightarrow> filesys \<Rightarrow> string" where
  "db_file key s fs = fs_path fs (bd_plugin s) key"

definition load_key :: "string \<Rightarrow> filesys \<Rightarrow> botdb \<Rightarrow> botdb" where
  "load_key key fs s =
     (let s1 = bd_put key [] s
      in case fs_text fs (db_file key s fs) of
           None \<Rightarrow> s1
         | Some t \<Rightarrow> bd_put key (lines_of (str_stream t)) s1)"

definition save_key :: "string \<Rightarrow> filesys \<times> botdb \<Rightarrow> filesys \<times> botdb" where
  "save_key key = (\<lambda>(fs, s).
     if fs_writable fs (db_file key s fs)
     then (fs\<lparr>fs_text := (fs_text fs)(db_file key s fs \<mapsto> lines_text (bd_at key s))\<rparr>, bd_touch key s)
     else (fs, s))"

definition db_load :: "filesys \<Rightarrow> botdb \<Rightarrow> botdb" where
  "db_load fs s = (fold (\<lambda>k. load_key k fs) (bd_changed s) s)\<lparr>bd_changed := []\<rparr>"

definition db_save :: "filesys \<times> botdb \<Rightarrow> filesys \<times> botdb" where
  "db_save = (\<lambda>(fs, s).
     case fold save_key (bd_changed s) (fs, s) of (fs1, s1) \<Rightarrow> (fs1, s1\<lparr>bd_changed := []\<rparr>))"

subsection \<open>Transactions\<close>

text \<open>
  The constructor of \<open>Transaction\<close> loads what is marked as changed, its destructor saves or,
  with \<open>rollback\<close> set, loads.  No code sets \<open>rollback\<close>.
\<close>

record transaction =
  tx_rollback :: bool

definition begin_tx :: "filesys \<Rightarrow> botdb \<Rightarrow> transaction \<times> botdb" where
  "begin_tx fs s = (\<lparr>tx_rollback = False\<rparr>, db_load fs s)"

definition end_tx :: "transaction \<Rightarrow> filesys \<times> botdb \<Rightarrow> filesys \<times> botdb" where
  "end_tx tx = (\<lambda>(fs, s). if tx_rollback tx then (fs, db_load fs s) else db_save (fs, s))"

datatype db_op = Op_Set string string siz | Op_Add string string | Op_Get string string | Op_Get_All string

fun db_run :: "db_op list \<Rightarrow> botdb \<Rightarrow> db_error + botdb" where
  "db_run [] s = Inr s"
| "db_run (Op_Set k v i # ops) s = (case db_set k v i s of Inl e \<Rightarrow> Inl e | Inr s1 \<Rightarrow> db_run ops s1)"
| "db_run (Op_Add k v # ops) s = db_run ops (db_add k v s)"
| "db_run (Op_Get k d # ops) s = db_run ops (snd (db_get k d s))"
| "db_run (Op_Get_All k # ops) s = db_run ops (snd (db_get_all k s))"

text \<open>A transaction that runs the operations \<open>ops\<close>.\<close>

definition db_transact :: "db_op list \<Rightarrow> filesys \<times> botdb \<Rightarrow> db_error + (filesys \<times> botdb)" where
  "db_transact ops = (\<lambda>(fs, s).
     case begin_tx fs s of (tx, s1) \<Rightarrow>
       (case db_run ops s1 of Inl e \<Rightarrow> Inl e | Inr s2 \<Rightarrow> Inr (end_tx tx (fs, s2))))"

text \<open>\<open>BotDb::instance\<close>: one database per plugin, made at its first use.\<close>

definition db_instance :: "string \<Rightarrow> (string, botdb) cmap \<Rightarrow> botdb \<times> (string, botdb) cmap" where
  "db_instance plugin_id dbs =
     (let dbs1 = cm_touch str_lt (new_botdb plugin_id) plugin_id dbs
      in (cm_at str_lt (new_botdb plugin_id) plugin_id dbs1, dbs1))"

subsection \<open>Lemmas\<close>

lemma bd_at_put [simp]: "bd_at k (bd_put k' v s) = (if k = k' then v else bd_at k s)"
  by (auto simp: bd_at_def bd_put_def str_cmp.at_set)

lemma bd_at_touch [simp]: "bd_at k (bd_touch k' s) = bd_at k s"
  by (simp add: bd_at_def bd_touch_def str_cmp.at_touch)

lemma bd_frames [simp]:
  "bd_changed (bd_put k v s) = bd_changed s" "bd_changed (bd_touch k s) = bd_changed s"
  "bd_plugin (bd_put k v s) = bd_plugin s" "bd_plugin (bd_touch k s) = bd_plugin s"
  "bd_at k (bd_changed_update f s) = bd_at k s"
  by (simp_all add: bd_put_def bd_touch_def bd_at_def)

text \<open>What a sequence of operations means for the values, without the map and the marks.\<close>

fun op_values :: "db_op \<Rightarrow> (string \<Rightarrow> string list) \<Rightarrow> string \<Rightarrow> string list" where
  "op_values (Op_Set k v i) m = m(k := (resize (Suc (unat i)) (m k))[unat i := v])"
| "op_values (Op_Add k v) m = m(k := m k @ [v])"
| "op_values (Op_Get k d) m = m"
| "op_values (Op_Get_All k) m = m"

fun op_writes :: "db_op \<Rightarrow> string set" where
  "op_writes (Op_Set k v i) = {k}"
| "op_writes (Op_Add k v) = {k}"
| "op_writes (Op_Get k d) = {}"
| "op_writes (Op_Get_All k) = {}"

fun op_ok :: "db_op \<Rightarrow> bool" where
  "op_ok (Op_Set k v i) = (LF \<notin> set v \<and> i \<noteq> siz_max)"
| "op_ok (Op_Add k v) = (LF \<notin> set v)"
| "op_ok op = True"

lemma siz_Suc: "i \<noteq> siz_max \<Longrightarrow> unat (i + 1) = Suc (unat i)"
proof -
  assume "i \<noteq> siz_max"
  then have "1 + i \<noteq> 0" unfolding siz_max_def by (metis add.commute add_eq_0_iff)
  then show ?thesis using unatSuc [of i] by (simp add: add.commute)
qed

lemma length_resize [simp]: "length (resize n v) = n"
  by (simp add: resize_def)

lemma set_resize: "set (resize n v) \<subseteq> insert [] (set v)"
  by (auto simp: resize_def dest: in_set_takeD)

lemma db_run_values:
  "list_all op_ok ops \<Longrightarrow> \<exists>s'. db_run ops s = Inr s' \<and> bd_plugin s' = bd_plugin s \<and>
     set (bd_changed s') = set (bd_changed s) \<union> \<Union> (op_writes ` set ops) \<and>
     (\<forall>k. bd_at k s' = fold op_values ops (\<lambda>k. bd_at k s) k)"
proof (induction ops arbitrary: s)
  case (Cons op ops)
  have "\<exists>s1. db_run (op # ops) s = db_run ops s1 \<and> bd_plugin s1 = bd_plugin s \<and>
     set (bd_changed s1) = set (bd_changed s) \<union> op_writes op \<and>
     (\<lambda>k. bd_at k s1) = op_values op (\<lambda>k. bd_at k s)"
  proof (cases op)
    case (Op_Set k v i)
    have u: "unat (i + 1) = Suc (unat i)"
      using Cons.prems Op_Set by (simp add: siz_Suc)
    show ?thesis
      unfolding Op_Set by (auto simp: db_set_def Let_def u fun_eq_iff)
  next
    case (Op_Add k v)
    then show ?thesis by (auto simp: db_add_def Let_def fun_eq_iff)
  next
    case (Op_Get k d)
    then show ?thesis by (auto simp: db_get_def Let_def)
  next
    case (Op_Get_All k)
    then show ?thesis by (auto simp: db_get_all_def)
  qed
  then obtain s1 where s1: "db_run (op # ops) s = db_run ops s1" "bd_plugin s1 = bd_plugin s"
     "set (bd_changed s1) = set (bd_changed s) \<union> op_writes op"
     "(\<lambda>k. bd_at k s1) = op_values op (\<lambda>k. bd_at k s)" by blast
  moreover from Cons.IH [of s1] Cons.prems obtain s' where "db_run ops s1 = Inr s'" "bd_plugin s' = bd_plugin s1"
    "set (bd_changed s') = set (bd_changed s1) \<union> \<Union> (op_writes ` set ops)"
    "\<forall>k. bd_at k s' = fold op_values ops (\<lambda>k. bd_at k s1) k"
    unfolding list.pred_inject by blast
  ultimately show ?case by (intro exI [of _ s']) (simp add: Un_assoc)
qed simp

lemma save_all:
  assumes "inj (fs_path fs (bd_plugin s))" "\<forall>k\<in>set ks. fs_writable fs (db_file k s fs)"
  shows "\<exists>fs' s'. fold save_key ks (fs, s) = (fs', s') \<and> (\<forall>k. bd_at k s' = bd_at k s) \<and>
     bd_plugin s' = bd_plugin s \<and> bd_changed s' = bd_changed s \<and> fs_path fs' = fs_path fs \<and>
     (\<forall>k\<in>set ks. fs_text fs' (db_file k s fs) = Some (lines_text (bd_at k s))) \<and>
     (\<forall>f. f \<notin> (\<lambda>k. db_file k s fs) ` set ks \<longrightarrow> fs_text fs' f = fs_text fs f)"
  using assms
proof (induction ks arbitrary: fs s)
  case (Cons k ks)
  let ?fs = "fs\<lparr>fs_text := (fs_text fs)(db_file k s fs \<mapsto> lines_text (bd_at k s))\<rparr>"
  have d: "db_file x (bd_touch k s) ?fs = db_file x s fs" for x by (simp add: db_file_def)
  have i: "db_file x s fs = db_file y s fs \<longleftrightarrow> x = y" for x y
    using Cons.prems(1) by (auto simp: db_file_def dest: injD)
  have e: "fold save_key (k # ks) (fs, s) = fold save_key ks (?fs, bd_touch k s)"
    using Cons.prems(2) by (simp add: save_key_def)
  have "inj (fs_path ?fs (bd_plugin (bd_touch k s)))" using Cons.prems(1) by simp
  moreover have "\<forall>x\<in>set ks. fs_writable ?fs (db_file x (bd_touch k s) ?fs)"
    unfolding d using Cons.prems(2) by simp
  ultimately obtain fs' s' where r: "fold save_key ks (?fs, bd_touch k s) = (fs', s')"
    "\<forall>x. bd_at x s' = bd_at x s" "bd_plugin s' = bd_plugin s" "bd_changed s' = bd_changed s" "fs_path fs' = fs_path fs"
    "\<forall>x\<in>set ks. fs_text fs' (db_file x s fs) = Some (lines_text (bd_at x s))"
    "\<forall>f. f \<notin> (\<lambda>x. db_file x s fs) ` set ks \<longrightarrow> fs_text fs' f = fs_text ?fs f"
    using Cons.IH [of ?fs "bd_touch k s"] unfolding d by auto
  have "fs_text fs' (db_file k s fs) = Some (lines_text (bd_at k s))"
  proof (cases "k \<in> set ks")
    case False
    then have "db_file k s fs \<notin> (\<lambda>x. db_file x s fs) ` set ks" by (auto simp: i)
    with r(7) show ?thesis by simp
  qed (use r(6) in simp)
  moreover have "fs_text fs' f = fs_text fs f" if "f \<notin> (\<lambda>x. db_file x s fs) ` set (k # ks)" for f
    using r(7) that by auto
  ultimately show ?case unfolding e using r by (intro exI [of _ fs'] exI [of _ s']) simp
qed simp

text \<open>C6: A transaction, begun when no key is marked as changed, over operations whose values have no line feed and whose indices are not the
  largest number, on values that have no line feed, in a file system that gives every key a file of its own and
  lets those the transaction writes be written: it does to the values exactly what its operations say, and when it
  ends every key it wrote is on disk, one line per value, so that reading the file gives the values back; the files of
  the other keys are as they were.\<close>

theorem transaction_durable:
  assumes "list_all op_ok ops" "bd_changed s = []" "\<forall>k. \<forall>v\<in>set (bd_at k s). LF \<notin> set v"
    and "inj (fs_path fs (bd_plugin s))"
    and "\<forall>k\<in>\<Union> (op_writes ` set ops). fs_writable fs (db_file k s fs)"
  shows "\<exists>fs' s'. db_transact ops (fs, s) = Inr (fs', s') \<and> bd_changed s' = [] \<and>
     (\<forall>k. bd_at k s' = fold op_values ops (\<lambda>k. bd_at k s) k) \<and>
     (\<forall>k\<in>\<Union> (op_writes ` set ops). bd_at k (load_key k fs' (new_botdb (bd_plugin s))) = bd_at k s') \<and>
     (\<forall>k. k \<notin> \<Union> (op_writes ` set ops) \<longrightarrow> fs_text fs' (db_file k s fs) = fs_text fs (db_file k s fs))"
proof -
  have l: "db_load fs s = s" using assms(2) by (simp add: db_load_def)
  obtain s2 where s2: "db_run ops s = Inr s2" "bd_plugin s2 = bd_plugin s"
    "set (bd_changed s2) = \<Union> (op_writes ` set ops)" "\<forall>k. bd_at k s2 = fold op_values ops (\<lambda>k. bd_at k s) k"
    using db_run_values [OF assms(1), of s] assms(2) by auto
  have f: "db_file k s2 fs = db_file k s fs" for k using s2(2) by (simp add: db_file_def)
  have "inj (fs_path fs (bd_plugin s2))" using assms(4) s2(2) by simp
  moreover have "\<forall>k\<in>set (bd_changed s2). fs_writable fs (db_file k s2 fs)" using assms(5) s2(3) f by simp
  ultimately obtain fs' s' where r: "fold save_key (bd_changed s2) (fs, s2) = (fs', s')"
    "\<forall>k. bd_at k s' = bd_at k s2" "fs_path fs' = fs_path fs"
    "\<forall>k\<in>set (bd_changed s2). fs_text fs' (db_file k s fs) = Some (lines_text (bd_at k s2))"
    "\<forall>x. x \<notin> (\<lambda>k. db_file k s fs) ` set (bd_changed s2) \<longrightarrow> fs_text fs' x = fs_text fs x"
    using save_all [of fs s2 "bd_changed s2"] unfolding f by blast
  have t: "db_transact ops (fs, s) = Inr (fs', s'\<lparr>bd_changed := []\<rparr>)"
    by (simp add: db_transact_def begin_tx_def l s2(1) end_tx_def db_save_def r(1))
  have noLF: "\<forall>k. \<forall>v\<in>set (fold op_values ops m k). LF \<notin> set v"
    if "\<forall>k. \<forall>v\<in>set (m k). LF \<notin> set v" "list_all op_ok ops" for m
    using that
  proof (induction ops arbitrary: m)
    case (Cons op ops)
    have "\<forall>k. \<forall>v\<in>set (op_values op m k). LF \<notin> set v"
    proof (cases op)
      case (Op_Set k v i)
      then show ?thesis
        using Cons.prems set_resize [of "Suc (unat i)" "m k"] by (auto dest!: set_update_subset_insert [THEN subsetD])
    qed (use Cons.prems in auto)
    with Cons show ?case by simp
  qed simp
  have rd: "bd_at k (load_key k fs' (new_botdb (bd_plugin s))) = bd_at k s'"
    if k: "k \<in> \<Union> (op_writes ` set ops)" for k
  proof -
    have "fs_text fs' (db_file k (new_botdb (bd_plugin s)) fs') = Some (lines_text (bd_at k s2))"
      using r(4) k unfolding s2(3) by (simp only: db_file_def new_botdb_def r(3) botdb.select_convs)
    moreover have "\<forall>v\<in>set (bd_at k s2). LF \<notin> set v" using noLF [OF assms(3,1)] s2(4) by simp
    ultimately show ?thesis using r(2) by (simp add: load_key_def lines_of_text)
  qed
  have "fs_text fs' (db_file k s fs) = fs_text fs (db_file k s fs)" if "k \<notin> \<Union> (op_writes ` set ops)" for k
    using r(5) that s2(3) assms(4) by (auto simp: db_file_def dest: injD)
  with t rd r(2) s2(4) show ?thesis by (intro exI [of _ fs'] exI [of _ "s'\<lparr>bd_changed := []\<rparr>"]) simp
qed

text \<open>A database that has just been made never reads its files: the first value it adds to a key
  replaces whatever an earlier run of the bot had stored there.\<close>

theorem restart_forgets:
  assumes "fs_writable fs (fs_path fs pid key)"
  shows "\<exists>s'. db_transact [Op_Add key val] (fs, new_botdb pid) =
    Inr (fs\<lparr>fs_text := (fs_text fs)(fs_path fs pid key \<mapsto> val @ [LF])\<rparr>, s')"
  using assms
  by (simp add: db_transact_def begin_tx_def db_load_def new_botdb_def db_add_def end_tx_def db_save_def
      save_key_def db_file_def bd_at_def bd_put_def cm_at_def str_cmp.irrefl)

definition demo_fs :: filesys where
  "demo_fs = \<lparr>fs_text = (\<lambda>_. Some ''old''), fs_writable = (\<lambda>_. True), fs_path = (\<lambda>p k. p @ ''/'' @ k)\<rparr>"

theorem restart_forgets_witness:
  "\<exists>s'. db_transact [Op_Add ''k'' ''v''] (demo_fs, new_botdb ''p'') =
    Inr (demo_fs\<lparr>fs_text := (fs_text demo_fs)(fs_path demo_fs ''p'' ''k'' \<mapsto> ''v'' @ [LF])\<rparr>, s')"
  by (rule restart_forgets) (simp add: demo_fs_def)

theorem transaction_durable_witness:
  "\<exists>fs' s'. db_transact [Op_Add ''k'' ''a'', Op_Set ''j'' ''b'' 0] (demo_fs, new_botdb ''p'') = Inr (fs', s') \<and>
     bd_changed s' = [] \<and> bd_at ''k'' s' = [''a''] \<and> bd_at ''j'' s' = [''b''] \<and>
     bd_at ''k'' (load_key ''k'' fs' (new_botdb ''p'')) = [''a''] \<and>
     bd_at ''j'' (load_key ''j'' fs' (new_botdb ''p'')) = [''b''] \<and>
     fs_text fs' ''p/z'' = Some ''old''"
proof -
  let ?ops = "[Op_Add ''k'' ''a'', Op_Set ''j'' ''b'' 0]" and ?s = "new_botdb ''p''"
  have "list_all op_ok ?ops" "bd_changed ?s = []" "\<forall>k. \<forall>v\<in>set (bd_at k ?s). LF \<notin> set v"
    "inj (fs_path demo_fs (bd_plugin ?s))" "\<forall>k\<in>\<Union> (op_writes ` set ?ops). fs_writable demo_fs (db_file k ?s demo_fs)"
    by (simp_all add: char_consts siz_max_def new_botdb_def bd_at_def cm_at_def demo_fs_def inj_def)
  then obtain fs' s' where r: "db_transact ?ops (demo_fs, ?s) = Inr (fs', s')" "bd_changed s' = []"
    "\<forall>k. bd_at k s' = fold op_values ?ops (\<lambda>k. bd_at k ?s) k"
    "\<forall>k\<in>\<Union> (op_writes ` set ?ops). bd_at k (load_key k fs' (new_botdb (bd_plugin ?s))) = bd_at k s'"
    "\<forall>k. k \<notin> \<Union> (op_writes ` set ?ops) \<longrightarrow> fs_text fs' (db_file k ?s demo_fs) = fs_text demo_fs (db_file k ?s demo_fs)"
    using transaction_durable [of ?ops ?s demo_fs] by blast
  have "bd_at ''k'' s' = [''a'']" "bd_at ''j'' s' = [''b'']"
    using r(3) by (simp_all add: new_botdb_def bd_at_def cm_at_def resize_def)
  moreover have "fs_text fs' ''p/z'' = Some ''old''"
    using r(5) [rule_format, of "''z''"] by (simp add: new_botdb_def db_file_def demo_fs_def)
  ultimately show ?thesis using r(1,2,4) by (intro exI [of _ fs'] exI [of _ s']) (simp add: new_botdb_def)
qed

text \<open>\<open>set\<close> drops the values behind the index.\<close>

lemma set_truncates: "i \<noteq> siz_max \<Longrightarrow> unat i < length (bd_at k s) \<Longrightarrow>
  \<exists>s'. db_set k v i s = Inr s' \<and> bd_at k s' = take (unat i) (bd_at k s) @ [v]"
proof -
  assume i: "i \<noteq> siz_max" "unat i < length (bd_at k s)"
  then have "unat (i + 1) = Suc (unat i)" by (simp add: siz_Suc)
  moreover have "(resize (Suc (unat i)) (bd_at k s))[unat i := v] = take (unat i) (bd_at k s) @ [v]"
    using i(2) by (simp add: resize_def take_Suc_conv_app_nth list_update_append)
  ultimately show ?thesis by (simp add: db_set_def Let_def)
qed

end
