(* ===== verification/Prop_Store.thy ===== *)
theory Prop_Store
  imports Streams Std_Map
begin

text \<open>
  The property store with transactions (\<open>props.h\<close>): a map of committed and a map of uncommitted
  values, shared by all transactions.  A transaction commits when it is destroyed;
  \<open>rollback\<close> is private and no code calls it.
\<close>

record props =
  pr_m :: "(string, string) cmap"
  pr_t :: "(string, string) cmap"

definition new_props :: props where
  "new_props = \<lparr>pr_m = [], pr_t = []\<rparr>"

definition pr_get :: "string \<Rightarrow> string \<Rightarrow> props \<Rightarrow> string" where
  "pr_get s dflt p =
     (case cm_find str_lt s (pr_t p) of
        Some v \<Rightarrow> v
      | None \<Rightarrow> (case cm_find str_lt s (pr_m p) of Some v \<Rightarrow> v | None \<Rightarrow> dflt))"

definition pr_set :: "string \<Rightarrow> string \<Rightarrow> props \<Rightarrow> props" where
  "pr_set s v p = p\<lparr>pr_t := cm_set str_lt s v (pr_t p)\<rparr>"

definition pr_commit :: "props \<Rightarrow> props" where
  "pr_commit p = p\<lparr>pr_m := fold (\<lambda>(k, v). cm_set str_lt k v) (pr_t p) (pr_m p), pr_t := []\<rparr>"

definition pr_rollback :: "props \<Rightarrow> props" where
  "pr_rollback p = p\<lparr>pr_t := []\<rparr>"

text \<open>\<open>transaction::get_c\<close> into a vector of strings: the first word of each line.\<close>

definition pr_get_c :: "string \<Rightarrow> props \<Rightarrow> string list" where
  "pr_get_c s p =
     concat (map (\<lambda>line. case read_word [] (str_stream line) of (w, is1) \<Rightarrow> if ok is1 then [w] else [])
       (lines_of (str_stream (pr_get s [] p))))"

text \<open>\<open>transaction::get<siz>\<close> and \<open>transaction::set<siz>\<close>.\<close>

definition pr_get_siz :: "string \<Rightarrow> siz \<Rightarrow> props \<Rightarrow> siz" where
  "pr_get_siz s dflt p =
     (case read_siz 0 (str_stream (pr_get s [] p)) of (n, is1) \<Rightarrow> if ok is1 then n else dflt)"

definition pr_set_siz :: "string \<Rightarrow> siz \<Rightarrow> props \<Rightarrow> props" where
  "pr_set_siz s n p = pr_set s (show_nat (unat n)) p"

text \<open>What the holders of transactions do; \<open>P_End\<close> is the destruction of one.\<close>

datatype prop_op = P_Set string string | P_End

fun pr_step :: "prop_op \<Rightarrow> props \<Rightarrow> props" where
  "pr_step (P_Set s v) p = pr_set s v p"
| "pr_step P_End p = pr_commit p"

subsection \<open>Lemmas\<close>

definition pr_sorted :: "props \<Rightarrow> bool" where
  "pr_sorted p = (cm_sorted str_lt (pr_t p) \<and> cm_sorted str_lt (pr_m p))"

lemma find_fold_set:
  "cm_sorted str_lt t \<Longrightarrow> cm_find str_lt k (fold (\<lambda>(k, v). cm_set str_lt k v) t m) =
    (case cm_find str_lt k t of Some v \<Rightarrow> Some v | None \<Rightarrow> cm_find str_lt k m)"
proof (induction t arbitrary: m)
  case (Cons e t)
  obtain k1 v1 where e: "e = (k1, v1)" by (cases e)
  have s: "cm_sorted str_lt t" and a: "\<forall>b\<in>set t. str_lt k1 (fst b)" using Cons.prems e by (auto simp: cm_sorted_Cons)
  have n: "\<not> str_lt k1 k \<Longrightarrow> cm_find str_lt k t = None"
    using a str_cmp.neg_trans str_cmp.find_above by blast
  have "k1 = k" if "\<not> str_lt k1 k" "\<not> str_lt k k1" using that by (rule str_cmp.total)
  then show ?case using Cons.IH [OF s] n e str_cmp.irrefl by (auto simp: str_cmp.find_set split: option.splits)
qed simp

lemma sorted_fold_set: "cm_sorted str_lt m \<Longrightarrow> cm_sorted str_lt (fold (\<lambda>(k, v). cm_set str_lt k v) t m)"
  by (induction t arbitrary: m) (auto simp: str_cmp.sorted_set)

lemma pr_sorted_step: "pr_sorted p \<Longrightarrow> pr_sorted (pr_step op p)"
  by (cases op) (auto simp: pr_sorted_def pr_set_def pr_commit_def str_cmp.sorted_set sorted_fold_set)

lemma pr_get_commit: "pr_sorted p \<Longrightarrow> pr_get s d (pr_commit p) = pr_get s d p"
  by (simp add: pr_get_def pr_commit_def pr_sorted_def find_fold_set split: option.splits)

lemma pr_get_set: "pr_get s d (pr_set k v p) = (if s = k then v else pr_get s d p)"
  by (auto simp: pr_get_def pr_set_def str_cmp.find_set split: option.splits)

fun last_set :: "string \<Rightarrow> string \<Rightarrow> prop_op list \<Rightarrow> string" where
  "last_set s d [] = d"
| "last_set s d (P_Set k v # ops) = last_set s (if s = k then v else d) ops"
| "last_set s d (P_End # ops) = last_set s d ops"

text \<open>However the operations of all transactions are interleaved, a reader sees the value set last,
  committed or not: transactions are not isolated, and ending one commits what the others set.\<close>

theorem props_last_set:
  "pr_get s d (fold pr_step ops new_props) = last_set s d ops \<and> pr_t (fold pr_step (ops @ [P_End]) new_props) = []"
proof -
  have "pr_sorted p \<Longrightarrow> pr_get s d (fold pr_step ops p) = last_set s (pr_get s d p) ops" for p
  proof (induction ops arbitrary: p)
    case (Cons op ops)
    then show ?case using pr_sorted_step [of p op] by (cases op) (simp_all add: pr_get_set pr_get_commit)
  qed simp
  moreover have "pr_sorted new_props" "pr_get s d new_props = d"
    by (simp_all add: pr_sorted_def new_props_def pr_get_def)
  ultimately show ?thesis by (simp add: pr_commit_def)
qed

lemma props_siz_round_trip: "pr_get_siz s d (pr_set_siz s n p) = n"
proof -
  have n: "unat n < 2 ^ 64" using unsigned_less [of n, where ?'a = nat] by simp
  obtain x xs where sh: "show_nat (unat n) = x # xs" by (cases "show_nat (unat n)") auto
  then have d: "isdigit x" "\<forall>y\<in>set (show_nat (unat n)). isdigit y" using show_nat_digits [of _ "unat n"] by auto
  have ns: "\<not> isspace x" "x \<noteq> CHR ''-''" "x \<noteq> CHR ''+''"
    using d(1) isdigit_not_isspace by (auto simp: isdigit_def code_def)
  have dv: "digits_val (x # xs) = unat n" using digits_val_show_nat [of "unat n"] sh by simp
  have "takeWhile isdigit (show_nat (unat n)) = show_nat (unat n)" "dropWhile isdigit (show_nat (unat n)) = []"
    using d(2) by (simp_all add: takeWhile_eq_all_conv)
  then show ?thesis
    using n ns sh dv by (simp add: pr_get_siz_def pr_set_siz_def pr_get_set read_siz_def sentry_found split_sign_def Let_def
        del: dropWhile_eq_Nil_conv)
qed

end
