(* ===== verification/Timers.thy ===== *)
theory Timers
  imports Message Std_Map
begin

text \<open>
  The timers the plugins share (\<open>Timers.h\<close>, \<open>Timers.cpp\<close>): a set of users that a thread calls
  back every so often while the set is not empty.  \<open>RandomTimer\<close> identifies a user by an address,
  \<open>MessageTimer\<close> a message by the place its answer goes to; \<open>RandomTimer\<close> alone catches what a
  callback throws.  Both are one model with the comparator and \<open>catches\<close> as arguments.

  \<open>on\<close> assigns the future of the new thread to \<open>fut\<close>, which waits for the thread that was there
  before while it holds the mutex: \<open>tm_joining\<close>.  \<open>off\<close> waits ten seconds at most, so its wait is
  no step of the model: the thread may go on for any time.  A step is one member function up to
  its return or wait, or one turn of a thread.
\<close>

datatype thread = Calling | Waiting int | Ended

record 'u timer =
  tm_users :: "'u cset"
  tm_mindelay :: siz
  tm_maxdelay :: siz
  tm_threads :: "thread list"
  tm_joining :: bool
  tm_calls :: "'u list"

definition new_timer :: "'u timer" where
  "new_timer = \<lparr>tm_users = [], tm_mindelay = 1, tm_maxdelay = 60, tm_threads = [], tm_joining = False,
     tm_calls = []\<rparr>"

text \<open>The copy constructor copies the delays only.\<close>

definition copy_timer :: "'u timer \<Rightarrow> 'u timer" where
  "copy_timer t = new_timer\<lparr>tm_mindelay := tm_mindelay t, tm_maxdelay := tm_maxdelay t\<rparr>"

definition set_mindelay :: "siz \<Rightarrow> 'u timer \<Rightarrow> 'u timer" where
  "set_mindelay n t = t\<lparr>tm_mindelay := n\<rparr>"

definition set_maxdelay :: "siz \<Rightarrow> 'u timer \<Rightarrow> 'u timer" where
  "set_maxdelay n t = t\<lparr>tm_maxdelay := n\<rparr>"

text \<open>
  \<open>on\<close>: \<open>None\<close> when the call waits for the mutex.  The first test is made without the mutex.
\<close>

definition timer_on :: "('u \<Rightarrow> 'u \<Rightarrow> bool) \<Rightarrow> 'u \<Rightarrow> 'u timer \<Rightarrow> (bool \<times> 'u timer) option" where
  "timer_on lt u t =
     (if cs_mem lt u (tm_users t) then Some (False, t)
      else if tm_joining t then None
      else let t1 = t\<lparr>tm_users := cs_insert lt u (tm_users t)\<rparr>
           in if length (tm_users t1) = 1
              then Some (True, t1\<lparr>tm_joining := list_ex (\<lambda>h. h \<noteq> Ended) (tm_threads t1),
                                  tm_threads := tm_threads t1 @ [Calling]\<rparr>)
              else Some (True, t1))"

definition timer_off :: "('u \<Rightarrow> 'u \<Rightarrow> bool) \<Rightarrow> 'u \<Rightarrow> 'u timer \<Rightarrow> (bool \<times> 'u timer) option" where
  "timer_off lt u t =
     (if \<not> cs_mem lt u (tm_users t) then Some (False, t)
      else if tm_joining t then None
      else Some (True, t\<lparr>tm_users := cs_erase lt u (tm_users t)\<rparr>))"

definition turn_off :: "'u timer \<Rightarrow> (bool \<times> 'u timer) option" where
  "turn_off t =
     (if tm_users t = [] then Some (False, t)
      else if tm_joining t then None
      else Some (True, t\<lparr>tm_users := []\<rparr>))"

text \<open>
  One turn of \<open>timer()\<close>.  \<open>throws u\<close> says that the callback throws for \<open>u\<close>: the users behind it
  are not called, and the thread starts again at once when it catches, or ends.
\<close>

definition thread_turn :: "bool \<Rightarrow> ('u \<Rightarrow> bool) \<Rightarrow> (siz \<Rightarrow> siz \<Rightarrow> int) \<Rightarrow> int \<Rightarrow> thread \<Rightarrow> 'u timer \<Rightarrow> thread \<times> 'u list" where
  "thread_turn catches throws random now h t =
     (case h of
        Calling \<Rightarrow>
          if tm_users t = [] then (Ended, [])
          else (let called = takeWhile (\<lambda>u. \<not> throws u) (tm_users t)
                in if length called < length (tm_users t)
                   then (if catches then Calling else Ended, take (Suc (length called)) (tm_users t))
                   else (Waiting (now + random (tm_mindelay t) (tm_maxdelay t)), tm_users t))
      | Waiting e \<Rightarrow> if tm_users t \<noteq> [] \<and> now < e then (Waiting e, []) else (Calling, [])
      | Ended \<Rightarrow> (Ended, []))"

definition run_thread :: "bool \<Rightarrow> ('u \<Rightarrow> bool) \<Rightarrow> (siz \<Rightarrow> siz \<Rightarrow> int) \<Rightarrow> int \<Rightarrow> nat \<Rightarrow> 'u timer \<Rightarrow> 'u timer" where
  "run_thread catches throws random now i t =
     (case thread_turn catches throws random now (tm_threads t ! i) t of (h, cs) \<Rightarrow>
        t\<lparr>tm_threads := (tm_threads t)[i := h], tm_calls := tm_calls t @ cs\<rparr>)"

text \<open>The wait of \<open>on\<close> for the thread before is over.\<close>

definition joined :: "'u timer \<Rightarrow> bool" where
  "joined t = list_all (\<lambda>h. h = Ended) (butlast (tm_threads t))"

inductive timer_step :: "('u \<Rightarrow> 'u \<Rightarrow> bool) \<Rightarrow> bool \<Rightarrow> ('u \<Rightarrow> bool) \<Rightarrow> (siz \<Rightarrow> siz \<Rightarrow> int) \<Rightarrow> 'u timer \<Rightarrow> 'u timer \<Rightarrow> bool"
  for lt catches throws random where
  On: "timer_on lt u t = Some (r, t') \<Longrightarrow> timer_step lt catches throws random t t'"
| Off: "timer_off lt u t = Some (r, t') \<Longrightarrow> timer_step lt catches throws random t t'"
| Turn_Off: "turn_off t = Some (r, t') \<Longrightarrow> timer_step lt catches throws random t t'"
| Mindelay: "timer_step lt catches throws random t (set_mindelay n t)"
| Maxdelay: "timer_step lt catches throws random t (set_maxdelay n t)"
| Thread: "i < length (tm_threads t) \<Longrightarrow>
    timer_step lt catches throws random t (run_thread catches throws random now i t)"
| Join: "tm_joining t \<Longrightarrow> joined t \<Longrightarrow> timer_step lt catches throws random t (t\<lparr>tm_joining := False\<rparr>)"

text \<open>The two classes.\<close>

definition random_lt :: "nat \<Rightarrow> nat \<Rightarrow> bool" where
  "random_lt a b = (a < b)"

definition message_lt :: "message \<Rightarrow> message \<Rightarrow> bool" where
  "message_lt a b = str_lt (reply_to a) (reply_to b)"

definition message_on :: "message \<Rightarrow> message timer \<Rightarrow> (bool \<times> message timer) option" where
  "message_on = timer_on message_lt"

definition message_off :: "message \<Rightarrow> message timer \<Rightarrow> (bool \<times> message timer) option" where
  "message_off = timer_off message_lt"

definition message_turn_off :: "message timer \<Rightarrow> (bool \<times> message timer) option" where
  "message_turn_off = turn_off"

definition message_turn ::
  "(message \<Rightarrow> bool) \<Rightarrow> (siz \<Rightarrow> siz \<Rightarrow> int) \<Rightarrow> int \<Rightarrow> thread \<Rightarrow> message timer \<Rightarrow> thread \<times> message list" where
  "message_turn = thread_turn False"

abbreviation random_timer_step where
  "random_timer_step \<equiv> timer_step random_lt True"

abbreviation message_timer_step where
  "message_timer_step \<equiv> timer_step message_lt False"

interpretation random_cmp: linear_comparator random_lt
  by unfold_locales (auto simp: random_lt_def)

interpretation message_cmp: comparator message_lt
proof unfold_locales
  show "\<not> message_lt a a" for a by (simp add: message_lt_def str_cmp.irrefl)
  show "message_lt a b \<Longrightarrow> message_lt b c \<Longrightarrow> message_lt a c" for a b c
    unfolding message_lt_def by (rule str_cmp.trans)
  show "message_lt a c \<Longrightarrow> message_lt a b \<or> message_lt b c" for a b c
    unfolding message_lt_def by (rule str_cmp.neg_trans)
qed

subsection \<open>One thread at a time\<close>

definition live :: "thread list \<Rightarrow> nat" where
  "live hs = length (filter (\<lambda>h. h \<noteq> Ended) hs)"

text \<open>Whenever somebody uses the timer a thread runs for them, and never more than one unless \<open>on\<close>
  is still waiting for the old one.\<close>

definition timer_inv :: "'u timer \<Rightarrow> bool" where
  "timer_inv t =
     ((tm_users t \<noteq> [] \<longrightarrow> tm_threads t \<noteq> [] \<and> last (tm_threads t) \<noteq> Ended) \<and>
      (\<not> tm_joining t \<longrightarrow> joined t))"

lemma live_le_one: "joined t \<Longrightarrow> live (tm_threads t) \<le> 1"
proof (cases "tm_threads t" rule: rev_cases)
  case (snoc hs h)
  assume "joined t"
  then have "filter (\<lambda>h. h \<noteq> Ended) hs = []" using snoc by (simp add: joined_def list_all_iff filter_empty_conv)
  then show ?thesis using snoc by (simp add: live_def)
qed (simp add: live_def)

lemma timer_inv_thread:
  assumes "timer_inv t" "i < length (tm_threads t)"
  shows "timer_inv (run_thread True throws random now i t)"
proof -
  obtain h cs where h: "thread_turn True throws random now (tm_threads t ! i) t = (h, cs)" by fastforce
  have e: "run_thread True throws random now i t =
      t\<lparr>tm_threads := (tm_threads t)[i := h], tm_calls := tm_calls t @ cs\<rparr>"
    by (simp add: run_thread_def h)
  have ended: "tm_threads t ! i = Ended \<Longrightarrow> h = Ended" using h by (simp add: thread_turn_def)
  have users: "tm_users t \<noteq> [] \<Longrightarrow> tm_threads t ! i \<noteq> Ended \<Longrightarrow> h \<noteq> Ended"
    using h by (auto simp: thread_turn_def Let_def split: thread.splits if_splits)
  obtain hs l where hs: "tm_threads t = hs @ [l]" using assms(2) by (cases "tm_threads t" rule: rev_cases) auto
  show ?thesis
  proof (cases "i = length hs")
    case True
    then have u: "(tm_threads t)[i := h] = hs @ [h]" "tm_threads t ! i = l" using hs by simp_all
    have "tm_users t \<noteq> [] \<Longrightarrow> h \<noteq> Ended" using assms(1) users hs u(2) by (simp add: timer_inv_def)
    with assms(1) show ?thesis unfolding e timer_inv_def joined_def by (simp add: u(1) hs True)
  next
    case False
    then have i: "i < length hs" using assms(2) hs by simp
    then have u: "(tm_threads t)[i := h] = hs[i := h] @ [l]" using hs by (simp add: list_update_append)
    have same: "hs[i := h] = hs" if "list_all (\<lambda>h. h = Ended) hs"
    proof -
      have "hs ! i = Ended" using that i by (simp add: list_all_length)
      with ended i hs have "h = hs ! i" by (simp add: nth_append)
      then show ?thesis by simp
    qed
    have "timer_inv t = ((tm_users t \<noteq> [] \<longrightarrow> l \<noteq> Ended) \<and> (\<not> tm_joining t \<longrightarrow> list_all (\<lambda>h. h = Ended) hs))"
      by (simp add: timer_inv_def joined_def hs)
    then show ?thesis using assms(1) same unfolding e timer_inv_def joined_def by (simp add: u)
  qed
qed

lemma timer_inv_on:
  assumes "comparator lt" "timer_inv t" "timer_on lt u t = Some (r, t')"
  shows "timer_inv t'"
proof (cases "cs_mem lt u (tm_users t)")
  case True
  then show ?thesis using assms by (simp add: timer_on_def)
next
  case False
  with assms have j: "\<not> tm_joining t" by (auto simp: timer_on_def split: if_splits)
  have jn: "joined t" using assms(2) j by (simp add: timer_inv_def)
  let ?us = "cs_insert lt u (tm_users t)"
  show ?thesis
  proof (cases "length ?us = 1")
    case True
    then have "t' = t\<lparr>tm_users := ?us, tm_joining := list_ex (\<lambda>h. h \<noteq> Ended) (tm_threads t),
        tm_threads := tm_threads t @ [Calling]\<rparr>"
      using assms(3) False j by (simp add: timer_on_def Let_def)
    then show ?thesis by (auto simp: timer_inv_def joined_def list_all_iff list_ex_iff)
  next
    case len: False
    then have t': "t' = t\<lparr>tm_users := ?us\<rparr>" using assms(3) False j by (simp add: timer_on_def Let_def)
    have "tm_users t \<noteq> []" using len by auto
    then show ?thesis using assms(2) jn unfolding t' by (simp add: timer_inv_def joined_def)
  qed
qed



subsection \<open>When \<open>on\<close> waits\<close>

definition stuck :: "'u timer \<Rightarrow> bool" where
  "stuck t = (tm_joining t \<and> tm_users t \<noteq> [] \<and> \<not> joined t)"

text \<open>A thread does not end by an exception: it catches them, or there are none.\<close>

definition lasting :: "bool \<Rightarrow> ('u \<Rightarrow> bool) \<Rightarrow> bool" where
  "lasting catches throws = (catches \<or> (\<forall>u. \<not> throws u))"

lemma stuck_thread:
  assumes "stuck t" "i < length (tm_threads t)" "lasting catches throws"
  shows "stuck (run_thread catches throws random now i t)"
proof -
  obtain h cs where h: "thread_turn catches throws random now (tm_threads t ! i) t = (h, cs)" by fastforce
  have e: "length (takeWhile (\<lambda>u. \<not> throws u) (tm_users t)) = length (tm_users t)" if "\<not> catches"
  proof -
    have "\<forall>u. \<not> throws u" using that assms(3) by (simp add: lasting_def)
    then have "takeWhile (\<lambda>u. \<not> throws u) (tm_users t) = tm_users t" unfolding takeWhile_eq_all_conv by blast
    then show ?thesis by (rule arg_cong)
  qed
  then have alive: "tm_threads t ! i \<noteq> Ended \<Longrightarrow> h \<noteq> Ended"
    using h assms(1) e by (cases catches) (auto simp: thread_turn_def stuck_def Let_def split: thread.splits if_splits)
  from assms(1) obtain j where j: "j < length (butlast (tm_threads t))" "butlast (tm_threads t) ! j \<noteq> Ended"
    by (auto simp: stuck_def joined_def list_all_length)
  then have "butlast ((tm_threads t)[i := h]) ! j \<noteq> Ended"
    using alive by (cases "i = j") (simp_all add: nth_butlast nth_list_update)
  then have "\<not> list_all (\<lambda>h. h = Ended) (butlast ((tm_threads t)[i := h]))"
    using j(1) by (auto simp: list_all_length)
  then show ?thesis using assms(1) by (simp add: stuck_def joined_def run_thread_def h)
qed


text \<open>A timer whose only user has gone while its thread was calling back.\<close>

definition left_timer :: "nat timer" where
  "left_timer = new_timer\<lparr>tm_threads := [Calling]\<rparr>"


lemma left_timer_reachable: "\<exists>t. (random_timer_step throws random)\<^sup>*\<^sup>* new_timer t \<and>
  tm_users t = tm_users left_timer \<and> tm_threads t = tm_threads left_timer \<and> tm_joining t = tm_joining left_timer"
proof -
  define t1 where "t1 = snd (the (timer_on random_lt 7 new_timer))"
  define t2 where "t2 = snd (the (timer_off random_lt 7 t1))"
  have "timer_on random_lt 7 new_timer = Some (True, t1)" "timer_off random_lt 7 t1 = Some (True, t2)"
    by (simp_all add: t1_def t2_def timer_on_def timer_off_def new_timer_def Let_def random_lt_def)
  then have "random_timer_step throws random new_timer t1" "random_timer_step throws random t1 t2"
    by (blast intro: timer_step.On timer_step.Off)+
  then have "(random_timer_step throws random)\<^sup>*\<^sup>* new_timer t2" by auto
  then show ?thesis
    by (intro exI [of _ t2]) (simp add: t1_def t2_def left_timer_def timer_on_def timer_off_def new_timer_def
      Let_def random_lt_def)
qed

text \<open>The thread of a \<open>MessageTimer\<close> ends with the first exception of a callback; the timer still counts
  as on, and adding a message with another place to answer to starts no thread.\<close>

theorem message_timer_dies:
  assumes "throws m" "reply_to m2 \<noteq> reply_to m"
    and "message_on m new_timer = Some (r, t1)" "t2 = run_thread False throws random now 0 t1"
    and "message_on m2 t2 = Some (r2, t3)"
  shows "tm_users t2 = [m] \<and> live (tm_threads t2) = 0 \<and> r2 \<and> live (tm_threads t3) = 0"
proof -
  have t1: "tm_users t1 = [m]" "tm_threads t1 = [Calling]" "\<not> tm_joining t1"
    using assms(3) by (auto simp: message_on_def timer_on_def new_timer_def Let_def)
  then have t2: "tm_users t2 = [m]" "tm_threads t2 = [Ended]" "\<not> tm_joining t2"
    using assms(1,4) by (simp_all add: run_thread_def thread_turn_def)
  have "\<not> cs_mem message_lt m2 [m]"
    using assms(2) str_cmp.total by (auto simp: message_lt_def)
  moreover have "length (cs_insert message_lt m2 [m]) = 2"
    using assms(2) str_cmp.total by (auto simp: message_lt_def)
  ultimately show ?thesis
    using assms(5) t2 by (auto simp: message_on_def timer_on_def Let_def live_def split: if_splits)
qed

end
