(* ===== verification/Server_Pool.thy ===== *)
theory Server_Pool
  imports Main "HOL-Library.Multiset"
begin

text \<open>
  The threaded socket server (\<open>server.h\<close>, \<open>server.cpp\<close>): a listening thread that starts a handler
  for every connection, and a cleaning thread that closes the sockets whose handlers have
  returned.  Sockets are integers; what \<open>bind\<close>, \<open>listen\<close> and \<open>accept\<close> return is part of a step.
  \<open>insert\<close> and a pass of \<open>clean\<close> hold the mutex and are one step each.  The system gives out the
  smallest or any other number that is not open in the process (\<open>sv_fds\<close>), so numbers come back.  A handler is code of the user: it may
  leave its socket open or, like \<open>serve\<close> of \<open>test-irc-server.cpp\<close>, whose stream owns the socket, close it.
\<close>

datatype phase = Listening | Returned | Threw

record server =
  sv_done :: bool
  sv_pool :: "(int \<times> bool) list"
  sv_listener :: phase
  sv_cleaner :: bool
  sv_closed :: "int list"
  sv_accepted :: "int list"
  sv_fds :: "int list"

text \<open>A pool entry is a socket and whether its handler has returned.\<close>

definition new_server :: server where
  "new_server = \<lparr>sv_done = False, sv_pool = [], sv_listener = Listening, sv_cleaner = True, sv_closed = [],
     sv_accepted = [], sv_fds = []\<rparr>"

definition sv_insert :: "int \<Rightarrow> server \<Rightarrow> server" where
  "sv_insert cs s = s\<lparr>sv_pool := sv_pool s @ [(cs, False)]\<rparr>"

text \<open>One pass of \<open>clean\<close> over the pool: the sockets closed and the entries left.\<close>

fun clean_pass :: "(int \<times> bool) list \<Rightarrow> int list \<times> (int \<times> bool) list" where
  "clean_pass [] = ([], [])"
| "clean_pass ((cs, ready) # p) =
     (case clean_pass p of (closed, left) \<Rightarrow>
        if ready then (cs # closed, left) else (closed, (cs, ready) # left))"

definition clean_turn :: "server \<Rightarrow> server" where
  "clean_turn s =
     (if \<not> (\<not> sv_done s \<or> sv_pool s \<noteq> []) then s\<lparr>sv_cleaner := False\<rparr>
      else case clean_pass (sv_pool s) of (closed, left) \<Rightarrow>
        s\<lparr>sv_pool := left, sv_closed := sv_closed s @ closed, sv_fds := filter (\<lambda>c. c \<notin> set closed) (sv_fds s)\<rparr>)"

text \<open>\<open>listen\<close> up to its loop: the exception it throws when the address cannot be bound.\<close>

definition sv_listen :: "bool \<Rightarrow> bool \<Rightarrow> server \<Rightarrow> server" where
  "sv_listen bound listening s = (if bound \<and> listening then s else s\<lparr>sv_listener := Threw\<rparr>)"

text \<open>A turn of the loop of \<open>listen\<close>; \<open>None\<close> is an \<open>accept\<close> that fails.  The flag is tested before
  \<open>accept\<close> waits.\<close>

definition accept_turn :: "int option \<Rightarrow> server \<Rightarrow> server" where
  "accept_turn r s =
     (case r of
        None \<Rightarrow> s\<lparr>sv_listener := Threw\<rparr>
      | Some cs \<Rightarrow>
          (let s1 = (sv_insert cs s)\<lparr>sv_accepted := sv_accepted s @ [cs], sv_fds := sv_fds s @ [cs]\<rparr>
           in if sv_done s1 then s1\<lparr>sv_listener := Returned\<rparr> else s1))"

definition sv_stop :: "server \<Rightarrow> server" where
  "sv_stop s = s\<lparr>sv_done := True\<rparr>"

definition handler_returns :: "nat \<Rightarrow> server \<Rightarrow> server" where
  "handler_returns i s = s\<lparr>sv_pool := (sv_pool s)[i := (fst (sv_pool s ! i), True)]\<rparr>"

definition handler_closes :: "nat \<Rightarrow> server \<Rightarrow> server" where
  "handler_closes i s = s\<lparr>sv_fds := filter (\<lambda>c. c \<noteq> fst (sv_pool s ! i)) (sv_fds s)\<rparr>"

definition open_sockets :: "server \<Rightarrow> int list" where
  "open_sockets s = map fst (sv_pool s)"

text \<open>\<open>closes\<close>: the handlers may close their sockets.\<close>

inductive sv_step :: "bool \<Rightarrow> server \<Rightarrow> server \<Rightarrow> bool" for closes where
  Accept: "sv_listener s = Listening \<Longrightarrow> cs \<notin> set (sv_fds s) \<Longrightarrow> sv_step closes s (accept_turn (Some cs) s)"
| Accept_Fails: "sv_listener s = Listening \<Longrightarrow> sv_step closes s (accept_turn None s)"
| Handler: "i < length (sv_pool s) \<Longrightarrow> sv_step closes s (handler_returns i s)"
| Handler_Closes: "closes \<Longrightarrow> i < length (sv_pool s) \<Longrightarrow> \<not> snd (sv_pool s ! i) \<Longrightarrow> sv_step closes s (handler_closes i s)"
| Clean: "sv_cleaner s \<Longrightarrow> sv_step closes s (clean_turn s)"
| Stop: "sv_step closes s (sv_stop s)"

inductive_cases sv_stepE: "sv_step closes s s'"

subsection \<open>Every socket is closed once\<close>

lemma clean_pass_eq: "clean_pass p = (map fst (filter snd p), filter (\<lambda>e. \<not> snd e) p)"
  by (induction p rule: clean_pass.induct) simp_all

definition server_inv :: "bool \<Rightarrow> server \<Rightarrow> bool" where
  "server_inv closes s =
     (mset (sv_accepted s) = mset (sv_closed s) + mset (open_sockets s) \<and>
      (\<not> closes \<longrightarrow> distinct (open_sockets s) \<and> set (sv_fds s) = set (open_sockets s)) \<and>
      (\<not> sv_cleaner s \<longrightarrow> sv_done s))"

lemma mset_split: "mset (map fst p) = mset (map fst (filter snd p)) + mset (map fst (filter (\<lambda>e. \<not> snd e) p))"
  by (induction p) auto

lemma set_split: "distinct (map fst p) \<Longrightarrow> fst ` {e \<in> set p. \<not> snd e} = fst ` set p - fst ` {e \<in> set p. snd e}"
  by (auto simp: distinct_map inj_on_def)

lemma server_inv_step: "sv_step closes s s' \<Longrightarrow> server_inv closes s \<Longrightarrow> server_inv closes s'"
proof (induction rule: sv_step.induct)
  case (Accept s cs)
  then show ?case
    by (auto simp: server_inv_def accept_turn_def sv_insert_def open_sockets_def Let_def)
next
  case (Accept_Fails s)
  then show ?case by (simp add: server_inv_def accept_turn_def open_sockets_def)
next
  case (Handler i s)
  then have "map fst ((sv_pool s)[i := (fst (sv_pool s ! i), True)]) = map fst (sv_pool s)"
    using list_update_id [of "map fst (sv_pool s)" i] by (simp add: map_update)
  with Handler show ?case by (simp add: server_inv_def handler_returns_def open_sockets_def del: set_map)
next
  case (Handler_Closes i s)
  then show ?case by (simp add: server_inv_def handler_closes_def open_sockets_def)
next
  case (Clean s)
  have "distinct (map fst (sv_pool s)) \<Longrightarrow> set (sv_fds s) = fst ` set (sv_pool s) \<Longrightarrow>
      {c \<in> set (sv_fds s). c \<notin> fst ` {e \<in> set (sv_pool s). snd e}} = fst ` {e \<in> set (sv_pool s). \<not> snd e}"
    using set_split [of "sv_pool s"] by auto
  with Clean show ?case
    using mset_split [of "sv_pool s"] distinct_map_filter [of fst "sv_pool s"]
    by (auto simp: server_inv_def clean_turn_def open_sockets_def clean_pass_eq add.assoc)
next
  case (Stop s)
  then show ?case by (simp add: server_inv_def sv_stop_def open_sockets_def)
qed

text \<open>C18: In every state the server can reach, it has passed each accepted socket to \<open>close\<close> exactly as often as it
  accepted it, apart from those in the pool, and a pass of \<open>clean\<close> takes only entries out of the pool whose handlers
  have returned.  If the handlers leave their sockets open, the numbers in the pool are distinct and are exactly
  the open ones, and the socket of a running handler stays open over a pass of \<open>clean\<close>: none is lost, closed twice or closed
  while its handler runs.\<close>

theorem server_sockets:
  assumes "(sv_step closes)\<^sup>*\<^sup>* new_server s"
  shows "mset (sv_accepted s) = mset (sv_closed s) + mset (open_sockets s) \<and>
    (\<forall>cs. (cs, False) \<in> set (sv_pool s) \<longrightarrow> (cs, False) \<in> set (sv_pool (clean_turn s))) \<and>
    (\<not> closes \<longrightarrow> distinct (open_sockets s) \<and> set (sv_fds s) = set (open_sockets s) \<and>
      (\<forall>cs. (cs, False) \<in> set (sv_pool s) \<longrightarrow> cs \<in> set (sv_fds (clean_turn s))))"
proof -
  have i: "server_inv closes s" using assms
    by induction (auto simp: server_inv_step, simp add: server_inv_def new_server_def open_sockets_def)
  have "cs \<in> set (sv_fds (clean_turn s))" if c: "\<not> closes" "(cs, False) \<in> set (sv_pool s)" for cs
  proof -
    have "(cs, True) \<notin> set (sv_pool s)"
    proof
      assume "(cs, True) \<in> set (sv_pool s)"
      moreover have "inj_on fst (set (sv_pool s))" using i c(1) by (simp add: server_inv_def open_sockets_def distinct_map)
      ultimately show False using inj_onD [of fst "set (sv_pool s)" "(cs, True)" "(cs, False)"] c(2) by simp
    qed
    moreover have "cs \<in> set (sv_fds s)" using i c by (force simp: server_inv_def open_sockets_def)
    ultimately show ?thesis by (auto simp: clean_turn_def clean_pass_eq)
  qed
  then show ?thesis using i by (auto simp: server_inv_def clean_turn_def clean_pass_eq)
qed

theorem server_sockets_witness:
  "open_sockets (accept_turn (Some 5) new_server) = [5] \<and>
   mset (sv_accepted (accept_turn (Some 5) new_server)) =
     mset (sv_closed (accept_turn (Some 5) new_server)) + mset (open_sockets (accept_turn (Some 5) new_server)) \<and>
   5 \<in> set (sv_fds (clean_turn (accept_turn (Some 5) new_server)))"
proof -
  let ?s = "accept_turn (Some 5) new_server"
  have "sv_step False new_server ?s" by (rule sv_step.Accept) (simp_all add: new_server_def)
  then have "(sv_step False)\<^sup>*\<^sup>* new_server ?s" by blast
  note r = server_sockets [OF this]
  have p: "sv_pool ?s = [(5, False)]" by (simp add: accept_turn_def new_server_def sv_insert_def Let_def)
  then have "open_sockets ?s = [5]" "(5, False) \<in> set (sv_pool ?s)" by (simp_all add: open_sockets_def)
  with r show ?thesis by blast
qed

text \<open>A handler that closes its socket makes \<open>clean\<close> close the number a second time; by then it may be that of the next
  connection, whose handler is running.\<close>

definition reused :: server where
  "reused = handler_returns 0 (accept_turn (Some 5) (handler_closes 0 (accept_turn (Some 5) new_server)))"

theorem second_close_hits:
  "(sv_step True)\<^sup>*\<^sup>* new_server reused \<and> (5, False) \<in> set (sv_pool (clean_turn reused)) \<and>
    5 \<in> set (sv_fds reused) \<and> 5 \<notin> set (sv_fds (clean_turn reused))"
proof -
  let ?s1 = "accept_turn (Some 5) new_server" and ?s2 = "handler_closes 0 (accept_turn (Some 5) new_server)"
  let ?s3 = "accept_turn (Some 5) (handler_closes 0 (accept_turn (Some 5) new_server))"
  have e: "?s1 = new_server\<lparr>sv_pool := [(5, False)], sv_accepted := [5], sv_fds := [5]\<rparr>"
    "?s2 = new_server\<lparr>sv_pool := [(5, False)], sv_accepted := [5], sv_fds := []\<rparr>"
    "?s3 = new_server\<lparr>sv_pool := [(5, False), (5, False)], sv_accepted := [5, 5], sv_fds := [5]\<rparr>"
    "reused = new_server\<lparr>sv_pool := [(5, True), (5, False)], sv_accepted := [5, 5], sv_fds := [5]\<rparr>"
    by (simp_all add: reused_def accept_turn_def new_server_def sv_insert_def handler_closes_def handler_returns_def Let_def)
  have "sv_step True new_server ?s1" by (rule sv_step.Accept) (simp_all add: new_server_def)
  moreover have "sv_step True ?s1 ?s2" by (rule sv_step.Handler_Closes) (simp_all add: e(1))
  moreover have "sv_step True ?s2 ?s3" by (rule sv_step.Accept) (simp_all only: e(2), simp_all add: new_server_def)
  moreover have "sv_step True ?s3 reused" unfolding reused_def by (rule sv_step.Handler) (simp add: e(3))
  ultimately have "(sv_step True)\<^sup>*\<^sup>* new_server reused" by (meson converse_rtranclp_into_rtranclp rtranclp.rtrancl_refl)
  then show ?thesis by (simp add: e(4) clean_turn_def new_server_def)
qed

text \<open>\<open>stop\<close> ends \<open>listen\<close> only behind one more connection, and nothing bounds the pool: \<open>max_threads\<close> is
  not used.\<close>

lemma stop_serves_one_more:
  "sv_listener s = Listening \<Longrightarrow>
    sv_listener (sv_stop s) = Listening \<and> (cs, False) \<in> set (sv_pool (accept_turn (Some cs) (sv_stop s)))"
  by (simp add: sv_stop_def accept_turn_def sv_insert_def)

lemma pool_unbounded: "\<exists>s. (sv_step False)\<^sup>*\<^sup>* new_server s \<and> length (sv_pool s) = n \<and> sv_listener s = Listening \<and>
  \<not> sv_done s \<and> (\<forall>cs\<in>set (sv_fds s). cs < int n)"
proof (induction n)
  case 0
  show ?case by (intro exI [of _ new_server]) (simp add: new_server_def)
next
  case (Suc n)
  then obtain s where s: "(sv_step False)\<^sup>*\<^sup>* new_server s" "length (sv_pool s) = n" "sv_listener s = Listening"
    "\<not> sv_done s" "\<forall>cs\<in>set (sv_fds s). cs < int n" by blast
  have "sv_step False s (accept_turn (Some (int n)) s)" using s(3,5) by (intro sv_step.Accept) auto
  then have "(sv_step False)\<^sup>*\<^sup>* new_server (accept_turn (Some (int n)) s)" using s(1) by simp
  moreover have "accept_turn (Some (int n)) s =
      s\<lparr>sv_pool := sv_pool s @ [(int n, False)], sv_accepted := sv_accepted s @ [int n], sv_fds := sv_fds s @ [int n]\<rparr>"
    using s(4) by (simp add: accept_turn_def sv_insert_def)
  ultimately show ?case
    using s by (intro exI [of _ "accept_turn (Some (int n)) s"]) auto
qed

end
