(* ===== verification/Skivlet.thy ===== *)
theory Skivlet
  imports Message
begin

text \<open>
  The small client \<open>skivlet.cpp\<close>: a thread that registers with the server and pings it
  (\<open>connecter\<close>), a thread that reacts to the lines of the server (\<open>responder\<close>) and the commands of
  the user (\<open>cli\<close>).  What is printed is left out.  Between two of its waits a thread is one step;
  the two tests of \<open>connected\<close> in a turn of \<open>connecter\<close> see the same or different values, since
  \<open>spin_wait\<close> stands between them, so a turn is two steps.
\<close>

subsection \<open>Waiting\<close>

text \<open>\<open>spin_wait(cond, secs)\<close>: \<open>cond i\<close> is the value of the condition at its \<open>i\<close>-th test.  The result is the
  number of seconds left and of pauses made.  Zero seconds wrap around.\<close>

function spin_loop :: "(nat \<Rightarrow> bool) \<Rightarrow> nat \<Rightarrow> siz \<Rightarrow> siz \<times> nat" where
  "spin_loop cond i secs =
     (if cond i then (secs, i)
      else if secs - 1 = 0 then (0, i)
      else spin_loop cond (Suc i) (secs - 1))"
  by pat_completeness auto
termination
proof (relation "measure (\<lambda>(cond, i, secs). if secs = 0 then 2 ^ 64 else unat (secs :: siz))", goal_cases)
  case (2 cond i secs)
  show ?case
  proof (cases "secs = 0")
    case True
    have "unat (- 1 :: siz) < 2 ^ 64" using unsigned_less [of "- 1 :: siz", where ?'a = nat] by simp
    then show ?thesis using True 2 by simp
  next
    case False
    then have "unat (secs - 1) < unat secs" by (simp add: unat_minus_one word_gt_0 unat_gt_0)
    then show ?thesis using False 2 by simp
  qed
qed simp

declare spin_loop.simps [simp del]

definition spin_wait :: "(nat \<Rightarrow> bool) \<Rightarrow> siz \<Rightarrow> bool" where
  "spin_wait cond secs = (fst (spin_loop cond 0 secs) \<noteq> 0)"

subsection \<open>The client\<close>

datatype con_phase = C_Start | C_Top | C_Second | C_Pinged | C_Stop

record skivlet =
  sk_connected :: bool
  sk_done :: bool
  sk_nick :: "string list"
  sk_uniq :: siz
  sk_ping :: string
  sk_pong :: string
  sk_wire :: "string list"
  sk_con :: con_phase
  sk_msg :: message
  sk_cmd :: string
  sk_channel :: string

definition new_skivlet :: skivlet where
  "new_skivlet = \<lparr>sk_connected = False, sk_done = False,
     sk_nick = [''Skivlet'', ''Skivlet_2'', ''Skivlet_3'', ''Skivlet_4'', ''Skivlet_5''], sk_uniq = 0,
     sk_ping = [], sk_pong = [], sk_wire = [], sk_con = C_Start, sk_msg = new_message,
     sk_cmd = [], sk_channel = []\<rparr>"

text \<open>\<open>send\<close>: at most 510 characters and the end of the line.\<close>

definition sk_send :: "string \<Rightarrow> skivlet \<Rightarrow> skivlet" where
  "sk_send cmd b = b\<lparr>sk_wire := sk_wire b @ [take 510 cmd @ [CR, LF]]\<rparr>"

text \<open>The steps of \<open>connecter\<close>: up to the loop; up to the first wait; up to the second; behind it.\<close>

definition connecter :: "string \<Rightarrow> skivlet \<Rightarrow> skivlet" where
  "connecter rand b =
     (case sk_con b of
        C_Start \<Rightarrow> (sk_send (''NICK '' @ sk_nick b ! unat (sk_uniq b)) (sk_send ''PASS none'' b))\<lparr>sk_con := C_Top\<rparr>
      | C_Top \<Rightarrow>
          if sk_done b then b\<lparr>sk_con := C_Stop\<rparr>
          else if \<not> sk_connected b then (sk_send ''USER Skivlet 0 * :Skivlet'' b)\<lparr>sk_con := C_Second\<rparr>
          else b\<lparr>sk_con := C_Second\<rparr>
      | C_Second \<Rightarrow>
          if sk_connected b
          then (let b1 = (if sk_uniq b \<noteq> 0 then sk_send (''NICK '' @ sk_nick b ! 0) b else b);
                    b2 = b1\<lparr>sk_ping := rand\<rparr>
                in (sk_send (''PING '' @ rand) b2)\<lparr>sk_con := C_Pinged\<rparr>)
          else b\<lparr>sk_con := C_Top\<rparr>
      | C_Pinged \<Rightarrow> (if sk_ping b \<noteq> sk_pong b then b\<lparr>sk_connected := False\<rparr> else b)\<lparr>sk_con := C_Top\<rparr>
      | C_Stop \<Rightarrow> b)"

text \<open>\<open>responder\<close> on a line of the server.  The sorted names of a channel are only printed.\<close>

definition responder :: "hol \<Rightarrow> int \<Rightarrow> string \<Rightarrow> skivlet \<Rightarrow> skivlet" where
  "responder h now line b =
     (if sk_done b then b
      else let msg = snd (parsemsg h now line (sk_msg b)); b1 = b\<lparr>sk_msg := msg\<rparr>
           in if msg_command msg = ''001'' then b1\<lparr>sk_connected := True\<rparr>
              else if msg_command msg = ''PING'' then sk_send (''PONG '' @ get_trailing msg) b1
              else if msg_command msg = ''433''
              then (let u = sk_uniq b1 + 1
                    in b1\<lparr>sk_uniq := (if of_nat (length (sk_nick b1)) \<le> u then 0 else u)\<rparr>)
              else if msg_command msg = ''PONG'' then b1\<lparr>sk_pong := get_trailing msg\<rparr>
              else b1)"

text \<open>A line of the user.  \<open>cmd\<close> and \<open>channel\<close> keep their values over a failed extraction.\<close>

definition cli :: "string \<Rightarrow> skivlet \<Rightarrow> skivlet" where
  "cli line b =
     (case read_word (sk_cmd b) (str_stream line) of (cmd, is1) \<Rightarrow>
        let is2 = skip_ws is1; b1 = b\<lparr>sk_cmd := cmd\<rparr>
        in if sk_done b then b
           else if \<not> ok is2 then b1
           else if cmd = ''/exit'' then sk_send ''QUIT :leaving'' (b1\<lparr>sk_done := True\<rparr>)
           else if cmd = ''/join''
           then (let b2 = (if sk_channel b1 \<noteq> []
                           then sk_send (''PART '' @ sk_channel b1 @ '': ...places to go people to see...'') b1 else b1);
                     ch = fst (read_word (sk_channel b2) is2)
                 in sk_send (''JOIN '' @ ch) (b2\<lparr>sk_channel := ch\<rparr>))
           else if cmd = ''/part''
           then (if sk_channel b1 \<noteq> []
                 then sk_send (''PART '' @ sk_channel b1 @ '' ...places to go people to see...'') b1 else b1)
           else sk_send (''PRIVMSG '' @ sk_channel b1 @ '' :'' @ line) b1)"

inductive sk_step :: "hol \<Rightarrow> skivlet \<Rightarrow> skivlet \<Rightarrow> bool" for h where
  Connecter: "sk_step h b (connecter rand b)"
| Responder: "sk_step h b (responder h now line b)"
| Cli: "sk_step h b (cli line b)"

subsection \<open>Lemmas\<close>

text \<open>The wait ends after at most the seconds asked for, the wrapped zero apart.\<close>

theorem spin_wait_bound:
  assumes "0 < secs" "spin_loop cond i secs = (s, j)"
  shows "i \<le> j \<and> j - i < unat secs \<and> unat s \<le> unat secs \<and> (s = 0 \<longrightarrow> j - i = unat secs - 1)"
  using assms
proof (induction cond i secs rule: spin_loop.induct)
  case (1 cond i secs)
  have u: "unat (secs - 1) = unat secs - 1" "0 < unat secs"
    using 1(2) by (simp_all add: unat_minus_one word_gt_0 unat_gt_0)
  show ?case
  proof (cases "cond i")
    case True
    then show ?thesis using 1 u by (subst (asm) (2) spin_loop.simps) auto
  next
    case False
    show ?thesis
    proof (cases "secs - 1 = 0")
      case True
      then have "unat secs = 1" using u by (metis Suc_pred' One_nat_def unat_0)
      moreover have "s = 0 \<and> j = i" using 1(3) False True by (subst (asm) spin_loop.simps) simp
      ultimately show ?thesis by simp
    next
      case nz: False
      then have "0 < secs - 1" by (simp add: word_gt_0)
      moreover have "spin_loop cond (Suc i) (secs - 1) = (s, j)"
        using 1(3) False nz by (subst (asm) spin_loop.simps) simp
      ultimately have "Suc i \<le> j \<and> j - Suc i < unat (secs - 1) \<and> unat s \<le> unat (secs - 1) \<and>
          (s = 0 \<longrightarrow> j - Suc i = unat (secs - 1) - 1)"
        using 1(1) [OF False nz] by simp
      then show ?thesis using u by auto
    qed
  qed
qed

theorem spin_wait_bound_witness:
  "(0 :: nat) \<le> 1 \<and> 1 - 0 < unat (2 :: siz) \<and> unat (0 :: siz) \<le> unat (2 :: siz) \<and>
    ((0 :: siz) = 0 \<longrightarrow> 1 - 0 = unat (2 :: siz) - 1)"
proof (rule spin_wait_bound)
  show "spin_loop (\<lambda>_. False) 0 2 = (0, 1)"
    by (subst spin_loop.simps, subst spin_loop.simps) simp
qed simp

definition skivlet_inv :: "skivlet \<Rightarrow> bool" where
  "skivlet_inv b =
     (sk_nick b = sk_nick new_skivlet \<and> sk_con b \<noteq> C_Start \<and>
      (\<forall>l\<in>set (sk_wire b). length l \<le> 512 \<and> (starts_with ''NICK '' l \<longrightarrow> l = ''NICK Skivlet'' @ [CR, LF])))"

lemma skivlet_inv_send:
  "skivlet_inv b \<Longrightarrow> (starts_with ''NICK '' (take 510 cmd @ [CR, LF]) \<Longrightarrow> cmd = ''NICK Skivlet'') \<Longrightarrow>
    skivlet_inv (sk_send cmd b)"
  by (auto simp: skivlet_inv_def sk_send_def)

lemma skivlet_inv_frame:
  "skivlet_inv b \<Longrightarrow> sk_nick b' = sk_nick b \<Longrightarrow> sk_wire b' = sk_wire b \<Longrightarrow> sk_con b' \<noteq> C_Start \<Longrightarrow> skivlet_inv b'"
  by (simp add: skivlet_inv_def)

lemma sk_send_frames [simp]:
  "sk_nick (sk_send c b) = sk_nick b" "sk_con (sk_send c b) = sk_con b" "sk_uniq (sk_send c b) = sk_uniq b"
  "sk_connected (sk_send c b) = sk_connected b"
  by (simp_all add: sk_send_def)

lemma skivlet_inv_connecter: "skivlet_inv b \<Longrightarrow> skivlet_inv (connecter rand b)"
proof -
  assume b: "skivlet_inv b"
  have user: "skivlet_inv (sk_send ''USER Skivlet 0 * :Skivlet'' b)" by (rule skivlet_inv_send [OF b]) simp
  have nick: "skivlet_inv (sk_send (''NICK '' @ sk_nick b ! 0) b)"
    using b by (intro skivlet_inv_send [OF b]) (simp add: skivlet_inv_def new_skivlet_def)
  have ping: "skivlet_inv c \<Longrightarrow> skivlet_inv (sk_send (''PING '' @ rand) (c\<lparr>sk_ping := rand\<rparr>))" for c
    by (rule skivlet_inv_send) (simp_all add: skivlet_inv_def)
  show ?thesis
  proof (cases "sk_con b")
    case C_Start
    with b show ?thesis by (simp add: skivlet_inv_def)
  next
    case C_Top
    with user b show ?thesis by (auto simp: connecter_def intro: skivlet_inv_frame)
  next
    case C_Second
    have "skivlet_inv (c\<lparr>sk_con := C_Pinged\<rparr>)" if "skivlet_inv c" for c
      using that by (rule skivlet_inv_frame) simp_all
    with C_Second ping [OF nick] ping [OF b] b show ?thesis
      by (auto simp: connecter_def Let_def intro: skivlet_inv_frame)
  next
    case C_Pinged
    with b show ?thesis by (auto simp: connecter_def intro: skivlet_inv_frame)
  next
    case C_Stop
    with b show ?thesis by (simp add: connecter_def)
  qed
qed

lemma skivlet_inv_responder: "skivlet_inv b \<Longrightarrow> skivlet_inv (responder h now line b)"
proof -
  assume b: "skivlet_inv b"
  let ?b1 = "b\<lparr>sk_msg := snd (parsemsg h now line (sk_msg b))\<rparr>"
  have con: "sk_con b \<noteq> C_Start" using b by (simp add: skivlet_inv_def)
  have b1: "skivlet_inv ?b1" using b by (rule skivlet_inv_frame) (simp_all add: con)
  have pong: "skivlet_inv (sk_send (''PONG '' @ x) ?b1)" for x by (rule skivlet_inv_send [OF b1]) simp
  show ?thesis
    using b b1 pong con unfolding responder_def Let_def by (auto intro: skivlet_inv_frame [OF b])
qed

lemma skivlet_inv_cli: "skivlet_inv b \<Longrightarrow> skivlet_inv (cli line b)"
proof -
  assume b: "skivlet_inv b"
  obtain cmd is1 where r: "read_word (sk_cmd b) (str_stream line) = (cmd, is1)" by fastforce
  let ?b1 = "b\<lparr>sk_cmd := cmd\<rparr>"
  have con: "sk_con b \<noteq> C_Start" using b by (simp add: skivlet_inv_def)
  have b1: "skivlet_inv ?b1" using b by (rule skivlet_inv_frame) (simp_all add: con)
  have quit: "skivlet_inv (sk_send ''QUIT :leaving'' (?b1\<lparr>sk_done := True\<rparr>))"
    by (rule skivlet_inv_send, rule skivlet_inv_frame [OF b1]) (simp_all add: con)
  have part: "skivlet_inv (sk_send (''PART '' @ x) ?b1)" for x by (rule skivlet_inv_send [OF b1]) simp
  have say: "skivlet_inv (sk_send (''PRIVMSG '' @ x) ?b1)" for x by (rule skivlet_inv_send [OF b1]) simp
  have join: "skivlet_inv (sk_send (''JOIN '' @ ch) (c\<lparr>sk_channel := ch\<rparr>))" if c: "skivlet_inv c" for c ch
    by (rule skivlet_inv_send, rule skivlet_inv_frame [OF c]) (use c in \<open>simp_all add: skivlet_inv_def\<close>)
  show ?thesis
    using b b1 quit part say join [OF b1] join [OF part] unfolding cli_def r prod.case Let_def by auto
qed

subsection \<open>Nicknames\<close>

text \<open>The requests for a nickname that are on the wire.\<close>

definition nick_requests :: "skivlet \<Rightarrow> string list" where
  "nick_requests b = filter (starts_with ''NICK '') (sk_wire b)"

text \<open>A step of a run in which the server has not welcomed the client.\<close>

definition unwelcome_step :: "hol \<Rightarrow> skivlet \<Rightarrow> skivlet \<Rightarrow> bool" where
  "unwelcome_step h b b' = (sk_step h b b' \<and> \<not> sk_connected b')"

lemma nick_requests_send [simp]:
  "nick_requests (sk_send c b) =
    nick_requests b @ (if starts_with ''NICK '' (take 510 c @ [CR, LF]) then [take 510 c @ [CR, LF]] else [])"
  by (simp add: nick_requests_def sk_send_def)

lemma nick_requests_frame [simp]:
  "nick_requests (b\<lparr>sk_connected := x1\<rparr>) = nick_requests b" "nick_requests (b\<lparr>sk_done := x2\<rparr>) = nick_requests b"
  "nick_requests (b\<lparr>sk_uniq := x3\<rparr>) = nick_requests b" "nick_requests (b\<lparr>sk_ping := x4\<rparr>) = nick_requests b"
  "nick_requests (b\<lparr>sk_pong := x5\<rparr>) = nick_requests b" "nick_requests (b\<lparr>sk_con := x6\<rparr>) = nick_requests b"
  "nick_requests (b\<lparr>sk_msg := x7\<rparr>) = nick_requests b" "nick_requests (b\<lparr>sk_cmd := x8\<rparr>) = nick_requests b"
  "nick_requests (b\<lparr>sk_channel := x9\<rparr>) = nick_requests b"
  by (simp_all add: nick_requests_def)

lemma connecter_nicks: "sk_con b \<noteq> C_Start \<Longrightarrow> \<not> sk_connected b \<Longrightarrow> nick_requests (connecter rand b) = nick_requests b"
  by (cases "sk_con b") (simp_all add: connecter_def)

lemma responder_nicks: "nick_requests (responder h now line b) = nick_requests b"
  by (simp add: responder_def Let_def)

lemma cli_nicks: "nick_requests (cli line b) = nick_requests b"
  by (simp add: cli_def Let_def split_beta)

lemma step_nicks: "sk_step h b b' \<Longrightarrow> sk_con b \<noteq> C_Start \<Longrightarrow> \<not> sk_connected b \<Longrightarrow> nick_requests b' = nick_requests b"
  by (induction rule: sk_step.induct) (simp_all add: connecter_nicks responder_nicks cli_nicks)

lemma skivlet_inv_reach:
  assumes "(sk_step h)\<^sup>*\<^sup>* (connecter rand new_skivlet) b"
  shows "skivlet_inv b"
  using assms
proof induction
  case base
  show ?case by (simp add: connecter_def new_skivlet_def sk_send_def skivlet_inv_def)
next
  case (step b b')
  from step.hyps(2) step.IH show ?case
    by cases (simp_all add: skivlet_inv_connecter skivlet_inv_responder skivlet_inv_cli)
qed

lemma unwelcome_nicks:
  assumes "(unwelcome_step h)\<^sup>*\<^sup>* (connecter rand new_skivlet) b"
  shows "skivlet_inv b \<and> \<not> sk_connected b \<and> nick_requests b = [''NICK Skivlet'' @ [CR, LF]]"
  using assms
proof induction
  case base
  have "skivlet_inv (connecter rand new_skivlet)" by (rule skivlet_inv_reach [where h = h and rand = rand]) simp
  then show ?case by (simp add: connecter_def new_skivlet_def sk_send_def nick_requests_def)
next
  case (step b b')
  then have s: "sk_step h b b'" "\<not> sk_connected b'" by (simp_all add: unwelcome_step_def)
  from s(1) step.IH have "skivlet_inv b'"
    by cases (simp_all add: skivlet_inv_connecter skivlet_inv_responder skivlet_inv_cli)
  with s step.IH step_nicks [OF s(1)] show ?case by (simp add: skivlet_inv_def)
qed



end
