(* ===== verification/Calendar.thy ===== *)
theory Calendar
  imports Prelude
begin

text \<open>
  Dates (\<open>cal.h\<close>, \<open>cal.cpp\<close>): \<open>date_t\<close> is \<open>std::tm\<close> with a few operations.  Its members are \<open>int\<close>s
  that the operations hand to functions of \<open>size_t\<close>.  \<open>gmtime\<close>, \<open>mktime\<close>, \<open>strftime\<close> and the clock are
  arguments; reading a table outside its bounds and a failed assertion are error values.
\<close>

record date =
  d_sec :: int
  d_min :: int
  d_hour :: int
  d_mday :: int
  d_mon :: int
  d_year :: int
  d_wday :: int
  d_yday :: int
  d_isdst :: int

datatype cal_error = Out_Of_Table | Assertion

text \<open>Conversions between \<open>int\<close> and \<open>size_t\<close>.\<close>

definition to_siz :: "int \<Rightarrow> siz" where
  "to_siz n = of_int n"

definition to_int :: "siz \<Rightarrow> int" where
  "to_int w = signed_take_bit 31 (uint w)"

definition get_year :: "(int \<Rightarrow> date) \<Rightarrow> int \<Rightarrow> siz" where
  "get_year gmtime u = to_siz (d_year (gmtime u) + 1900)"

definition get_month :: "(int \<Rightarrow> date) \<Rightarrow> int \<Rightarrow> siz" where
  "get_month gmtime u = to_siz (d_mon (gmtime u))"

definition get_date :: "(int \<Rightarrow> date) \<Rightarrow> int \<Rightarrow> siz" where
  "get_date gmtime u = to_siz (d_mday (gmtime u))"

definition dmap :: "nat list" where
  "dmap = [31, 28, 31, 30, 31, 30, 31, 31, 30, 31, 30, 31]"

definition mon_str_map :: "string list" where
  "mon_str_map = [''January'', ''February'', ''March'', ''April'', ''May'', ''June'', ''July'', ''August'',
     ''September'', ''October'', ''November'', ''December'']"

definition get_month_str :: "siz \<Rightarrow> bool \<Rightarrow> cal_error + string" where
  "get_month_str m full =
     (if \<not> m < 12 then Inl Assertion
      else if full then Inr (mon_str_map ! unat m) else Inr (substr (mon_str_map ! unat m) 0 3))"

definition is_leap_year :: "siz \<Rightarrow> bool" where
  "is_leap_year y = (y mod 4 = 0 \<and> y mod 100 \<noteq> 0 \<or> y mod 400 = 0)"

definition days_in_month :: "siz \<Rightarrow> siz \<Rightarrow> cal_error + siz" where
  "days_in_month y m =
     (if unat m < length dmap
      then Inr (of_nat (dmap ! unat m) + (if m = 1 then if is_leap_year y then 1 else 0 else 0))
      else Inl Out_Of_Table)"

definition days_in_month_now :: "(int \<Rightarrow> date) \<Rightarrow> int \<Rightarrow> siz \<Rightarrow> cal_error + siz" where
  "days_in_month_now gmtime now m = days_in_month (get_year gmtime now) m"

subsection \<open>\<open>date_t\<close>\<close>

text \<open>What \<open>gmtime\<close> gives for 0: Thursday, 1 January 1970.\<close>

definition epoch :: date where
  "epoch = \<lparr>d_sec = 0, d_min = 0, d_hour = 0, d_mday = 1, d_mon = 0, d_year = 70, d_wday = 4, d_yday = 0,
     d_isdst = 0\<rparr>"

definition date_of_time :: "(int \<Rightarrow> date) \<Rightarrow> int \<Rightarrow> int option \<Rightarrow> date" where
  "date_of_time gmtime now t = gmtime (case t of Some u \<Rightarrow> u | None \<Rightarrow> now)"

definition date_of_ymd :: "siz \<Rightarrow> siz \<Rightarrow> siz \<Rightarrow> date" where
  "date_of_ymd y m d =
     epoch\<lparr>d_year := to_int (y - 1900), d_mon := to_int m, d_mday := to_int d, d_isdst := 0\<rparr>"

definition as_unix :: "(date \<Rightarrow> int) \<Rightarrow> date \<Rightarrow> int" where
  "as_unix mktime dt = mktime dt"

definition date_is_leap_year :: "date \<Rightarrow> bool" where
  "date_is_leap_year dt = is_leap_year (to_siz (d_year dt))"

definition date_days_in_month :: "date \<Rightarrow> cal_error + siz" where
  "date_days_in_month dt = days_in_month (to_siz (d_year dt)) (to_siz (d_mon dt))"

definition dec_year :: "date \<Rightarrow> date" where
  "dec_year dt = dt\<lparr>d_year := d_year dt - 1\<rparr>"

definition dec_month :: "date \<Rightarrow> date" where
  "dec_month dt =
     (let dt1 = (if d_mon dt = 0 then dec_year dt else dt) in dt1\<lparr>d_mon := d_mon dt1 - 1\<rparr>)"

definition wrap_yday :: "date \<Rightarrow> date" where
  "wrap_yday dt =
     (if d_yday dt = 0 then dt\<lparr>d_yday := 365 + (if date_is_leap_year dt then 1 else 0)\<rparr> else dt)"

definition dec_day :: "date \<Rightarrow> cal_error + date" where
  "dec_day dt =
     (let r = (if d_mday dt = 1
               then (let dt1 = dec_month dt
                     in case date_days_in_month dt1 of
                          Inl e \<Rightarrow> Inl e
                        | Inr n \<Rightarrow> Inr (dt1\<lparr>d_mday := to_int (n + 1)\<rparr>))
               else Inr dt)
      in case r of
           Inl e \<Rightarrow> Inl e
         | Inr dt1 \<Rightarrow>
             (let dt2 = wrap_yday dt1
              in Inr (dt2\<lparr>d_mday := d_mday dt2 - 1, d_yday := d_yday dt2 - 1\<rparr>)))"

text \<open>\<open>format\<close>: a result that does not fit the buffer of 1024 bytes, with its NUL, is empty.\<close>

definition date_format :: "(string \<Rightarrow> date \<Rightarrow> string) \<Rightarrow> string option \<Rightarrow> date \<Rightarrow> string" where
  "date_format strftime fmt dt =
     (let s = strftime (case fmt of Some f \<Rightarrow> f | None \<Rightarrow> ''%Y%m%d'') dt
      in if length s < 1024 then s else [])"

subsection \<open>The calendar\<close>

text \<open>The rule for leap years and the days before a month, by the full number of the year.\<close>

definition leap :: "int \<Rightarrow> bool" where
  "leap y = (y mod 4 = 0 \<and> y mod 100 \<noteq> 0 \<or> y mod 400 = 0)"

definition month_days :: "int \<Rightarrow> nat \<Rightarrow> int" where
  "month_days y m = int (dmap ! m) + (if m = 1 \<and> leap y then 1 else 0)"

definition days_before :: "int \<Rightarrow> nat \<Rightarrow> int" where
  "days_before y m = (\<Sum>i<m. month_days y i)"

definition year_of :: "date \<Rightarrow> int" where
  "year_of dt = d_year dt + 1900"

text \<open>A date whose day of the year agrees with its month and day.\<close>

definition consistent :: "date \<Rightarrow> bool" where
  "consistent dt = (0 \<le> d_mon dt \<and> d_mon dt < 12 \<and> 1 \<le> d_mday dt \<and>
     d_mday dt \<le> month_days (year_of dt) (nat (d_mon dt)) \<and>
     d_yday dt = days_before (year_of dt) (nat (d_mon dt)) + d_mday dt - 1)"

lemma to_siz_small: "0 \<le> n \<Longrightarrow> n < 2 ^ 64 \<Longrightarrow> unat (to_siz n) = nat n"
  by (simp add: to_siz_def unat_eq_nat_uint uint_word_of_int)

lemma siz_mod: "uint (y mod (z :: siz)) = uint y mod uint z"
  by (rule uint_mod)

lemma is_leap_year_uint: "is_leap_year y = leap (uint y)"
proof -
  have "(y mod n = 0) = (uint y mod uint n = 0)" for n :: siz
    by (metis siz_mod uint_0_iff)
  from this [of 4] this [of 100] this [of 400] show ?thesis
    by (simp add: is_leap_year_def leap_def)
qed

lemma leap_shift: "leap n = leap (n + 1900) \<longleftrightarrow> (n + 1900) mod 400 \<noteq> 0 \<and> (n + 1900) mod 400 \<noteq> 300"
proof -
  define r where "r = n mod 400"
  have r: "0 \<le> r" "r < 400" by (simp_all add: r_def)
  have "(n + 1900) mod 400 = (r + 300) mod 400"
    unfolding r_def using mod_add_eq [of n 400 1900] by simp
  also have "\<dots> = (if r < 100 then r + 300 else r - 100)"
    using r mod_add_self2 [of "r - 100" 400] by (auto simp: mod_pos_pos_trivial add.commute)
  finally have a: "(n + 1900) mod 400 = (if r < 100 then r + 300 else r - 100)" .
  have b: "(n + 1900) mod 4 = n mod 4" "(n + 1900) mod 100 = n mod 100"
    using mod_add_eq [of n 4 1900] mod_add_eq [of n 100 1900] by simp_all
  have c: "n mod 100 = r mod 100" by (simp add: r_def mod_mod_cancel)
  have "leap n \<longleftrightarrow> n mod 4 = 0 \<and> r mod 100 \<noteq> 0 \<or> r = 0"
    unfolding leap_def c r_def by simp
  moreover have "leap (n + 1900) \<longleftrightarrow> n mod 4 = 0 \<and> r mod 100 \<noteq> 0 \<or> r = 100"
    unfolding leap_def a b c using r by auto
  ultimately show ?thesis unfolding a using r by auto
qed

text \<open>\<open>date_t::is_leap_year\<close> hands \<open>tm_year\<close>, the years since 1900, to a function of the full year:
  the answer is wrong exactly for the years that leave 0 or 300 when divided by 400, such as 2000.\<close>

theorem leap_year_offset:
  assumes "1900 \<le> year_of dt" "d_year dt < 2 ^ 31"
  shows "date_is_leap_year dt = leap (year_of dt) \<longleftrightarrow> year_of dt mod 400 \<noteq> 0 \<and> year_of dt mod 400 \<noteq> 300"
proof -
  have "uint (to_siz (d_year dt)) = d_year dt"
    using assms by (simp add: to_siz_def uint_word_of_int year_of_def)
  then have "date_is_leap_year dt = leap (d_year dt)"
    by (simp add: date_is_leap_year_def is_leap_year_uint)
  moreover have "leap n = leap (n + 1900) \<longleftrightarrow> (n + 1900) mod 400 \<noteq> 0 \<and> (n + 1900) mod 400 \<noteq> 300" for n
    by (rule leap_shift)
  ultimately show ?thesis by (simp add: year_of_def)
qed

theorem leap_year_offset_witness:
  "date_is_leap_year (date_of_ymd 2000 1 1) = leap (year_of (date_of_ymd 2000 1 1)) \<longleftrightarrow>
    year_of (date_of_ymd 2000 1 1) mod 400 \<noteq> 0 \<and> year_of (date_of_ymd 2000 1 1) mod 400 \<noteq> 300"
  by (rule leap_year_offset) (simp_all add: date_of_ymd_def year_of_def to_int_def epoch_def)

lemma month_days_bounds: "m < 12 \<Longrightarrow> 28 \<le> month_days y m \<and> month_days y m \<le> 31"
proof -
  have "\<forall>n\<in>set dmap. 28 \<le> n \<and> n \<le> 31" "dmap ! 1 = 28" by (simp_all add: dmap_def)
  moreover assume "m < 12"
  then have "dmap ! m \<in> set dmap" by (intro nth_mem) (simp add: dmap_def)
  ultimately show ?thesis by (auto simp: month_days_def)
qed

lemma date_days_in_month_eq:
  assumes "0 \<le> d_year dt" "d_year dt < 2 ^ 31" "0 \<le> d_mon dt" "d_mon dt < 12"
    "leap (d_year dt) = leap (year_of dt)"
  shows "\<exists>n. date_days_in_month dt = Inr n \<and> to_int (n + 1) = month_days (year_of dt) (nat (d_mon dt)) + 1"
proof -
  have m: "unat (to_siz (d_mon dt)) = nat (d_mon dt)" using assms by (intro to_siz_small) simp_all
  have u1: "unat (1 :: siz) = 1" by simp
  have m1: "to_siz (d_mon dt) = 1 \<longleftrightarrow> nat (d_mon dt) = 1"
    unfolding m [symmetric] using u1 by (metis word_eq_iff_unsigned)
  have y: "is_leap_year (to_siz (d_year dt)) = leap (year_of dt)"
    using assms by (simp add: is_leap_year_uint to_siz_def uint_word_of_int)
  have len: "length dmap = 12" by (simp add: dmap_def)
  define k where "k = dmap ! nat (d_mon dt) + (if nat (d_mon dt) = 1 \<and> leap (year_of dt) then 1 else 0)"
  have k: "int k = month_days (year_of dt) (nat (d_mon dt))" by (simp add: k_def month_days_def)
  have m12: "nat (d_mon dt) < 12" using assms by linarith
  then have "k \<le> 31" using month_days_bounds [of "nat (d_mon dt)" "year_of dt"] k by linarith
  then have "to_int (of_nat k + 1) = int k + 1"
    by (simp add: to_int_def uint_word_ariths unsigned_of_nat signed_take_bit_int_eq_self take_bit_nat_eq_self
        flip: of_nat_Suc)
  moreover have "date_days_in_month dt = Inr (of_nat k)"
    using assms m m1 y len m12 by (simp add: date_days_in_month_def days_in_month_def k_def)
  ultimately show ?thesis using k by auto
qed

text \<open>Apart from the first of January, and from the years whose leap rule the code gets wrong,
  \<open>dec_day\<close> takes a consistent date to a consistent date, one day earlier.\<close>

theorem dec_day_steps:
  assumes "consistent dt" "\<not> (d_mon dt = 0 \<and> d_mday dt = 1)"
    and "0 \<le> d_year dt" "d_year dt < 2 ^ 31" "year_of dt mod 400 \<noteq> 0" "year_of dt mod 400 \<noteq> 300"
  shows "\<exists>dt'. dec_day dt = Inr dt' \<and> consistent dt' \<and> year_of dt' = year_of dt \<and> d_yday dt' = d_yday dt - 1"
proof -
  have c: "0 \<le> d_mon dt" "d_mon dt < 12" "1 \<le> d_mday dt"
    "d_mday dt \<le> month_days (year_of dt) (nat (d_mon dt))"
    "d_yday dt = days_before (year_of dt) (nat (d_mon dt)) + d_mday dt - 1"
    using assms(1) by (simp_all add: consistent_def)
  have nn: "0 \<le> days_before (year_of dt) n" if "n \<le> 12" for n
    unfolding days_before_def using month_days_bounds [of _ "year_of dt"] that by (intro sum_nonneg) (metis (full_types) lessThan_iff less_le_trans order_trans zero_le_numeral)
  show ?thesis
  proof (cases "d_mday dt = 1")
    case False
    then have "d_yday dt \<noteq> 0" using c nn [of "nat (d_mon dt)"] by linarith
    then have "dec_day dt = Inr (dt\<lparr>d_mday := d_mday dt - 1, d_yday := d_yday dt - 1\<rparr>)"
      using False by (simp add: dec_day_def wrap_yday_def)
    then show ?thesis using False c by (simp add: consistent_def year_of_def)
  next
    case True
    let ?m = "nat (d_mon dt - 1)" and ?dt = "dt\<lparr>d_mon := d_mon dt - 1\<rparr>"
    have m: "d_mon dt \<noteq> 0" "nat (d_mon dt) = Suc ?m" using assms(2) True c by simp_all
    have dm: "dec_month dt = ?dt" using m by (simp add: dec_month_def)
    have "leap (d_year dt) = leap (year_of dt)"
      using leap_shift [of "d_year dt"] assms(5,6) by (simp add: year_of_def)
    then obtain n where n: "date_days_in_month ?dt = Inr n" "to_int (n + 1) = month_days (year_of dt) ?m + 1"
      using date_days_in_month_eq [of ?dt] assms(3,4) c m by (auto simp: year_of_def)
    have d: "days_before (year_of dt) (Suc ?m) = days_before (year_of dt) ?m + month_days (year_of dt) ?m"
      by (simp add: days_before_def)
    have b: "28 \<le> month_days (year_of dt) ?m" using month_days_bounds [of ?m "year_of dt"] c m by simp
    have "?m \<le> 12" using c by linarith
    then have y: "d_yday dt \<noteq> 0" using c(5) True m(2) d nn [of ?m] b by simp
    have "dec_day dt = Inr (?dt\<lparr>d_mday := month_days (year_of dt) ?m, d_yday := d_yday dt - 1\<rparr>)"
      using True n y by (simp add: dec_day_def dm Let_def wrap_yday_def)
    then show ?thesis using c m d b True by (simp add: consistent_def year_of_def)
  qed
qed

definition march_1_2012 :: date where
  "march_1_2012 = epoch\<lparr>d_year := 112, d_mon := 2, d_yday := 60\<rparr>"

theorem dec_day_steps_witness:
  "\<exists>dt'. dec_day march_1_2012 = Inr dt' \<and> consistent dt' \<and> year_of dt' = year_of march_1_2012 \<and>
    d_yday dt' = d_yday march_1_2012 - 1"
  by (rule dec_day_steps)
    (simp_all add: march_1_2012_def epoch_def consistent_def year_of_def days_before_def month_days_def dmap_def
      leap_def numeral_2_eq_2)

text \<open>On the first of January the month becomes -1 and the table of the month lengths is read out of
  bounds.\<close>

theorem dec_day_january:
  assumes "d_mday dt = 1" "d_mon dt = 0"
  shows "dec_day dt = Inl Out_Of_Table"
proof -
  have "to_siz (- 1) = - 1" "unat (- 1 :: siz) = 2 ^ 64 - 1"
    by (simp_all add: to_siz_def unat_eq_nat_uint uint_word_ariths)
  then show ?thesis
    using assms by (simp add: dec_day_def dec_month_def dec_year_def date_days_in_month_def days_in_month_def dmap_def)
qed

theorem dec_day_january_witness: "dec_day epoch = Inl Out_Of_Table"
  by (rule dec_day_january) (simp_all add: epoch_def)

end
