(* ===== verification/Delays.thy ===== *)
theory Delays
  imports Streams
begin

text \<open>
  Delays with a unit (\<open>types.h\<close>, \<open>types.cpp\<close>), such as \<open>5m\<close> or \<open>2w\<close>.  The output operator tests
  divisibility by comparing quotients as doubles, which agrees with the division of integers
  below \<open>2\<^sup>5\<^sup>3\<close>; what it prints above is not modelled, \<open>None\<close>.
\<close>

definition delay_factor :: "char \<Rightarrow> siz option" where
  "delay_factor f =
     (if f = CHR ''s'' then Some 1
      else if f = CHR ''m'' then Some 60
      else if f = CHR ''h'' then Some (60 * 60)
      else if f = CHR ''d'' then Some (60 * 60 * 24)
      else if f = CHR ''w'' then Some (60 * 60 * 24 * 7)
      else None)"

text \<open>\<open>delay::parse\<close>: the new value of \<open>d\<close> and the stream; a missing factor clears \<open>failbit\<close>.\<close>

definition delay_parse :: "siz \<Rightarrow> istream \<Rightarrow> siz \<times> istream" where
  "delay_parse d is =
     (case read_siz d is of (d1, is1) \<Rightarrow>
        case read_char (CHR ''s'') is1 of (f, is2) \<Rightarrow>
          if ok is2
          then (case delay_factor f of Some k \<Rightarrow> (d1 * k, is2) | None \<Rightarrow> (d1, set_fail is2))
          else (d1, is2\<lparr>failbit := False\<rparr>))"

definition delay_parse_str :: "siz \<Rightarrow> string \<Rightarrow> bool \<times> siz" where
  "delay_parse_str d s = (case delay_parse d (str_stream s) of (d1, is1) \<Rightarrow> (ok is1, d1))"

text \<open>\<open>delay(const str&)\<close> ignores whether the text was good.\<close>

definition delay_of :: "string \<Rightarrow> siz" where
  "delay_of s = snd (delay_parse_str 0 s)"

definition delay_text :: "siz \<Rightarrow> string option" where
  "delay_text d =
     (if \<not> d < 2 ^ 53 then None
      else if d mod (60 * 60 * 24 * 7) = 0 then Some (show_nat (unat (d div (60 * 60 * 24 * 7))) @ ''w'')
      else if d mod (60 * 60 * 24) = 0 then Some (show_nat (unat (d div (60 * 60 * 24))) @ ''d'')
      else if d mod (60 * 60) = 0 then Some (show_nat (unat (d div (60 * 60))) @ ''h'')
      else if d mod 60 = 0 then Some (show_nat (unat (d div 60)) @ ''m'')
      else Some (show_nat (unat d) @ ''s''))"

lemma delay_parse_unit:
  assumes "\<not> isdigit f" "\<not> isspace f" "delay_factor f = Some k"
  shows "delay_parse_str d (show_nat (unat n) @ [f]) = (True, n * k)"
proof -
  have "unat n < 2 ^ 64" using unsigned_less [of n, where ?'a = nat] by simp
  then have "read_siz d (str_stream (show_nat (unat n) @ f # [])) = (n, str_stream [f])"
    using read_siz_show [of "unat n" f d "[]"] assms(1) by simp
  moreover have "read_char (CHR ''s'') (str_stream [f]) = (f, str_stream [])"
    using assms(2) by (simp add: read_char_def sentry_found Let_def)
  ultimately show ?thesis using assms(3) by (simp add: delay_parse_str_def delay_parse_def)
qed

text \<open>A delay reads back from its own output.\<close>

theorem delay_round_trip:
  assumes "delay_text d = Some s"
  shows "delay_parse_str d0 s = (True, d)"
proof -
  have div: "d div k * k = d" if "d mod k = 0" for k :: siz
    using that by (metis add.right_neutral div_mult_mod_eq)
  have u: "\<not> isdigit c \<and> \<not> isspace c" if "c \<in> set ''wdhms''" for c
    using that by (auto simp: isdigit_def isspace_def code_def char_consts)
  have parse: "delay_parse_str d0 (show_nat (unat (d div k)) @ [c]) = (True, d)"
    if "d mod k = 0" "c \<in> set ''wdhms''" "delay_factor c = Some k" for k c
    using delay_parse_unit [OF _ _ that(3), of d0 "d div k"] u [OF that(2)] div [OF that(1)] by simp
  show ?thesis
    using assms parse [of "60 * 60 * 24 * 7" "CHR ''w''"] parse [of "60 * 60 * 24" "CHR ''d''"]
      parse [of "60 * 60" "CHR ''h''"] parse [of 60 "CHR ''m''"] parse [of 1 "CHR ''s''"]
    unfolding delay_text_def delay_factor_def by (simp split: if_splits) 
qed

theorem delay_round_trip_witness: "delay_parse_str 0 ''5m'' = (True, 300)"
proof -
  have "delay_text 300 = Some (show_nat (unat (300 div 60 :: siz)) @ ''m'')"
    by (simp add: delay_text_def)
  then have "delay_parse_str 0 (show_nat (unat (300 div 60 :: siz)) @ ''m'') = (True, 300)"
    by (rule delay_round_trip)
  moreover have "show_nat (unat (300 div 60 :: siz)) = ''5''" by (simp add: show_nat.simps) code_simp
  ultimately show ?thesis by simp
qed

text \<open>Text that is no delay counts as a delay of zero: the number fails, so the unit is not read, and the
  branch of the missing unit clears the failure.\<close>

lemma bad_delay_accepted:
  assumes "c \<notin> {CHR ''+'', CHR ''-''}" "\<not> isdigit c" "\<not> isspace c"
  shows "delay_parse_str d (c # s) = (True, 0)"
proof -
  have "sentry (str_stream (c # s)) = str_stream (c # s)"
    using assms(3) by (simp add: sentry_found)
  then have r: "read_siz d (str_stream (c # s)) = (0, set_fail (str_stream (c # s)))"
    using assms by (simp add: read_siz_def Let_def split_sign_def)
  show ?thesis by (simp add: delay_parse_str_def delay_parse_def r read_char_def sentry_bad) (simp add: stream_defs)
qed

end
