(* ===== verification/Irc_Colors.thy ===== *)
theory Irc_Colors
  imports Std_Map
begin

text \<open>
  Colours (\<open>irc.h\<close>, \<open>irc.cpp\<close>, \<open>prompt_color\<close> of \<open>utils.cpp\<close>).  A colour has \<open>size_t\<close> components;
  \<open>distance\<close> squares them as doubles, which is exact for the components of a byte the program
  uses, so the components are natural numbers here and the root is the integer root.
\<close>

definition IRC_REVERSE :: string where "IRC_REVERSE = [CHR 0x16]"
definition IRC_ITALICS :: string where "IRC_ITALICS = [CHR 0x16]"
definition IRC_BOLD :: string where "IRC_BOLD = [CHR 0x02]"
definition IRC_COLOR :: string where "IRC_COLOR = [CHR 0x03]"
definition IRC_NORMAL :: string where "IRC_NORMAL = [CHR 0x0F]"
definition IRC_UNDERLINE :: string where "IRC_UNDERLINE = [CHR 0x1F]"
definition IRC_White :: string where "IRC_White = ''00''"
definition IRC_Black :: string where "IRC_Black = ''01''"
definition IRC_Navy_Blue :: string where "IRC_Navy_Blue = ''02''"
definition IRC_Green :: string where "IRC_Green = ''03''"
definition IRC_Red :: string where "IRC_Red = ''04''"
definition IRC_Brown :: string where "IRC_Brown = ''05''"
definition IRC_Purple :: string where "IRC_Purple = ''06''"
definition IRC_Olive :: string where "IRC_Olive = ''07''"
definition IRC_Yellow :: string where "IRC_Yellow = ''08''"
definition IRC_Lime_Green :: string where "IRC_Lime_Green = ''09''"
definition IRC_Teal :: string where "IRC_Teal = ''10''"
definition IRC_Aqua_Light :: string where "IRC_Aqua_Light = ''11''"
definition IRC_Royal_Blue :: string where "IRC_Royal_Blue = ''12''"
definition IRC_Hot_Pink :: string where "IRC_Hot_Pink = ''13''"
definition IRC_Dark_Gray :: string where "IRC_Dark_Gray = ''14''"
definition IRC_Light_Gray :: string where "IRC_Light_Gray = ''15''"

lemmas irc_consts = IRC_BOLD_def IRC_COLOR_def IRC_NORMAL_def IRC_White_def IRC_Black_def IRC_Navy_Blue_def
  IRC_Green_def IRC_Red_def IRC_Brown_def IRC_Purple_def IRC_Olive_def IRC_Yellow_def IRC_Lime_Green_def
  IRC_Teal_def IRC_Aqua_Light_def IRC_Royal_Blue_def IRC_Hot_Pink_def IRC_Dark_Gray_def IRC_Light_Gray_def

subsection \<open>The closest colour\<close>

record color =
  c_r :: nat
  c_g :: nat
  c_b :: nat

definition rgb :: "nat \<Rightarrow> nat \<Rightarrow> nat \<Rightarrow> color" where
  "rgb r g b = \<lparr>c_r = r, c_g = g, c_b = b\<rparr>"

definition irc_colors :: "color list" where
  "irc_colors = [rgb 0xFF 0xFF 0xFF, rgb 0 0 0, rgb 0 0 0x80, rgb 0 0x80 0, rgb 0xFF 0 0, rgb 0x80 0 0x40,
     rgb 0x80 0 0x80, rgb 0xFF 0x80 0x40, rgb 0xFF 0xFF 0, rgb 0x80 0xFF 0, rgb 0 0x80 0x80,
     rgb 0 0xFF 0xFF, rgb 0 0 0xFF, rgb 0xFF 0 0xFF, rgb 0x80 0x80 0x80, rgb 0xC0 0xC0 0xC0]"

definition difference :: "nat \<Rightarrow> nat \<Rightarrow> nat" where
  "difference a b = max a b - min a b"

text \<open>\<open>size_t(std::sqrt(n))\<close>.\<close>

fun isqrt :: "nat \<Rightarrow> nat" where
  "isqrt n = (if n = 0 then 0 else let r = 2 * isqrt (n div 4) in if (r + 1) ^ 2 \<le> n then r + 1 else r)"

declare isqrt.simps [simp del]

definition distance :: "color \<Rightarrow> color \<Rightarrow> nat" where
  "distance c1 c2 =
     isqrt (difference (c_r c1) (c_r c2) ^ 2 + difference (c_g c1) (c_g c2) ^ 2 + difference (c_b c1) (c_b c2) ^ 2)"

fun closest_loop :: "color \<Rightarrow> nat \<Rightarrow> color list \<Rightarrow> nat \<Rightarrow> nat \<Rightarrow> nat" where
  "closest_loop c i [] index mn = index"
| "closest_loop c i (x # xs) index mn =
     (let d = distance x c in if d < mn then closest_loop c (Suc i) xs i d else closest_loop c (Suc i) xs index mn)"

definition closest_color :: "color \<Rightarrow> nat" where
  "closest_color c = closest_loop c 0 irc_colors 0 (isqrt (0xFF * 0xFF + 0xFF * 0xFF + 0xFF * 0xFF))"

subsection \<open>Colour codes of the game\<close>

definition oatoirctab :: "nat list" where
  "oatoirctab = [1, 5, 3, 8, 2, 12, 6, 1]"

definition Q_IsColorString :: "string \<Rightarrow> bool" where
  "Q_IsColorString s = (case s of c # d # _ \<Rightarrow> c = CHR ''^'' \<and> isalnum d | _ \<Rightarrow> False)"

definition Q_IsSpecialChar :: "char \<Rightarrow> bool" where
  "Q_IsSpecialChar c = (c \<noteq> NUL \<and> schar c < 32)"

text \<open>The loop over the text, which ends at a NUL.\<close>

fun oa_loop :: "string \<Rightarrow> string" where
  "oa_loop [] = []"
| "oa_loop (c # s) =
     (if c = NUL then []
      else if Q_IsColorString (c # s)
      then (let k = oatoirctab ! (code (hd s) mod 8)
            in IRC_NORMAL @ IRC_COLOR @ (if k < 10 then ''0'' else []) @ show_nat k @ oa_loop (tl s))
      else if Q_IsSpecialChar c then CHR ''#'' # oa_loop s
      else c # oa_loop s)"

definition oa_to_IRC :: "string \<Rightarrow> string" where
  "oa_to_IRC msg = IRC_BOLD @ oa_loop msg @ IRC_NORMAL"

subsection \<open>Prompts\<close>

definition bg :: "(string, string) cmap" where
  "bg = fold (\<lambda>(k, v). cm_insert str_lt k v)
     [(IRC_White, IRC_Black), (IRC_Black, IRC_Light_Gray), (IRC_Navy_Blue, IRC_Light_Gray),
      (IRC_Green, IRC_Light_Gray), (IRC_Red, IRC_Light_Gray), (IRC_Brown, IRC_Light_Gray),
      (IRC_Purple, IRC_Light_Gray), (IRC_Olive, IRC_Light_Gray), (IRC_Yellow, IRC_Black),
      (IRC_Lime_Green, IRC_Black), (IRC_Teal, IRC_Black), (IRC_Aqua_Light, IRC_Black),
      (IRC_Royal_Blue, IRC_Black), (IRC_Hot_Pink, IRC_Black), (IRC_Dark_Gray, IRC_Light_Gray),
      (IRC_Light_Gray, IRC_Black)] []"

text \<open>\<open>siz(c)\<close> sign-extends; only the sum modulo 16 is used.\<close>

definition color_index :: "string \<Rightarrow> nat" where
  "color_index name = unat (fold (\<lambda>c idx. idx + of_int (schar c)) name (0 :: siz) mod 16)"

definition prompt_color :: "string \<Rightarrow> string" where
  "prompt_color seed =
     (let name = (if find_str ''do_'' seed = Some 0 \<and> 3 < length seed then substr_from seed 3 else seed);
          s = show_nat (color_index name);
          col = (if length s < 2 then ''0'' @ s else s);
          back = (case cm_find str_lt col bg of Some b \<Rightarrow> b | None \<Rightarrow> IRC_Black)
      in IRC_BOLD @ IRC_COLOR @ col @ '','' @ back @ name @ '':'' @ IRC_NORMAL @ '' '')"

subsection \<open>Lemmas\<close>

lemma isqrt_bounds: "isqrt n ^ 2 \<le> n \<and> n < (isqrt n + 1) ^ 2"
proof (induction n rule: isqrt.induct)
  case (1 n)
  show ?case
  proof (cases "n = 0")
    case False
    let ?q = "isqrt (n div 4)"
    have q: "?q ^ 2 \<le> n div 4" "n div 4 < (?q + 1) ^ 2" using 1 False by auto
    have "(2 * ?q) ^ 2 = 4 * ?q ^ 2" "(2 * ?q + 2) ^ 2 = 4 * (?q + 1) ^ 2"
      by (simp_all add: power2_eq_square algebra_simps)
    moreover have "4 * (n div 4) \<le> n" "n < 4 * (n div 4) + 4" by simp_all
    ultimately have "(2 * ?q) ^ 2 \<le> n" "n < (2 * ?q + 2) ^ 2" using q by linarith+
    then show ?thesis using False by (subst (1 2) isqrt.simps) (simp add: Let_def)
  qed (simp add: isqrt.simps)
qed

lemma isqrt_0: "isqrt n = 0 \<longleftrightarrow> n = 0"
proof
  show "isqrt n = 0 \<Longrightarrow> n = 0" using isqrt_bounds [of n] by simp
  show "n = 0 \<Longrightarrow> isqrt n = 0" by (subst isqrt.simps) simp
qed

lemma isqrt_mono: "m \<le> n \<Longrightarrow> isqrt m \<le> isqrt n"
proof (rule ccontr)
  assume "m \<le> n" "\<not> isqrt m \<le> isqrt n"
  then have "(isqrt n + 1) ^ 2 \<le> isqrt m ^ 2" by (intro power_mono) simp_all
  with isqrt_bounds [of m] isqrt_bounds [of n] \<open>m \<le> n\<close> show False by linarith
qed

lemma distance_0: "distance a b = 0 \<longleftrightarrow> a = b"
  by (auto simp: distance_def isqrt_0 difference_def max_def min_def)

text \<open>The loop returns the index of a smallest distance below the bound, or keeps the old one.\<close>

lemma closest_loop_min:
  "let r = closest_loop c i xs index mn in
     (r = index \<and> (\<forall>x\<in>set xs. mn \<le> distance x c)) \<or>
     (\<exists>j<length xs. r = i + j \<and> distance (xs ! j) c < mn \<and> (\<forall>x\<in>set xs. distance (xs ! j) c \<le> distance x c))"
proof (induction xs arbitrary: i index mn)
  case (Cons x xs)
  show ?case
  proof (cases "distance x c < mn")
    case True
    let ?r = "closest_loop c (Suc i) xs i (distance x c)"
    from Cons.IH [of "Suc i" i "distance x c"] consider
      "?r = i" "\<forall>y\<in>set xs. distance x c \<le> distance y c"
      | j where "j < length xs" "?r = Suc i + j" "distance (xs ! j) c < distance x c"
          "\<forall>y\<in>set xs. distance (xs ! j) c \<le> distance y c"
      by (auto simp: Let_def)
    then show ?thesis
    proof cases
      case 1
      then show ?thesis using True by (auto simp: Let_def intro!: exI [of _ 0])
    next
      case 2
      then show ?thesis using True by (auto simp: Let_def intro!: exI [of _ "Suc j"])
    qed
  next
    case False
    let ?r = "closest_loop c (Suc i) xs index mn"
    from Cons.IH [of "Suc i" index mn] consider
      "?r = index" "\<forall>y\<in>set xs. mn \<le> distance y c"
      | j where "j < length xs" "?r = Suc i + j" "distance (xs ! j) c < mn"
          "\<forall>y\<in>set xs. distance (xs ! j) c \<le> distance y c"
      by (auto simp: Let_def)
    then show ?thesis
    proof cases
      case 1
      then show ?thesis using False by (auto simp: Let_def)
    next
      case 2
      then show ?thesis using False by (auto simp: Let_def intro!: exI [of _ "Suc j"])
    qed
  qed
qed simp

definition byte_color :: "color \<Rightarrow> bool" where
  "byte_color c = (c_r c \<le> 0xFF \<and> c_g c \<le> 0xFF \<and> c_b c \<le> 0xFF)"

lemma distance_le:
  assumes "byte_color a" "byte_color b"
  shows "distance a b \<le> isqrt (0xFF * 0xFF + 0xFF * 0xFF + 0xFF * 0xFF)"
proof -
  have "difference x y ^ 2 \<le> 0xFF * 0xFF" if "x \<le> 0xFF" "y \<le> 0xFF" for x y
  proof -
    have "difference x y \<le> 0xFF" using that by (auto simp: difference_def max_def)
    then have "difference x y ^ 2 \<le> 0xFF ^ 2" by (rule power_mono) simp
    then show ?thesis by simp
  qed
  then show ?thesis using assms unfolding distance_def byte_color_def by (intro isqrt_mono add_mono) blast+
qed

text \<open>\<open>closest_color\<close> gives an index of the table whose colour is as close as any, and each colour of the
  table is closest to itself.\<close>

theorem closest_color_minimal:
  assumes "byte_color c"
  shows "closest_color c < 16 \<and> (\<forall>x\<in>set irc_colors. distance (irc_colors ! closest_color c) c \<le> distance x c) \<and>
    (c \<in> set irc_colors \<longrightarrow> irc_colors ! closest_color c = c)"
proof -
  let ?m = "isqrt (0xFF * 0xFF + 0xFF * 0xFF + 0xFF * 0xFF)"
  have l: "length irc_colors = 16" by (simp add: irc_colors_def)
  have b: "\<forall>x\<in>set irc_colors. byte_color x" by (simp add: irc_colors_def byte_color_def rgb_def)
  have near: "closest_color c < 16 \<and> (\<forall>x\<in>set irc_colors. distance (irc_colors ! closest_color c) c \<le> distance x c)"
  proof -
    consider "closest_color c = 0" "\<forall>x\<in>set irc_colors. ?m \<le> distance x c"
      | j where "j < 16" "closest_color c = j" "\<forall>x\<in>set irc_colors. distance (irc_colors ! j) c \<le> distance x c"
      using closest_loop_min [of c 0 irc_colors 0 ?m] unfolding l closest_color_def [symmetric] Let_def by auto
    then show ?thesis
    proof cases
      case 1
      have "irc_colors ! 0 \<in> set irc_colors" using l by (intro nth_mem) simp
      then have "distance (irc_colors ! 0) c \<le> ?m" using distance_le b assms by blast
      then show ?thesis unfolding 1(1) using 1(2) by (blast intro: order_trans zero_less_numeral)
    next
      case 2
      then show ?thesis by simp
    qed
  qed
  moreover have "irc_colors ! closest_color c = c" if "c \<in> set irc_colors"
  proof -
    have "distance (irc_colors ! closest_color c) c \<le> distance c c" using near that by blast
    moreover have "distance c c = 0" by (simp only: distance_0)
    ultimately show ?thesis by (simp add: distance_0)
  qed
  ultimately show ?thesis by blast
qed

theorem closest_color_minimal_witness:
  "closest_color (rgb 250 10 10) < 16 \<and>
   distance (irc_colors ! closest_color (rgb 250 10 10)) (rgb 250 10 10) \<le> distance (rgb 255 0 0) (rgb 250 10 10) \<and>
   irc_colors ! closest_color (rgb 255 0 0) = rgb 255 0 0"
proof -
  have m: "rgb 255 0 0 \<in> set irc_colors" by (simp add: irc_colors_def rgb_def)
  have "byte_color (rgb 250 10 10)" "byte_color (rgb 255 0 0)" by (simp_all add: byte_color_def rgb_def)
  then show ?thesis using m closest_color_minimal by blast
qed

text \<open>Printable ASCII text without a caret passes unchanged between bold and normal; a byte of a
  multi-byte character counts as a control character and becomes \<open>#\<close>.\<close>

lemma code_NUL: "code NUL = 0"
  by (simp add: NUL_def code_def)

lemma oa_plain:
  "\<forall>c\<in>set s. 32 \<le> code c \<and> code c < 128 \<and> c \<noteq> CHR ''^'' \<Longrightarrow> oa_to_IRC s = IRC_BOLD @ s @ IRC_NORMAL"
proof -
  assume a: "\<forall>c\<in>set s. 32 \<le> code c \<and> code c < 128 \<and> c \<noteq> CHR ''^''"
  then have "oa_loop s = s"
  proof (induction s)
    case (Cons c s)
    have c: "32 \<le> code c" "code c < 128" "c \<noteq> CHR ''^''" using Cons.prems by simp_all
    have "c \<noteq> NUL" using c(1) by (metis code_NUL not_numeral_le_zero)
    moreover have "\<not> Q_IsSpecialChar c" using c by (simp add: Q_IsSpecialChar_def schar_def)
    moreover have "\<not> Q_IsColorString (c # s)" using c(3) by (simp add: Q_IsColorString_def split: list.split)
    moreover have "oa_loop s = s" using Cons by simp
    ultimately show ?case by simp
  qed simp
  then show ?thesis by (simp add: oa_to_IRC_def)
qed

lemma oa_utf8_lost: "128 \<le> code c \<Longrightarrow> oa_to_IRC [c] = IRC_BOLD @ ''#'' @ IRC_NORMAL"
proof -
  assume c: "128 \<le> code c"
  then have "c \<noteq> NUL" by (auto simp: NUL_def code_def)
  moreover have "schar c < 32" using c code_less_256 [of c] by (simp add: schar_def del: code_less_256)
  ultimately show ?thesis by (simp add: oa_to_IRC_def Q_IsColorString_def Q_IsSpecialChar_def)
qed

text \<open>A prompt is never written in its background colour.\<close>

lemma color_index_less: "color_index name < 16"
proof -
  have "w mod 16 < (16 :: siz)" for w by (rule word_mod_less_divisor) simp
  then show ?thesis by (simp add: color_index_def word_less_nat_alt)
qed

lemma bg_sorted: "bg =
    [(''00'', ''01''), (''01'', ''15''), (''02'', ''15''), (''03'', ''15''), (''04'', ''15''), (''05'', ''15''),
     (''06'', ''15''), (''07'', ''15''), (''08'', ''01''), (''09'', ''01''), (''10'', ''01''), (''11'', ''01''),
     (''12'', ''01''), (''13'', ''01''), (''14'', ''15''), (''15'', ''01'')]"
  by (simp add: bg_def irc_consts cm_insert_def cm_touch_def str_lt_def char_lt_def code_def)

lemma colors_ok: "list_all (\<lambda>n. let s = show_nat n; col = (if length s < 2 then ''0'' @ s else s) in
  length col = 2 \<and> (case cm_find str_lt col bg of Some b \<Rightarrow> col \<noteq> b | None \<Rightarrow> False)) [0..<16]"
  unfolding bg_sorted by code_simp

theorem prompt_contrast:
  "\<exists>col back name. prompt_color seed = IRC_BOLD @ IRC_COLOR @ col @ '','' @ back @ name @ '':'' @ IRC_NORMAL @ '' '' \<and>
     length col = 2 \<and> cm_find str_lt col bg = Some back \<and> col \<noteq> back"
proof -
  let ?name = "if find_str ''do_'' seed = Some 0 \<and> 3 < length seed then substr_from seed 3 else seed"
  let ?s = "show_nat (color_index ?name)"
  let ?col = "if length ?s < 2 then ''0'' @ ?s else ?s"
  have "color_index ?name \<in> set [0..<16]" using color_index_less by simp
  then have "length ?col = 2 \<and> (case cm_find str_lt ?col bg of Some b \<Rightarrow> ?col \<noteq> b | None \<Rightarrow> False)"
    using colors_ok unfolding list_all_iff Let_def by blast
  then obtain b where "length ?col = 2" "cm_find str_lt ?col bg = Some b" "?col \<noteq> b"
    by (auto split: option.splits)
  then show ?thesis by (intro exI [of _ ?col] exI [of _ b] exI [of _ ?name]) (simp add: prompt_color_def Let_def)
qed

end
