(* ===== verification/Rpc.thy ===== *)
theory Rpc
  imports Streams Std_Map
begin

text \<open>
  Calls over a pair of streams (\<open>rpc.h\<close>, \<open>bits/rpc.tcc\<close>, \<open>rpc.cpp\<close>): a name, parameters and results,
  each on lines of its own.  A stream is what has been written and not read yet, with the
  state bits that reading and writing share.  The templates are modelled at the element type
  \<open>str\<close>.  A count that was never read keeps the value of an uninitialised variable, \<open>junk\<close>.
\<close>

text \<open>\<open>os << s\<close>: the sentry of an output function fails on a stream that is not good.\<close>

definition put :: "string \<Rightarrow> istream \<Rightarrow> istream" where
  "put s os = (if good os then os\<lparr>buf := buf os @ s\<rparr> else set_fail os)"

subsection \<open>Containers\<close>

fun put_items :: "string list \<Rightarrow> istream \<Rightarrow> istream" where
  "put_items [] os = os"
| "put_items (t # ts) os = put_items ts (put [LF] (put t os))"

definition container_os :: "string list \<Rightarrow> istream \<Rightarrow> istream" where
  "container_os c os = put_items c (put [LF] (put (show_nat (length c)) os))"

text \<open>\<open>inputter<str>\<close>.\<close>

definition inputter :: "string \<Rightarrow> istream \<Rightarrow> string \<times> istream" where
  "inputter t is = getline LF t is"

text \<open>\<open>for(size_t i = 0; i < sz; ++i) if(inputter(is, t)) ii = t;\<close>\<close>

fun read_items :: "nat \<Rightarrow> string \<Rightarrow> istream \<Rightarrow> string list \<times> istream" where
  "read_items 0 t is = ([], is)"
| "read_items (Suc n) t is =
     (case inputter t is of (t1, is1) \<Rightarrow>
        case read_items n t1 is1 of (ts, is2) \<Rightarrow> (if ok is1 then t1 # ts else ts, is2))"

definition container_is :: "siz \<Rightarrow> istream \<Rightarrow> string list \<times> istream" where
  "container_is junk is =
     (case read_siz junk is of (sz, is1) \<Rightarrow>
        case getline LF [] is1 of (_, is2) \<Rightarrow> read_items (unat sz) [] is2)"

text \<open>A \<open>std::set\<close> inserts the items in order.\<close>

definition container_is_set :: "siz \<Rightarrow> istream \<Rightarrow> string cset \<times> istream" where
  "container_is_set junk is =
     (case container_is junk is of (ts, is1) \<Rightarrow> (cs_of_list str_lt ts, is1))"

subsection \<open>Calls\<close>

record call =
  c_in :: istream
  c_out :: istream

definition new_call :: call where
  "new_call = \<lparr>c_in = str_stream [], c_out = str_stream []\<rparr>"

text \<open>\<open>call_error\<close> and \<open>return_error\<close> are the streams converted to \<open>bool\<close>.\<close>

definition call_error :: "call \<Rightarrow> bool" where
  "call_error c = ok (c_in c)"

definition return_error :: "call \<Rightarrow> bool" where
  "return_error c = ok (c_out c)"

definition get_error :: "call \<Rightarrow> string \<times> call" where
  "get_error c = (case getline LF [] (c_out c) of (e, o1) \<Rightarrow> (e, c\<lparr>c_out := o1\<rparr>))"

text \<open>\<open>call::clear\<close>, and \<open>local_call::clear\<close>, which empties the streams too.\<close>

definition clear_call :: "call \<Rightarrow> call" where
  "clear_call c = \<lparr>c_in = clear_bits (c_in c), c_out = clear_bits (c_out c)\<rparr>"

definition clear_local_call :: "call \<Rightarrow> call" where
  "clear_local_call c = (let c1 = clear_call c in \<lparr>c_in = (c_in c1)\<lparr>buf := []\<rparr>, c_out = (c_out c1)\<lparr>buf := []\<rparr>\<rparr>)"

definition set_func :: "string \<Rightarrow> call \<Rightarrow> call" where
  "set_func func c = c\<lparr>c_in := put [LF] (put func (c_in c))\<rparr>"

definition get_func :: "call \<Rightarrow> string \<times> call" where
  "get_func c = (case getline LF [] (c_in c) of (f, i1) \<Rightarrow> (f, c\<lparr>c_in := i1\<rparr>))"

text \<open>The values a call passes.\<close>

datatype val = V_Str string | V_Num siz | V_Vec "string list" | V_Set "string cset"

datatype ty = T_Str | T_Num | T_Vec | T_Set

definition put_val :: "val \<Rightarrow> istream \<Rightarrow> istream" where
  "put_val v os =
     (case v of V_Str s \<Rightarrow> put s os | V_Num n \<Rightarrow> put (show_nat (unat n)) os
      | V_Vec ts \<Rightarrow> container_os ts os | V_Set ts \<Rightarrow> container_os ts os)"

text \<open>\<open>is >> t\<close> and the rest of the line; a \<open>str\<close> is a line of its own.\<close>

definition get_val :: "ty \<Rightarrow> siz \<Rightarrow> istream \<Rightarrow> val \<times> istream" where
  "get_val ty junk is =
     (let rest = (\<lambda>(v, is1). (v, snd (getline LF [] is1)))
      in case ty of
           T_Str \<Rightarrow> (case getline LF [] is of (t, is1) \<Rightarrow> (V_Str t, is1))
         | T_Num \<Rightarrow> rest (case read_siz junk is of (n, is1) \<Rightarrow> (V_Num n, is1))
         | T_Vec \<Rightarrow> rest (case container_is junk is of (ts, is1) \<Rightarrow> (V_Vec ts, is1))
         | T_Set \<Rightarrow> rest (case container_is_set junk is of (ts, is1) \<Rightarrow> (V_Set ts, is1)))"

definition add_param :: "val \<Rightarrow> call \<Rightarrow> call" where
  "add_param v c = c\<lparr>c_in := put [LF] (put_val v (c_in c))\<rparr>"

definition get_param :: "ty \<Rightarrow> siz \<Rightarrow> call \<Rightarrow> val \<times> call" where
  "get_param ty junk c = (case get_val ty junk (c_in c) of (v, i1) \<Rightarrow> (v, c\<lparr>c_in := i1\<rparr>))"

definition set_return_void :: "call \<Rightarrow> call" where
  "set_return_void c = c\<lparr>c_out := put [LF] (c_out c)\<rparr>"

definition set_return_value :: "val \<Rightarrow> call \<Rightarrow> call" where
  "set_return_value v c = c\<lparr>c_out := put [LF] (put_val v (c_out c))\<rparr>"

definition add_return_param :: "val \<Rightarrow> call \<Rightarrow> call" where
  "add_return_param v c = c\<lparr>c_out := put [LF] (put_val v (c_out c))\<rparr>"

definition get_return_void :: "call \<Rightarrow> call" where
  "get_return_void c = c\<lparr>c_out := snd (getline LF [] (c_out c))\<rparr>"

definition get_return_value :: "ty \<Rightarrow> siz \<Rightarrow> call \<Rightarrow> val \<times> call" where
  "get_return_value ty junk c = (case get_val ty junk (c_out c) of (v, o1) \<Rightarrow> (v, c\<lparr>c_out := o1\<rparr>))"

definition get_return_param :: "ty \<Rightarrow> siz \<Rightarrow> call \<Rightarrow> val \<times> call" where
  "get_return_param ty junk c = (case get_val ty junk (c_out c) of (v, o1) \<Rightarrow> (v, c\<lparr>c_out := o1\<rparr>))"

subsection \<open>Round trips\<close>

fun ty_of :: "val \<Rightarrow> ty" where
  "ty_of (V_Str s) = T_Str" | "ty_of (V_Num n) = T_Num" | "ty_of (V_Vec ts) = T_Vec" | "ty_of (V_Set ts) = T_Set"

text \<open>No line feed in a string, and fewer than \<open>2\<^sup>6\<^sup>4\<close> items; a set is sorted.\<close>

fun val_ok :: "val \<Rightarrow> bool" where
  "val_ok (V_Str s) = (LF \<notin> set s)"
| "val_ok (V_Num n) = True"
| "val_ok (V_Vec ts) = ((\<forall>t\<in>set ts. LF \<notin> set t) \<and> length ts < 2 ^ 64)"
| "val_ok (V_Set ts) = ((\<forall>t\<in>set ts. LF \<notin> set t) \<and> length ts < 2 ^ 64 \<and> sorted_wrt str_lt ts)"

text \<open>What is written for a value, up to the line feed behind it.\<close>

fun val_text :: "val \<Rightarrow> string" where
  "val_text (V_Str s) = s"
| "val_text (V_Num n) = show_nat (unat n)"
| "val_text (V_Vec ts) = lines_text (show_nat (length ts) # ts)"
| "val_text (V_Set ts) = lines_text (show_nat (length ts) # ts)"

lemma put_str_stream [simp]: "put s (str_stream b) = str_stream (b @ s)"
  by (simp add: put_def str_stream_def good_def)

lemma put_items_str_stream: "put_items ts (str_stream b) = str_stream (b @ lines_text ts)"
  by (induction ts arbitrary: b) simp_all

lemma put_val_text: "put_val v (str_stream b) = str_stream (b @ val_text v)"
  by (cases v) (simp_all add: put_val_def container_os_def put_items_str_stream)

lemma LF_not_digit: "\<not> isdigit LF"
  by (simp add: isdigit_def code_def char_consts)

lemma read_siz_line:
  "n < 2 ^ 64 \<Longrightarrow> read_siz junk (str_stream (show_nat n @ LF # r)) = (of_nat n, str_stream (LF # r))"
  using read_siz_show LF_not_digit by blast

lemma getline_LF [simp]: "getline LF t (str_stream (LF # r)) = ([], str_stream r)"
  by (subst getline_found [where l = "[]"]) simp_all

lemma read_items_lines:
  "\<forall>s\<in>set ts. LF \<notin> set s \<Longrightarrow> read_items (length ts) t (str_stream (lines_text ts @ r)) = (ts, str_stream r)"
proof (induction ts arbitrary: t)
  case (Cons s ts)
  have "inputter t (str_stream (s @ LF # lines_text ts @ r)) = (s, str_stream (lines_text ts @ r))"
    using Cons.prems unfolding inputter_def by (subst getline_found [where l = s]) simp_all
  then show ?case using Cons by simp
qed simp

lemma container_is_text:
  assumes "\<forall>t\<in>set ts. LF \<notin> set t" "length ts < 2 ^ 64"
  shows "container_is junk (str_stream (lines_text (show_nat (length ts) # ts) @ r)) = (ts, str_stream r)"
proof -
  have "unat (of_nat (length ts) :: siz) = length ts" using assms(2) by (simp add: unat_of_nat)
  then show ?thesis
    using assms by (simp add: container_is_def read_siz_line read_items_lines)
qed

lemma cs_of_sorted: "sorted_wrt str_lt ts \<Longrightarrow> cs_of_list str_lt ts = ts"
proof -
  have last: "\<forall>b\<in>set s. str_lt b k \<Longrightarrow> cs_insert str_lt k s = s @ [k]" for k s
    by (induction s) auto
  have "sorted_wrt str_lt (s @ ts) \<Longrightarrow> fold (cs_insert str_lt) ts s = s @ ts" for s
  proof (induction ts arbitrary: s)
    case (Cons t ts)
    then have "cs_insert str_lt t s = s @ [t]" by (intro last) (simp add: sorted_wrt_append)
    with Cons show ?case by simp
  qed simp
  from this [of "[]"] show "sorted_wrt str_lt ts \<Longrightarrow> ?thesis" by (simp add: cs_of_list_def)
qed

lemma get_val_text:
  "val_ok v \<Longrightarrow> get_val (ty_of v) junk (str_stream (val_text v @ LF # r)) = (v, str_stream r)"
proof (cases v)
  case (V_Str s)
  then show "val_ok v \<Longrightarrow> ?thesis" by (simp add: get_val_def getline_found [where l = s])
next
  case (V_Num n)
  have "unat n < 2 ^ 64" using unsigned_less [of n, where ?'a = nat] by simp
  then show ?thesis using V_Num by (simp add: get_val_def read_siz_line)
next
  case (V_Vec ts)
  then show "val_ok v \<Longrightarrow> ?thesis" using container_is_text [of ts junk "LF # r"] by (simp add: get_val_def)
next
  case (V_Set ts)
  then show "val_ok v \<Longrightarrow> ?thesis"
    using container_is_text [of ts junk "LF # r"] by (simp add: get_val_def container_is_set_def cs_of_sorted)
qed

fun take_params :: "ty list \<Rightarrow> siz \<Rightarrow> call \<Rightarrow> val list \<times> call" where
  "take_params [] junk c = ([], c)"
| "take_params (ty # tys) junk c =
     (case get_param ty junk c of (v, c1) \<Rightarrow> case take_params tys junk c1 of (vs, c2) \<Rightarrow> (v # vs, c2))"

lemma add_params:
  "c_in c = str_stream b \<Longrightarrow>
    fold add_param vs c = c\<lparr>c_in := str_stream (b @ concat (map (\<lambda>v. val_text v @ [LF]) vs))\<rparr>"
  by (induction vs arbitrary: c b) (simp_all add: add_param_def put_val_text)

lemma take_params_text:
  "\<forall>v\<in>set vs. val_ok v \<Longrightarrow> c_in c = str_stream (concat (map (\<lambda>v. val_text v @ [LF]) vs) @ r) \<Longrightarrow>
    take_params (map ty_of vs) junk c = (vs, c\<lparr>c_in := str_stream r\<rparr>)"
  by (induction vs arbitrary: c) (simp_all add: get_param_def get_val_text)



text \<open>Neither query means an error: both are true of a call on which nothing has failed.\<close>

lemma error_queries_inverted: "call_error new_call \<and> return_error new_call"
  by (simp add: call_error_def return_error_def new_call_def)

text \<open>Whatever the uninitialised count is, nothing is read from a stream that has failed.\<close>

lemma read_items_bad: "\<not> good is \<Longrightarrow> fst (read_items n t is) = []"
proof (induction n arbitrary: t "is")
  case (Suc n)
  then show ?case by (simp add: inputter_def getline_bad split: prod.splits)
qed simp

lemma container_is_junk: "\<not> good is \<Longrightarrow> fst (container_is junk is) = []"
proof -
  assume b: "\<not> good is"
  then have "read_siz junk is = (junk, set_fail is)" by (simp add: read_siz_def sentry_bad)
  then show ?thesis using read_items_bad [of "set_fail (set_fail is)" "unat junk" "[]"]
    by (simp add: container_is_def getline_bad)
qed

end
