(* ===== verification/File_Store.thy ===== *)
theory File_Store
  imports Stores
begin

text \<open>
  The lower half of \<open>store.h\<close>: \<open>FileStore\<close>, which keeps nothing in memory, and \<open>CacheStore\<close>, which
  reads a key when it is first asked for.  Both write one key by copying the lines of the others
  through a string stream.  The static strings \<open>line\<close> and \<open>v\<close> are always written before they are
  read; the static \<open>k\<close> of \<open>CacheStore::load\<close> and the static stream of \<open>CacheStore::save\<close> are not, and
  are part of the state: \<open>ca_k\<close> is the string and \<open>ca_spent\<close> says that the stream has been read to
  its end once, after which nothing clears its state, so that it takes and gives no more text.
\<close>

subsection \<open>Lines\<close>

text \<open>\<open>sgl(siss(line), line, ':')\<close>: the text before the colon, the whole line when it has none.\<close>

definition line_key :: "string \<Rightarrow> string option" where
  "line_key line =
     (case getline (CHR '':'') line (str_stream line) of (l, is1) \<Rightarrow> if ok is1 then Some l else None)"

text \<open>\<open>sgl(sgl(ss, k, ':') >> std::ws, v)\<close> with empty \<open>k\<close> and \<open>v\<close>, and its result.\<close>

definition line_entry :: "string \<Rightarrow> string \<times> string \<times> bool" where
  "line_entry line =
     (case getline (CHR '':'') [] (str_stream line) of (k, is1) \<Rightarrow>
        case getline LF [] (skip_ws is1) of (v, is2) \<Rightarrow> (k, v, ok is2))"

definition file_lines :: "disk_file \<Rightarrow> string list" where
  "file_lines f = (case f_content f of None \<Rightarrow> [] | Some t \<Rightarrow> lines_of (str_stream t))"

definition write_file :: "string \<Rightarrow> disk_file \<Rightarrow> disk_file" where
  "write_file t f = (if f_writable f then f\<lparr>f_content := Some t\<rparr> else f)"

text \<open>The loop of \<open>save\<close> that fills the string stream.\<close>

fun other_keys :: "(string \<Rightarrow> string) \<Rightarrow> string \<Rightarrow> string list \<Rightarrow> string list" where
  "other_keys fix key [] = []"
| "other_keys fix key (line # ls) =
     (case line_key line of
        Some l \<Rightarrow> if fix l \<noteq> fix key then l # other_keys fix key ls else other_keys fix key ls
      | None \<Rightarrow> other_keys fix key ls)"

subsection \<open>\<open>FileStore\<close>\<close>

text \<open>The flag of the case is a pure virtual member, here a field.\<close>

record file_store =
  fl_file :: disk_file
  fl_ci :: bool

definition fl_fix :: "hol \<Rightarrow> file_store \<Rightarrow> string \<Rightarrow> string" where
  "fl_fix h s = ci_fix h (fl_ci s)"

fun fl_load_lines :: "(string \<Rightarrow> string) \<Rightarrow> string \<Rightarrow> string list \<Rightarrow> string list" where
  "fl_load_lines fix key [] = []"
| "fl_load_lines fix key (line # ls) =
     (case line_entry line of (k, v, got) \<Rightarrow>
        if got \<and> fix k = fix key then v # fl_load_lines fix key ls else fl_load_lines fix key ls)"

definition fl_load :: "hol \<Rightarrow> string \<Rightarrow> file_store \<Rightarrow> string list" where
  "fl_load h key s = fl_load_lines (fl_fix h s) key (file_lines (fl_file s))"

definition fl_save :: "hol \<Rightarrow> string \<Rightarrow> string list \<Rightarrow> file_store \<Rightarrow> file_store" where
  "fl_save h key store s =
     (let ss = str_stream (lines_text (other_keys (fl_fix h s) key (file_lines (fl_file s))))
      in s\<lparr>fl_file := write_file (lines_text (lines_of ss) @ entry_text (key, store)) (fl_file s)\<rparr>)"

definition fl_get_keys_if_sreg :: "matchers \<Rightarrow> string \<Rightarrow> file_store \<Rightarrow> string cset" where
  "fl_get_keys_if_sreg mt reg s =
     cs_of_list str_lt (filter (\<lambda>k. m_regex mt (fl_ci s) reg k False) (List.map_filter line_key (file_lines (fl_file s))))"

definition fl_get_keys :: "file_store \<Rightarrow> string cset" where
  "fl_get_keys s = cs_of_list str_lt (List.map_filter line_key (file_lines (fl_file s)))"

definition fl_has :: "hol \<Rightarrow> string \<Rightarrow> file_store \<Rightarrow> bool" where
  "fl_has h k s =
     list_ex (\<lambda>line. case line_key line of Some l \<Rightarrow> fl_fix h s l = fl_fix h s k | None \<Rightarrow> False)
       (file_lines (fl_file s))"

definition fl_get_at :: "hol \<Rightarrow> string \<Rightarrow> nat \<Rightarrow> string \<Rightarrow> file_store \<Rightarrow> string" where
  "fl_get_at h k n dflt s = (let store = fl_load h k s in if length store < n + 1 then dflt else store ! n)"

definition fl_get_vec :: "hol \<Rightarrow> string \<Rightarrow> file_store \<Rightarrow> string list" where
  "fl_get_vec h k s = fl_load h k s"

definition fl_clear :: "file_store \<Rightarrow> file_store" where
  "fl_clear s = s\<lparr>fl_file := write_file [] (fl_file s)\<rparr>"

definition fl_clear_key :: "hol \<Rightarrow> string \<Rightarrow> file_store \<Rightarrow> file_store" where
  "fl_clear_key h k s = fl_save h k [] s"

definition fl_add :: "hol \<Rightarrow> string \<Rightarrow> string \<Rightarrow> file_store \<Rightarrow> file_store" where
  "fl_add h k v s = fl_save h k (fl_load h k s @ [v]) s"

definition fl_set_at :: "hol \<Rightarrow> string \<Rightarrow> nat \<Rightarrow> string \<Rightarrow> file_store \<Rightarrow> file_store" where
  "fl_set_at h k n v s = fl_save h k (set_nth n v (fl_load h k s)) s"

subsection \<open>\<open>CacheStore\<close>\<close>

record cache_store = mapped_store +
  ca_file :: disk_file
  ca_max :: siz
  ca_k :: string
  ca_spent :: bool

definition new_cache :: "disk_file \<Rightarrow> siz \<Rightarrow> cache_store" where
  "new_cache f mx =
     \<lparr>ms_store = [], ms_ci = False, ca_file = f, ca_max = mx, ca_k = [], ca_spent = False\<rparr>"

definition ca_put :: "string \<Rightarrow> string list \<Rightarrow> cache_store \<Rightarrow> cache_store" where
  "ca_put k v s = s\<lparr>ms_store := cm_set (ci_cmp (ms_ci s)) k v (ms_store s)\<rparr>"

definition ca_touch :: "string \<Rightarrow> cache_store \<Rightarrow> cache_store" where
  "ca_touch k s = s\<lparr>ms_store := cm_touch (ci_cmp (ms_ci s)) [] k (ms_store s)\<rparr>"

text \<open>A turn of the loop of \<open>load\<close>; a line without a value gives the empty value.\<close>

definition ca_load_line :: "hol \<Rightarrow> string \<Rightarrow> string \<Rightarrow> cache_store \<Rightarrow> cache_store" where
  "ca_load_line h key line s =
     (case line_entry line of (k, v, _) \<Rightarrow>
        let s1 = s\<lparr>ca_k := k\<rparr>
        in if k \<noteq> [] \<and> ci_fix h (ms_ci s1) k = ci_fix h (ms_ci s1) key
           then ca_put k (vec_at k s1 @ [v]) s1 else s1)"

definition ca_load :: "hol \<Rightarrow> string \<Rightarrow> cache_store \<Rightarrow> cache_store" where
  "ca_load h key s =
     (let s1 = (if unat (ca_max s) < length (ms_store s) then s\<lparr>ms_store := []\<rparr> else s)
      in case f_content (ca_file s1) of
           None \<Rightarrow> s1
         | Some t \<Rightarrow> fold (ca_load_line h key) (lines_of (str_stream t)) (ca_put (ca_k s1) [] s1))"

text \<open>The stream takes the keys of the other lines unless it is spent, and is spent afterwards.\<close>

definition ca_save :: "hol \<Rightarrow> string \<Rightarrow> cache_store \<Rightarrow> cache_store" where
  "ca_save h key s =
     (let ss = (if ca_spent s then []
                else lines_of (str_stream (lines_text (other_keys (ci_fix h (ms_ci s)) key (file_lines (ca_file s))))));
          s1 = ca_touch key s
      in s1\<lparr>ca_file := write_file (lines_text ss @ entry_text (key, vec_at key s1)) (ca_file s1), ca_spent := True\<rparr>)"

definition ca_get_keys_if_sreg :: "matchers \<Rightarrow> string \<Rightarrow> cache_store \<Rightarrow> string cset" where
  "ca_get_keys_if_sreg mt reg s =
     cs_of_list str_lt (filter (\<lambda>k. store_regex_match mt s reg k False) (List.map_filter line_key (file_lines (ca_file s))))"

definition ca_get_keys :: "cache_store \<Rightarrow> string cset" where
  "ca_get_keys s = cs_of_list str_lt (List.map_filter line_key (file_lines (ca_file s)))"

definition ca_has :: "hol \<Rightarrow> string \<Rightarrow> cache_store \<Rightarrow> bool" where
  "ca_has h k s =
     list_ex (\<lambda>line. case line_key line of Some l \<Rightarrow> ci_fix h (ms_ci s) l = ci_fix h (ms_ci s) k | None \<Rightarrow> False)
       (file_lines (ca_file s))"

definition ca_cached :: "string \<Rightarrow> cache_store \<Rightarrow> bool" where
  "ca_cached k s = (cm_find (ci_cmp (ms_ci s)) k (ms_store s) \<noteq> None)"

definition ca_get_vec :: "hol \<Rightarrow> string \<Rightarrow> cache_store \<Rightarrow> string list \<times> cache_store" where
  "ca_get_vec h k s =
     (let s1 = ca_touch k (if ca_cached k s then s else ca_load h k s) in (vec_at k s1, s1))"

definition ca_get_at :: "hol \<Rightarrow> string \<Rightarrow> nat \<Rightarrow> string \<Rightarrow> cache_store \<Rightarrow> string \<times> cache_store" where
  "ca_get_at h k n dflt s =
     (case ca_get_vec h k s of (v, s1) \<Rightarrow> (if length v < n + 1 then dflt else v ! n, s1))"

definition ca_clear :: "cache_store \<Rightarrow> cache_store" where
  "ca_clear s = s\<lparr>ms_store := [], ca_file := write_file [] (ca_file s)\<rparr>"

definition ca_clear_key :: "hol \<Rightarrow> string \<Rightarrow> cache_store \<Rightarrow> cache_store" where
  "ca_clear_key h k s = ca_save h k (ca_put k [] s)"

definition ca_add :: "hol \<Rightarrow> string \<Rightarrow> string \<Rightarrow> cache_store \<Rightarrow> cache_store" where
  "ca_add h k v s = ca_save h k (ca_put k (vec_at k s @ [v]) s)"

definition ca_set_at :: "hol \<Rightarrow> string \<Rightarrow> nat \<Rightarrow> string \<Rightarrow> cache_store \<Rightarrow> cache_store" where
  "ca_set_at h k n v s = ca_save h k (ca_put k (set_nth n v (vec_at k s)) s)"

subsection \<open>What a line holds\<close>

lemma line_key_prefix:
  "line_key line = (if line = [] then None else Some (takeWhile (\<lambda>c. c \<noteq> CHR '':'') line))"
proof (cases line)
  case (Cons c r)
  show ?thesis
  proof (cases "dropWhile (\<lambda>c. c \<noteq> CHR '':'') line")
    case Nil
    moreover from Nil have "takeWhile (\<lambda>c. c \<noteq> CHR '':'') line \<noteq> []"
      using takeWhile_dropWhile_id [of "\<lambda>c. c \<noteq> CHR '':''" line] Cons by (metis append_Nil2 list.distinct(1))
    ultimately show ?thesis using Cons by (simp add: line_key_def getline_def Let_def)
  next
    case (Cons d q)
    then have "line \<noteq> []" by auto
    with Cons show ?thesis by (simp add: line_key_def getline_def Let_def)
  qed
qed (simp add: line_key_def getline_def)

lemma line_entry_none: "CHR '':'' \<notin> set line \<Longrightarrow> \<not> snd (snd (line_entry line))"
  by (cases "line = []") (simp_all add: line_entry_def stream_simps)

lemma line_entry_pair:
  assumes "CHR '':'' \<notin> set k" "v \<noteq> []" "\<not> isspace (hd v)" "LF \<notin> set v"
  shows "line_entry (k @ CHR '':'' # CHR '' '' # v) = (k, v, True)"
proof -
  have "getline (CHR '':'') [] (str_stream (k @ CHR '':'' # CHR '' '' # v)) = (k, str_stream (SPC # v))"
    using getline_found [of "str_stream (k @ CHR '':'' # CHR '' '' # v)" "CHR '':''" k "SPC # v" "[]"] assms(1)
    by (simp add: SPC_def)
  moreover have "skip_ws (str_stream (SPC # v)) = str_stream v"
    using assms(2,3) by (cases v) (simp_all add: skip_ws_def isspace_def char_consts)
  ultimately show ?thesis
    using assms(2,4) by (simp add: line_entry_def stream_simps)
qed

lemma other_keys_no_colon: "l \<in> set (other_keys fix key ls) \<Longrightarrow> CHR '':'' \<notin> set l"
  by (induction ls) (auto simp: line_key_prefix split: if_splits dest: set_takeWhileD)

lemma other_keys_no_LF:
  "\<forall>l\<in>set ls. LF \<notin> set l \<Longrightarrow> l \<in> set (other_keys fix key ls) \<Longrightarrow> LF \<notin> set l"
  by (induction ls) (auto simp: line_key_prefix split: if_splits dest: set_takeWhileD)

lemma file_lines_no_LF: "l \<in> set (file_lines f) \<Longrightarrow> LF \<notin> set l"
  by (auto simp: file_lines_def lines_of_no_LF split: option.splits)

lemma entry_text_lines: "entry_text (k, vs) = lines_text (map (\<lambda>v. k @ '': '' @ v) vs)"
  by (simp add: entry_text_def lines_text_def comp_def)

lemma lines_text_append: "lines_text (a @ b) = lines_text a @ lines_text b"
  by (simp add: lines_text_def)

lemma kept_lines: "\<forall>l\<in>set ls. LF \<notin> set l \<Longrightarrow> lines_of (str_stream (lines_text (other_keys fix key ls))) = other_keys fix key ls"
  using other_keys_no_LF by (intro lines_of_text) blast

subsection \<open>\<open>FileStore\<close> keeps one key\<close>

definition plain_value :: "string \<Rightarrow> bool" where
  "plain_value v = (v \<noteq> [] \<and> \<not> isspace (hd v) \<and> LF \<notin> set v)"

lemma fl_load_lines_append: "fl_load_lines fix key (a @ b) = fl_load_lines fix key a @ fl_load_lines fix key b"
  by (induction a) (auto split: prod.splits)

lemma fl_load_lines_keys: "\<forall>l\<in>set ls. CHR '':'' \<notin> set l \<Longrightarrow> fl_load_lines fix key ls = []"
  by (induction ls) (auto split: prod.splits dest: line_entry_none)

lemma fl_load_lines_entries:
  "CHR '':'' \<notin> set k \<Longrightarrow> list_all plain_value vs \<Longrightarrow>
    fl_load_lines fix key (map (\<lambda>v. k @ CHR '':'' # CHR '' '' # v) vs) = (if fix k = fix key then vs else [])"
  by (induction vs) (auto simp: plain_value_def line_entry_pair)

lemma fl_load_saved:
  assumes "f_writable (fl_file s)" "legal_key k" "list_all plain_value vs"
  shows "fl_load h key (fl_save h k vs s) = (if fl_fix h s k = fl_fix h s key then vs else [])"
proof -
  let ?o = "other_keys (fl_fix h s) k (file_lines (fl_file s))"
  let ?e = "map (\<lambda>v. k @ '': '' @ v) vs"
  have no: "\<forall>l\<in>set ?o. LF \<notin> set l" using other_keys_no_LF file_lines_no_LF by blast
  have "\<forall>l\<in>set ?e. LF \<notin> set l"
    using assms(2,3) by (auto simp: legal_key_def plain_value_def list_all_iff char_consts)
  with no have "lines_of (str_stream (lines_text (?o @ ?e))) = ?o @ ?e"
    by (intro lines_of_text) auto
  moreover have "lines_of (str_stream (lines_text ?o)) = ?o" using no by (rule lines_of_text)
  ultimately have "file_lines (fl_file (fl_save h k vs s)) = ?o @ ?e"
    using assms(1) by (simp add: fl_save_def Let_def file_lines_def write_file_def entry_text_lines lines_text_append)
  moreover have "fl_load_lines (fl_fix h s) key ?o = []"
    using other_keys_no_colon by (intro fl_load_lines_keys) blast
  moreover have "fl_fix h (fl_save h k vs s) = fl_fix h s" by (simp add: fl_fix_def fl_save_def Let_def)
  ultimately show ?thesis
    using assms(2,3) by (simp add: fl_load_def fl_load_lines_append fl_load_lines_entries legal_key_def)
qed

lemma line_entry_plain:
  assumes "line_entry line = (k, v, True)" "LF \<notin> set line"
  shows "plain_value v"
proof -
  obtain k1 i1 where g: "getline (CHR '':'') [] (str_stream line) = (k1, i1)" by fastforce
  have sub: "set (buf i1) \<subseteq> set line"
  proof (cases "dropWhile (\<lambda>c. c \<noteq> CHR '':'') line")
    case Nil
    then have "buf i1 = []" using g by (auto simp add: getline_def Let_def simp del: dropWhile_eq_Nil_conv)
    then show ?thesis by simp
  next
    case (Cons d r)
    then have "set r \<subseteq> set line" by (metis set_dropWhileD list.set_intros(2) subsetI)
    moreover have "buf i1 = r" using g Cons by (auto simp: getline_def Let_def)
    ultimately show ?thesis by simp
  qed
  show ?thesis
  proof (cases "good i1 \<and> dropWhile isspace (buf i1) \<noteq> []")
    case True
    then obtain c r where r: "dropWhile isspace (buf i1) = c # r" by (cases "dropWhile isspace (buf i1)") auto
    then have sk: "skip_ws i1 = i1\<lparr>buf := c # r\<rparr>" using True by (simp add: skip_ws_def)
    have c: "\<not> isspace c" using hd_dropWhile [of isspace "buf i1"] r by simp
    have "LF \<notin> set (c # r)" using r sub assms(2) by (metis set_dropWhileD subsetD)
    then have "v = c # r"
      using assms(1) True by (simp add: line_entry_def g sk stream_simps)
    with c \<open>LF \<notin> set (c # r)\<close> show ?thesis by (simp add: plain_value_def)
  next
    case False
    then have "skip_ws i1 = set_fail i1 \<or> skip_ws i1 = hit_eof i1"
      by (auto simp add: skip_ws_def simp del: dropWhile_eq_Nil_conv)
    then have "\<not> good (skip_ws i1)" by auto
    with assms(1) show ?thesis by (simp add: line_entry_def g stream_simps)
  qed
qed

lemma fl_load_plain: "list_all plain_value (fl_load h k s)"
proof -
  have "\<forall>l\<in>set ls. LF \<notin> set l \<Longrightarrow> list_all plain_value (fl_load_lines fix k ls)" for ls :: "string list" and "fix"
    by (induction ls) (auto split: prod.splits dest: line_entry_plain)
  then show ?thesis using file_lines_no_LF by (simp add: fl_load_def)
qed

text \<open>C35: Adding to a FileStore whose file can be written, under a key without a colon or a line feed, a value that is
  not empty, does not begin with white space and has no line feed: the key has its values of before and the new
  one, also when it is read from the file again, and every other key has lost all of its values.\<close>

theorem file_store_add:
  assumes "f_writable (fl_file s)" "legal_key k" "plain_value v"
  shows "fl_get_vec h key (fl_add h k v s) =
    (if fl_fix h s k = fl_fix h s key then fl_get_vec h k s @ [v] else [])"
  using fl_load_saved [OF assms(1,2), of "fl_load h k s @ [v]" h key] fl_load_plain [of h k s] assms(3)
  by (simp add: fl_get_vec_def fl_add_def)

definition demo_file :: disk_file where
  "demo_file = \<lparr>f_content = Some (lines_text [''a: 1'', ''z: 2'']), f_writable = True\<rparr>"

theorem file_store_add_witness:
  "fl_get_vec hol_ref ''a'' (fl_add hol_ref ''a'' ''3'' \<lparr>fl_file = demo_file, fl_ci = False\<rparr>) = [''1'', ''3''] \<and>
   fl_get_vec hol_ref ''z'' (fl_add hol_ref ''a'' ''3'' \<lparr>fl_file = demo_file, fl_ci = False\<rparr>) = []"
proof -
  let ?s = "\<lparr>fl_file = demo_file, fl_ci = False\<rparr>"
  have "f_writable (fl_file ?s)" "legal_key ''a''" "plain_value ''3''"
    by (simp_all add: demo_file_def legal_key_def plain_value_def isspace_def char_consts)
  note r = file_store_add [OF this, of hol_ref]
  have "lines_of (str_stream (lines_text [''a: 1'', ''z: 2''])) = [''a: 1'', ''z: 2'']"
    by (rule lines_of_text) (simp add: char_consts)
  moreover have "line_entry ''a: 1'' = (''a'', ''1'', True)" "line_entry ''z: 2'' = (''z'', ''2'', True)"
    using line_entry_pair [of "''a''" "''1''"] line_entry_pair [of "''z''" "''2''"]
    by (simp_all add: isspace_def char_consts)
  ultimately have "fl_get_vec hol_ref ''a'' ?s = [''1'']"
    by (simp add: fl_get_vec_def fl_load_def file_lines_def demo_file_def fl_fix_def ci_fix_def)
  with r [of "''a''"] r [of "''z''"] show ?thesis by (simp add: fl_fix_def ci_fix_def)
qed

subsection \<open>What \<open>CacheStore\<close> loses\<close>

lemma ci_fix_same: "lowers h \<Longrightarrow> ci_fix h ci a = ci_fix h ci b \<longleftrightarrow> same_key ci a b"
  by (simp add: ci_fix_def same_key_def lowers_def)

definition ca_find :: "string \<Rightarrow> cache_store \<Rightarrow> string list option" where
  "ca_find k s = cm_find (ci_cmp (ms_ci s)) k (ms_store s)"

lemma ca_find_put: "ca_find z (ca_put k v s) = (if same_key (ms_ci s) k z then Some v else ca_find z s)"
  by (simp add: ca_find_def ca_put_def key_cmp.find_set)

lemma ca_put_state [simp]:
  "ms_ci (ca_put k v s) = ms_ci s" "ca_file (ca_put k v s) = ca_file s" "ca_k (ca_put k v s) = ca_k s"
  by (simp_all add: ca_put_def)

lemma ca_load_line_fields:
  "ms_ci (ca_load_line h key l s) = ms_ci s" "ca_file (ca_load_line h key l s) = ca_file s"
  "ca_k (ca_load_line h key l s) = fst (line_entry l)"
  by (simp_all add: ca_load_line_def ca_put_def Let_def split: prod.splits)

lemma ca_load_line_find:
  assumes "lowers h" "\<not> same_key (ms_ci s) key z"
  shows "ca_find z (ca_load_line h key l s) = ca_find z s"
proof -
  have "same_key (ms_ci s) k z \<Longrightarrow> ci_fix h (ms_ci s) k \<noteq> ci_fix h (ms_ci s) key" for k
    using assms by (auto simp: ci_fix_same same_key_def split: if_splits)
  then show ?thesis
    by (auto simp: ca_load_line_def Let_def ca_find_def ca_put_def key_cmp.find_set split: prod.splits)
qed

lemma ca_load_lines:
  assumes "lowers h"
  shows "ms_ci (fold (ca_load_line h key) ls s) = ms_ci s"
    "ca_file (fold (ca_load_line h key) ls s) = ca_file s"
    "ca_k (fold (ca_load_line h key) ls s) = (if ls = [] then ca_k s else fst (line_entry (last ls)))"
    "\<not> same_key (ms_ci s) key z \<Longrightarrow> ca_find z (fold (ca_load_line h key) ls s) = ca_find z s"
  by (induction ls arbitrary: s) (simp_all add: ca_load_line_fields ca_load_line_find [OF assms])

lemma ca_get_vec_cached: "ca_find z s = Some v \<Longrightarrow> fst (ca_get_vec h z s) = v"
  by (simp add: ca_get_vec_def ca_cached_def ca_find_def Let_def vec_at_def ca_touch_def cm_at_def key_cmp.find_touch)

lemma ca_load_state:
  assumes "lowers h" "f_content (ca_file s) = Some t"
  shows "ms_ci (ca_load h key s) = ms_ci s" "ca_file (ca_load h key s) = ca_file s"
    "ca_k (ca_load h key s) =
       (let ls = lines_of (str_stream t) in if ls = [] then ca_k s else fst (line_entry (last ls)))"
    "\<not> same_key (ms_ci s) key (ca_k s) \<Longrightarrow> ca_find (ca_k s) (ca_load h key s) = Some []"
  using assms(2)
  by (simp_all add: ca_load_def Let_def ca_load_lines [OF assms(1)] ca_find_put)

lemma ca_touch_state:
  "ms_ci (ca_touch k s) = ms_ci s" "ca_file (ca_touch k s) = ca_file s" "ca_k (ca_touch k s) = ca_k s"
  "ca_find z (ca_touch k s) = (if same_key (ms_ci s) k z \<and> ca_find k s = None then Some [] else ca_find z s)"
  by (simp_all add: ca_touch_def ca_find_def key_cmp.find_touch)

text \<open>Reading a key that is not cached empties the entry of the key of the line read last before.\<close>

lemma stale_key_lost:
  assumes "lowers h" "f_content (ca_file s) = Some t" "\<not> ca_cached b s" "\<not> same_key (ms_ci s) b (ca_k s)"
  shows "fst (ca_get_vec h (ca_k s) (snd (ca_get_vec h b s))) = []"
  using assms ca_load_state [OF assms(1,2)]
  by (intro ca_get_vec_cached) (simp add: ca_get_vec_def Let_def ca_touch_state)

text \<open>Three reads of a new \<open>CacheStore\<close>: of any key, of another one, and of the key of the last line of the
  file; whatever values the file has for it, the third read finds none.\<close>

theorem cache_last_key_lost:
  assumes "lowers h" "f_content f = Some t" "lines_of (str_stream t) = ls @ [l]" "fst (line_entry l) = z"
    and "a \<noteq> b" "b \<noteq> z" "b \<noteq> []"
  shows "fst (ca_get_vec h z (snd (ca_get_vec h b (snd (ca_get_vec h a (new_cache f mx)))))) = []"
proof -
  let ?s = "snd (ca_get_vec h a (new_cache f mx))"
  have n: "\<not> ca_cached a (new_cache f mx)" by (simp add: ca_cached_def new_cache_def)
  have c: "f_content (ca_file (new_cache f mx)) = Some t" using assms(2) by (simp add: new_cache_def)
  have k: "ca_k ?s = z" "f_content (ca_file ?s) = Some t" "ms_ci ?s = False"
    using n c assms(3,4) ca_load_state [OF assms(1) c, of a]
    by (simp_all add: ca_get_vec_def Let_def ca_touch_state) (simp_all add: new_cache_def)
  have "ca_find b (ca_load h a (new_cache f mx)) = ca_find b (ca_put [] [] (new_cache f mx))"
    using c assms(5) ca_load_lines [OF assms(1)]
    by (simp add: ca_load_def Let_def) (simp add: new_cache_def same_key_def)
  moreover have "ca_find b (ca_put [] [] (new_cache f mx)) = None"
    using assms(7) by (simp add: ca_find_put) (simp add: ca_find_def new_cache_def same_key_def)
  moreover have "\<not> same_key (ms_ci (ca_load h a (new_cache f mx))) a b"
    using assms(5) ca_load_state(1) [OF assms(1) c] by (simp add: new_cache_def same_key_def)
  ultimately have "ca_find b ?s = None" using n by (simp add: ca_get_vec_def Let_def ca_touch_state)
  then have "\<not> ca_cached b ?s" by (simp add: ca_cached_def ca_find_def)
  with stale_key_lost [OF assms(1) k(2), of b] k assms(6) show ?thesis by (simp add: same_key_def)
qed

text \<open>The second write leaves only the key it writes in the file.\<close>

theorem cache_second_write:
  assumes "f_writable (ca_file s)"
  shows "f_content (ca_file (ca_add h k2 v2 (ca_add h k1 v1 s))) =
    Some (entry_text (k2, vec_at k2 (ca_add h k1 v1 s) @ [v2]))"
  using assms
  by (simp add: ca_add_def ca_save_def Let_def write_file_def ca_put_def ca_touch_def vec_at_def key_cmp.at_touch key_cmp.at_set)

text \<open>A value added to a key that is not cached replaces those of the file.\<close>

lemma cache_add_uncached:
  assumes "f_writable (ca_file s)" "\<not> ca_cached k s" "ca_spent s"
  shows "f_content (ca_file (ca_add h k v s)) = Some (entry_text (k, [v]))"
  using assms
  by (simp add: ca_add_def ca_save_def Let_def write_file_def ca_put_def ca_touch_def vec_at_def key_cmp.at_touch
      key_cmp.at_set ca_cached_def) (simp add: cm_at_def)

theorem cache_last_key_lost_witness:
  "fst (ca_get_vec hol_ref ''z'' (snd (ca_get_vec hol_ref ''b'' (snd (ca_get_vec hol_ref ''a'' (new_cache demo_file 0)))))) = []"
proof (rule cache_last_key_lost [where ls = "[''a: 1'']" and l = "''z: 2''"])
  show "lowers hol_ref" by (rule hol_ref_ok)
  show "f_content demo_file = Some (lines_text [''a: 1'', ''z: 2''])" by (simp add: demo_file_def)
  show "lines_of (str_stream (lines_text [''a: 1'', ''z: 2''])) = [''a: 1''] @ [''z: 2'']"
    by (subst lines_of_text) (simp_all add: char_consts)
  show "fst (line_entry ''z: 2'') = ''z''"
    using line_entry_pair [of "''z''" "''2''"] by (simp add: isspace_def char_consts)
qed simp_all

theorem cache_second_write_witness:
  "f_content (ca_file (ca_add hol_ref ''k'' ''2'' (ca_add hol_ref ''j'' ''1'' (new_cache demo_file 0)))) =
    Some (entry_text (''k'', vec_at ''k'' (ca_add hol_ref ''j'' ''1'' (new_cache demo_file 0)) @ [''2'']))"
  by (rule cache_second_write) (simp add: new_cache_def demo_file_def)

end
