(* ===== verification/Plugin_Web.thy ===== *)
theory Plugin_Web
  imports Http
begin

text \<open>
  What the optional plugins share.  Their sources are written for an earlier class of messages,
  whose members end in \<open>_cp\<close> and which the repository no longer has; the values of these members
  are the fields of \<open>plugin_msg\<close>.  The network is an argument: \<open>serve n host port request\<close> is what
  the \<open>n\<close>-th connection answers, \<open>None\<close> when it cannot be opened.  A reply to a message goes
  through \<open>IrcBot::fc_reply\<close>; the replies are recorded in their order.
\<close>

record plugin_msg =
  pm_cmd :: string
  pm_text :: string
  pm_nick :: string
  pm_reply_to :: string
  pm_user_cmd :: string
  pm_user_params :: string

type_synonym replies = "(plugin_msg \<times> string) list"

record web =
  wb_cookies :: cookie_jar
  wb_calls :: nat

type_synonym net = "nat \<Rightarrow> string \<Rightarrow> 16 word \<Rightarrow> string \<Rightarrow> string option"

definition new_web :: web where
  "new_web = \<lparr>wb_cookies = [], wb_calls = 0\<rparr>"

text \<open>The stream after \<open>ss.open(host, port)\<close>.\<close>

definition sock :: "string option \<Rightarrow> istream" where
  "sock r = (case r of None \<Rightarrow> set_fail (str_stream []) | Some t \<Rightarrow> str_stream t)"

definition CRLF :: string where "CRLF = [CR, LF]"

text \<open>\<open>VERSION\<close> of a plugin of version 0.1 when the build does not define \<open>DEV\<close>.\<close>

definition VERSION :: string where "VERSION = ''0.1-unset''"

text \<open>
  \<open>get_http\<close>: the result, the page and the cookies.  The page keeps its old value when the
  exchange fails before its body.
\<close>

definition url_parts :: "string \<Rightarrow> string \<times> string \<times> string" where
  "url_parts url =
     (let (prot, i1) = getline (CHR '':'') [] (str_stream url);
          (skip, i2) = getline (CHR ''/'') [] i1;
          (skip, i3) = getline (CHR ''/'') skip i2;
          (host, i4) = getline (CHR ''/'') [] i3;
          (path, i5) = getline LF [] i4
      in (prot, host, path))"

definition host_port :: "string \<Rightarrow> (string \<times> siz) option" where
  "host_port host =
     (if CHR '':'' \<in> set host
      then let (host1, i1) = getline (CHR '':'') host (str_stream host);
               (port, i2) = read_siz 80 i1
           in if ok i2 then Some (host1, port) else None
      else Some (host, 80))"

definition http_request :: "cookie_jar \<Rightarrow> string \<Rightarrow> string \<Rightarrow> string" where
  "http_request cookies host path =
     ''GET /'' @ path @ '' HTTP/1.1'' @ CRLF @ ''Host: '' @ host @ CRLF @
     ''User-Agent: Skivvy: '' @ VERSION @ CRLF @ ''Accept: text/html'' @ CRLF @
     get_cookie_header cookies host @ CRLF @ CRLF"

definition http_exchange ::
  "hol \<Rightarrow> (tm6 \<Rightarrow> int) \<Rightarrow> string option \<Rightarrow> cookie_jar \<Rightarrow> string \<Rightarrow> bool \<times> string \<times> cookie_jar" where
  "http_exchange h mktime r cookies html =
     (case read_http_headers h (sock r) [] of (headers, i1) \<Rightarrow>
        if \<not> ok i1 then (False, html, cookies)
        else case read_http_cookies mktime i1 headers cookies of (cookies1, i2) \<Rightarrow>
          case read_http_response_data i2 headers html of (html1, i3) \<Rightarrow> (ok i3, html1, cookies1))"

definition get_http ::
  "hol \<Rightarrow> (tm6 \<Rightarrow> int) \<Rightarrow> net \<Rightarrow> string \<Rightarrow> string \<Rightarrow> web \<Rightarrow> bool \<times> string \<times> web" where
  "get_http h mktime serve url html w =
     (case url_parts url of (prot, host, path) \<Rightarrow>
        if prot \<noteq> ''http'' then (False, html, w)
        else case host_port host of
          None \<Rightarrow> (False, html, w)
        | Some (host, port) \<Rightarrow>
            (case http_exchange h mktime
                    (serve (wb_calls w) host (ucast port) (http_request (wb_cookies w) host path))
                    (wb_cookies w) html of
               (r, html1, cookies1) \<Rightarrow> (r, html1, w\<lparr>wb_cookies := cookies1, wb_calls := Suc (wb_calls w)\<rparr>)))"

text \<open>A URL with no port is fetched from port 80 of its host.\<close>

lemma url_parts_plain:
  assumes "CHR ''/'' \<notin> set host" "LF \<notin> set path" "path \<noteq> []"
  shows "url_parts (''http://'' @ host @ ''/'' @ path) = (''http'', host, path)"
proof -
  have "getline (CHR '':'') [] (str_stream (''http://'' @ host @ ''/'' @ path)) =
      (''http'', str_stream (''//'' @ host @ ''/'' @ path))"
    by (simp add: getline_def Let_def)
  moreover have "getline (CHR ''/'') s (str_stream (CHR ''/'' # r)) = ([], str_stream r)" for s r
    by (simp add: getline_def Let_def)
  moreover have "getline (CHR ''/'') [] (str_stream (host @ CHR ''/'' # path)) = (host, str_stream path)"
    using assms(1) by (simp add: getline_found)
  moreover have "getline LF [] (str_stream path) = (path, hit_eof (str_stream path))"
    using assms(2,3) by (simp add: getline_last)
  ultimately show ?thesis by (simp add: url_parts_def Let_def)
qed

end
