(* ===== verification/Trivial.thy ===== *)
theory Trivial
  imports Plugin_Web "HOL-Library.Multiset"
begin

text \<open>
  \<open>plugin-trivial.cpp\<close>: the quiz.  The bot calls the command functions and \<open>event\<close> on its main
  thread; \<open>q_end\<close> runs on the thread that \<open>q_ask\<close> starts and whose future is a static variable.
  \<open>q_ask\<close> waits for the previous thread in \<open>fut.get()\<close>, so it is two steps, between which the main
  thread does nothing else.  The lambda of that thread holds a reference to a message of a turn
  of the main loop that is over: the message \<open>q_end\<close> answers is an argument of its step.  The
  iterator \<open>current_question\<close> is an index into the storage of the vector; reading an element that
  is not there is the error \<open>Bad_Iterator\<close>.
\<close>

subsection \<open>The file of questions\<close>

record question =
  qs_q :: string
  qs_a :: "string list"
  qs_i :: string

text \<open>The loop of \<open>operator>>\<close>; \<open>trim\<close> changes \<open>line\<close>.\<close>

function answer_loop :: "hol \<Rightarrow> istream \<Rightarrow> string \<Rightarrow> question \<Rightarrow> question \<times> istream" where
  "answer_loop h is line q =
     (case getline LF line is of (line1, is1) \<Rightarrow>
        if \<not> ok is1 \<or> h_trim h line1 = [] then (q, is1)
        else let line2 = h_trim h line1
             in answer_loop h is1 line2
                  (if hd line2 = CHR ''#'' then q\<lparr>qs_i := line2\<rparr> else q\<lparr>qs_a := qs_a q @ [line2]\<rparr>))"
  by pat_completeness auto
termination
  by (relation "measure (\<lambda>(h, is, l, q). length (buf is))") (auto dest!: getline_length [OF sym])

declare answer_loop.simps [simp del]

definition read_question :: "hol \<Rightarrow> istream \<Rightarrow> question \<times> istream" where
  "read_question h is =
     (case getline LF [] is of (l, is1) \<Rightarrow> answer_loop h is1 [] \<lparr>qs_q = l, qs_a = [], qs_i = []\<rparr>)"

lemma answer_loop_le: "answer_loop h is line q = (q', is') \<Longrightarrow> length (buf is') \<le> length (buf is)"
proof (induction h "is" line q arbitrary: q' is' rule: answer_loop.induct)
  case (1 h i line q)
  obtain line1 is1 where g: "getline LF line i = (line1, is1)" by fastforce
  have le: "length (buf is1) \<le> length (buf i)"
    using g length_dropWhile_le [of "\<lambda>c. c \<noteq> LF" "buf i"]
    by (auto simp: getline_def Let_def split: list.splits if_splits)
  from 1 g le show ?case by (subst (asm) (2) answer_loop.simps) (force simp: Let_def split: if_splits)
qed

lemma read_question_length: "read_question h is = (q, is') \<Longrightarrow> ok is' \<Longrightarrow> length (buf is') < length (buf is)"
proof -
  assume e: "read_question h is = (q, is')" and k: "ok is'"
  obtain l is1 where g: "getline LF [] is = (l, is1)" by fastforce
  have "ok is1"
  proof (rule ccontr)
    assume n: "\<not> ok is1"
    then have "\<not> good is1" using good_ok by blast
    then have "\<not> ok (snd (answer_loop h is1 [] \<lparr>qs_q = l, qs_a = [], qs_i = []\<rparr>))"
      by (subst answer_loop.simps) (simp add: stream_simps)
    with e k g show False by (simp add: read_question_def)
  qed
  with g have "length (buf is1) < length (buf is)" by (rule getline_length)
  with e g show ?thesis by (auto simp: read_question_def dest: answer_loop_le)
qed

function read_quiz :: "hol \<Rightarrow> istream \<Rightarrow> question list" where
  "read_quiz h is =
     (case read_question h is of (q, is1) \<Rightarrow> if ok is1 then q # read_quiz h is1 else [])"
  by pat_completeness auto
termination
  by (relation "measure (\<lambda>(h, is). length (buf is))") (auto dest: read_question_length [OF sym])

declare read_quiz.simps [simp del]

subsection \<open>The plugin\<close>

datatype future = No_Future | Running | Ready

record quiz =
  qz_questions :: "question list"
  qz_totals :: "(string, siz) cmap"
  qz_current :: nat
  qz_accepting :: bool
  qz_found :: bool
  qz_answers :: "siz list"
  qz_answered :: "string list"
  qz_fut :: future
  qz_asking :: bool
  qz_replies :: replies

datatype quiz_error = Bad_Iterator

definition new_quiz :: quiz where
  "new_quiz = \<lparr>qz_questions = [], qz_totals = [], qz_current = 0, qz_accepting = False, qz_found = False,
     qz_answers = [], qz_answered = [], qz_fut = No_Future, qz_asking = False, qz_replies = []\<rparr>"

definition say :: "plugin_msg \<Rightarrow> string \<Rightarrow> quiz \<Rightarrow> quiz" where
  "say msg text s = s\<lparr>qz_replies := qz_replies s @ [(msg, text)]\<rparr>"

text \<open>\<open>q_open\<close> first calls the function of \<open>Quiz_Rip\<close>, which touches no member; \<open>contents\<close> is the file
  afterwards.\<close>

definition q_open :: "hol \<Rightarrow> (question list \<Rightarrow> question list) \<Rightarrow> string option \<Rightarrow> quiz \<Rightarrow> quiz" where
  "q_open h shuffle contents s =
     s\<lparr>qz_questions := shuffle (case contents of None \<Rightarrow> [] | Some t \<Rightarrow> read_quiz h (str_stream t)),
       qz_current := 0\<rparr>"

definition q_end :: "plugin_msg \<Rightarrow> quiz \<Rightarrow> quiz" where
  "q_end msg s =
     (let s1 = s\<lparr>qz_accepting := False, qz_fut := Ready\<rparr>
      in if qz_found s1 then s1 else say msg ''Time UP!!'' s1)"

text \<open>The loop over the answers: \<open>i\<close> counts those that are not empty.\<close>

fun ask_answers :: "plugin_msg \<Rightarrow> string list \<Rightarrow> siz \<Rightarrow> quiz \<Rightarrow> quiz" where
  "ask_answers msg [] i s = s"
| "ask_answers msg (a # as) i s =
     (if a = [] then ask_answers msg as i s
      else let right = (hd a = CHR ''*'');
               s1 = (if right then s\<lparr>qz_answers := qz_answers s @ [i + 1]\<rparr> else s)
           in ask_answers msg as (i + 1)
                (say msg (''['' @ show_nat (unat (i + 1)) @ ''] '' @ (if right then tl a else a)) s1))"

text \<open>\<open>q_ask\<close> up to its wait for the future.\<close>

definition q_ask_begin :: "plugin_msg \<Rightarrow> quiz \<Rightarrow> quiz_error + quiz" where
  "q_ask_begin msg s =
     (if qz_accepting s then Inr (say msg ''Question in progress.'' s)
      else if qz_current s = length (qz_questions s)
      then Inr (say msg ''First you must use !q_open to load the questions.'' s)
      else if length (qz_questions s) < qz_current s then Inl Bad_Iterator
      else let q = qz_questions s ! qz_current s
           in Inr ((ask_answers msg (qs_a q) 0 ((say msg (qs_q q) s)\<lparr>qz_answers := []\<rparr>))\<lparr>qz_asking := True\<rparr>))"

definition q_ask_end :: "quiz \<Rightarrow> quiz" where
  "q_ask_end s =
     s\<lparr>qz_answered := [], qz_found := False, qz_accepting := True, qz_fut := Running,
       qz_current := qz_current s + 1, qz_asking := False\<rparr>"

definition q_close :: "quiz \<Rightarrow> quiz" where
  "q_close s = s\<lparr>qz_questions := []\<rparr>"

text \<open>\<open>exit\<close> gives up after ten seconds.\<close>

definition quiz_exit :: "quiz \<Rightarrow> quiz" where
  "quiz_exit s = (if qz_fut s = Ready then s\<lparr>qz_fut := No_Future\<rparr> else s)"

definition totals_of :: "string \<Rightarrow> quiz \<Rightarrow> siz" where
  "totals_of nick s = cm_at str_lt 0 nick (qz_totals s)"

definition right_text :: "string \<Rightarrow> siz \<Rightarrow> string" where
  "right_text nick n = nick @ '' has the right answer! Total: '' @ show_nat (unat n) @ '' points.''"

definition quiz_event :: "plugin_msg \<Rightarrow> quiz \<Rightarrow> quiz" where
  "quiz_event msg s =
     (case read_siz 0 (str_stream (pm_text msg)) of (ans, iss) \<Rightarrow>
        if pm_cmd msg = ''PRIVMSG'' \<and> qz_accepting s \<and> ok iss
        then let nick = pm_nick msg;
                 s1 = (if nick \<in> set (qz_answered s) then say msg (nick @ '': You only get one try.'') s
                       else if ans \<in> set (qz_answers s)
                       then let n = totals_of nick s + 1
                            in say msg (right_text nick n)
                                 (s\<lparr>qz_found := True, qz_accepting := False,
                                    qz_totals := cm_set str_lt nick n (qz_totals s)\<rparr>)
                       else s)
             in s1\<lparr>qz_answered := qz_answered s1 @ [nick]\<rparr>
        else s)"

subsection \<open>The steps of the two threads\<close>

datatype act = Open | Ask | Asked | Close | Event | Time_Up | Exit

inductive quiz_step :: "act \<Rightarrow> quiz \<Rightarrow> quiz \<Rightarrow> bool" where
  Open: "\<not> qz_asking s \<Longrightarrow> \<forall>qs. mset (shuffle qs) = mset qs \<Longrightarrow> quiz_step Open s (q_open h shuffle contents s)"
| Ask: "\<not> qz_asking s \<Longrightarrow> q_ask_begin msg s = Inr s' \<Longrightarrow> quiz_step Ask s s'"
| Asked: "qz_asking s \<Longrightarrow> qz_fut s \<noteq> Running \<Longrightarrow> quiz_step Asked s (q_ask_end s)"
| Close: "\<not> qz_asking s \<Longrightarrow> quiz_step Close s (q_close s)"
| Event: "\<not> qz_asking s \<Longrightarrow> quiz_step Event s (quiz_event msg s)"
| Time_Up: "qz_fut s = Running \<Longrightarrow> quiz_step Time_Up s (q_end msg s)"
| Exit: "\<not> qz_asking s \<Longrightarrow> quiz_step Exit s (quiz_exit s)"

inductive_cases quiz_stepE: "quiz_step a s s'"

text \<open>The states the plugin can reach, with the number of questions that were opened for answers.\<close>

inductive quiz_run :: "nat \<Rightarrow> quiz \<Rightarrow> bool" where
  Start: "quiz_run 0 new_quiz"
| Step: "quiz_run n s \<Longrightarrow> quiz_step a s s' \<Longrightarrow> quiz_run (if a = Asked then Suc n else n) s'"

subsection \<open>Points\<close>

definition points :: "quiz \<Rightarrow> nat" where
  "points s = sum_list (map (\<lambda>e. unat (snd e)) (qz_totals s))"

lemma sum_cm_set:
  "sum_list (map (\<lambda>e. unat (snd e)) (cm_set lt k v m)) + (case cm_find lt k m of None \<Rightarrow> 0 | Some w \<Rightarrow> unat w) =
    sum_list (map (\<lambda>e. unat (snd e)) m) + unat (v :: siz)"
  by (induction m) (auto split: option.splits if_splits)

lemma unat_Suc_le: "unat (w + 1 :: siz) \<le> Suc (unat w)"
  by (simp add: unat_word_ariths)

lemma points_award:
  "points (s\<lparr>qz_totals := cm_set str_lt nick (totals_of nick s + 1) (qz_totals s)\<rparr>) \<le> Suc (points s)"
  using sum_cm_set [of str_lt nick "totals_of nick s + 1" "qz_totals s"] unat_Suc_le [of "totals_of nick s"]
  by (simp add: points_def totals_of_def cm_at_def split: option.splits)

lemma say_simps [simp]:
  "qz_totals (say m t s) = qz_totals s" "qz_accepting (say m t s) = qz_accepting s" "qz_found (say m t s) = qz_found s"
  "qz_fut (say m t s) = qz_fut s" "qz_asking (say m t s) = qz_asking s" "qz_answered (say m t s) = qz_answered s"
  "qz_questions (say m t s) = qz_questions s" "qz_current (say m t s) = qz_current s"
  "qz_answers (say m t s) = qz_answers s"
  by (simp_all add: say_def)

lemma ask_answers_simps [simp]:
  "qz_totals (ask_answers m as i s) = qz_totals s" "qz_accepting (ask_answers m as i s) = qz_accepting s"
  "qz_found (ask_answers m as i s) = qz_found s" "qz_fut (ask_answers m as i s) = qz_fut s"
  by (induction as arbitrary: i s) (simp_all add: Let_def)

definition quiz_inv :: "nat \<Rightarrow> quiz \<Rightarrow> bool" where
  "quiz_inv n s =
     (points s + (if qz_accepting s then 1 else 0) \<le> n \<and> (qz_accepting s \<longrightarrow> qz_fut s = Running \<and> \<not> qz_found s) \<and>
      (qz_asking s \<longrightarrow> \<not> qz_accepting s))"

lemmas quiz_ops = q_open_def q_end_def q_close_def quiz_exit_def q_ask_end_def

lemma quiz_inv_event:
  assumes "quiz_inv n s"
  shows "quiz_inv n (quiz_event msg s)"
proof -
  let ?w = "s\<lparr>qz_totals := cm_set str_lt (pm_nick msg) (totals_of (pm_nick msg) s + 1) (qz_totals s)\<rparr>"
  have "points ?w \<le> Suc (points s)" by (rule points_award)
  then show ?thesis
    using assms by (auto simp: quiz_event_def quiz_inv_def points_def Let_def split: prod.splits)
qed

lemma quiz_inv_step: "quiz_step a s s' \<Longrightarrow> quiz_inv n s \<Longrightarrow> quiz_inv (if a = Asked then Suc n else n) s'"
proof (induction rule: quiz_step.induct)
  case (Event s msg)
  then show ?case using quiz_inv_event by simp
next
  case (Ask s msg s')
  then show ?case by (auto simp: q_ask_begin_def quiz_inv_def points_def Let_def split: if_splits)
qed (auto simp: quiz_ops quiz_inv_def points_def Let_def)

text \<open>C33: All players together never have more points than questions were opened, and a question is only open
  while its timer runs.\<close>

theorem quiz_points:
  assumes "quiz_run n s"
  shows "points s \<le> n \<and> (qz_accepting s \<longrightarrow> qz_fut s = Running \<and> points s < n)"
proof -
  have "quiz_inv n s" using assms
  proof induction
    case Start
    show ?case by (simp add: quiz_inv_def new_quiz_def points_def)
  next
    case (Step n s a s')
    then show ?case using quiz_inv_step by simp
  qed
  then show ?thesis by (auto simp: quiz_inv_def split: if_splits)
qed

text \<open>A player who has tried cannot win the question any more.\<close>

lemma second_try: "pm_nick msg \<in> set (qz_answered s) \<Longrightarrow>
  qz_totals (quiz_event msg s) = qz_totals s \<and> qz_accepting (quiz_event msg s) = qz_accepting s"
  by (auto simp: quiz_event_def Let_def split: prod.splits)

text \<open>Closing a quiz of which a question was asked leaves the iterator behind the storage of the vector: the
  next \<open>!q_ask\<close> reads a question that is not there.\<close>

theorem ask_after_close:
  assumes "0 < qz_current s" "\<not> qz_accepting s"
  shows "q_ask_begin msg (q_close s) = Inl Bad_Iterator"
  using assms by (simp add: q_ask_begin_def q_close_def)

subsection \<open>Reading the file\<close>

definition question_text :: "question \<Rightarrow> string" where
  "question_text q = lines_text (qs_q q # qs_a q @ (if qs_i q = [] then [] else [qs_i q]))"

definition question_ok :: "question \<Rightarrow> bool" where
  "question_ok q =
     (LF \<notin> set (qs_q q) \<and>
      list_all (\<lambda>a. a \<noteq> [] \<and> LF \<notin> set a \<and> trimmed a \<and> hd a \<noteq> CHR ''#'') (qs_a q) \<and>
      (qs_i q \<noteq> [] \<longrightarrow> LF \<notin> set (qs_i q) \<and> trimmed (qs_i q) \<and> hd (qs_i q) = CHR ''#''))"

lemma answer_loop_line:
  "LF \<notin> set l \<Longrightarrow> trims h \<Longrightarrow> trimmed l \<Longrightarrow>
    answer_loop h (str_stream (l @ LF # r)) x q =
    answer_loop h (str_stream r) l
      (if hd l = CHR ''#'' then q\<lparr>qs_i := l\<rparr> else q\<lparr>qs_a := qs_a q @ [l]\<rparr>)"
  by (subst answer_loop.simps) (simp add: getline_found [where l = l and r = r] trim_trimmed Let_def, simp add: trimmed_def)

lemma answer_loop_answers:
  "trims h \<Longrightarrow> list_all (\<lambda>a. a \<noteq> [] \<and> LF \<notin> set a \<and> trimmed a \<and> hd a \<noteq> CHR ''#'') as \<Longrightarrow>
    answer_loop h (str_stream (lines_text as @ r)) x q =
    answer_loop h (str_stream r) (last (x # as)) (q\<lparr>qs_a := qs_a q @ as\<rparr>)"
  by (induction as arbitrary: x q) (simp_all add: answer_loop_line)

lemma answer_loop_blank: "trims h \<Longrightarrow> answer_loop h (str_stream (LF # r)) x q = (q, str_stream r)"
  by (subst answer_loop.simps) (simp add: getline_def trims_def trim_both_def ltrim_def rtrim_def)

lemma answer_loop_end: "\<not> ok (snd (answer_loop h (str_stream []) x q))"
  by (subst answer_loop.simps) (simp add: stream_simps)

lemma answer_loop_text:
  assumes "trims h" "question_ok q"
  shows "\<exists>y. answer_loop h (str_stream (drop (Suc (length (qs_q q))) (question_text q @ r))) [] \<lparr>qs_q = qs_q q, qs_a = [], qs_i = []\<rparr> =
    answer_loop h (str_stream r) y q"
proof (cases q)
  case (fields t as i)
  show ?thesis
  proof (cases "i = []")
    case True
    then show ?thesis using assms fields by (auto simp: question_ok_def question_text_def answer_loop_answers)
  next
    case False
    then have "answer_loop h (str_stream (i @ LF # r)) y p = answer_loop h (str_stream r) i (p\<lparr>qs_i := i\<rparr>)" for y p
      using assms fields answer_loop_line [of i h r y p] by (auto simp: question_ok_def)
    moreover have "answer_loop h (str_stream (lines_text as @ i @ LF # r)) [] \<lparr>qs_q = t, qs_a = [], qs_i = []\<rparr> =
        answer_loop h (str_stream (i @ LF # r)) (last ([] # as)) \<lparr>qs_q = t, qs_a = as, qs_i = []\<rparr>"
      using assms fields by (simp add: question_ok_def answer_loop_answers)
    ultimately show ?thesis using False fields by (auto simp: question_text_def lines_text_def)
  qed
qed

lemma read_question_text:
  assumes "trims h" "question_ok q"
  shows "\<exists>y. read_question h (str_stream (question_text q @ r)) = answer_loop h (str_stream r) y q"
proof -
  let ?r = "drop (Suc (length (qs_q q))) (question_text q @ r)"
  have "question_text q @ r = qs_q q @ LF # ?r" by (simp add: question_text_def)
  moreover have "getline LF [] (str_stream (qs_q q @ LF # ?r)) = (qs_q q, str_stream ?r)"
    using assms(2) getline_found [of "str_stream (qs_q q @ LF # ?r)" LF "qs_q q" ?r "[]"]
    unfolding question_ok_def by (metis good_str_stream istream.select_convs(1) str_stream_buf str_stream_simps(1,2))
  ultimately show ?thesis
    using answer_loop_text [OF assms, of r] unfolding read_question_def by (metis (no_types, lifting) case_prod_conv)
qed

lemma read_quiz_blocks:
  assumes "trims h" "list_all question_ok ps"
  shows "read_quiz h (str_stream (concat (map (\<lambda>q. question_text q @ [LF]) ps) @ r)) = ps @ read_quiz h (str_stream r)"
proof -
  have "read_quiz h (str_stream (question_text p @ LF # r)) = p # read_quiz h (str_stream r)" if "question_ok p" for p r
    using read_question_text [OF assms(1) that, of "LF # r"]
    by (subst read_quiz.simps) (auto simp: answer_loop_blank [OF assms(1)])
  with assms(2) show ?thesis by (induction ps) simp_all
qed

lemma read_quiz_end: "read_quiz h (str_stream []) = []"
proof -
  obtain p i where r: "read_question h (str_stream []) = (p, i)" by fastforce
  then have "\<not> ok i" using read_question_length [OF r] by auto
  then show ?thesis using r by (subst read_quiz.simps) simp
qed

text \<open>A file of questions, each followed by an empty line, is read as it was written; a last question that
  the file ends without an empty line is lost.\<close>

theorem quiz_file_read:
  assumes "trims h" "list_all question_ok (q # qs)"
  shows "read_quiz h (str_stream (concat (map (\<lambda>q. question_text q @ [LF]) qs))) = qs \<and>
    read_quiz h (str_stream (concat (map (\<lambda>q. question_text q @ [LF]) qs) @ question_text q)) = qs"
proof -
  have "read_quiz h (str_stream (question_text q)) = []"
  proof -
    obtain y where "read_question h (str_stream (question_text q)) = answer_loop h (str_stream []) y q"
      using read_question_text [OF assms(1), of q "[]"] assms(2) by auto
    moreover obtain p i where "answer_loop h (str_stream []) y q = (p, i)" by fastforce
    ultimately show ?thesis using answer_loop_end [of h y q] by (subst read_quiz.simps) simp
  qed
  then show ?thesis
    using read_quiz_blocks [OF assms(1), of qs "[]"] read_quiz_blocks [OF assms(1), of qs "question_text q"]
      assms(2) by (simp add: read_quiz_end)
qed

definition demo_question :: question where
  "demo_question = \<lparr>qs_q = ''Q'', qs_a = [''*a'', ''b''], qs_i = []\<rparr>"

lemma demo_question_ok: "question_ok demo_question"
  by (simp add: demo_question_def question_ok_def trimmed_def isspace_def char_consts)

theorem quiz_file_read_witness:
  "read_quiz hol_ref (str_stream (question_text demo_question @ [LF])) = [demo_question] \<and>
   read_quiz hol_ref (str_stream (question_text demo_question @ [LF] @ question_text demo_question)) = [demo_question]"
  using quiz_file_read [of hol_ref demo_question "[demo_question]"] demo_question_ok hol_ref_ok(2) by simp

definition demo_quiz_msg :: "string \<Rightarrow> plugin_msg" where
  "demo_quiz_msg text = \<lparr>pm_cmd = ''PRIVMSG'', pm_text = text, pm_nick = ''n'', pm_reply_to = ''#c'', pm_user_cmd = [],
     pm_user_params = []\<rparr>"

definition demo_asking :: quiz where
  "demo_asking = projr (q_ask_begin (demo_quiz_msg ''!q_ask'')
     (q_open hol_ref id (Some (question_text demo_question @ [LF])) new_quiz))"

definition demo_answered :: quiz where
  "demo_answered = quiz_event (demo_quiz_msg ''1'') (q_ask_end demo_asking)"

lemma demo_run: "quiz_run 1 demo_answered"
proof -
  let ?o = "q_open hol_ref id (Some (question_text demo_question @ [LF])) new_quiz"
  have "read_quiz hol_ref (str_stream (question_text demo_question @ [LF])) = [demo_question]"
    using read_quiz_blocks [of hol_ref "[demo_question]" "[]"] hol_ref_ok(2) demo_question_ok
    by (simp add: read_quiz_end)
  then have o: "qz_questions ?o = [demo_question]" "qz_current ?o = 0" "\<not> qz_accepting ?o" "\<not> qz_asking ?o" "qz_fut ?o = No_Future"
    by (simp_all add: q_open_def new_quiz_def)
  then have a: "q_ask_begin (demo_quiz_msg ''!q_ask'') ?o = Inr demo_asking" "qz_asking demo_asking" "qz_fut demo_asking = No_Future"
    by (simp_all add: q_ask_begin_def demo_asking_def Let_def)
  have "quiz_run 0 ?o" using quiz_run.Step [OF quiz_run.Start quiz_step.Open [of new_quiz id hol_ref]]
    by (simp add: new_quiz_def)
  from quiz_run.Step [OF this quiz_step.Ask [OF o(4) a(1)]] have "quiz_run 0 demo_asking" by simp
  from quiz_run.Step [OF this quiz_step.Asked] a(2,3) have "quiz_run 1 (q_ask_end demo_asking)" by simp
  from quiz_run.Step [OF this quiz_step.Event] show ?thesis by (simp add: demo_answered_def q_ask_end_def)
qed

theorem quiz_points_witness: "points demo_answered \<le> 1"
  using quiz_points [OF demo_run] by blast

theorem ask_after_close_witness:
  "q_ask_begin (demo_quiz_msg ''!q_ask'') (q_close (q_end (demo_quiz_msg ''x'') (q_ask_end demo_asking))) = Inl Bad_Iterator"
  by (rule ask_after_close) (simp_all add: q_end_def q_ask_end_def Let_def)

end
