(* ===== verification/Quiz_Rip.thy ===== *)
theory Quiz_Rip
  imports Plugin_Web Html
begin

text \<open>
  \<open>get_onlinequizarea_quiz\<close> of \<open>plugin-trivial.cpp\<close>, which fetches a web site and writes a file of
  questions.  The local variables live in one record because the loops share them: the inner loop
  over the page of a quiz reuses \<open>line\<close> and \<open>pos\<close>, which the loop over the links of the index
  page is stepping through.  Positions are \<open>size_t\<close> values, \<open>npos\<close> the largest, and stepping on
  from \<open>npos\<close> wraps around.  Neither the decoding of a URL nor the loop over the links need end, so
  the result is an option.
\<close>

definition npos :: siz where
  "npos = siz_max"

definition find_at :: "string \<Rightarrow> string \<Rightarrow> siz \<Rightarrow> siz" where
  "find_at p s pos =
     (if length s < unat pos then npos
      else case find_str p (drop (unat pos) s) of None \<Rightarrow> npos | Some i \<Rightarrow> pos + of_nat i)"

text \<open>\<open>s.substr(pos, end - pos)\<close> for a position inside \<open>s\<close>.\<close>

definition between :: "string \<Rightarrow> siz \<Rightarrow> siz \<Rightarrow> string" where
  "between s pos end = take (unat (end - pos)) (drop (unat pos) s)"

text \<open>How a page is fetched is an argument: the URL, the page fetched before, and the state of the web.\<close>

type_synonym getter = "string \<Rightarrow> string \<Rightarrow> web \<Rightarrow> bool \<times> string \<times> web"

record rip =
  rp_line :: string
  rp_pos :: siz
  rp_html :: string
  rp_correct :: bool
  rp_answer :: string
  rp_out :: string
  rp_web :: web

definition LOC :: string where "LOC = ''question_and_answer_quizzes.php?''"

definition index_mark :: string where
  "index_mark = ''</div><div class='' @ [DQUOTE] @ ''clear8'' @ [DQUOTE] @ ''>&nbsp;</div><form action='' @ [DQUOTE, DQUOTE] @
     '' method='' @ [DQUOTE] @ ''get'' @ [DQUOTE] @ '' name='' @ [DQUOTE] @ ''quiz_form'' @ [DQUOTE] @ ''>''"

definition site :: string where "site = ''http://www.onlinequizarea.com/''"

text \<open>One line of the page of a quiz.\<close>

definition check_url :: "string \<Rightarrow> string" where
  "check_url text =
     (let (skip, i1) = getline SQUOTE [] (str_stream text);
          (id, i2) = getline SQUOTE [] i1;
          (skip, i3) = getline SQUOTE skip i2;
          (num, i4) = getline SQUOTE [] i3
      in site @ ''checkanswer.php?formid=question_'' @ id @ ''_'' @ num @ ''&retry=1'')"

definition page_line :: "hol \<Rightarrow> getter \<Rightarrow> string \<Rightarrow> rip \<Rightarrow> rip" where
  "page_line h fetch line s0 =
     (let s = s0\<lparr>rp_line := line\<rparr>
      in if find_at ''left green'' line 0 \<noteq> npos
         then let p = find_at ''.</span>'' line 0
              in if p = npos then s\<lparr>rp_correct := False, rp_pos := p\<rparr>
                 else let e = find_at ''<'' line (p + 8)
                      in s\<lparr>rp_correct := False, rp_pos := p + 8,
                           rp_out := rp_out s @ (if e = npos then [] else LF # h_trim h (between line (p + 8) e) @ [LF])\<rparr>
         else let p = find_at ''checkanswer('' line 0
              in if p \<noteq> npos
                 then (case fetch (check_url (drop (unat p) line)) [] (rp_web s) of (r, xml, w) \<Rightarrow>
                        s\<lparr>rp_pos := p, rp_web := w,
                          rp_correct := (if r \<and> find_str ''>Correct!<'' xml \<noteq> None then True else rp_correct s)\<rparr>)
                 else let p = find_at (''questionradio'' @ [DQUOTE] @ ''>'') line 0
                      in if p \<noteq> npos
                         then let (skip, i1) = getline (CHR ''>'') [] (str_stream (drop (unat p) line));
                                  (answer, i2) = getline (CHR ''<'') (rp_answer s) i1
                              in s\<lparr>rp_pos := p, rp_correct := False, rp_answer := answer,
                                   rp_out := rp_out s @ (if rp_correct s then ''*'' else []) @ answer @ [LF]\<rparr>
                         else s\<lparr>rp_pos := p\<rparr>)"

function page_loop :: "hol \<Rightarrow> getter \<Rightarrow> istream \<Rightarrow> rip \<Rightarrow> rip" where
  "page_loop h fetch is s =
     (case getline LF (rp_line s) is of (line, is1) \<Rightarrow>
        if ok is1 then page_loop h fetch is1 (page_line h fetch line s) else s\<lparr>rp_line := line\<rparr>)"
  by pat_completeness auto
termination
  by (relation "measure (\<lambda>(h, g, is, s). length (buf is))") (auto dest!: getline_length [OF sym])

declare page_loop.simps [simp del]

text \<open>The body of the loop over the links of a line, at a link.\<close>

definition link :: "hol \<Rightarrow> getter \<Rightarrow> rip \<Rightarrow> rip option" where
  "link h fetch s =
     (let e = find_at [DQUOTE] (rp_line s) (rp_pos s)
      in if e = npos then Some s
         else case urldecode h (between (rp_line s) (rp_pos s) e) of None \<Rightarrow> None
           | Some u \<Rightarrow> (case fix_entities u of None \<Rightarrow> None
             | Some u1 \<Rightarrow>
                 (case fetch (site @ u1) (rp_html s) (rp_web s) of (r, html, w) \<Rightarrow>
                    let s1 = s\<lparr>rp_html := html, rp_web := w\<rparr>
                    in Some (if r then page_loop h fetch (str_stream html) s1 else s1))))"

partial_function (option) link_loop :: "hol \<Rightarrow> getter \<Rightarrow> rip \<Rightarrow> rip option" where
  "link_loop h fetch s =
     (let p = find_at LOC (rp_line s) (rp_pos s); s1 = s\<lparr>rp_pos := p\<rparr>
      in if p = npos then Some s1
         else case link h fetch s1 of None \<Rightarrow> None
           | Some s2 \<Rightarrow> link_loop h fetch (s2\<lparr>rp_pos := rp_pos s2 + of_nat (length LOC)\<rparr>))"

text \<open>A line of an index page: \<open>find\<close> is not compared with \<open>npos\<close>.\<close>

function index_loop :: "hol \<Rightarrow> getter \<Rightarrow> istream \<Rightarrow> rip \<Rightarrow> rip option" where
  "index_loop h fetch is s =
     (case getline LF (rp_line s) is of (line, is1) \<Rightarrow>
        if \<not> ok is1 then Some (s\<lparr>rp_line := line\<rparr>)
        else if find_at index_mark line 0 \<noteq> 0 then index_loop h fetch is1 (s\<lparr>rp_line := line\<rparr>)
        else case link_loop h fetch (s\<lparr>rp_line := line, rp_pos := 0\<rparr>) of
               None \<Rightarrow> None
             | Some s1 \<Rightarrow> index_loop h fetch is1 s1)"
  by pat_completeness auto
termination
  by (relation "measure (\<lambda>(h, g, is, s). length (buf is))") (auto dest!: getline_length [OF sym])

declare index_loop.simps [simp del]

definition index_url :: "nat \<Rightarrow> string" where
  "index_url i =
     ''http://www.onlinequizarea.com/multiple-choice/general-knowledge-quiz/start/added&next='' @ show_nat i @ ''/32/1/''"

fun rip_loop :: "hol \<Rightarrow> getter \<Rightarrow> nat list \<Rightarrow> rip \<Rightarrow> rip option" where
  "rip_loop h fetch [] s = Some s"
| "rip_loop h fetch (i # is) s =
     (case fetch (index_url i) (rp_html s) (rp_web s) of (r, html, w) \<Rightarrow>
        let s1 = s\<lparr>rp_html := html, rp_web := w\<rparr>
        in if \<not> r then rip_loop h fetch is s1
           else case index_loop h fetch (str_stream html)
                       (s1\<lparr>rp_line := [], rp_answer := [], rp_correct := False\<rparr>) of
                  None \<Rightarrow> None
                | Some s2 \<Rightarrow> rip_loop h fetch is s2)"

text \<open>\<open>for(siz i = 1; i <= 300; i += 30)\<close>; the cookies are static, so they are an argument.\<close>

definition rip_quiz :: "hol \<Rightarrow> getter \<Rightarrow> web \<Rightarrow> (string \<times> web) option" where
  "rip_quiz h fetch w =
     map_option (\<lambda>s. (rp_out s, rp_web s))
       (rip_loop h fetch (map (\<lambda>n. 1 + 30 * n) [0..<10])
          \<lparr>rp_line = [], rp_pos = 0, rp_html = [], rp_correct = False, rp_answer = [], rp_out = [], rp_web = w\<rparr>)"

definition get_onlinequizarea_quiz :: "hol \<Rightarrow> (tm6 \<Rightarrow> int) \<Rightarrow> net \<Rightarrow> web \<Rightarrow> (string \<times> web) option" where
  "get_onlinequizarea_quiz h mktime serve w = rip_quiz h (get_http h mktime serve) w"

subsection \<open>The inverted test\<close>

lemma find_at_start: "length s < 2 ^ 64 \<Longrightarrow> find_at p s 0 = 0 \<longleftrightarrow> find_str p s = Some 0"
proof -
  assume l: "length s < 2 ^ 64"
  have "(of_nat i :: siz) = 0 \<longleftrightarrow> i = 0" if "find_str p s = Some i" for i
  proof -
    have "i < 2 ^ 64" using find_str_Some [OF that] l by auto
    then have "unat (of_nat i :: siz) = i" by (simp add: unat_of_nat)
    then show ?thesis by (metis unat_eq_zero of_nat_0)
  qed
  then show ?thesis by (auto simp: find_at_def npos_def siz_max_def split: option.splits)
qed

lemma find_str_0: "find_str p s = Some 0 \<longleftrightarrow> starts_with p s"
  by (cases s; cases p) (auto split: option.splits)

text \<open>On lines that do not begin with the mark the loop does nothing.\<close>

lemma index_loop_skips:
  assumes "\<forall>l\<in>set (lines_of is). \<not> starts_with index_mark l \<and> length l < 2 ^ 64"
  shows "\<exists>l. index_loop h fetch is s = Some (s\<lparr>rp_line := l\<rparr>)"
  using assms
proof (induction h fetch "is" s rule: index_loop.induct)
  case (1 h fetch i s)
  obtain line i1 where g: "getline LF (rp_line s) i = (line, i1)" by fastforce
  show ?case
  proof (cases "ok i1")
    case True
    then have "good i" using g by (cases "good i") (auto simp: getline_bad)
    then have g0: "getline LF [] i = (line, i1)" using g by (simp add: getline_def)
    then have l: "lines_of i = line # lines_of i1" using True by (subst lines_of.simps) simp
    then have "find_at index_mark line 0 \<noteq> 0"
      using "1.prems" find_at_start [of line index_mark] find_str_0 by simp
    then have "index_loop h fetch i s = index_loop h fetch i1 (s\<lparr>rp_line := line\<rparr>)"
      using True g by (subst index_loop.simps) simp
    then show ?thesis using "1.IH" [OF g [symmetric]] True \<open>find_at index_mark line 0 \<noteq> 0\<close> "1.prems" l by auto
  next
    case False
    with g show ?thesis by (subst index_loop.simps) auto
  qed
qed

lemma rip_quiz_empty:
  assumes "\<And>url html w html' w'. fetch url html w = (True, html', w') \<Longrightarrow>
      (\<forall>l\<in>set (lines_of (str_stream html')). \<not> starts_with index_mark l \<and> length l < 2 ^ 64)"
  shows "\<exists>w'. rip_quiz h fetch w = Some ([], w')"
proof -
  have "\<exists>s'. rip_loop h fetch ns s = Some s' \<and> rp_out s' = rp_out s" for ns s
  proof (induction ns arbitrary: s)
    case (Cons n ns)
    obtain r html w where g: "fetch (index_url n) (rp_html s) (rp_web s) = (r, html, w)"
      using prod_cases3 by blast
    let ?t = "s\<lparr>rp_html := html, rp_web := w, rp_line := [], rp_answer := [], rp_correct := False\<rparr>"
    show ?case
    proof (cases r)
      case True
      then have "\<forall>l\<in>set (lines_of (str_stream html)). \<not> starts_with index_mark l \<and> length l < 2 ^ 64"
        using assms g by simp
      from index_loop_skips [OF this] obtain l where i: "index_loop h fetch (str_stream html) ?t = Some (?t\<lparr>rp_line := l\<rparr>)"
        by blast
      obtain s' where "rip_loop h fetch ns (?t\<lparr>rp_line := l\<rparr>) = Some s'" "rp_out s' = rp_out s"
        using Cons.IH [of "?t\<lparr>rp_line := l\<rparr>"] by auto
      with g i True show ?thesis by (simp add: Let_def)
    next
      case False
      with g Cons.IH [of "s\<lparr>rp_html := html, rp_web := w\<rparr>"] show ?thesis by (auto simp: Let_def)
    qed
  qed simp
  then show ?thesis by (fastforce simp: rip_quiz_def)
qed

text \<open>The loop over the lines of an index page goes on when the mark is not at the beginning of the line: if
  no page that is fetched has a line that begins with the mark, the file stays empty.\<close>

theorem rip_needs_mark_first:
  assumes "\<And>url html w html' w'. get_http h mktime serve url html w = (True, html', w') \<Longrightarrow>
      (\<forall>l\<in>set (lines_of (str_stream html')). \<not> starts_with index_mark l \<and> length l < 2 ^ 64)"
  shows "\<exists>w'. get_onlinequizarea_quiz h mktime serve w = Some ([], w')"
  unfolding get_onlinequizarea_quiz_def using assms by (rule rip_quiz_empty)

definition demo_body :: string where
  "demo_body = ''<br>'' @ index_mark @ LOC @ [DQUOTE]"

definition demo_page :: string where
  "demo_page = ''HTTP/1.1 200 OK'' @ CRLF @ ''Content-Length: 121'' @ CRLF @ CRLF @ demo_body"

lemma demo_headers:
  "read_http_headers hol_ref (str_stream demo_page) [] = ([(''content-length'', ''121'')], str_stream demo_body)"
  by code_simp

lemma demo_read: "get_chars 121 (str_stream demo_body) = (demo_body, str_stream [])"
  by code_simp

lemma demo_exchange: "http_exchange hol_ref (\<lambda>_. 0) (Some demo_page) c html = (True, demo_body, c)"
proof -
  have "read_siz 0 (str_stream ''121'') = (121, hit_eof (str_stream ''121''))"
    by (simp add: read_siz_def sentry_def split_sign_def digits_val_def digit_val_def isdigit_def isspace_def char_consts code_def)
  then show ?thesis
    by (simp add: http_exchange_def sock_def demo_headers read_http_cookies_def read_http_response_data_def demo_read)
qed

lemma demo_lines:
  "lines_of (str_stream demo_body) = [demo_body]" "\<not> starts_with index_mark demo_body" "length demo_body = 121"
  by code_simp+

theorem rip_needs_mark_first_witness:
  "\<exists>w'. get_onlinequizarea_quiz hol_ref (\<lambda>_. 0) (\<lambda>_ _ _ _. Some demo_page) new_web = Some ([], w')"
proof (rule rip_needs_mark_first)
  show "\<forall>l\<in>set (lines_of (str_stream html')). \<not> starts_with index_mark l \<and> length l < 2 ^ 64"
    if "get_http hol_ref (\<lambda>_. 0) (\<lambda>_ _ _ _. Some demo_page) url html w = (True, html', w')" for url html w html' w'
  proof -
    have "html' = demo_body"
      using that by (simp add: get_http_def demo_exchange split: prod.splits if_splits option.splits)
    then show ?thesis using demo_lines by simp
  qed
qed

end
