(* ===== verification/Diction.thy ===== *)
theory Diction
  imports Plugin_Web Html
begin

text \<open>
  \<open>plugin-diction.cpp\<close>: the list of languages, the translator and the dictionary.  The state is the
  cookie jar with the number of connections made, the replies and the requests sent, each with
  its host.  The text of a page is decoded by \<open>net::html_to_text\<close>, whose model is an option.
\<close>

record diction =
  dc_web :: web
  dc_replies :: replies
  dc_sent :: "(string \<times> string) list"

definition new_diction :: diction where
  "new_diction = \<lparr>dc_web = new_web, dc_replies = [], dc_sent = []\<rparr>"

definition dc_reply :: "plugin_msg \<Rightarrow> string \<Rightarrow> diction \<Rightarrow> diction" where
  "dc_reply msg text s = s\<lparr>dc_replies := dc_replies s @ [(msg, text)]\<rparr>"

text \<open>The prompts: bold, a colour, a name, then plain and bold again.\<close>

definition prompt :: "string \<Rightarrow> string" where
  "prompt name = [CHR 0x02, CHR 0x03] @ name @ '': '' @ [CHR 0x0F, CHR 0x02]"

subsection \<open>Languages\<close>

definition lang_inits :: "(string \<times> string) list" where
  "lang_inits =
     [(''af'', ''Afrikaans''), (''sq'', ''Albanian''), (''ar'', ''Arabic''),
      (''be'', ''Belarusian''), (''bg'', ''Bulgarian''), (''ca'', ''Catalan''),
      (''zh-CN'', ''Chinese''), (''hr'', ''Croatian''), (''cs'', ''Czech''),
      (''da'', ''Danish''), (''nl'', ''Dutch''), (''en'', ''English''),
      (''et'', ''Estonian''), (''tl'', ''Filipino''), (''fi'', ''Finnish''),
      (''fr'', ''French''), (''gl'', ''Galician''), (''de'', ''German''),
      (''el'', ''Greek''), (''ht'', ''Haitian Creole''), (''iw'', ''Hebrew''),
      (''hi'', ''Hindi''), (''hu'', ''Hungarian''), (''is'', ''Icelandic''),
      (''id'', ''Indonesian''), (''ga'', ''Irish''), (''it'', ''Italian''),
      (''ja'', ''Japanese''), (''ko'', ''Korean''), (''lv'', ''Latvian''),
      (''lt'', ''Lithuanian''), (''mk'', ''Macedonian''), (''ms'', ''Malay''),
      (''mt'', ''Maltese''), (''no'', ''Norwegian''), (''fa'', ''Persian''),
      (''pl'', ''Polish''), (''pt'', ''Portuguese''), (''pt-PT'', ''Portuguese(Portugal)''),
      (''ro'', ''Romanian''), (''ru'', ''Russian''), (''sr'', ''Serbian''),
      (''sk'', ''Slovak''), (''sl'', ''Slovenian''), (''es'', ''Spanish''),
      (''sw'', ''Swahili''), (''sv'', ''Swedish''), (''th'', ''Thai''),
      (''tr'', ''Turkish''), (''uk'', ''Ukrainian''), (''vi'', ''Vietnamese''),
      (''cy'', ''Welsh''), (''yi'', ''Yiddish'')]"

definition langmap :: "(string, string) cmap" where
  "langmap = fold (\<lambda>(k, v). cm_insert str_lt k v) lang_inits []"

text \<open>The loop of \<open>langs\<close>: the string stream, the separator, \<open>found\<close> and the replies.\<close>

fun langs_loop ::
  "hol \<Rightarrow> plugin_msg \<Rightarrow> string \<Rightarrow> (string \<times> string) list \<Rightarrow> string \<Rightarrow> string \<Rightarrow> bool \<Rightarrow> diction \<Rightarrow> string \<times> bool \<times> diction" where
  "langs_loop h msg lang [] oss sep found s = (oss, found, s)"
| "langs_loop h msg lang ((k, v) # ls) oss sep found s =
     (if lang = [] \<or> find_str lang (h_lower h v) \<noteq> None
      then (if 200 < length oss
            then langs_loop h msg lang ls (sep @ k @ '': '' @ v) '', '' True (dc_reply msg (prompt ''02langs'' @ '' '' @ oss) s)
            else langs_loop h msg lang ls (oss @ sep @ k @ '': '' @ v) '', '' found s)
      else langs_loop h msg lang ls oss sep found s)"

definition langs :: "hol \<Rightarrow> plugin_msg \<Rightarrow> diction \<Rightarrow> diction" where
  "langs h msg s =
     (case langs_loop h msg (h_trim h (h_lower h (pm_user_params msg))) langmap [] [] False s of (lang, found, s1) \<Rightarrow>
        if \<not> found \<and> lang = [] then dc_reply msg (prompt ''03langs'' @ '' None found.'') s1
        else if lang \<noteq> [] then dc_reply msg (prompt ''02langs'' @ '' '' @ lang) s1 else s1)"

subsection \<open>Requests\<close>

text \<open>
  The exchange with a server as the three functions write it: it ends when the headers, the cookies
  or the body cannot be read.
\<close>

definition dc_fetch ::
  "hol \<Rightarrow> (tm6 \<Rightarrow> int) \<Rightarrow> net \<Rightarrow> string \<Rightarrow> string \<Rightarrow> diction \<Rightarrow> string option \<times> diction" where
  "dc_fetch h mktime serve host req s =
     (let w = dc_web s
      in case http_exchange h mktime (serve (wb_calls w) host 80 req) (wb_cookies w) [] of (r, html, cookies) \<Rightarrow>
        (if r then Some html else None,
         s\<lparr>dc_web := \<lparr>wb_cookies = cookies, wb_calls = Suc (wb_calls w)\<rparr>, dc_sent := dc_sent s @ [(host, req)]\<rparr>))"

definition request :: "string \<Rightarrow> string \<Rightarrow> string" where
  "request path host =
     ''GET '' @ path @ '' HTTP/1.1'' @ CRLF @ ''Host: '' @ host @ CRLF @ ''User-Agent: Skivvy: '' @ VERSION @ CRLF @
     ''Accept: text/html'' @ CRLF @ CRLF"

definition trans_path :: "string \<Rightarrow> string \<Rightarrow> string \<Rightarrow> string" where
  "trans_path word src dst = ''/translate?query='' @ word @ ''&src='' @ src @ ''&dst='' @ dst"

definition trans :: "hol \<Rightarrow> (tm6 \<Rightarrow> int) \<Rightarrow> net \<Rightarrow> plugin_msg \<Rightarrow> diction \<Rightarrow> diction" where
  "trans h mktime serve msg s =
     (let (src, i1) = read_word ''en'' (str_stream (pm_user_params msg));
          (dst, i2) = read_word ''en'' i1
      in if \<not> ok i2 then dc_reply msg (prompt ''05trans'' @ '' !trans <from> <to> <phrase>.'') s
         else if cm_find str_lt src langmap = None
         then dc_reply msg (prompt ''05trans'' @ '' Base language '' @ src @ '' not understood. Check !langs for language codes.'') s
         else if cm_find str_lt dst langmap = None
         then dc_reply msg (prompt ''05trans'' @ '' Target language '' @ dst @ '' not understood. Check !langs for language codes.'') s
         else let word = urlencode (fst (getline LF [] (skip_ws i2))); host = ''translate.reference.com''
              in case dc_fetch h mktime serve host (request (trans_path word src dst) host) s of
                   (None, s1) \<Rightarrow> s1
                 | (Some html, s1) \<Rightarrow>
                     (case h_extract h html (''<div class='' @ [DQUOTE] @ ''translateTxt'' @ [DQUOTE] @ '' >'') ''</div>'' 0 of
                        None \<Rightarrow> dc_reply msg (prompt ''05trans'' @ '' No translation found.'') s1
                      | Some (d, _) \<Rightarrow> dc_reply msg (prompt ''06trans'' @ h_trim h d) s1))"

subsection \<open>Definitions of a page\<close>

definition dict_class :: string where
  "dict_class = ''links_zero_click_disambig highlight_2''"

text \<open>The loop over the alternatives: \<open>n\<close> counts the replies, \<open>os\<close> is the text in \<open>div_oss\<close>.\<close>

function alt_loop :: "hol \<Rightarrow> plugin_msg \<Rightarrow> nat \<Rightarrow> istream \<Rightarrow> string \<Rightarrow> diction \<Rightarrow> diction option" where
  "alt_loop h msg n is os s =
     (if 5 \<le> n then Some s
      else case read_tag_by_att is os ''div'' ''class'' dict_class of (os1, is1) \<Rightarrow>
        if \<not> ok is1 then Some s
        else case read_tag (str_stream os1) [] ''a'' of (option, is2) \<Rightarrow>
          if \<not> ok is2 then alt_loop h msg n is1 option s
          else case getline LF [] is2 of (defn, is3) \<Rightarrow>
            if \<not> ok is3 then alt_loop h msg n is1 [] s
            else case html_to_text h defn of
              None \<Rightarrow> None
            | Some t \<Rightarrow>
                alt_loop h msg (n + 1) is1 []
                  (dc_reply msg ([CHR 0x02, CHR 0x03] @ ''06dict: '' @ show_nat (n + 1) @ ''. '' @ [CHR 0x0F, CHR 0x02] @
                     ''('' @ option @ '') '' @ t) s))"
  by pat_completeness auto
termination
  by (relation "measure (\<lambda>(h, msg, n, is, os, s). length (buf is))")
    (auto simp: read_tag_by_att_def Let_def dest: tag_loop_length [OF sym])

declare alt_loop.simps [simp del]

definition page_defs :: "hol \<Rightarrow> plugin_msg \<Rightarrow> string \<Rightarrow> diction \<Rightarrow> diction option" where
  "page_defs h msg html s =
     (case h_extract h html (''<a class='' @ [DQUOTE] @ ''snippet'' @ [DQUOTE]) ''/a>'' 0 of
        None \<Rightarrow> alt_loop h msg 0 (str_stream html) [] s
      | Some (a, _) \<Rightarrow>
          (case h_extract h a ''>'' ''<'' 0 of
             None \<Rightarrow> Some s
           | Some (defn, _) \<Rightarrow> alt_loop h msg 0 (str_stream html) [] (dc_reply msg (prompt ''06dict'' @ defn) s)))"

definition dict_from :: "hol \<Rightarrow> (tm6 \<Rightarrow> int) \<Rightarrow> net \<Rightarrow> string \<Rightarrow> string \<Rightarrow> plugin_msg \<Rightarrow> diction \<Rightarrow> diction option" where
  "dict_from h mktime serve host path msg s =
     (case dc_fetch h mktime serve host (request path host) s of
        (None, s1) \<Rightarrow> Some s1
      | (Some html, s1) \<Rightarrow> page_defs h msg html s1)"

definition ddg_dict :: "hol \<Rightarrow> (tm6 \<Rightarrow> int) \<Rightarrow> net \<Rightarrow> plugin_msg \<Rightarrow> diction \<Rightarrow> diction option" where
  "ddg_dict h mktime serve msg =
     dict_from h mktime serve ''duckduckgo.com'' (''/?q=define%3A+'' @ urlencode (pm_user_params msg)) msg"

definition google_dict :: "hol \<Rightarrow> (tm6 \<Rightarrow> int) \<Rightarrow> net \<Rightarrow> plugin_msg \<Rightarrow> diction \<Rightarrow> diction option" where
  "google_dict h mktime serve msg =
     dict_from h mktime serve ''www.merriam-webster.com'' (''/dictionary/'' @ urlencode (pm_user_params msg)) msg"

text \<open>\<open>dict\<close> returns behind this call; the dialogue with a dictionary server below is never reached.\<close>

definition dict :: "hol \<Rightarrow> (tm6 \<Rightarrow> int) \<Rightarrow> net \<Rightarrow> plugin_msg \<Rightarrow> diction \<Rightarrow> diction option" where
  "dict h mktime serve msg s = google_dict h mktime serve msg s"

subsection \<open>What \<open>!langs\<close> lists\<close>

definition lang_hit :: "hol \<Rightarrow> string \<Rightarrow> string \<times> string \<Rightarrow> bool" where
  "lang_hit h lang e = (lang = [] \<or> find_str lang (h_lower h (snd e)) \<noteq> None)"

definition lang_text :: "string \<times> string \<Rightarrow> string" where
  "lang_text e = fst e @ '': '' @ snd e"

text \<open>The texts still to come when the separator is \<open>sep\<close>.\<close>

fun lang_tail :: "string \<Rightarrow> (string \<times> string) list \<Rightarrow> string" where
  "lang_tail sep [] = []"
| "lang_tail sep (e # es) = sep @ lang_text e @ lang_tail '', '' es"

lemma lang_tail_join: "lang_tail [] es = join_with '', '' (map lang_text es)"
proof -
  have "lang_tail '', '' es = (if es = [] then [] else '', '' @ join_with '', '' (map lang_text es))" for es
    by (induction es) (auto simp: join_with_def split: list.splits)
  then show ?thesis by (cases es) (auto simp: join_with_def split: list.splits)
qed

lemma langmap_all: "list_all P lang_inits \<Longrightarrow> list_all P langmap"
proof -
  have "set (cm_insert str_lt k v m) \<subseteq> insert (k, v) (set m)" for k m and v :: string
    by (auto simp: cm_insert_def cm_touch_def dest: entries_cm_set split: option.splits)
  then have "set (fold (\<lambda>(k, v). cm_insert str_lt k v) es m) \<subseteq> set es \<union> set m" for es and m :: "(string, string) cmap"
  proof (induction es arbitrary: m)
    case (Cons e es)
    obtain k v where e: "e = (k, v)" by (cases e)
    have "set (fold (\<lambda>(k, v). cm_insert str_lt k v) es (cm_insert str_lt k v m)) \<subseteq> set es \<union> insert (k, v) (set m)"
      using Cons.IH [OF Cons.prems, of "cm_insert str_lt k v m"] Cons.prems [of k v m] by blast
    then show ?case using e by auto
  qed simp
  from this [of lang_inits "[]"] show "list_all P lang_inits \<Longrightarrow> list_all P langmap"
    by (auto simp: langmap_def list_all_iff)
qed

lemma langmap_texts: "list_all (\<lambda>e. length (lang_text e) \<le> 30) langmap"
  by (rule langmap_all) (simp add: lang_inits_def lang_text_def)

definition langs_prompt :: string where
  "langs_prompt = prompt ''02langs'' @ '' ''"

lemma langs_loop_texts:
  assumes "langs_loop h msg lang ls oss sep found s = (oss', found', s')"
    and "list_all (\<lambda>e. length (lang_text e) \<le> 30) ls" "length oss \<le> 232" "length sep \<le> 2"
  shows "\<exists>ts. dc_replies s' = dc_replies s @ map (\<lambda>t. (msg, langs_prompt @ t)) ts \<and>
    concat ts @ oss' = oss @ lang_tail sep (filter (lang_hit h lang) ls) \<and> list_all (\<lambda>t. t \<noteq> [] \<and> length t \<le> 232) ts \<and>
    length oss' \<le> 232 \<and> found' = (found \<or> ts \<noteq> []) \<and> (oss' = [] \<longleftrightarrow> oss = [] \<and> filter (lang_hit h lang) ls = [])"
  using assms
proof (induction ls arbitrary: oss sep found s)
  case (Cons e ls)
  obtain k v where e: "e = (k, v)" by (cases e)
  have t: "lang_text (k, v) = k @ '': '' @ v" by (simp add: lang_text_def)
  have le: "length (lang_text (k, v)) \<le> 30" "list_all (\<lambda>e. length (lang_text e) \<le> 30) ls"
    using Cons.prems(2) e by simp_all
  consider (miss) "\<not> lang_hit h lang e" | (flush) "lang_hit h lang e" "200 < length oss"
    | (fits) "lang_hit h lang e" "\<not> 200 < length oss" by blast
  then show ?case
  proof cases
    case miss
    then have "langs_loop h msg lang ls oss sep found s = (oss', found', s')"
      using Cons.prems(1) e by (simp add: lang_hit_def)
    from Cons.IH [OF this le(2) Cons.prems(3,4)] miss show ?thesis by simp
  next
    case flush
    then have "langs_loop h msg lang ls (sep @ lang_text (k, v)) '', '' True (dc_reply msg (langs_prompt @ oss) s) =
        (oss', found', s')"
      using Cons.prems(1) e by (simp add: lang_hit_def t langs_prompt_def)
    from Cons.IH [OF this le(2)] Cons.prems(4) le(1) obtain ts where
      "dc_replies s' = dc_replies s @ map (\<lambda>t. (msg, langs_prompt @ t)) (oss # ts)"
      "concat (oss # ts) @ oss' = oss @ lang_tail sep (filter (lang_hit h lang) (e # ls))"
      "list_all (\<lambda>t. t \<noteq> [] \<and> length t \<le> 232) ts" "length oss' \<le> 232" "found'"
      "oss' \<noteq> []"
      using flush e by (auto simp: dc_reply_def lang_text_def)
    then show ?thesis using Cons.prems(3) flush by (intro exI [of _ "oss # ts"]) auto
  next
    case fits
    then have "langs_loop h msg lang ls (oss @ sep @ lang_text (k, v)) '', '' found s = (oss', found', s')"
      using Cons.prems(1) e by (simp add: lang_hit_def t)
    from Cons.IH [OF this le(2)] Cons.prems(4) le(1) fits e obtain ts where
      "dc_replies s' = dc_replies s @ map (\<lambda>t. (msg, langs_prompt @ t)) ts"
      "concat ts @ oss' = oss @ lang_tail sep (filter (lang_hit h lang) (e # ls))"
      "list_all (\<lambda>t. t \<noteq> [] \<and> length t \<le> 232) ts" "length oss' \<le> 232" "found' = (found \<or> ts \<noteq> [])" "oss' \<noteq> []"
      by (auto simp: lang_text_def)
    then show ?thesis using fits by (intro exI [of _ ts]) auto
  qed
qed simp

text \<open>\<open>!langs\<close> lists every language that matches once and in the order of the codes, in replies of a bounded
  size whose texts joined give the list, or says that there is none.\<close>

theorem langs_listed:
  "let hits = filter (lang_hit h (h_trim h (h_lower h (pm_user_params msg)))) langmap
   in if hits = [] then dc_replies (langs h msg s) = dc_replies s @ [(msg, prompt ''03langs'' @ '' None found.'')]
      else \<exists>ts. dc_replies (langs h msg s) = dc_replies s @ map (\<lambda>t. (msg, langs_prompt @ t)) ts \<and>
        concat ts = join_with '', '' (map lang_text hits) \<and> list_all (\<lambda>t. t \<noteq> [] \<and> length t \<le> 232) ts"
proof -
  let ?lang = "h_trim h (h_lower h (pm_user_params msg))"
  obtain oss found s1 where l: "langs_loop h msg ?lang langmap [] [] False s = (oss, found, s1)" using prod_cases3 by blast
  from langs_loop_texts [OF l langmap_texts] obtain ts where
    ts: "dc_replies s1 = dc_replies s @ map (\<lambda>t. (msg, langs_prompt @ t)) ts"
    "concat ts @ oss = lang_tail [] (filter (lang_hit h ?lang) langmap)" "list_all (\<lambda>t. t \<noteq> [] \<and> length t \<le> 232) ts"
    "length oss \<le> 232" "found = (ts \<noteq> [])" "oss = [] \<longleftrightarrow> filter (lang_hit h ?lang) langmap = []" by auto
  show ?thesis
  proof (cases "filter (lang_hit h ?lang) langmap = []")
    case True
    then have "oss = []" "concat ts = []" using ts(2,6) by simp_all
    then have "ts = []" using ts(3) by (cases ts) auto
    then show ?thesis using True ts by (simp add: langs_def l dc_reply_def)
  next
    case False
    then have "oss \<noteq> []" using ts(6) by simp
    then have "dc_replies (langs h msg s) = dc_replies s @ map (\<lambda>t. (msg, langs_prompt @ t)) (ts @ [oss])"
      using ts(1) by (simp add: langs_def l dc_reply_def langs_prompt_def)
    moreover have "concat (ts @ [oss]) = join_with '', '' (map lang_text (filter (lang_hit h ?lang) langmap))"
      using ts(2) by (simp add: lang_tail_join)
    moreover have "list_all (\<lambda>t. t \<noteq> [] \<and> length t \<le> 232) (ts @ [oss])" using ts(3,4) \<open>oss \<noteq> []\<close> by simp
    ultimately show ?thesis using False unfolding Let_def if_not_P [OF False] by blast
  qed
qed

subsection \<open>What is sent\<close>

definition one_word :: "string \<Rightarrow> bool" where
  "one_word p = (SPC \<notin> set p \<and> CR \<notin> set p \<and> LF \<notin> set p)"

lemma one_word_simps [simp]:
  "one_word []" "one_word (c # p) \<longleftrightarrow> c \<noteq> SPC \<and> c \<noteq> CR \<and> c \<noteq> LF \<and> one_word p"
  "one_word (p @ q) \<longleftrightarrow> one_word p \<and> one_word q"
  by (auto simp: one_word_def)

lemma isxdigit_isalnum: "isxdigit c \<Longrightarrow> isalnum c"
  by (auto simp: isxdigit_def isalnum_def isalpha_def)

lemma urlencode_one_word: "one_word (urlencode url)"
proof -
  have "one_word (hex_char c)" for c
    using show_hex_xdigits isxdigit_facts(1) by (auto simp: hex_char_def one_word_def isspace_def char_consts)
  moreover have "isalnum c \<Longrightarrow> one_word [c]" for c
    by (auto simp: one_word_def isalnum_def isalpha_def isdigit_def code_def char_consts)
  ultimately have "one_word (urlencode [c])" for c
    by (simp add: urlencode_def char_consts)
  moreover have "urlencode (c # cs) = urlencode [c] @ urlencode cs" for c cs by (simp add: urlencode_def)
  ultimately show ?thesis
    by (induction url) (auto simp del: one_word_simps(2) simp: urlencode_def)
qed

lemma langmap_one_word: "list_all (\<lambda>e. one_word (fst e)) langmap"
  by (rule langmap_all) (simp add: lang_inits_def char_consts)

lemma find_in_map: "cm_find str_lt k m = Some v \<Longrightarrow> (k, v) \<in> set m"
  by (induction m) (use str_cmp.total in \<open>auto split: if_splits\<close>)

lemma find_one_word: "cm_find str_lt k langmap \<noteq> None \<Longrightarrow> one_word k"
  using langmap_one_word find_in_map [of k langmap] by (fastforce simp: list_all_iff)

lemma trans_path_one_word: "one_word src \<Longrightarrow> one_word dst \<Longrightarrow> one_word (trans_path (urlencode w) src dst)"
  by (simp add: trans_path_def urlencode_one_word char_consts)

lemma dc_reply_sent [simp]: "dc_sent (dc_reply msg t s) = dc_sent s"
  by (simp add: dc_reply_def)

lemma dc_fetch_sent: "dc_fetch h mktime serve host req s = (r, s') \<Longrightarrow> dc_sent s' = dc_sent s @ [(host, req)]"
  by (auto simp: dc_fetch_def Let_def split: prod.splits)

lemma alt_loop_sent: "alt_loop h msg n is os s = Some s' \<Longrightarrow> dc_sent s' = dc_sent s"
proof (induction h msg n "is" os s rule: alt_loop.induct)
  case (1 h msg n i os s)
  then show ?case
    by (subst (asm) (2) alt_loop.simps) (auto split: if_splits prod.splits option.splits)
qed

lemma page_defs_sent: "page_defs h msg html s = Some s' \<Longrightarrow> dc_sent s' = dc_sent s"
  by (auto simp: page_defs_def dest: alt_loop_sent split: option.splits prod.splits)

lemma dict_from_sent: "dict_from h mktime serve host path msg s = Some s' \<Longrightarrow> dc_sent s' = dc_sent s @ [(host, request path host)]"
  by (auto simp: dict_from_def dest!: page_defs_sent dc_fetch_sent split: prod.splits option.splits)

text \<open>C34: Whatever a user writes behind \<open>!dict\<close> or \<open>!trans\<close>, at most one request is sent, and its path has no space
  and no line break: no header can be added.\<close>

theorem requests_safe:
  assumes "s1 = trans h mktime serve msg s \<or> dict h mktime serve msg s = Some s1 \<or> ddg_dict h mktime serve msg s = Some s1"
  shows "dc_sent s1 = dc_sent s \<or>
    (\<exists>path host. dc_sent s1 = dc_sent s @ [(host, request path host)] \<and> one_word path \<and> one_word host)"
proof -
  have h: "one_word ''translate.reference.com''" "one_word ''duckduckgo.com''" "one_word ''www.merriam-webster.com''"
    by (simp_all add: char_consts)
  consider "s1 = trans h mktime serve msg s" | "dict h mktime serve msg s = Some s1" | "ddg_dict h mktime serve msg s = Some s1"
    using assms by blast
  then show ?thesis
  proof cases
    case 1
    have "dc_sent (trans h mktime serve msg s) = dc_sent s \<or>
      (\<exists>w src dst. dc_sent (trans h mktime serve msg s) =
          dc_sent s @ [(''translate.reference.com'', request (trans_path (urlencode w) src dst) ''translate.reference.com'')] \<and>
        one_word src \<and> one_word dst)"
      by (auto simp: trans_def Let_def dest!: dc_fetch_sent find_one_word [OF not_None_eq [THEN iffD2], OF exI]
          split: prod.splits option.splits)
    then show ?thesis using 1 trans_path_one_word h(1) by blast
  next
    case 2
    have "one_word (''/dictionary/'' @ urlencode (pm_user_params msg))" by (simp add: urlencode_one_word char_consts)
    with 2 show ?thesis using dict_from_sent h(3) unfolding dict_def google_dict_def by blast
  next
    case 3
    have "one_word (''/?q=define%3A+'' @ urlencode (pm_user_params msg))" by (simp add: urlencode_one_word char_consts)
    with 3 show ?thesis using dict_from_sent h(2) unfolding ddg_dict_def by blast
  qed
qed

lemma alt_loop_ends:
  "lowers h \<Longrightarrow> uppers h \<Longrightarrow> n \<le> 5 \<Longrightarrow>
    \<exists>s'. alt_loop h msg n is os s = Some s' \<and> length (dc_replies s') \<le> length (dc_replies s) + (5 - n)"
proof (induction h msg n "is" os s rule: alt_loop.induct)
  case (1 h msg n i os s)
  obtain os1 i1 where a: "read_tag_by_att i os ''div'' ''class'' dict_class = (os1, i1)" by fastforce
  obtain opt i2 where b: "read_tag (str_stream os1) [] ''a'' = (opt, i2)" by fastforce
  obtain defn i3 where c: "getline LF [] i2 = (defn, i3)" by fastforce
  obtain t where t: "html_to_text h defn = Some t"
    using html_loop_ends [OF "1.prems"(1,2), of "str_stream defn" "[]"] by (auto simp: html_to_text_def)
  consider "n = 5" | "n < 5" "\<not> ok i1" | "n < 5" "ok i1" "\<not> ok i2" | "n < 5" "ok i1" "ok i2" "\<not> ok i3"
    | "n < 5" "ok i1" "ok i2" "ok i3" using "1.prems"(3) by linarith
  then show ?case
  proof cases
    case 3
    then show ?thesis using "1.IH"(1) [OF _ a [symmetric] _ b [symmetric]] "1.prems" a b by (subst alt_loop.simps) simp
  next
    case 4
    then show ?thesis using "1.IH"(2) [OF _ a [symmetric] _ b [symmetric] _ c [symmetric]] "1.prems" a b c by (subst alt_loop.simps) simp
  next
    case 5
    then show ?thesis
      using "1.IH"(3) [OF _ a [symmetric] _ b [symmetric] _ c [symmetric] _ t] "1.prems" a b c t
      by (subst alt_loop.simps) (fastforce simp: dc_reply_def)
  qed (use a in \<open>subst alt_loop.simps, simp\<close>)+
qed

lemma page_defs_ends:
  assumes "lowers h" "uppers h"
  shows "\<exists>s'. page_defs h msg html s = Some s' \<and> length (dc_replies s') \<le> length (dc_replies s) + 6"
proof -
  have "\<exists>s'. alt_loop h msg 0 i os s = Some s' \<and> length (dc_replies s') \<le> length (dc_replies s) + 5" for i os s
    using alt_loop_ends [OF assms, of 0] by simp
  note a = this [of "str_stream html" "[]" s] this [of "str_stream html" "[]" "dc_reply msg t s" for t]
  show ?thesis
  proof (cases "h_extract h html (''<a class='' @ [DQUOTE] @ ''snippet'' @ [DQUOTE]) ''/a>'' 0")
    case None
    then show ?thesis using a(1) by (auto simp: page_defs_def)
  next
    case (Some x)
    then show ?thesis
      using a(2) [of "prompt ''06dict'' @ fst (the (h_extract h (fst x) ''>'' ''<'' 0))"]
      by (cases x; cases "h_extract h (fst x) ''>'' ''<'' 0") (auto simp: page_defs_def dc_reply_def)
  qed
qed

text \<open>\<open>!dict\<close> comes to an end on whatever a server answers, and gives at most six replies.\<close>

theorem dict_ends:
  assumes "lowers h" "uppers h"
  shows "\<exists>s'. dict h mktime serve msg s = Some s' \<and> length (dc_replies s') \<le> length (dc_replies s) + 6"
proof -
  let ?host = "''www.merriam-webster.com''" and ?path = "''/dictionary/'' @ urlencode (pm_user_params msg)"
  obtain r s1 where f: "dc_fetch h mktime serve ?host (request ?path ?host) s = (r, s1)" by fastforce
  then have "dc_replies s1 = dc_replies s" by (auto simp: dc_fetch_def Let_def split: prod.splits)
  moreover have "dict h mktime serve msg s = (case r of None \<Rightarrow> Some s1 | Some html \<Rightarrow> page_defs h msg html s1)"
    unfolding dict_def google_dict_def dict_from_def f by (cases r) simp_all
  ultimately show ?thesis using page_defs_ends [OF assms, of msg _ s1] by (cases r) simp_all
qed

definition demo_dict_msg :: plugin_msg where
  "demo_dict_msg = \<lparr>pm_cmd = ''PRIVMSG'', pm_text = ''!dict a b'', pm_nick = ''n'', pm_reply_to = ''#c'', pm_user_cmd = ''!dict'',
     pm_user_params = ''a b'' @ CRLF @ ''X: y''\<rparr>"

theorem dict_ends_witness:
  "\<exists>s'. dict hol_ref (\<lambda>_. 0) (\<lambda>_ _ _ _. Some ''HTTP/1.1 200 OK'') demo_dict_msg new_diction = Some s' \<and>
    length (dc_replies s') \<le> 6"
  using dict_ends [OF hol_ref_ok(3,7), of "\<lambda>_. 0" "\<lambda>_ _ _ _. Some ''HTTP/1.1 200 OK''" demo_dict_msg new_diction]
  by (simp add: new_diction_def)

theorem requests_safe_witness:
  "\<exists>s1 path host. dict hol_ref (\<lambda>_. 0) (\<lambda>_ _ _ _. None) demo_dict_msg new_diction = Some s1 \<and>
    dc_sent s1 = [(host, request path host)] \<and> one_word path \<and> one_word host"
proof -
  obtain s1 where s1: "dict hol_ref (\<lambda>_. 0) (\<lambda>_ _ _ _. None) demo_dict_msg new_diction = Some s1" "dc_sent s1 \<noteq> []"
    by (simp add: dict_def google_dict_def dict_from_def dc_fetch_def Let_def http_exchange_def sock_def
        read_http_headers_def stream_simps new_diction_def)
  moreover have "dc_sent new_diction = []" by (simp add: new_diction_def)
  ultimately show ?thesis
    using requests_safe [of s1 hol_ref "\<lambda>_. 0" "\<lambda>_ _ _ _. None" demo_dict_msg new_diction] by fastforce
qed

end
