(* ===== verification/Oa_Stats.thy ===== *)
theory Oa_Stats
  imports Plugin_Web Html Text_Utils Calendar Rpc Plugins Irc_Colors "HOL-Library.Multiset"
begin

text \<open>
  The first half of \<open>plugin-oastats.cpp\<close>: the dates a user gives, the calls of the service of another
  plugin, \<open>!oastat\<close> and \<open>!oa1v1\<close>.  The service is a function on calls, \<open>None\<close> when the bot does not
  have it; \<open>en_junk\<close> is what a variable holds that is never written.  Reading a vector or a
  string behind its end is the error \<open>Bad_Index\<close>; \<open>Hang\<close> is a page whose text is never decoded.
\<close>

datatype oa_error = Hang | Bad_Index | Bad_Month

definition ebind :: "'e + 'a \<Rightarrow> ('a \<Rightarrow> 'e + 'b) \<Rightarrow> 'e + 'b" where
  "ebind r f = (case r of Inl e \<Rightarrow> Inl e | Inr x \<Rightarrow> f x)"

lemma ebind_simps [simp]: "ebind (Inl e) f = Inl e" "ebind (Inr x) f = f x"
  by (simp_all add: ebind_def)

lemma ebind_Inr: "ebind r f = Inr y \<longleftrightarrow> (\<exists>x. r = Inr x \<and> f x = Inr y)"
  by (cases r) simp_all

record oa_env =
  en_hol :: hol
  en_serve :: net
  en_svc :: "(call \<Rightarrow> call) option"
  en_gmtime :: "int \<Rightarrow> date"
  en_now :: int
  en_junk :: siz

record oa =
  oa_calls :: nat
  oa_sent :: "(string \<times> string) list"
  oa_replies :: replies

definition oa_reply :: "plugin_msg \<Rightarrow> string \<Rightarrow> oa \<Rightarrow> oa" where
  "oa_reply msg text s = s\<lparr>oa_replies := oa_replies s @ [(msg, text)]\<rparr>"

definition text_of :: "oa_env \<Rightarrow> string \<Rightarrow> oa_error + string" where
  "text_of env html = (case html_to_text (en_hol env) html of None \<Rightarrow> Inl Hang | Some t \<Rightarrow> Inr t)"

text \<open>The request of the plugin has no headers; the stream is the answer.\<close>

definition oa_page :: "oa_env \<Rightarrow> string \<Rightarrow> oa \<Rightarrow> istream \<times> oa" where
  "oa_page env url s =
     (let host = ''sookee.dyndns.org''; req = ''GET '' @ url @ CRLF
      in (sock (en_serve env (oa_calls s) host 80 req),
          s\<lparr>oa_calls := Suc (oa_calls s), oa_sent := oa_sent s @ [(host, req)]\<rparr>))"

text \<open>The contents of the tags a loop of \<open>net::read_tag\<close> finds.\<close>

function tag_texts :: "string \<Rightarrow> istream \<Rightarrow> string list" where
  "tag_texts tag is =
     (case read_tag is [] tag of (t, is1) \<Rightarrow> if ok is1 then t # tag_texts tag is1 else [])"
  by pat_completeness auto
termination
  by (relation "measure (\<lambda>(tag, is). length (buf is))") (auto simp: read_tag_def dest: tag_loop_length [OF sym])

declare tag_texts.simps [simp del]

subsection \<open>Pages and dates\<close>

definition date_now :: "oa_env \<Rightarrow> siz \<times> siz" where
  "date_now env = (get_year (en_gmtime env) (en_now env), get_month (en_gmtime env) (en_now env))"

definition month_text :: "siz \<Rightarrow> oa_error + string" where
  "month_text m = (case get_month_str m False of Inl _ \<Rightarrow> Inl Bad_Month | Inr t \<Rightarrow> Inr t)"

definition get_url :: "string \<Rightarrow> siz \<Rightarrow> siz \<Rightarrow> oa_error + string" where
  "get_url type year month =
     ebind (month_text month) (\<lambda>m. Inr (''http://sookee.dyndns.org/oatab/'' @ show_nat (unat year) @ ''-'' @ m @
       ''-effect_'' @ type @ ''.html''))"

text \<open>The loop of \<open>extract_y_and_m\<close>; \<open>None\<close> is its \<open>return false\<close>.\<close>

function ym_loop :: "istream \<Rightarrow> string \<Rightarrow> siz \<Rightarrow> siz \<Rightarrow> (siz \<times> siz) option" where
  "ym_loop iss param year month =
     (case getstring iss param of (param1, iss1) \<Rightarrow>
        if \<not> ok iss1 then Some (year, month)
        else if hd param1 = CHR ''@''
        then (if 3 < length param1
              then (case read_siz year (str_stream (tl param1)) of (y, i) \<Rightarrow>
                     if \<not> ok i \<or> y < 1000 \<or> 9999 < y then None else ym_loop iss1 param1 y month)
              else if 1 < length param1
              then (case read_siz month (str_stream (tl param1)) of (m, i) \<Rightarrow>
                     if \<not> ok i \<or> m < 1 \<or> 12 < m then None else ym_loop iss1 param1 year (m - 1))
              else ym_loop iss1 param1 year month)
        else ym_loop iss1 param1 year month)"
  by pat_completeness auto
termination
  by (relation "measure (\<lambda>(is, p, y, m). length (buf is))") (auto dest: getstring_length [OF sym])

declare ym_loop.simps [simp del]

definition extract_y_and_m :: "oa_env \<Rightarrow> string \<Rightarrow> siz \<Rightarrow> siz \<Rightarrow> bool \<times> siz \<times> siz" where
  "extract_y_and_m env params y m =
     (case ym_loop (str_stream params) [] y m of
        None \<Rightarrow> (False, y, m)
      | Some (year, month) \<Rightarrow>
          (True, if month > snd (date_now env) \<and> year = fst (date_now env) then year - 1 else year, month))"

text \<open>The date of a command: the one of today, changed by the parameters.\<close>

definition date_of :: "oa_env \<Rightarrow> string \<Rightarrow> siz \<times> siz" where
  "date_of env params = snd (extract_y_and_m env params (fst (date_now env)) (snd (date_now env)))"

subsection \<open>Calls of the player finder\<close>

text \<open>\<open>get_return_value<bool>\<close>: a number other than 0 and 1 is \<open>true\<close> and fails.\<close>

definition get_return_bool :: "siz \<Rightarrow> call \<Rightarrow> bool \<times> call" where
  "get_return_bool junk c =
     (case read_siz junk (c_out c) of (n, o1) \<Rightarrow>
        (n \<noteq> 0, c\<lparr>c_out := snd (getline LF [] (if n = 0 \<or> n = 1 then o1 else set_fail o1))\<rparr>))"

fun val_str :: "val \<Rightarrow> string" where
  "val_str (V_Str t) = t" | "val_str _ = []"

fun val_vec :: "val \<Rightarrow> string list" where
  "val_vec (V_Vec ts) = ts" | "val_vec _ = []"

definition rpc_lookup_players :: "oa_env \<Rightarrow> string \<Rightarrow> string list \<Rightarrow> bool \<times> string list" where
  "rpc_lookup_players env search handles =
     (case en_svc env of
        None \<Rightarrow> (False, handles)
      | Some rpc \<Rightarrow>
          let c = rpc (add_param (V_Vec handles) (add_param (V_Str search) (set_func ''lookup_players'' new_call)));
              (ret, c1) = get_return_bool (en_junk env) c
          in (ret, val_vec (fst (get_return_param T_Vec (en_junk env) c1))))"

definition rpc_match_player :: "oa_env \<Rightarrow> bool \<Rightarrow> string \<Rightarrow> string \<Rightarrow> bool" where
  "rpc_match_player env subst name1 name2 =
     (case en_svc env of
        None \<Rightarrow> False
      | Some rpc \<Rightarrow>
          fst (get_return_bool (en_junk env) (rpc (add_param (V_Str name2) (add_param (V_Str name1)
            (add_param (V_Num (of_bool subst)) (set_func ''match_player'' new_call)))))))"

definition rpc_html_handle_to_irc :: "oa_env \<Rightarrow> string \<Rightarrow> string" where
  "rpc_html_handle_to_irc env html =
     (case en_svc env of
        None \<Rightarrow> []
      | Some rpc \<Rightarrow> val_str (fst (get_return_value T_Str (en_junk env)
          (rpc (add_param (V_Str html) (set_func ''html_handle_to_irc'' new_call))))))"

subsection \<open>\<open>!oastat\<close>\<close>

text \<open>The columns and titles of the statistics; the first two columns are the rank and the name.\<close>

definition S_RANK :: nat where "S_RANK = 0"
definition S_NAME :: nat where "S_NAME = 1"

definition type_map :: "(string, nat) cmap" where
  "type_map = fold (\<lambda>(k, v). cm_insert str_lt k v) [(''kd'', 2), (''ck'', 3), (''fk'', 4), (''rk'', 5), (''pw'', 6)] []"

definition name_map :: "(string, string) cmap" where
  "name_map = fold (\<lambda>(k, v). cm_insert str_lt k v)
     [(''kd'', ''Kills/Death''), (''ck'', ''Caps/Death''), (''fk'', ''Flag Kills/Death''),
      (''rk'', ''Flag Returns/Death''), (''pw'', ''Won/Played'')] []"

function words_of :: "istream \<Rightarrow> string list" where
  "words_of is =
     (case read_word [] is of (w, is1) \<Rightarrow> if ok is1 \<and> w \<noteq> [] then w # words_of is1 else [])"
  by pat_completeness auto
termination
  by (relation "measure (\<lambda>is. length (buf is))") (auto dest: read_word_length [OF sym])

declare words_of.simps [simp del]

definition stat_args :: "string \<Rightarrow> string \<times> string" where
  "stat_args params =
     fold (\<lambda>p (type, handle).
         if p \<in> {''kd'', ''ck'', ''fk'', ''rk'', ''pw''} then (p, handle)
         else if hd p \<noteq> CHR ''@'' then (type, p) else (type, handle))
       (words_of (str_stream params)) ([], [])"

record stat_match =
  mt_rank :: siz
  mt_line :: string

text \<open>\<open>std::multiset::insert\<close> with the comparison \<open>rank > m.rank\<close>: behind the equal ones.\<close>

fun match_insert :: "stat_match \<Rightarrow> stat_match list \<Rightarrow> stat_match list" where
  "match_insert m [] = [m]"
| "match_insert m (x # xs) = (if mt_rank m > mt_rank x then m # x # xs else x # match_insert m xs)"

definition cell :: "string list \<Rightarrow> nat \<Rightarrow> oa_error + string" where
  "cell stats i = (if i < length stats then Inr (stats ! i) else Inl Bad_Index)"

definition match_line :: "oa_env \<Rightarrow> string \<Rightarrow> string list \<Rightarrow> oa_error + string" where
  "match_line env type stats =
     ebind (cell stats S_RANK) (\<lambda>r. ebind (text_of env r) (\<lambda>rank.
     ebind (cell stats (cm_at str_lt 0 type type_map)) (\<lambda>v. ebind (text_of env v) (\<lambda>stat.
     ebind (cell stats S_NAME) (\<lambda>name.
       Inr (IRC_NORMAL @ ''#'' @ IRC_COLOR @ IRC_Red @ (if length rank = 1 then rank @ '' '' else rank) @
         '' '' @ IRC_COLOR @ IRC_Navy_Blue @ stat @ '' '' @ rpc_html_handle_to_irc env name @ IRC_NORMAL))))))"

text \<open>The matches of a row, one for each handle.\<close>

fun row_matches ::
  "oa_env \<Rightarrow> string \<Rightarrow> bool \<Rightarrow> string list \<Rightarrow> string list \<Rightarrow> stat_match list \<Rightarrow> oa_error + stat_match list" where
  "row_matches env type subst stats [] ms = Inr ms"
| "row_matches env type subst stats (h # hs) ms =
     ebind (cell stats S_NAME) (\<lambda>n. ebind (text_of env n) (\<lambda>name.
       if rpc_match_player env subst name h
       then ebind (match_line env type stats) (\<lambda>line.
         row_matches env type subst stats hs
           (match_insert \<lparr>mt_rank = fst (read_siz (en_junk env) (str_stream (stats ! S_RANK))), mt_line = line\<rparr> ms))
       else row_matches env type subst stats hs ms))"

fun table_matches ::
  "oa_env \<Rightarrow> string \<Rightarrow> bool \<Rightarrow> string list \<Rightarrow> string list \<Rightarrow> stat_match list \<Rightarrow> oa_error + stat_match list" where
  "table_matches env type subst handles [] ms = Inr ms"
| "table_matches env type subst handles (row # rows) ms =
     ebind (row_matches env type subst (tag_texts ''td'' (str_stream row)) handles ms)
       (table_matches env type subst handles rows)"

text \<open>\<open>if(!(--count)) break;\<close>\<close>

fun print_matches :: "plugin_msg \<Rightarrow> siz \<Rightarrow> stat_match list \<Rightarrow> oa \<Rightarrow> oa" where
  "print_matches msg n [] s = s"
| "print_matches msg n (m # ms) s =
     (let s1 = oa_reply msg (mt_line m) s
      in if n - 1 = 0 then s1 else print_matches msg (n - 1) ms s1)"

text \<open>The commands the plugin adds, for \<open>help\<close>.\<close>

definition oa_actions :: "(string \<times> action) list" where
  "oa_actions = map (\<lambda>(c, t). (c, \<lparr>ac_help = t, ac_flags = 0\<rparr>))
     [(''!oastat'', ''!oastat (kd|ck|fk|rk|pw) [<player>] [@month (1-12)] [@year (YYYY)] Report OA stats on optional <player>.''),
      (''!oa1v1'', ''!oa1v1 <player1> <player2> [@month (1-12)] [@year (YYYY)] Report player1 vs player2 kills.''),
      (''!oatop'', ''!oatop [#division (1+)] [@month (1-12)] [@year (YYYY)] List the top OA players [in divisions of 10].''),
      (''!oastats_on'', ''!oastats_on Start producing regular stats listings in this channel.''),
      (''!oastats_off'', ''!oastats_off Stop producing regular stats listings in this channel.'')]"

definition oa_plugin :: plugin where
  "oa_plugin = fold plugin_add oa_actions
     \<lparr>pl_addr = 0, pl_id = ''oastats'', pl_name = ''OA Stats Reporter'', pl_version = VERSION, pl_actions = []\<rparr>"

definition oa_help :: "string \<Rightarrow> string" where
  "oa_help cmd = plugin_help cmd oa_plugin"

definition handle_list :: "string list \<Rightarrow> string" where
  "handle_list handles = snd (fold (\<lambda>h (delim, out). ('' or '', out @ delim @ [SQUOTE] @ h @ [SQUOTE])) handles ([], []))"

text \<open>\<open>max_results\<close> is the configured number; \<open>matches\<close> of the code stays 0.\<close>

definition oastat :: "oa_env \<Rightarrow> siz \<Rightarrow> plugin_msg \<Rightarrow> oa \<Rightarrow> oa_error + oa" where
  "oastat env max_results msg s =
     (let (year, month) = date_of env (pm_user_params msg);
          (type, handle) = stat_args (pm_user_params msg);
          max_matches = (if handle = [] then 10 else max_results);
          (subst, handles) = rpc_lookup_players env handle []
      in if type = [] then Inr (oa_reply msg (oa_help (pm_user_cmd msg)) s)
         else ebind (get_url type year month) (\<lambda>url.
           case oa_page env url s of (ss, s1) \<Rightarrow>
             ebind (table_matches env type subst handles (tag_texts ''tr'' ss) []) (\<lambda>ms.
               let s2 = (if ms = [] \<and> handle \<noteq> []
                         then oa_reply msg (''Player name containing '' @ handle_list handles @ '' not found.'') s1
                         else if length ms > unat max_matches
                         then oa_reply msg (''Found 0 matches, listing only the top '' @ show_nat (unat max_matches) @ ''.'') s1
                         else s1)
               in Inr (print_matches msg max_matches ms
                    (oa_reply msg (IRC_BOLD @ cm_at str_lt [] type name_map @ IRC_NORMAL) s2)))))"

subsection \<open>\<open>!oa1v1\<close>\<close>

record sub =
  sb_handle :: string
  sb_matches :: "string list"
  sb_subst :: bool

fun str_insert :: "string \<Rightarrow> string list \<Rightarrow> string list" where
  "str_insert s [] = [s]"
| "str_insert s (x # xs) = (if str_lt s x then s # x # xs else x # str_insert s xs)"

text \<open>\<open>stl::sort\<close> of strings.\<close>

definition str_sort :: "string list \<Rightarrow> string list" where
  "str_sort xs = fold str_insert xs []"

definition subs_of :: "oa_env \<Rightarrow> string \<Rightarrow> sub list" where
  "subs_of env params =
     map (\<lambda>p. case rpc_lookup_players env p [] of (subst, ms) \<Rightarrow>
         \<lparr>sb_handle = p, sb_matches = str_sort ms, sb_subst = subst\<rparr>)
       (filter (\<lambda>p. hd p \<noteq> CHR ''@'') (getstrings (str_stream params) []))"

type_synonym candidate = "bool \<times> string"

definition candidates :: "sub list \<Rightarrow> (candidate \<times> candidate) list" where
  "candidates subs =
     (if 1 < length subs
      then concat (map (\<lambda>m1. concat (map (\<lambda>s.
             if sb_handle (hd subs) \<noteq> sb_handle s
             then map (\<lambda>m2. ((sb_subst (hd subs), m1), (sb_subst s, m2))) (sb_matches s) else []) subs))
           (sb_matches (hd subs)))
      else [])"

text \<open>The four cells of a row that count, and the name in a cell without its star.\<close>

definition score_cells :: "oa_env \<Rightarrow> string \<Rightarrow> string list" where
  "score_cells env row =
     (let cells = take 10 (tag_texts ''td'' (str_stream row))
      in map (\<lambda>i. h_trim (en_hol env) (cells ! i)) (filter (\<lambda>i. i < length cells) [0, 2, 3, 9]))"

definition player_name :: "oa_env \<Rightarrow> string \<Rightarrow> oa_error + string" where
  "player_name env c =
     ebind (text_of env c) (\<lambda>t.
       if t = [] then Inl Bad_Index
       else Inr (h_trim (en_hol env) (if last t = CHR ''*'' then butlast t else t)))"

type_synonym score = "string list \<times> nat \<times> nat"

fun score_rows :: "oa_env \<Rightarrow> (candidate \<times> candidate) list \<Rightarrow> string list \<Rightarrow> oa_error + score list" where
  "score_rows env cands [] = Inr []"
| "score_rows env cands (row # rows) =
     (let td = score_cells env row
      in if length td = 4
         then ebind (player_name env (td ! 0)) (\<lambda>match1. ebind (player_name env (td ! 1)) (\<lambda>match2.
           ebind (score_rows env cands rows) (\<lambda>rs.
             Inr (map (\<lambda>_. (td, length match1, length match2))
                    (filter (\<lambda>(c1, c2). rpc_match_player env (fst c1) match1 (snd c1) \<and>
                       rpc_match_player env (fst c2) match2 (snd c2)) cands) @ rs))))
         else score_rows env cands rows)"

definition strip_link :: "string \<Rightarrow> string" where
  "strip_link name =
     (case find_str (''<a href='' @ [SQUOTE]) name of
        None \<Rightarrow> name
      | Some p1 \<Rightarrow>
          (case find_str ([SQUOTE] @ ''>*</a>'') name of
             None \<Rightarrow> name
           | Some p2 \<Rightarrow> substr name 0 p1 @ substr_from name (p2 + 7)))"

definition pad_left :: "nat \<Rightarrow> string \<Rightarrow> string" where
  "pad_left n t = replicate (n - length t) SPC @ t"

definition blanks :: "nat \<Rightarrow> string" where
  "blanks n = IRC_COLOR @ IRC_Black @ '','' @ IRC_Black @ replicate n SPC @ IRC_NORMAL"

text \<open>\<open>ratio\<close> prints the quotient of two numbers as a \<open>double\<close> with two digits.\<close>

definition score_text :: "(siz \<Rightarrow> siz \<Rightarrow> string) \<Rightarrow> string \<Rightarrow> nat \<Rightarrow> siz \<Rightarrow> string \<Rightarrow> nat \<Rightarrow> siz \<Rightarrow> string" where
  "score_text ratio name1 pad1 val1 name2 pad2 val2 =
     ''1v1: '' @ name1 @ blanks pad1 @ pad_left 4 (show_nat (unat val1)) @ '' vs '' @
     name2 @ blanks pad2 @ pad_left 4 (show_nat (unat val2)) @ '': ['' @ ratio val1 val2 @ ''] ('' @
     show_int (to_int (val1 - val2)) @ '')''"

text \<open>The loop that prints: \<open>matches\<close> and the two variables that keep their values across its turns.\<close>

fun print_scores ::
  "oa_env \<Rightarrow> (siz \<Rightarrow> siz \<Rightarrow> string) \<Rightarrow> plugin_msg \<Rightarrow> nat \<Rightarrow> nat \<Rightarrow> score list \<Rightarrow> nat \<Rightarrow> siz \<Rightarrow> siz \<Rightarrow> oa \<Rightarrow> oa_error + nat \<times> oa" where
  "print_scores env ratio msg max1 max2 [] n val1 val2 s = Inr (n, s)"
| "print_scores env ratio msg max1 max2 ((td, l1, l2) # rs) n val1 val2 s =
     (if n < 30
      then ebind (text_of env (td ! 2)) (\<lambda>t1. ebind (text_of env (td ! 3)) (\<lambda>t2.
             ebind (text_of env (strip_link (rpc_html_handle_to_irc env (td ! 0)))) (\<lambda>name1.
             ebind (text_of env (strip_link (rpc_html_handle_to_irc env (td ! 1)))) (\<lambda>name2.
               let v1 = fst (read_siz val1 (str_stream t1)); v2 = fst (read_siz val2 (str_stream t2))
               in print_scores env ratio msg max1 max2 rs (n + 1) v1 v2
                    (oa_reply msg (score_text ratio name1 (max1 - l1) v1 name2 (max2 - l2) v2) s)))))
      else print_scores env ratio msg max1 max2 rs n val1 val2 s)"

definition oa1v1 :: "oa_env \<Rightarrow> (siz \<Rightarrow> siz \<Rightarrow> string) \<Rightarrow> plugin_msg \<Rightarrow> oa \<Rightarrow> oa_error + oa" where
  "oa1v1 env ratio msg s =
     (let (year, month) = date_of env (pm_user_params msg); cands = candidates (subs_of env (pm_user_params msg))
      in ebind (month_text month) (\<lambda>m.
         case oa_page env (''http://sookee.dyndns.org/oatab/'' @ show_nat (unat year) @ ''-'' @ m @ ''-scores.html'') s of
           (ss, s1) \<Rightarrow>
             ebind (score_rows env cands (tag_texts ''tr'' ss)) (\<lambda>rs.
             ebind (print_scores env ratio msg (foldr max (map (fst \<circ> snd) rs) 0) (foldr max (map (snd \<circ> snd) rs) 0) rs 0
                 (en_junk env) (en_junk env) s1) (\<lambda>(n, s2).
               Inr (if n = 0 then oa_reply msg ''!oa1v1 did not find any matches.'' s2
                    else if 30 \<le> n then oa_reply msg ''*** Flood Control ***'' s2 else s2)))))"

subsection \<open>Dates are dates\<close>

lemma ym_loop_month:
  "ym_loop iss p y m = Some (y', m') \<Longrightarrow> m < 12 \<Longrightarrow> m' < 12"
proof (induction iss p y m rule: ym_loop.induct)
  case (1 iss p y m)
  obtain p1 i1 where g: "getstring iss p = (p1, i1)" by fastforce
  obtain y1 j where ry: "read_siz y (str_stream (tl p1)) = (y1, j)" by fastforce
  obtain m1 k where rm: "read_siz m (str_stream (tl p1)) = (m1, k)" by fastforce
  have "m1 - 1 < 12" if "\<not> m1 < 1" "\<not> 12 < m1"
    using that by unat_arith
  then show ?case
    using "1.prems" "1.IH"(1) [OF g [symmetric] _ _ _ ry [symmetric]] "1.IH"(2) [OF g [symmetric] _ _ _ _ rm [symmetric]]
      "1.IH"(3,4) [OF g [symmetric]] g ry rm
    by (subst (asm) ym_loop.simps) (auto split: if_splits)
qed

lemma get_url_date:
  assumes "snd (date_now env) < 12"
  shows "\<exists>u. get_url type (fst (date_of env params)) (snd (date_of env params)) = Inr u"
proof -
  have "snd (date_of env params) < 12"
    using assms ym_loop_month [of "str_stream params" "[]" "fst (date_now env)" "snd (date_now env)"]
    by (auto simp: date_of_def extract_y_and_m_def split: option.splits)
  then show ?thesis by (simp add: get_url_def month_text_def get_month_str_def)
qed

text \<open>C40: Whatever dates a user writes, the month of the page is one of the twelve and the assertion of
  \<open>get_month_str\<close> holds.\<close>

theorem user_dates_ok:
  assumes "snd (date_now env) < 12"
  shows "\<exists>u. get_url type (fst (date_of env params)) (snd (date_of env params)) = Inr u"
  using assms by (rule get_url_date)

definition demo_env :: oa_env where
  "demo_env = \<lparr>en_hol = hol_ref, en_serve = (\<lambda>_ _ _ _. None), en_svc = None, en_gmtime = (\<lambda>_. epoch), en_now = 0, en_junk = 0\<rparr>"

theorem user_dates_ok_witness:
  "\<exists>u. get_url ''kd'' (fst (date_of demo_env ''@13 @2011'')) (snd (date_of demo_env ''@13 @2011'')) = Inr u"
  by (rule user_dates_ok) (simp add: date_now_def demo_env_def get_month_def epoch_def to_siz_def)

subsection \<open>The player finder\<close>

text \<open>What a service answers through the stream of the call, as the functions of the plugin read it.\<close>

lemma get_return_bool_text:
  "c_out c = str_stream (show_nat (of_bool r) @ LF # rest) \<Longrightarrow> get_return_bool junk c = (r, c\<lparr>c_out := str_stream rest\<rparr>)"
  using read_siz_line [of "of_bool r" junk rest] by (cases r) (simp_all add: get_return_bool_def)

lemma set_return_text:
  "c_out c = str_stream [] \<Longrightarrow> c_out (set_return_value v c) = str_stream (val_text v @ [LF])"
  by (simp add: set_return_value_def put_val_text)

text \<open>
  A service that answers \<open>lookup_players\<close> with a truth value and a list of names, through the functions
  of a call, is understood by \<open>rpc_lookup_players\<close>.
\<close>

lemma lookup_understood:
  assumes "en_svc env = Some rpc" "c_out c = str_stream []" "val_ok (V_Vec names)"
    and "rpc (add_param (V_Vec handles) (add_param (V_Str search) (set_func ''lookup_players'' new_call))) =
      add_return_param (V_Vec names) (set_return_value (V_Num (of_bool exact)) c)"
  shows "rpc_lookup_players env search handles = (exact, names)"
proof -
  define c1 where "c1 = add_return_param (V_Vec names) (set_return_value (V_Num (of_bool exact)) c)"
  have "c_out c1 = str_stream (show_nat (of_bool exact) @ LF # val_text (V_Vec names) @ [LF])"
    using assms(2) by (cases exact) (simp_all add: c1_def add_return_param_def set_return_text put_val_text del: val_text.simps(3))
  then have "get_return_bool (en_junk env) c1 = (exact, c1\<lparr>c_out := str_stream (val_text (V_Vec names) @ [LF])\<rparr>)"
    by (rule get_return_bool_text)
  then show ?thesis
    using get_val_text [OF assms(3), of "en_junk env" "[]"]
    by (simp add: rpc_lookup_players_def assms(1,4) c1_def [symmetric] get_return_param_def Let_def del: val_text.simps(3))
qed

text \<open>A player finder that knows one player, whom every name matches.\<close>

definition demo_finder :: "call \<Rightarrow> call" where
  "demo_finder c = (case get_func c of (f, c1) \<Rightarrow>
     if f = ''lookup_players'' then add_return_param (V_Vec [''Ann'']) (set_return_value (V_Num (of_bool True)) c1)
     else if f = ''match_player'' then set_return_value (V_Num 1) c1
     else set_return_value (V_Str ''Ann'') c1)"

lemma get_func_call:
  "LF \<notin> set f \<Longrightarrow> c_in c = str_stream (f @ LF # r) \<Longrightarrow> get_func c = (f, c\<lparr>c_in := str_stream r\<rparr>)"
  by (simp add: get_func_def getline_found)

lemma c_in_call:
  "c_in (set_func f new_call) = str_stream (f @ [LF])"
  "c_in c = str_stream t \<Longrightarrow> c_in (add_param v c) = str_stream (t @ val_text v @ [LF])"
  "c_out (set_func f new_call) = str_stream []" "c_out (add_param v c) = c_out c"
  by (simp_all add: set_func_def new_call_def add_param_def put_val_text)

lemma demo_finder_lookup:
  "demo_finder (add_param (V_Vec h) (add_param (V_Str s) (set_func ''lookup_players'' new_call))) =
    add_return_param (V_Vec [''Ann'']) (set_return_value (V_Num (of_bool True))
      \<lparr>c_in = str_stream (s @ LF # val_text (V_Vec h) @ [LF]), c_out = str_stream []\<rparr>)"
proof -
  let ?c = "add_param (V_Vec h) (add_param (V_Str s) (set_func ''lookup_players'' new_call))"
  have "get_func ?c = (''lookup_players'', ?c\<lparr>c_in := str_stream (s @ LF # val_text (V_Vec h) @ [LF])\<rparr>)"
    by (rule get_func_call) (simp_all add: c_in_call char_consts del: val_text.simps(3))
  then show ?thesis by (simp add: demo_finder_def add_param_def set_func_def new_call_def del: val_text.simps(3))
qed

lemma lookup_understood_demo:
  "rpc_lookup_players (demo_env\<lparr>en_svc := Some demo_finder\<rparr>) ''an'' [] = (True, [''Ann''])"
  by (rule lookup_understood [where rpc = demo_finder, OF _ _ _ demo_finder_lookup])
    (simp_all add: char_consts demo_env_def)

subsection \<open>The order of the list\<close>

definition falling :: "stat_match list \<Rightarrow> bool" where
  "falling ms = sorted_wrt (\<lambda>a b. mt_rank b \<le> mt_rank a) ms"

lemma set_match_insert: "set (match_insert m ms) = insert m (set ms)"
  by (induction ms) auto

lemma falling_insert: "falling ms \<Longrightarrow> falling (match_insert m ms)"
  by (induction ms) (auto simp: falling_def set_match_insert)

lemma row_matches_falling: "row_matches env type subst stats hs ms = Inr ms' \<Longrightarrow> falling ms \<Longrightarrow> falling ms'"
  by (induction hs arbitrary: ms) (auto simp: ebind_Inr falling_insert split: if_splits)

lemma table_matches_falling: "table_matches env type subst hs rows ms = Inr ms' \<Longrightarrow> falling ms \<Longrightarrow> falling ms'"
  by (induction rows arbitrary: ms) (auto simp: ebind_Inr dest: row_matches_falling)

lemma oa_reply_simps [simp]: "oa_replies (oa_reply msg t s) = oa_replies s @ [(msg, t)]"
  by (simp add: oa_reply_def)

lemma print_matches_replies:
  "c \<noteq> 0 \<Longrightarrow> oa_replies (print_matches msg c ms s) = oa_replies s @ map (\<lambda>m. (msg, mt_line m)) (take (unat c) ms)"
proof (induction ms arbitrary: c s)
  case (Cons m ms)
  then have "unat c = Suc (unat (c - 1))" by (simp add: unat_minus_one unat_gt_0)
  with Cons.IH [of "c - 1"] show ?case by (auto simp: Let_def)
qed simp

text \<open>The matches in the order the loops find them.\<close>

fun row_found :: "oa_env \<Rightarrow> string \<Rightarrow> bool \<Rightarrow> string list \<Rightarrow> string list \<Rightarrow> oa_error + stat_match list" where
  "row_found env type subst stats [] = Inr []"
| "row_found env type subst stats (h # hs) =
     ebind (cell stats S_NAME) (\<lambda>n. ebind (text_of env n) (\<lambda>name.
       if rpc_match_player env subst name h
       then ebind (match_line env type stats) (\<lambda>line. ebind (row_found env type subst stats hs) (\<lambda>ms.
         Inr (\<lparr>mt_rank = fst (read_siz (en_junk env) (str_stream (stats ! S_RANK))), mt_line = line\<rparr> # ms)))
       else row_found env type subst stats hs))"

fun table_found :: "oa_env \<Rightarrow> string \<Rightarrow> bool \<Rightarrow> string list \<Rightarrow> string list \<Rightarrow> oa_error + stat_match list" where
  "table_found env type subst hs [] = Inr []"
| "table_found env type subst hs (row # rows) =
     ebind (row_found env type subst (tag_texts ''td'' (str_stream row)) hs) (\<lambda>xs.
       ebind (table_found env type subst hs rows) (\<lambda>ys. Inr (xs @ ys)))"

lemma mset_match_insert: "mset (match_insert m ms) = add_mset m (mset ms)"
  by (induction ms) auto

lemma row_matches_found:
  "row_matches env type subst stats hs ms = Inr ms' \<Longrightarrow>
    \<exists>xs. row_found env type subst stats hs = Inr xs \<and> mset ms' = mset ms + mset xs"
proof (induction hs arbitrary: ms)
  case (Cons h hs)
  let ?m = "\<lambda>line. \<lparr>mt_rank = fst (read_siz (en_junk env) (str_stream (stats ! S_RANK))), mt_line = line\<rparr>"
  obtain n name where n: "cell stats S_NAME = Inr n" "text_of env n = Inr name"
    using Cons.prems by (auto simp: ebind_Inr)
  show ?case
  proof (cases "rpc_match_player env subst name h")
    case True
    then obtain line where l: "match_line env type stats = Inr line"
      and r: "row_matches env type subst stats hs (match_insert (?m line) ms) = Inr ms'"
      using Cons.prems by (auto simp: n ebind_Inr)
    from Cons.IH [OF r] obtain xs where "row_found env type subst stats hs = Inr xs"
      "mset ms' = mset (match_insert (?m line) ms) + mset xs" by blast
    then show ?thesis using True by (intro exI [of _ "?m line # xs"]) (simp add: n l mset_match_insert)
  next
    case False
    then show ?thesis using Cons by (simp add: n)
  qed
qed simp

lemma table_matches_found:
  "table_matches env type subst hs rows ms = Inr ms' \<Longrightarrow>
    \<exists>xs. table_found env type subst hs rows = Inr xs \<and> mset ms' = mset ms + mset xs"
proof (induction rows arbitrary: ms)
  case (Cons row rows)
  then obtain ms1 where 1: "row_matches env type subst (tag_texts ''td'' (str_stream row)) hs ms = Inr ms1"
    and 2: "table_matches env type subst hs rows ms1 = Inr ms'" by (auto simp: ebind_Inr)
  from row_matches_found [OF 1] Cons.IH [OF 2] show ?case by fastforce
qed simp

text \<open>Text without tags and escapes is its own text.\<close>

lemma replace_table_plain:
  "\<forall>(k, r)\<in>set t. \<exists>c\<in>set k. c \<notin> set s \<Longrightarrow> replace_table t s = Some s"
proof (induction t)
  case (Cons e t)
  obtain k r where e: "e = (k, r)" by (cases e)
  have "find_str k s = None"
  proof (rule ccontr)
    assume "find_str k s \<noteq> None"
    then obtain p where "find_str k s = Some p" by blast
    from find_str_Some [OF this] show False using Cons.prems e by auto
  qed
  then show ?case using Cons e by (simp add: replace_loop_step)
qed simp

lemma text_of_plain:
  assumes "lowers (en_hol env)" "uppers (en_hol env)" "s \<noteq> []"
    and "CHR ''<'' \<notin> set s" "CHR ''&'' \<notin> set s" "CHR ''%'' \<notin> set s"
  shows "text_of env s = Inr s"
proof -
  have "\<forall>(k, r)\<in>set ents. \<exists>c\<in>set k. c \<notin> set s" using assms(5) by (simp add: ents_sorted)
  then have 1: "fix_entities s = Some s" by (simp add: fix_entities_def replace_table_plain)
  have "\<forall>(k, r)\<in>set (urlism (en_hol env)). CHR ''%'' \<in> set k"
  proof clarify
    fix k r assume "(k, r) \<in> set (urlism (en_hol env))"
    from urlism_entries [OF this] show "CHR ''%'' \<in> set k"
      using assms(1,2) by (auto simp: lowers_def uppers_def escape_of_def tolower_def toupper_def code_def)
  qed
  then have 2: "urldecode (en_hol env) s = Some s"
    using assms(6) unfolding urldecode_def by (intro replace_table_plain) fastforce
  have g: "getline (CHR ''<'') [] (str_stream s) = (s, hit_eof (str_stream s))"
    using assms(3,4) by (simp add: getline_last)
  have "html_loop (en_hol env) (str_stream s) [] = Some s"
  proof -
    have "html_loop (en_hol env) (set_fail (hit_eof (str_stream s))) s = Some s"
      by (subst html_loop.simps) (simp add: getline_bad hit_eof_def set_fail_def good_def ok_def str_stream_def)
    moreover have "ok (hit_eof (str_stream s))" "\<not> good (hit_eof (str_stream s))"
      by (simp_all add: hit_eof_def good_def ok_def str_stream_def)
    ultimately show ?thesis
      by (subst html_loop.simps) (simp add: g 1 2 page_text_def getline_bad)
  qed
  then show ?thesis by (simp add: text_of_def html_to_text_def)
qed

text \<open>Two rows of a page, and the player finder of before.\<close>

definition demo_table :: string where
  "demo_table = ''<tr><td>1</td><td>Ann</td><td>2.5</td></tr><tr><td>2</td><td>Ann B</td><td>2.1</td></tr>''"

lemma stat_args_demo: "stat_args ''kd an'' = (''kd'',''an'')" by code_simp

definition oa_msg :: plugin_msg where
  "oa_msg = \<lparr>pm_cmd = [], pm_text = [], pm_nick = [], pm_reply_to = [], pm_user_cmd = ''!oastat'', pm_user_params = ''kd an''\<rparr>"

definition table_env :: oa_env where
  "table_env = demo_env\<lparr>en_svc := Some demo_finder, en_serve := (\<lambda>_ _ _ _. Some demo_table)\<rparr>"

lemma url_demo: "\<exists>u. get_url ''kd'' (fst (date_of table_env ''kd an'')) (snd (date_of table_env ''kd an'')) = Inr u"
  by (rule get_url_date) (simp add: date_now_def table_env_def demo_env_def get_month_def epoch_def to_siz_def)

lemma get_func_params:
  assumes "LF \<notin> set f"
  shows "\<exists>r. get_func (fold add_param vs (set_func f new_call)) = (f, \<lparr>c_in = str_stream r, c_out = str_stream []\<rparr>)"
proof -
  have "set_func f new_call = \<lparr>c_in = str_stream (f @ [LF]), c_out = str_stream []\<rparr>"
    by (simp add: set_func_def new_call_def)
  then have "fold add_param vs (set_func f new_call) =
      \<lparr>c_in = str_stream (f @ LF # concat (map (\<lambda>v. val_text v @ [LF]) vs)), c_out = str_stream []\<rparr>"
    by (subst add_params [where b = "f @ [LF]"]) simp_all
  then show ?thesis using assms by (auto simp: get_func_def getline_found)
qed

lemma match_demo: "rpc_match_player table_env b x y"
proof -
  obtain r where "get_func (add_param (V_Str y) (add_param (V_Str x) (add_param (V_Num (of_bool b)) (set_func ''match_player'' new_call)))) =
      (''match_player'', \<lparr>c_in = str_stream r, c_out = str_stream []\<rparr>)"
    using get_func_params [of "''match_player''" "[V_Num (of_bool b), V_Str x, V_Str y]"] by (auto simp: char_consts)
  then show ?thesis
    by (subst rpc_match_player_def) (simp add: table_env_def demo_finder_def get_return_bool_text [where r = True and rest = "[]"] set_return_text)
qed

lemma html_demo: "rpc_html_handle_to_irc table_env h = ''Ann''"
proof -
  obtain r where "get_func (add_param (V_Str h) (set_func ''html_handle_to_irc'' new_call)) =
      (''html_handle_to_irc'', \<lparr>c_in = str_stream r, c_out = str_stream []\<rparr>)"
    using get_func_params [of "''html_handle_to_irc''" "[V_Str h]"] by (auto simp: char_consts)
  then show ?thesis
    using get_val_text [of "V_Str ''Ann''" _ "[]"]
    by (simp add: rpc_html_handle_to_irc_def table_env_def demo_finder_def set_return_text get_return_value_def char_consts)
qed

lemma table_env: "lowers (en_hol table_env)" "uppers (en_hol table_env)"
  by (simp_all add: table_env_def demo_env_def hol_ref_ok(3,7))

lemma cells_demo: 
  "tag_texts ''tr'' (str_stream demo_table) = [''<td>1</td><td>Ann</td><td>2.5</td>'', ''<td>2</td><td>Ann B</td><td>2.1</td>'']"
  "tag_texts ''td'' (str_stream ''<td>1</td><td>Ann</td><td>2.5</td>'') = [''1'', ''Ann'', ''2.5'']"
  "tag_texts ''td'' (str_stream ''<td>2</td><td>Ann B</td><td>2.1</td>'') = [''2'', ''Ann B'', ''2.1'']"
  "cm_at str_lt 0 ''kd'' type_map = 2"
  by code_simp+

lemma table_demo: "\<exists>ms. table_matches table_env ''kd'' True [''Ann''] (tag_texts ''tr'' (str_stream demo_table)) [] = Inr ms"
  by (simp add: cells_demo cell_def match_demo html_demo match_line_def text_of_plain [OF table_env] S_NAME_def S_RANK_def)

text \<open>
  The rows \<open>!oastat\<close> prints, in their order, and the ones it keeps back: together they are
  the matches of the page, the ranks of the printed rows do not rise, and no row that is kept
  back has a larger rank.  Rank 1 being the best player, the list of the top players shows the
  last ones, the last first.
\<close>

theorem oastat_lists_last_ranks:
  assumes "oastat env n msg s = Inr s'" "stat_args (pm_user_params msg) = (type, handle)" "type \<noteq> []"
    and "rpc_lookup_players env handle [] = (subst, handles)"
    and "get_url type (fst (date_of env (pm_user_params msg))) (snd (date_of env (pm_user_params msg))) = Inr url"
    and "oa_page env url s = (page, s1)" "n \<noteq> 0"
  shows "\<exists>all heads rows rest. table_found env type subst handles (tag_texts ''tr'' page) = Inr all \<and>
    oa_replies s' = oa_replies s @ heads @ map (\<lambda>m. (msg, mt_line m)) rows \<and>
    mset all = mset rows + mset rest \<and>
    length rows = min (unat (if handle = [] then 10 else n)) (length all) \<and>
    sorted_wrt (\<lambda>a b. mt_rank b \<le> mt_rank a) (rows @ rest)"
proof -
  define k :: siz where "k = (if handle = [] then 10 else n)"
  have k: "k \<noteq> 0" using assms(7) by (simp add: k_def)
  obtain ms where ms: "table_matches env type subst handles (tag_texts ''tr'' page) [] = Inr ms"
    using assms by (auto simp: oastat_def Let_def ebind_Inr split: prod.splits)
  obtain all where all: "table_found env type subst handles (tag_texts ''tr'' page) = Inr all" "mset ms = mset all"
    using table_matches_found [OF ms] by auto
  have s1: "oa_replies s1 = oa_replies s" using assms(6) by (auto simp: oa_page_def Let_def)
  obtain y m where ym: "date_of env (pm_user_params msg) = (y, m)" by fastforce
  define s2 where "s2 = (if ms = [] \<and> handle \<noteq> []
     then oa_reply msg (''Player name containing '' @ handle_list handles @ '' not found.'') s1
     else if length ms > unat k
     then oa_reply msg (''Found 0 matches, listing only the top '' @ show_nat (unat k) @ ''.'') s1
     else s1)"
  have "s' = print_matches msg k ms (oa_reply msg (IRC_BOLD @ cm_at str_lt [] type name_map @ IRC_NORMAL) s2)"
    using assms(1,3,5)
    by (simp only: oastat_def Let_def prod.case assms(2,4,6) ym fst_conv snd_conv if_False ebind_simps ms
        k_def [symmetric] s2_def [symmetric] sum.inject simp_thms)
  then have "\<exists>heads. oa_replies s' = oa_replies s @ heads @ map (\<lambda>m. (msg, mt_line m)) (take (unat k) ms)"
    using print_matches_replies [OF k] s1 by (simp add: s2_def)
  then obtain heads where heads: "oa_replies s' = oa_replies s @ heads @ map (\<lambda>m. (msg, mt_line m)) (take (unat k) ms)"
    by blast
  have "falling ms" using table_matches_falling [OF ms] by (simp add: falling_def)
  moreover have "mset all = mset (take (unat k) ms) + mset (drop (unat k) ms)"
    by (metis all(2) append_take_drop_id mset_append)
  moreover have "length ms = length all" using all(2) by (metis size_mset)
  ultimately show ?thesis
    using all(1) heads by (intro exI [of _ all] exI [of _ heads] exI [of _ "take (unat k) ms"] exI [of _ "drop (unat k) ms"])
      (simp add: falling_def k_def)
qed

theorem oastat_lists_last_ranks_witness:
  "\<exists>s' subst handles all heads rows rest.
     oastat table_env 10 oa_msg \<lparr>oa_calls = 0, oa_sent = [], oa_replies = []\<rparr> = Inr s' \<and>
     table_found table_env ''kd'' subst handles (tag_texts ''tr'' (str_stream demo_table)) = Inr all \<and>
     oa_replies s' = heads @ map (\<lambda>m. (oa_msg, mt_line m)) rows \<and> mset all = mset rows + mset rest \<and>
     length rows = min (unat (10 :: siz)) (length all) \<and>
     sorted_wrt (\<lambda>a b. mt_rank b \<le> mt_rank a) (rows @ rest)"
proof -
  let ?s = "\<lparr>oa_calls = 0, oa_sent = [], oa_replies = []\<rparr>"
  obtain url where url: "get_url ''kd'' (fst (date_of table_env ''kd an'')) (snd (date_of table_env ''kd an'')) = Inr url"
    using url_demo by blast
  obtain page s1 where page: "oa_page table_env url ?s = (page, s1)" by fastforce
  then have p: "page = str_stream demo_table" by (simp add: oa_page_def Let_def table_env_def sock_def)
  have look: "rpc_lookup_players table_env ''an'' [] = (True, [''Ann''])"
    by (rule lookup_understood [where rpc = demo_finder, OF _ _ _ demo_finder_lookup])
      (simp_all add: char_consts table_env_def)
  obtain ms where ms: "table_matches table_env ''kd'' True [''Ann''] (tag_texts ''tr'' (str_stream demo_table)) [] = Inr ms"
    using table_demo by blast
  obtain y m where ym: "date_of table_env ''kd an'' = (y, m)" by fastforce
  obtain s' where s': "oastat table_env 10 oa_msg ?s = Inr s'"
    using url page by (simp add: oastat_def oa_msg_def stat_args_demo look Let_def p ms ym)
  have "stat_args (pm_user_params oa_msg) = (''kd'', ''an'')" by (simp add: oa_msg_def stat_args_demo)
  from oastat_lists_last_ranks [OF s' this _ look, of url "str_stream demo_table" s1]
  obtain all heads rows rest where
    "table_found table_env ''kd'' True [''Ann''] (tag_texts ''tr'' (str_stream demo_table)) = Inr all"
    "oa_replies s' = heads @ map (\<lambda>m. (oa_msg, mt_line m)) rows" "mset all = mset rows + mset rest"
    "length rows = min (unat (10 :: siz)) (length all)" "sorted_wrt (\<lambda>a b. mt_rank b \<le> mt_rank a) (rows @ rest)"
    using url page unfolding p by (auto simp: oa_msg_def)
  with s' show ?thesis by blast
qed

end
