(* ===== verification/Oa_Top.thy ===== *)
theory Oa_Top
  imports Oa_Stats Timers
begin

text \<open>
  The second half of \<open>plugin-oastats.cpp\<close>: the ranking of the players, \<open>!oatop\<close>, the regular listings
  and the service \<open>get_oatop\<close>, with \<open>keystats\<close> of \<open>plugin-oastats.h\<close> and \<open>openarena.h\<close>.  A \<open>double\<close> is a
  linearly ordered type and the operations on it are a record: no value of the program is a
  NaN, since a number that was read never is.  \<open>std::sort\<close> is an argument, \<open>sorts\<close> its contract.
\<close>

record 'd dbl =
  db_zero :: 'd
  db_parse :: "string \<Rightarrow> 'd \<times> bool \<times> string"
  db_score :: "'d \<Rightarrow> 'd \<Rightarrow> 'd \<Rightarrow> 'd"
  db_fixed :: "'d \<Rightarrow> string"
  db_show :: "'d \<Rightarrow> string"

text \<open>\<open>is >> d\<close>: \<open>db_parse\<close> gives the value, whether it is a number, and the rest.\<close>

definition read_dbl :: "'d dbl \<Rightarrow> 'd \<Rightarrow> istream \<Rightarrow> 'd \<times> istream" where
  "read_dbl db d is =
     (let is1 = sentry is
      in if \<not> good is1 then (d, is1)
         else case db_parse db (buf is1) of (d1, num, r) \<Rightarrow>
           let is2 = (if r = [] then hit_eof is1 else is1\<lparr>buf := r\<rparr>)
           in (d1, if num then is2 else set_fail is2))"

record 'd keystats =
  ks_name :: string
  ks_kd :: 'd
  ks_cd :: 'd
  ks_pw :: 'd
  ks_to :: siz
  ks_overall :: 'd
  ks_rank :: siz

definition new_keystats :: "'d dbl \<Rightarrow> 'd keystats" where
  "new_keystats db = \<lparr>ks_name = [], ks_kd = db_zero db, ks_cd = db_zero db, ks_pw = db_zero db, ks_to = 0,
     ks_overall = db_zero db, ks_rank = 0\<rparr>"

definition keystats_text :: "'d dbl \<Rightarrow> 'd keystats \<Rightarrow> string" where
  "keystats_text db s =
     db_show db (ks_kd s) @ '' '' @ db_show db (ks_cd s) @ '' '' @ db_show db (ks_pw s) @ '' '' @
     show_nat (unat (ks_to s)) @ '' '' @ db_show db (ks_overall s) @ '' '' @ show_nat (unat (ks_rank s)) @ '' '' @
     ks_name s"

definition read_keystats :: "'d dbl \<Rightarrow> 'd keystats \<Rightarrow> istream \<Rightarrow> 'd keystats \<times> istream" where
  "read_keystats db s is =
     (let (kd, i1) = read_dbl db (ks_kd s) is;
          (cd, i2) = read_dbl db (ks_cd s) i1;
          (pw, i3) = read_dbl db (ks_pw s) i2;
          (n, i4) = read_siz (ks_to s) i3;
          (overall, i5) = read_dbl db (ks_overall s) i4;
          (rank, i6) = read_siz (ks_rank s) i5;
          (name, i7) = getline LF (ks_name s) (skip_ws i6)
      in (\<lparr>ks_name = name, ks_kd = kd, ks_cd = cd, ks_pw = pw, ks_to = n, ks_overall = overall, ks_rank = rank\<rparr>, i7))"

subsection \<open>Names\<close>

definition span :: "string \<Rightarrow> string" where
  "span color = ''<span style='' @ [SQUOTE] @ ''color: '' @ color @ [SQUOTE] @ ''>''"

definition font :: "string \<Rightarrow> string" where
  "font color = ''<font color='' @ [DQUOTE] @ color @ [DQUOTE] @ ''>''"

definition oa_subs :: "(string, string) cmap" where
  "oa_subs = fold (\<lambda>(k, v). cm_insert str_lt k v)
     [(''<b>'', []), (''</b>'', []), (''</font>'', []), (''</span>'', []),
      (span ''black'', ''^8''), (font ''#000000'', ''^8''), (span ''red'', ''^1''), (font ''#FF0000'', ''^1''),
      (span ''lime'', ''^2''), (font ''#00FF00'', ''^2''), (span ''yellow'', ''^3''), (font ''#FFFF00'', ''^3''),
      (span ''blue'', ''^4''), (font ''#0000FF'', ''^4''), (span ''cyan'', ''^5''), (font ''#00FFFF'', ''^5''),
      (span ''magenta'', ''^6''), (font ''#FF00FF'', ''^6''), (span ''white'', ''^7''), (font ''#FFFFFF'', ''^7''),
      (font ''#AAAAAA'', []), (font ''#828282'', []), (font [], [])] []"

definition html_handle_to_oa :: "string \<Rightarrow> string option" where
  "html_handle_to_oa html = (case replace_table oa_subs html of None \<Rightarrow> None | Some t \<Rightarrow> fix_entities t)"

text \<open>\<open>oa_handle_to_irc\<close>; \<open>replace\<close> is a function of a library.\<close>

definition printable :: "char \<Rightarrow> bool" where
  "printable c = (32 \<le> code c \<and> code c < 127)"

definition irc_subs :: "(string, string) cmap" where
  "irc_subs = (let back = '','' @ IRC_Black
     in [(''^0'', IRC_COLOR @ IRC_Black @ '','' @ IRC_Dark_Gray), (''^1'', IRC_COLOR @ IRC_Red @ back),
         (''^2'', IRC_COLOR @ IRC_Lime_Green @ back), (''^3'', IRC_COLOR @ IRC_Yellow @ back),
         (''^4'', IRC_COLOR @ IRC_Navy_Blue @ back), (''^5'', IRC_COLOR @ IRC_Royal_Blue @ back),
         (''^6'', IRC_COLOR @ IRC_Purple @ back), (''^7'', IRC_COLOR @ IRC_White @ back),
         (''^8'', IRC_COLOR @ IRC_Brown @ back)])"

definition oa_handle_to_irc :: "(string \<Rightarrow> string \<Rightarrow> string \<Rightarrow> string) \<Rightarrow> string \<Rightarrow> string" where
  "oa_handle_to_irc replace oa =
     (let oa1 = map (\<lambda>c. if printable c then c else CHR ''#'') oa
      in if oa1 = [] then []
         else fold (\<lambda>(k, v) s. replace s k v) irc_subs (if hd oa1 \<noteq> CHR ''^'' then ''^7'' @ oa1 else oa1) @ IRC_NORMAL)"

subsection \<open>The ranking\<close>

definition S_KD :: nat where "S_KD = 2"
definition S_CK :: nat where "S_CK = 3"
definition S_PW :: nat where "S_PW = 6"
definition S_TO :: nat where "S_TO = 7"

text \<open>The text of a cell, and the player of a row.\<close>

definition cell_text :: "oa_env \<Rightarrow> string list \<Rightarrow> nat \<Rightarrow> oa_error + string" where
  "cell_text env stats i = ebind (cell stats i) (text_of env)"

definition top_row :: "oa_env \<Rightarrow> 'd dbl \<Rightarrow> string list \<Rightarrow> oa_error + 'd keystats" where
  "top_row env db stats =
     ebind (cell stats S_NAME) (\<lambda>n. ebind (case html_handle_to_oa n of None \<Rightarrow> Inl Hang | Some t \<Rightarrow> Inr t) (\<lambda>name.
     ebind (cell_text env stats S_KD) (\<lambda>kd. ebind (cell_text env stats S_CK) (\<lambda>cd.
     ebind (cell_text env stats S_PW) (\<lambda>pw. ebind (cell_text env stats S_TO) (\<lambda>n.
       let z = db_zero db
       in Inr \<lparr>ks_name = name, ks_kd = fst (read_dbl db z (str_stream kd)), ks_cd = fst (read_dbl db z (str_stream cd)),
            ks_pw = fst (read_dbl db z (str_stream pw)), ks_to = fst (read_siz 0 (str_stream n)), ks_overall = z,
            ks_rank = 0\<rparr>))))))"

fun top_rows :: "oa_env \<Rightarrow> 'd dbl \<Rightarrow> string list \<Rightarrow> oa_error + 'd keystats list" where
  "top_rows env db [] = Inr []"
| "top_rows env db (row # rows) =
     (let stats = tag_texts ''td'' (str_stream row)
      in if stats = [] then top_rows env db rows
         else ebind (top_row env db stats) (\<lambda>k. ebind (top_rows env db rows) (\<lambda>ks. Inr (k # ks))))"

definition with_overall :: "'d dbl \<Rightarrow> 'd keystats \<Rightarrow> 'd keystats" where
  "with_overall db k =
     k\<lparr>ks_overall := fst (read_dbl db (ks_overall k) (str_stream (db_fixed db (db_score db (ks_kd k) (ks_cd k) (ks_pw k)))))\<rparr>"

fun rank_loop :: "siz \<Rightarrow> 'd \<Rightarrow> siz \<Rightarrow> 'd keystats list \<Rightarrow> 'd keystats list" where
  "rank_loop rank prev d [] = []"
| "rank_loop rank prev d (s # ss) =
     (let (rank1, d1) = (if ks_overall s \<noteq> prev then (rank + d, 1) else (rank, d + 1))
      in s\<lparr>ks_rank := rank1\<rparr> # rank_loop rank1 (ks_overall s) d1 ss)"

definition get_oatop ::
  "oa_env \<Rightarrow> 'd dbl \<Rightarrow> ('d keystats list \<Rightarrow> 'd keystats list) \<Rightarrow> string \<Rightarrow> oa \<Rightarrow> oa_error + ('d keystats list \<times> oa)" where
  "get_oatop env db srt params s =
     (case date_of env params of (year, month) \<Rightarrow>
        ebind (get_url ''kd'' year month) (\<lambda>url.
          case oa_page env url s of (ss, s1) \<Rightarrow>
            ebind (top_rows env db (tag_texts ''tr'' ss)) (\<lambda>v.
              let v1 = (if 2012 \<le> year \<and> 5 \<le> month then filter (\<lambda>k. \<not> ks_to k < 20) v else v)
              in Inr (rank_loop 0 (db_zero db) 1 (srt (map (with_overall db) v1)), s1))))"

subsection \<open>\<open>!oatop\<close>\<close>

fun division :: "string list \<Rightarrow> siz \<Rightarrow> siz \<Rightarrow> (siz \<times> siz) option" where
  "division [] low factor = Some (low, factor)"
| "division (p # ps) low factor =
     (if hd p = CHR ''#'' \<and> 1 < length p
      then (case read_siz low (str_stream (tl p)) of (n, i) \<Rightarrow> if ok i then division ps n 10 else None)
      else division ps low factor)"

definition C_KD :: string where "C_KD = IRC_COLOR @ IRC_Royal_Blue"
definition C_CD :: string where "C_CD = IRC_COLOR @ IRC_Red"
definition C_WP :: string where "C_WP = IRC_COLOR @ IRC_Lime_Green"
definition C_OA :: string where "C_OA = IRC_COLOR @ IRC_Hot_Pink"

definition top_title :: string where
  "top_title = IRC_BOLD @ IRC_UNDERLINE @ ''Rank '' @ C_KD @ ''K/D  '' @ C_CD @ ''C/D  '' @ C_WP @ ''W/P    '' @
     C_OA @ ''Overall'' @ IRC_NORMAL"

definition pad_right :: "nat \<Rightarrow> string \<Rightarrow> string" where
  "pad_right n t = t @ replicate (n - length t) SPC"

definition top_line :: "(string \<Rightarrow> string \<Rightarrow> string \<Rightarrow> string) \<Rightarrow> 'd dbl \<Rightarrow> 'd keystats \<Rightarrow> string" where
  "top_line replace db s =
     ''#'' @ pad_right 4 (show_nat (unat (ks_rank s))) @ C_KD @ pad_right 5 (db_fixed db (ks_kd s)) @
     C_CD @ pad_right 5 (db_fixed db (ks_cd s)) @ C_WP @ pad_left 6 (db_fixed db (ks_pw s)) @
     C_OA @ '' '' @ pad_left 5 (db_fixed db (ks_overall s)) @ ''   '' @ oa_handle_to_irc replace (ks_name s)"

fun print_top :: "('d keystats \<Rightarrow> string) \<Rightarrow> plugin_msg \<Rightarrow> siz \<Rightarrow> siz \<Rightarrow> siz \<Rightarrow> 'd keystats list \<Rightarrow> oa \<Rightarrow> oa" where
  "print_top line msg low high matches [] s = s"
| "print_top line msg low high matches (k # ks) s =
     (let m = matches + 1
      in if m < low then print_top line msg low high m ks s
         else if high < m then s
         else print_top line msg low high m ks (oa_reply msg (line k) s))"

definition oatop ::
  "oa_env \<Rightarrow> 'd dbl \<Rightarrow> (string \<Rightarrow> string \<Rightarrow> string \<Rightarrow> string) \<Rightarrow> ('d keystats list \<Rightarrow> 'd keystats list) \<Rightarrow>
    plugin_msg \<Rightarrow> oa \<Rightarrow> oa_error + oa" where
  "oatop env db replace srt msg s =
     ebind (get_oatop env db srt (pm_user_params msg) s) (\<lambda>(v, s1).
       Inr (if v = [] then oa_reply msg ''There are currently no stats for this month.'' s1
            else case division (words_of (str_stream (pm_user_params msg))) 1 1 of
              None \<Rightarrow> oa_reply msg (oa_help (pm_user_cmd msg)) s1
            | Some (n, factor) \<Rightarrow>
                (let low = (n - 1) * factor + 1
                 in print_top (top_line replace db) msg low (low + 10 - 1) 0 v (oa_reply msg top_title s1))))"

subsection \<open>Regular listings\<close>

text \<open>
  The plugin with its timer.  A user of the timer is the address of a channel in the set \<open>channels\<close>,
  which never removes one; \<open>addr\<close> gives the addresses.  \<open>two\<close> prints a quotient with two digits.
  \<open>None\<close> is a call that waits for the mutex of the timer.
\<close>

record oa_top =
  ot_oa :: oa
  ot_channels :: "string cset"
  ot_timer :: "nat timer"

definition new_oa_top :: oa_top where
  "new_oa_top = \<lparr>ot_oa = \<lparr>oa_calls = 0, oa_sent = [], oa_replies = []\<rparr>, ot_channels = [], ot_timer = new_timer\<rparr>"

definition ot_reply :: "plugin_msg \<Rightarrow> string \<Rightarrow> oa_top \<Rightarrow> oa_top" where
  "ot_reply msg text s = s\<lparr>ot_oa := oa_reply msg text (ot_oa s)\<rparr>"

definition delay_words :: "(siz \<Rightarrow> siz \<Rightarrow> string) \<Rightarrow> siz \<Rightarrow> string" where
  "delay_words two n =
     (if n < 216000 then two n 3600 @ '' hours.'' else []) @
     (if n < 3600 then two n 60 @ '' minutes.'' else []) @
     (if n < 60 then show_nat (unat n) @ '' seconds.'' else [])"

definition oastats_on ::
  "(string \<Rightarrow> nat) \<Rightarrow> (siz \<Rightarrow> siz \<Rightarrow> string) \<Rightarrow> siz \<Rightarrow> plugin_msg \<Rightarrow> oa_top \<Rightarrow> oa_top option" where
  "oastats_on addr two n msg s =
     (let chan = pm_reply_to msg; t = set_maxdelay n (set_mindelay n (ot_timer s))
      in case timer_on random_lt (addr chan) t of
           None \<Rightarrow> None
         | Some (r, t1) \<Rightarrow>
             Some (ot_reply msg
               (if r then ''Regular stats have been turned on for this channel every '' @ delay_words two n
                else ''Regular stats are already turned on for this channel.'')
               (s\<lparr>ot_channels := cs_insert str_lt chan (ot_channels s), ot_timer := t1\<rparr>)))"

definition oastats_off :: "(string \<Rightarrow> nat) \<Rightarrow> plugin_msg \<Rightarrow> oa_top \<Rightarrow> oa_top option" where
  "oastats_off addr msg s =
     (let chan = pm_reply_to msg
      in case timer_off random_lt (addr chan) (ot_timer s) of
           None \<Rightarrow> None
         | Some (r, t1) \<Rightarrow>
             Some (ot_reply msg
               (if r then ''Regular stats have been disabled for this channel.''
                else ''Regular stats were not enabled for this channel.'')
               (s\<lparr>ot_channels := cs_insert str_lt chan (ot_channels s), ot_timer := t1\<rparr>)))"

definition oastats_exit :: "oa_top \<Rightarrow> oa_top option" where
  "oastats_exit s = (case turn_off (ot_timer s) of None \<Rightarrow> None | Some (r, t) \<Rightarrow> Some (s\<lparr>ot_timer := t\<rparr>))"

text \<open>What the timer calls.  \<open>msg_of\<close> is a message from the bot to the channel with a text.\<close>

fun listings :: "(plugin_msg \<Rightarrow> oa \<Rightarrow> oa_error + oa) \<Rightarrow> (string \<Rightarrow> plugin_msg) \<Rightarrow> nat list \<Rightarrow> oa \<Rightarrow> oa_error + oa" where
  "listings listing msg_of [] s = Inr s"
| "listings listing msg_of (i # is) s = ebind (listing (msg_of (''!oatop #'' @ show_nat i)) s) (listings listing msg_of is)"

definition regular_stats ::
  "(plugin_msg \<Rightarrow> oa \<Rightarrow> oa_error + oa) \<Rightarrow> (string \<Rightarrow> plugin_msg) \<Rightarrow> siz \<Rightarrow> oa \<Rightarrow> oa_error + oa" where
  "regular_stats listing msg_of divisions s =
     (let blue = IRC_BOLD @ IRC_COLOR @ IRC_Navy_Blue;
          s1 = oa_reply (msg_of []) (blue @ ''Stats listing about to commence in 10 seconds, '' @ IRC_COLOR @ IRC_Red @
            ''please stop typing.'') s;
          is = [1..<unat (divisions + 1)]
      in ebind (listings listing msg_of is s1) (\<lambda>s2.
           Inr (oa_reply (msg_of (if is = [] then [] else ''!oatop #'' @ show_nat (last is)))
             (blue @ ''Stats listing over.'') s2)))"

subsection \<open>The service\<close>

definition put_stats :: "'d dbl \<Rightarrow> 'd keystats list \<Rightarrow> istream \<Rightarrow> istream" where
  "put_stats db v os = container_os (map (keystats_text db) v) os"

fun read_stats_items :: "'d dbl \<Rightarrow> nat \<Rightarrow> 'd keystats \<Rightarrow> istream \<Rightarrow> 'd keystats list \<times> istream" where
  "read_stats_items db 0 t is = ([], is)"
| "read_stats_items db (Suc n) t is =
     (case read_keystats db t is of (t1, i1) \<Rightarrow>
        let i2 = snd (getline LF [] i1)
        in case read_stats_items db n t1 i2 of (ts, i3) \<Rightarrow> (if ok i2 then t1 # ts else ts, i3))"

text \<open>\<open>container_is\<close> at \<open>stats_vector\<close>.\<close>

definition read_stats :: "'d dbl \<Rightarrow> siz \<Rightarrow> istream \<Rightarrow> 'd keystats list \<times> istream" where
  "read_stats db junk is =
     (case read_siz junk is of (sz, i1) \<Rightarrow>
        read_stats_items db (unat sz) (new_keystats db) (snd (getline LF [] i1)))"

definition oa_rpc ::
  "oa_env \<Rightarrow> 'd dbl \<Rightarrow> ('d keystats list \<Rightarrow> 'd keystats list) \<Rightarrow> call \<Rightarrow> oa \<Rightarrow> oa_error + (bool \<times> call \<times> oa)" where
  "oa_rpc env db srt c s =
     (case get_func c of (func, c1) \<Rightarrow>
        if func = ''get_oatop''
        then (case get_param T_Str (en_junk env) c1 of (params, c2) \<Rightarrow>
          let c3 = c2\<lparr>c_in := snd (getline LF [] (snd (read_stats db (en_junk env) (c_in c2))))\<rparr>
          in ebind (get_oatop env db srt (val_str params) s) (\<lambda>(v, s1).
               let c4 = set_return_value (V_Num 1) c3
               in Inr (True, c4\<lparr>c_out := put [LF] (put_stats db v (c_out c4))\<rparr>, s1)))
        else Inr (False, c1, s))"

definition oa_initialize :: "bool \<Rightarrow> plugin \<Rightarrow> bool \<times> plugin" where
  "oa_initialize has_pfinder p = (if has_pfinder then (True, fold plugin_add oa_actions p) else (False, p))"

subsection \<open>The ranks\<close>

text \<open>How many players of a list are better; the rank that the loop means to give.\<close>

definition better :: "'d::linorder keystats list \<Rightarrow> 'd \<Rightarrow> nat" where
  "better v x = length (filter (\<lambda>k. x < ks_overall k) v)"

definition right_rank :: "'d::linorder \<Rightarrow> 'd keystats list \<Rightarrow> 'd \<Rightarrow> siz" where
  "right_rank z v x = (if better v x = 0 \<and> x = z then 0 else of_nat (Suc (better v x)))"

definition sorted_down :: "'d::linorder keystats list \<Rightarrow> bool" where
  "sorted_down v = sorted_wrt (\<lambda>a b. \<not> ks_overall a < ks_overall b) v"

text \<open>The contract of \<open>std::sort\<close> with the comparison of the source.\<close>

definition sorts :: "('d::linorder keystats list \<Rightarrow> 'd keystats list) \<Rightarrow> bool" where
  "sorts srt = (\<forall>v. mset (srt v) = mset v \<and> sorted_down (srt v))"

lemma better_append: "better (a @ b) x = better a x + better b x"
  by (simp add: better_def)

lemma better_all: "\<forall>k\<in>set v. x < ks_overall k \<Longrightarrow> better v x = length v"
  by (simp add: better_def)

lemma better_none: "\<forall>k\<in>set v. \<not> x < ks_overall k \<Longrightarrow> better v x = 0"
  by (simp add: better_def)

lemma rank_loop_ranks:
  assumes "sorted_down (a @ v)" "rank + d = of_nat (Suc (length a))"
    and "a = [] \<Longrightarrow> prev = z \<and> rank = 0" "a \<noteq> [] \<Longrightarrow> prev = ks_overall (last a) \<and> rank = right_rank z (a @ v) prev"
  shows "rank_loop rank prev d v = map (\<lambda>k. k\<lparr>ks_rank := right_rank z (a @ v) (ks_overall k)\<rparr>) v"
  using assms
proof (induction v arbitrary: a rank prev d)
  case (Cons k v)
  let ?x = "ks_overall k"
  have after: "better (k # v) ?x = 0"
    using Cons.prems(1) by (intro better_none) (auto simp: sorted_down_def sorted_wrt_append)
  have le: "\<not> ks_overall b < ?x" if "b \<in> set a" for b
    using Cons.prems(1) that by (auto simp: sorted_down_def sorted_wrt_append)
  have lst: "\<not> ks_overall b < ks_overall (last a)" if "b \<in> set a" "a \<noteq> []" for b
  proof -
    obtain a' l where a: "a = a' @ [l]" using \<open>a \<noteq> []\<close> by (cases a rule: rev_cases) auto
    then have "\<not> ks_overall c < ks_overall l" if "c \<in> set a'" for c
      using Cons.prems(1) that by (simp add: sorted_down_def sorted_wrt_append)
    then show ?thesis using \<open>b \<in> set a\<close> unfolding a by auto
  qed
  show ?case
  proof (cases "?x = prev")
    case True
    have r: "rank = right_rank z (a @ k # v) ?x"
    proof (cases "a = []")
      case True
      with Cons.prems(3) after \<open>?x = prev\<close> show ?thesis by (simp add: right_rank_def better_append)
    next
      case False
      with Cons.prems(4) \<open>?x = prev\<close> show ?thesis by simp
    qed
    have "rank_loop rank ?x (d + 1) v = map (\<lambda>j. j\<lparr>ks_rank := right_rank z ((a @ [k]) @ v) (ks_overall j)\<rparr>) v"
      using Cons.prems(1,2) r by (intro Cons.IH) (simp_all add: algebra_simps)
    with True r show ?thesis by simp
  next
    case False
    have less: "?x < ks_overall b" if "b \<in> set a" for b
    proof -
      have "a \<noteq> []" using that by auto
      then have "?x < ks_overall (last a)" using False Cons.prems(4) le [of "last a"] by auto
      with lst [OF that \<open>a \<noteq> []\<close>] show ?thesis by auto
    qed
    then have "better (a @ k # v) ?x = length a" using after by (simp add: better_append better_all)
    moreover have "a = [] \<Longrightarrow> ?x \<noteq> z" using False Cons.prems(3) by simp
    ultimately have r: "rank + d = right_rank z (a @ k # v) ?x"
      using Cons.prems(2) by (auto simp: right_rank_def)
    have "rank_loop (rank + d) ?x 1 v = map (\<lambda>j. j\<lparr>ks_rank := right_rank z ((a @ [k]) @ v) (ks_overall j)\<rparr>) v"
      using Cons.prems(1,2) r by (intro Cons.IH) (simp_all add: algebra_simps)
    with False r show ?thesis by simp
  qed
qed simp

lemma rank_loop_right:
  "sorted_down v \<Longrightarrow> rank_loop 0 z 1 v = map (\<lambda>k. k\<lparr>ks_rank := right_rank z v (ks_overall k)\<rparr>) v"
  using rank_loop_ranks [of "[]" v 0 1 z z] by simp

text \<open>C38: 
  The list of the players is sorted by their overall value, and the rank of a player is one more than the
  number of players with a greater one: equal players share a rank, and the next one counts all of
  them.  Only when the best value of all is 0 its players have the rank 0.
\<close>

theorem oatop_ranks:
  assumes "sorts (srt :: 'd::linorder keystats list \<Rightarrow> 'd keystats list)" "get_oatop env db srt params s = Inr (v, s1)"
  shows "sorted_down v \<and>
    (\<forall>k\<in>set v. ks_rank k = (if better v (ks_overall k) = 0 \<and> ks_overall k = db_zero db then 0
       else of_nat (Suc (better v (ks_overall k)))))"
proof -
  obtain y m where ym: "date_of env params = (y, m)" by fastforce
  then obtain url where url: "get_url ''kd'' y m = Inr url" using assms(2) by (auto simp: get_oatop_def ebind_Inr)
  obtain ss s2 where "oa_page env url s = (ss, s2)" by fastforce
  then obtain w where v: "v = rank_loop 0 (db_zero db) 1 (srt w)"
    using assms(2) by (auto simp: get_oatop_def ebind_Inr Let_def ym url)
  have d: "sorted_down (srt w)" using assms(1) by (simp add: sorts_def)
  define f :: "'d keystats \<Rightarrow> 'd keystats" where "f = (\<lambda>k. k\<lparr>ks_rank := right_rank (db_zero db) (srt w) (ks_overall k)\<rparr>)"
  have m: "v = map f (srt w)" unfolding v f_def by (rule rank_loop_right [OF d])
  have f: "ks_overall (f k) = ks_overall k" for k by (simp add: f_def)
  have b: "better v x = better (srt w) x" for x by (simp add: better_def m filter_map f comp_def)
  show ?thesis
    using d by (auto simp: m f b [unfolded m] sorted_down_def sorted_wrt_map) (auto simp: f_def right_rank_def)
qed

subsection \<open>The listing\<close>

lemma print_top_replies:
  assumes "unat m + length v < 2 ^ 64" "0 < low" 
  shows "oa_replies (print_top line msg low high m v s) =
    oa_replies s @ map (\<lambda>k. (msg, line k)) (drop (unat low - 1 - unat m) (take (unat high - unat m) v))"
  using assms
proof (induction v arbitrary: m s)
  case (Cons k v)
  have m: "unat (m + 1) = Suc (unat m)" using Cons.prems(1) by (simp add: unat_word_ariths)
  have low: "0 < unat low" using Cons.prems(2) by (simp add: unat_gt_0)
  note IH = Cons.IH [of "m + 1"]
  show ?case
  proof (cases "m + 1 < low")
    case True
    then have "unat m < unat low - 1" by (simp add: word_less_nat_alt m)
    moreover have "n = unat high - Suc (unat m)" if "unat high - unat m = Suc n" for n using that by arith
    ultimately show ?thesis using True IH Cons.prems m
      by (cases "unat high - unat m") (auto simp: Let_def drop_Cons')
  next
    case False
    then have l: "unat low - 1 - unat m = 0" using m by (simp add: word_less_nat_alt)
    show ?thesis
    proof (cases "high < m + 1")
      case True
      then have "unat high - unat m = 0" by (simp add: word_less_nat_alt m)
      with False True l show ?thesis by (simp add: Let_def)
    next
      case h: False
      then have "unat high - unat m = Suc (unat high - Suc (unat m))" by (simp add: word_less_nat_alt m)
      with False h l IH Cons.prems m show ?thesis by (simp add: Let_def)
    qed
  qed
qed simp

text \<open>
  \<open>!oatop #n\<close> lists the \<open>n\<close>-th ten of the players, whole and in their order, behind a title; the last
  division may be shorter, and one behind the last player is empty.
\<close>

theorem oatop_division:
  assumes "get_oatop env db srt (pm_user_params msg) s = Inr (v, s1)" "v \<noteq> []"
    and "division (words_of (str_stream (pm_user_params msg))) 1 1 = Some (n, 10)"
    and "0 < n" "10 * unat n < 2 ^ 64" "length v < 2 ^ 64"
  shows "\<exists>s'. oatop env db replace srt msg s = Inr s' \<and> oa_replies s' =
    oa_replies s1 @ (msg, top_title) # map (\<lambda>k. (msg, top_line replace db k)) (take 10 (drop (10 * (unat n - 1)) v))"
proof -
  define low where "low = (n - 1) * 10 + 1"
  have n: "unat (n - 1) = unat n - 1" "0 < unat n" using assms(4) by (simp_all add: unat_minus_one unat_gt_0)
  have "unat ((n - 1) * 10) = 10 * (unat n - 1)"
    using n assms(5) by (subst unat_word_ariths(2)) simp
  then have low: "unat low = 10 * (unat n - 1) + 1"
    using n assms(5) unfolding low_def by (subst unat_word_ariths(1)) simp
  define high where "high = low + 10 - 1"
  have "high = low + 9" by (simp add: high_def)
  then have high: "unat high = 10 * (unat n - 1) + 10"
    using low n assms(5) by (simp only:, subst unat_word_ariths(1)) simp
  have "0 < low" using low by (simp add: word_less_nat_alt)
  then have "oa_replies (print_top (top_line replace db) msg low high 0 v (oa_reply msg top_title s1)) =
      oa_replies s1 @ (msg, top_title) # map (\<lambda>k. (msg, top_line replace db k)) (take 10 (drop (10 * (unat n - 1)) v))"
    using assms(6) by (subst print_top_replies) (simp_all add: low high drop_take)
  moreover have "oatop env db replace srt msg s =
      Inr (print_top (top_line replace db) msg low high 0 v (oa_reply msg top_title s1))"
    using assms(2,3) by (simp add: oatop_def assms(1) low_def high_def Let_def)
  ultimately show ?thesis by blast
qed

subsection \<open>Players through the service\<close>

text \<open>A number that the reading operator reads back up to a blank, and a player made of such numbers.\<close>

definition reads_back :: "'d dbl \<Rightarrow> 'd \<Rightarrow> bool" where
  "reads_back db d = (db_show db d \<noteq> [] \<and> \<not> isspace (hd (db_show db d)) \<and> LF \<notin> set (db_show db d) \<and>
     (\<forall>r. db_parse db (db_show db d @ SPC # r) = (d, True, SPC # r)))"

definition stats_ok :: "'d dbl \<Rightarrow> 'd keystats \<Rightarrow> bool" where
  "stats_ok db k = (reads_back db (ks_kd k) \<and> reads_back db (ks_cd k) \<and> reads_back db (ks_pw k) \<and> reads_back db (ks_overall k) \<and>
     ks_name k \<noteq> [] \<and> \<not> isspace (hd (ks_name k)) \<and> LF \<notin> set (ks_name k))"

fun alternate :: "'a list \<Rightarrow> 'a list" where
  "alternate [] = []"
| "alternate [x] = [x]"
| "alternate (x # y # r) = x # alternate r"

lemma sentry_blank: "sentry (str_stream (SPC # s)) = sentry (str_stream s)"
  by (simp add: sentry_def str_stream_def good_def hit_eof_def set_fail_def del: dropWhile_eq_Nil_conv split: list.split)

lemma read_blank:
  "read_dbl db d (str_stream (SPC # s)) = read_dbl db d (str_stream s)"
  "read_siz n (str_stream (SPC # s)) = read_siz n (str_stream s)"
  by (simp_all add: read_dbl_def read_siz_def sentry_blank)

lemma read_dbl_back: "reads_back db d \<Longrightarrow> read_dbl db old (str_stream (db_show db d @ SPC # r)) = (d, str_stream (SPC # r))"
proof -
  assume d: "reads_back db d"
  then obtain c cs where s: "db_show db d = c # cs" "\<not> isspace c" by (cases "db_show db d") (auto simp: reads_back_def)
  have p: "db_parse db (c # cs @ SPC # r) = (d, True, SPC # r)" using d s by (auto simp: reads_back_def)
  have "sentry (str_stream (c # cs @ SPC # r)) = str_stream (c # cs @ SPC # r)"
    using s(2) by (simp add: sentry_def str_stream_def good_def)
  then show ?thesis by (simp add: read_dbl_def s(1) p Let_def str_stream_def good_def)
qed

lemma SPC_not_digit: "\<not> isdigit SPC"
  by (simp add: isdigit_def code_def char_consts)

lemma read_siz_blank:
  "read_siz m (str_stream (show_nat (unat n) @ SPC # r)) = (n, str_stream (SPC # r))"
  using read_siz_show [of "unat n" SPC m r] SPC_not_digit unsigned_less [of n, where ?'a = nat] by simp

lemma keystats_text_SPC:
  "keystats_text db s =
     db_show db (ks_kd s) @ SPC # db_show db (ks_cd s) @ SPC # db_show db (ks_pw s) @ SPC #
     show_nat (unat (ks_to s)) @ SPC # db_show db (ks_overall s) @ SPC # show_nat (unat (ks_rank s)) @ SPC #
     ks_name s"
  by (simp add: keystats_text_def SPC_def)

lemma read_keystats_text:
  assumes "stats_ok db k"
  shows "read_keystats db t (str_stream (keystats_text db k @ LF # r)) = (k, str_stream r)"
proof -
  obtain c cs where n: "ks_name k = c # cs" "\<not> isspace c" using assms by (cases "ks_name k") (auto simp: stats_ok_def)
  have "skip_ws (str_stream (SPC # ks_name k @ LF # r)) = str_stream (ks_name k @ LF # r)"
    using n by (simp add: skip_ws_def str_stream_def good_def)
  moreover have "getline LF x (str_stream (ks_name k @ LF # r)) = (ks_name k, str_stream r)" for x
    using assms by (simp add: getline_found [where l = "ks_name k"] stats_ok_def)
  ultimately show ?thesis
    using assms by (simp add: read_keystats_def keystats_text_SPC Let_def read_dbl_back read_blank read_siz_blank stats_ok_def)
qed

text \<open>A stream that is not good stays so.\<close>

lemma bad_reads:
  assumes "\<not> good is"
  shows "\<not> good (snd (read_dbl db d is))" "\<not> good (snd (read_siz m is))" "\<not> good (skip_ws is)"
    "\<not> good (snd (getline c l is))"
  using assms by (simp_all add: read_dbl_def read_siz_def sentry_bad skip_ws_bad getline_bad)

lemma read_keystats_rest:
  "snd (read_keystats db t is) = snd (getline LF (ks_name t) (skip_ws (snd (read_siz (ks_rank t)
     (snd (read_dbl db (ks_overall t) (snd (read_siz (ks_to t) (snd (read_dbl db (ks_pw t)
       (snd (read_dbl db (ks_cd t) (snd (read_dbl db (ks_kd t) is))))))))))))))"
  by (simp add: read_keystats_def split_def Let_def)

lemma read_keystats_bad: "\<not> good is \<Longrightarrow> \<not> good (snd (read_keystats db t is))"
  unfolding read_keystats_rest by (intro bad_reads)

lemma read_keystats_end:
  assumes "dropWhile isspace b = []"
  shows "\<not> good (snd (read_keystats db t (str_stream b)))"
proof -
  have "\<not> good (snd (read_dbl db (ks_kd t) (str_stream b)))"
    using assms by (simp add: read_dbl_def sentry_end del: dropWhile_eq_Nil_conv)
  then show ?thesis unfolding read_keystats_rest
    by (rule bad_reads(4) [OF bad_reads(3) [OF bad_reads(2) [OF bad_reads(1) [OF bad_reads(2) [OF bad_reads(1) [OF bad_reads(1)]]]]]])
qed

lemma read_stats_bad: "\<not> good is \<Longrightarrow> fst (read_stats_items db n t is) = []"
proof (induction n arbitrary: t "is")
  case (Suc n)
  have "\<not> good (snd (read_keystats db t is))"
    using Suc.prems by (rule read_keystats_bad)
  then show ?case using Suc.IH by (simp add: split_def Let_def getline_bad)
qed simp

lemma LF_keystats_text: "stats_ok db k \<Longrightarrow> LF \<notin> set (keystats_text db k)"
  using LF_not_digit
  by (auto simp: stats_ok_def reads_back_def keystats_text_SPC dest!: show_nat_digits) (simp_all add: char_consts)

lemma read_stats_alternate:
  "\<forall>k\<in>set v. stats_ok db k \<Longrightarrow> length v \<le> n \<Longrightarrow>
    fst (read_stats_items db n t (str_stream (lines_text (map (keystats_text db) v) @ [LF]))) = alternate v"
proof (induction v arbitrary: n t rule: alternate.induct)
  case (3 x y r)
  obtain m where n: "n = Suc m" using "3.prems"(2) by (cases n) auto
  have "getline LF [] (str_stream (keystats_text db y @ LF # s)) = (keystats_text db y, str_stream s)" for s
    using "3.prems"(1) by (simp add: getline_found [where l = "keystats_text db y"] LF_keystats_text)
  then show ?case using 3 by (simp add: n read_keystats_text Let_def split_def)
next
  case 1
  then show ?case
    by (cases n) (simp_all add: split_def Let_def getline_bad read_keystats_end read_stats_bad)
next
  case (2 x)
  obtain m where n: "n = Suc m" using "2.prems"(2) by (cases n) auto
  have "fst (read_stats_items db m x (str_stream [])) = []"
    by (cases m) (simp_all add: split_def Let_def getline_bad read_keystats_end read_stats_bad)
  then show ?case using 2 by (simp add: n read_keystats_text Let_def split_def)
qed

text \<open>
  The list of players that \<open>get_oatop\<close> sends to its caller arrives with every second player missing:
  the operator that reads a player takes its whole line, and the reader of the elements of a vector
  throws the next line away.
\<close>

theorem stats_half_lost:
  assumes "\<forall>k\<in>set v. stats_ok db k" "length v < 2 ^ 64"
  shows "fst (read_stats db junk (put [LF] (put_stats db v (str_stream [])))) = alternate v"
proof -
  have "put [LF] (put_stats db v (str_stream [])) =
      str_stream (show_nat (length v) @ LF # lines_text (map (keystats_text db) v) @ [LF])"
    by (simp add: put_stats_def container_os_def put_items_str_stream)
  moreover have "unat (of_nat (length v) :: siz) = length v" using assms(2) by (simp add: unat_of_nat)
  ultimately show ?thesis using read_stats_alternate [OF assms(1), of "length v"] assms(2)
    by (simp add: read_stats_def read_siz_line)
qed

lemma entries_cm_insert: "e \<in> set (cm_insert str_lt k v m) \<Longrightarrow> e = (k, v) \<or> e \<in> set m"
  by (auto simp: cm_insert_def cm_touch_def dest!: entries_cm_set split: option.splits)

lemma oa_subs_entries: "(k, r) \<in> set oa_subs \<Longrightarrow> CHR ''<'' \<in> set k \<and> length r < length k"
proof -
  have "e \<in> set (fold (\<lambda>(k, v). cm_insert str_lt k v) es m) \<Longrightarrow> e \<in> set es \<or> e \<in> set m"
    for e :: "string \<times> string" and es m
    by (induction es arbitrary: m) (auto dest!: entries_cm_insert)
  from this [of "(k, r)" _ "[]"] show "(k, r) \<in> set oa_subs \<Longrightarrow> ?thesis"
    unfolding oa_subs_def by (fastforce simp: span_def font_def)
qed

text \<open>The name of every player is found, whatever it holds.\<close>

lemma html_handle_total: "\<exists>t. html_handle_to_oa html = Some t \<and> length t \<le> length html"
proof -
  have "shrinking oa_subs" using oa_subs_entries by (auto simp: shrinking_def)
  from replace_table_ends [OF this, of html] obtain u where u: "replace_table oa_subs html = Some u" "length u \<le> length html"
    by blast
  from replace_table_ends [OF shrinking_ents, of u] u show ?thesis by (auto simp: html_handle_to_oa_def fix_entities_def)
qed

subsection \<open>Witnesses\<close>

text \<open>The natural numbers with their texts, a sorting function, and a page with two players.\<close>

definition nat_dbl :: "nat dbl" where
  "nat_dbl = \<lparr>db_zero = 0, db_parse = (\<lambda>s. (digits_val (takeWhile isdigit s), takeWhile isdigit s \<noteq> [], dropWhile isdigit s)),
     db_score = (\<lambda>a b c. a * b * c div 100), db_fixed = show_nat, db_show = show_nat\<rparr>"

definition by_overall :: "nat keystats list \<Rightarrow> nat keystats list" where
  "by_overall v = rev (sort_key ks_overall v)"

lemma by_overall_sorts: "sorts by_overall"
proof -
  have "sorted_wrt (\<lambda>a b. ks_overall a \<le> ks_overall b) (sort_key ks_overall v)" for v :: "nat keystats list"
    using sorted_sort_key [of ks_overall v] by (simp add: sorted_map)
  then show ?thesis by (simp add: sorts_def by_overall_def sorted_down_def sorted_wrt_rev not_less)
qed

lemma nat_reads_back: "reads_back nat_dbl d"
proof -
  have d: "\<forall>c\<in>set (show_nat d). isdigit c" using show_nat_digits by blast
  have "takeWhile isdigit (show_nat d @ SPC # r) = show_nat d" "dropWhile isdigit (show_nat d @ SPC # r) = SPC # r" for r
    using d SPC_not_digit by (simp_all add: takeWhile_append dropWhile_append)
  moreover have "show_nat d \<noteq> []" by simp
  moreover then have "isdigit (hd (show_nat d))" using d by simp
  ultimately show ?thesis
    using d LF_not_digit isdigit_not_isspace by (auto simp: reads_back_def nat_dbl_def)
qed

definition demo_stats :: "string \<Rightarrow> nat keystats" where
  "demo_stats name = (new_keystats nat_dbl)\<lparr>ks_name := name\<rparr>"

theorem stats_half_lost_witness:
  "fst (read_stats nat_dbl 0 (put [LF] (put_stats nat_dbl [demo_stats ''A'', demo_stats ''B'', demo_stats ''C''] (str_stream [])))) =
    [demo_stats ''A'', demo_stats ''C'']"
proof -
  have "\<forall>k\<in>set [demo_stats ''A'', demo_stats ''B'', demo_stats ''C'']. stats_ok nat_dbl k"
    by (simp add: stats_ok_def nat_reads_back demo_stats_def isspace_def char_consts)
  from stats_half_lost [OF this] show ?thesis by simp
qed

definition top_table :: string where
  "top_table =
     ''<tr><td>1</td><td>Ann</td><td>2</td><td>5</td><td>0</td><td>0</td><td>40</td><td>20</td></tr>'' @
     ''<tr><td>2</td><td>Bob</td><td>3</td><td>5</td><td>0</td><td>0</td><td>40</td><td>20</td></tr>''"

definition top_env :: oa_env where
  "top_env = demo_env\<lparr>en_serve := (\<lambda>_ _ _ _. Some top_table)\<rparr>"

lemma top_cells:
  "tag_texts ''tr'' (str_stream top_table) =
    [''<td>1</td><td>Ann</td><td>2</td><td>5</td><td>0</td><td>0</td><td>40</td><td>20</td>'',
     ''<td>2</td><td>Bob</td><td>3</td><td>5</td><td>0</td><td>0</td><td>40</td><td>20</td>'']"
  "tag_texts ''td'' (str_stream ''<td>1</td><td>Ann</td><td>2</td><td>5</td><td>0</td><td>0</td><td>40</td><td>20</td>'') =
    [''1'', ''Ann'', ''2'', ''5'', ''0'', ''0'', ''40'', ''20'']"
  "tag_texts ''td'' (str_stream ''<td>2</td><td>Bob</td><td>3</td><td>5</td><td>0</td><td>0</td><td>40</td><td>20</td>'') =
    [''2'', ''Bob'', ''3'', ''5'', ''0'', ''0'', ''40'', ''20'']"
  by code_simp+

lemma name_plain:
  assumes "CHR ''<'' \<notin> set s" "CHR ''&'' \<notin> set s"
  shows "html_handle_to_oa s = Some s"
proof -
  have "\<forall>(k, r)\<in>set oa_subs. \<exists>c\<in>set k. c \<notin> set s" using oa_subs_entries assms(1) by fastforce
  moreover have "\<forall>(k, r)\<in>set ents. \<exists>c\<in>set k. c \<notin> set s" using assms(2) by (simp add: ents_sorted)
  ultimately show ?thesis by (simp add: html_handle_to_oa_def fix_entities_def replace_table_plain)
qed

lemma top_env_hol: "lowers (en_hol top_env)" "uppers (en_hol top_env)"
  by (simp_all add: top_env_def demo_env_def hol_ref_ok(3,7))

lemma read_20: "fst (read_siz 0 (str_stream ''20'')) = 20"
  by (simp add: read_siz_def stream_simps split_sign_def digits_val_def digit_val_def Let_def isdigit_def isspace_def code_def
      char_consts)

lemma top_rows_demo:
  "\<exists>v. top_rows top_env db (tag_texts ''tr'' (str_stream top_table)) = Inr v \<and> length v = 2 \<and> filter (\<lambda>k. \<not> ks_to k < 20) v = v"
  by (simp add: top_cells top_row_def cell_def cell_text_def text_of_plain [OF top_env_hol] name_plain S_NAME_def S_KD_def S_CK_def
      S_PW_def S_TO_def Let_def read_20)

lemma get_oatop_demo:
  "\<exists>v s1. get_oatop top_env nat_dbl by_overall ''#1'' s = Inr (v, s1) \<and> length v = 2"
proof -
  obtain y m where ym: "date_of top_env ''#1'' = (y, m)" by fastforce
  have "snd (date_now top_env) < 12" by (simp add: date_now_def top_env_def demo_env_def get_month_def epoch_def to_siz_def)
  from get_url_date [OF this, of "''kd''" "''#1''"] obtain url where url: "get_url ''kd'' y m = Inr url" by (auto simp: ym)
  obtain s1 where page: "oa_page top_env url s = (str_stream top_table, s1)" by (simp add: oa_page_def top_env_def sock_def Let_def)
  obtain v where v: "top_rows top_env nat_dbl (tag_texts ''tr'' (str_stream top_table)) = Inr v" "length v = 2"
    "filter (\<lambda>k. \<not> ks_to k < 20) v = v" using top_rows_demo by blast
  have "length (rank_loop r p d w) = length w" for r p d and w :: "nat keystats list"
    by (induction w arbitrary: r p d) (simp_all add: Let_def split: prod.splits)
  then show ?thesis using v by (simp add: get_oatop_def ym url page Let_def by_overall_def)
qed

theorem oatop_ranks_witness:
  "\<exists>v s1. get_oatop top_env nat_dbl by_overall ''#1'' (ot_oa new_oa_top) = Inr (v, s1) \<and> length v = 2 \<and> sorted_down v \<and>
    list_all (\<lambda>k. ks_rank k = (if better v (ks_overall k) = 0 \<and> ks_overall k = 0 then 0
      else of_nat (Suc (better v (ks_overall k))))) v"
proof -
  obtain v s1 where v: "get_oatop top_env nat_dbl by_overall ''#1'' (ot_oa new_oa_top) = Inr (v, s1)" "length v = 2"
    using get_oatop_demo by blast
  from oatop_ranks [OF by_overall_sorts v(1)] v show ?thesis by (simp add: list_all_iff nat_dbl_def)
qed

definition top_msg :: plugin_msg where
  "top_msg = \<lparr>pm_cmd = [], pm_text = [], pm_nick = [], pm_reply_to = [], pm_user_cmd = ''!oatop'', pm_user_params = ''#1''\<rparr>"

lemma division_demo: "division (words_of (str_stream ''#1'')) 1 1 = Some (1, 10)"
proof -
  have "words_of (str_stream ''#1'') = [''#1'']" by code_simp
  moreover have "read_siz 1 (str_stream ''1'') = (1, hit_eof (str_stream ''1''))"
    by (simp add: read_siz_def stream_simps split_sign_def digits_val_def digit_val_def Let_def isdigit_def isspace_def code_def char_consts)
  ultimately show ?thesis by (simp add: ok_def hit_eof_def str_stream_def)
qed

theorem oatop_division_witness:
  "\<exists>s' (s1 :: oa) v. oatop top_env nat_dbl (\<lambda>s a b. s) by_overall top_msg (ot_oa new_oa_top) = Inr s' \<and> length v = 2 \<and>
    oa_replies s' = oa_replies s1 @ (top_msg, top_title) # map (\<lambda>k. (top_msg, top_line (\<lambda>s a b. s) nat_dbl k)) (take 10 v)"
proof -
  obtain v s1 where v: "get_oatop top_env nat_dbl by_overall (pm_user_params top_msg) (ot_oa new_oa_top) = Inr (v, s1)" "length v = 2"
    using get_oatop_demo [of "ot_oa new_oa_top"] by (auto simp: top_msg_def)
  have "v \<noteq> []" "length v < 2 ^ 64" using v(2) by auto
  moreover have "division (words_of (str_stream (pm_user_params top_msg))) 1 1 = Some (1, 10)"
    by (simp add: top_msg_def division_demo)
  ultimately obtain s' where "oatop top_env nat_dbl (\<lambda>s a b. s) by_overall top_msg (ot_oa new_oa_top) = Inr s'"
    "oa_replies s' = oa_replies s1 @ (top_msg, top_title) # map (\<lambda>k. (top_msg, top_line (\<lambda>s a b. s) nat_dbl k)) (take 10 v)"
    using oatop_division [OF v(1), of 1 "\<lambda>s a b. s"] by auto
  then show ?thesis using v(2) by (intro exI [of _ s'] exI [of _ s1] exI [of _ v]) simp
qed

end
