(* ===== verification/Oa_Text.thy ===== *)
theory Oa_Text
  imports Irc_Colors
begin

text \<open>
  \<open>oatoirc\<close> of \<open>openarena.h\<close>: the colour codes of the game (\<open>^\<close> and a letter or digit) as IRC
  colours, in one pass.  The text is read as a C string, up to its first NUL, and \<open>char\<close> is signed.
\<close>

definition ColorIndex :: "char \<Rightarrow> nat" where
  "ColorIndex c = nat ((schar c - 48) mod 8)"

definition Q_IsColorString :: "string \<Rightarrow> bool" where
  "Q_IsColorString p =
     (case p of c # d # _ \<Rightarrow> c = CHR ''^'' \<and> isalnum d | _ \<Rightarrow> False)"

definition Q_IsSpecialChar :: "char \<Rightarrow> bool" where
  "Q_IsSpecialChar c = (schar c \<noteq> 0 \<and> schar c < 32)"

definition q3ToAnsi :: "string list" where
  "q3ToAnsi =
     [IRC_COLOR @ IRC_Black, IRC_Red, IRC_Green, IRC_Yellow, IRC_Navy_Blue, IRC_Royal_Blue, IRC_Purple,
      IRC_White, IRC_Brown]"

function oatoirc_loop :: "string \<Rightarrow> string \<Rightarrow> string" where
  "oatoirc_loop back msg =
     (case msg of
        [] \<Rightarrow> []
      | c # cs \<Rightarrow>
          if Q_IsColorString msg \<or> c = LF
          then (if c = LF then IRC_NORMAL @ oatoirc_loop back cs
                else IRC_COLOR @ q3ToAnsi ! ColorIndex (hd cs) @ back @ oatoirc_loop back (tl cs))
          else if Q_IsSpecialChar c then ''#'' @ oatoirc_loop back cs
          else c # oatoirc_loop back cs)"
  by pat_completeness auto
termination
  by (relation "measure (\<lambda>(back, msg). length msg)") auto

declare oatoirc_loop.simps [simp del]

definition oatoirc :: "string \<Rightarrow> string \<Rightarrow> string" where
  "oatoirc s back = oatoirc_loop back (takeWhile (\<lambda>c. c \<noteq> NUL) s)"

subsection \<open>What comes out\<close>

lemma ColorIndex_less: "ColorIndex c < 8"
  by (simp add: ColorIndex_def nat_less_iff)

text \<open>A character that a line of IRC may hold.\<close>

definition line_char :: "char \<Rightarrow> bool" where
  "line_char c = (c \<noteq> NUL \<and> c \<noteq> CR \<and> c \<noteq> LF)"

lemma q3_line_chars: "i < 8 \<Longrightarrow> list_all line_char (q3ToAnsi ! i)"
proof -
  have "list_all (list_all line_char) q3ToAnsi"
    by (simp add: q3ToAnsi_def irc_consts line_char_def char_consts)
  moreover assume "i < 8"
  ultimately show ?thesis by (simp add: list_all_length q3ToAnsi_def)
qed

lemma plain_line_char: "c \<noteq> NUL \<Longrightarrow> \<not> Q_IsSpecialChar c \<Longrightarrow> line_char c"
  by (auto simp: line_char_def Q_IsSpecialChar_def schar_def char_consts code_def)

lemma oatoirc_loop_line:
  "list_all line_char back \<Longrightarrow> NUL \<notin> set msg \<Longrightarrow> list_all line_char (oatoirc_loop back msg)"
proof (induction "back" msg rule: oatoirc_loop.induct)
  case (1 bg msg)
  show ?case
  proof (cases msg)
    case Nil
    then show ?thesis by (simp add: oatoirc_loop.simps)
  next
    case (Cons c cs)
    have tl: "NUL \<notin> set cs" "NUL \<notin> set (tl cs)" using "1.prems"(2) Cons by (cases cs; auto)+
    have n: "list_all line_char IRC_NORMAL" "list_all line_char IRC_COLOR" "line_char (CHR ''#'')"
      by (simp_all add: irc_consts line_char_def char_consts)
    consider (newline) "c = LF" | (colour) "c \<noteq> LF" "Q_IsColorString msg" | (special) "c \<noteq> LF" "\<not> Q_IsColorString msg" "Q_IsSpecialChar c"
      | (plain) "c \<noteq> LF" "\<not> Q_IsColorString msg" "\<not> Q_IsSpecialChar c"
      by blast
    then show ?thesis
    proof cases
      case newline
      with "1.IH"(1) [OF Cons _ _ "1.prems"(1) tl(1)] n Cons show ?thesis by (subst oatoirc_loop.simps) simp
    next
      case colour
      with "1.IH"(2) [OF Cons _ _ "1.prems"(1) tl(2)] n Cons "1.prems"(1) q3_line_chars [OF ColorIndex_less]
      show ?thesis by (subst oatoirc_loop.simps) simp
    next
      case special
      with "1.IH"(3) [OF Cons _ _ "1.prems"(1) tl(1)] n Cons show ?thesis by (subst oatoirc_loop.simps) simp
    next
      case plain
      with "1.IH"(4) [OF Cons _ _ "1.prems"(1) tl(1)] plain_line_char [of c] "1.prems"(2) Cons
      show ?thesis by (subst oatoirc_loop.simps) auto
    qed
  qed
qed

text \<open>a name of the game turned into IRC colours stays one line: whatever bytes the name has, no
  line break and no NUL comes out, so a player cannot put a second command on the wire.\<close>

theorem oatoirc_one_line:
  assumes "list_all line_char back"
  shows "list_all line_char (oatoirc s back)"
proof -
  have "NUL \<notin> set (takeWhile (\<lambda>c. c \<noteq> NUL) s)" by (auto dest: set_takeWhileD)
  then show ?thesis using oatoirc_loop_line [OF assms] by (simp add: oatoirc_def)
qed

theorem oatoirc_one_line_witness: "list_all line_char (oatoirc [CHR ''a'', LF, CHR ''^'', CHR ''1'', CR, CHR ''b''] '',1'')"
  by (rule oatoirc_one_line) (simp add: line_char_def char_consts)

text \<open>Black writes the colour byte twice, the second one without digits of its own before it.\<close>

lemma black_twice: "oatoirc ''^0a'' [] = IRC_COLOR @ IRC_COLOR @ IRC_Black @ ''a''"
  by (simp add: oatoirc_def oatoirc_loop.simps Q_IsColorString_def isalnum_def isdigit_def code_def q3ToAnsi_def
      ColorIndex_def schar_def irc_consts NUL_def LF_def Q_IsSpecialChar_def)

definition plain_char :: "char \<Rightarrow> bool" where
  "plain_char c = (32 \<le> code c \<and> code c < 128 \<and> c \<noteq> CHR ''^'')"

lemma plain_char_kept: "plain_char c \<Longrightarrow> c \<noteq> LF \<and> c \<noteq> NUL \<and> \<not> Q_IsSpecialChar c \<and> c \<noteq> CHR ''^''"
  by (auto simp: plain_char_def Q_IsSpecialChar_def schar_def LF_def NUL_def code_def)

lemma plain_loop: "list_all plain_char s \<Longrightarrow> oatoirc_loop back s = s"
proof (induction s)
  case (Cons c s)
  then have "\<not> Q_IsColorString (c # s)" "c \<noteq> LF" "\<not> Q_IsSpecialChar c"
    using plain_char_kept [of c] by (auto simp: Q_IsColorString_def split: list.splits)
  then show ?case using Cons by (subst oatoirc_loop.simps) simp
qed (simp add: oatoirc_loop.simps)

lemma plain_kept: "list_all plain_char s \<Longrightarrow> oatoirc s back = s"
proof -
  have "list_all plain_char s \<Longrightarrow> takeWhile (\<lambda>c. c \<noteq> NUL) s = s"
    by (induction s) (use plain_char_kept in auto)
  moreover assume "list_all plain_char s"
  ultimately show ?thesis by (simp only: oatoirc_def plain_loop)
qed

end
