(* ===== verification/Buffered_Output.thy ===== *)
theory Buffered_Output
  imports Prelude
begin

text \<open>
  The contract of a buffered output: a character that is put goes behind what will be shown, and a
  flush shows everything.  \<open>shown\<close> is the abstract value, which is what the consumer gets in the
  end; the buffer in between cannot be seen in it.  Putting or flushing that fails is \<open>None\<close>.  The
  streams of the sockets and that of the console keep it.
\<close>

fun put_all :: "(char \<Rightarrow> 's \<Rightarrow> 's option) \<Rightarrow> string \<Rightarrow> 's \<Rightarrow> 's option" where
  "put_all put1 [] s = Some s"
| "put_all put1 (c # cs) s = (case put1 c s of None \<Rightarrow> None | Some s1 \<Rightarrow> put_all put1 cs s1)"

lemma put_all_append:
  "put_all put1 (as @ bs) s = Option.bind (put_all put1 as s) (put_all put1 bs)"
  by (induction as arbitrary: s) (auto split: option.splits)

locale buffered_output =
  fixes put1 :: "char \<Rightarrow> 's \<Rightarrow> 's option"
    and flush1 :: "'s \<Rightarrow> 's option"
    and inv :: "'s \<Rightarrow> bool"
    and clean :: "'s \<Rightarrow> bool"
    and shown :: "'s \<Rightarrow> 'a"
    and add_char :: "char \<Rightarrow> 'a \<Rightarrow> 'a"
  assumes put_law: "inv s \<Longrightarrow> \<exists>s'. put1 c s = Some s' \<and> inv s' \<and> shown s' = add_char c (shown s)"
    and flush_law: "inv s \<Longrightarrow> \<exists>s'. flush1 s = Some s' \<and> inv s' \<and> clean s' \<and> shown s' = shown s"
begin

lemma put_all_shown:
  "inv s \<Longrightarrow> \<exists>s'. put_all put1 cs s = Some s' \<and> inv s' \<and> shown s' = fold add_char cs (shown s)"
proof (induction cs arbitrary: s)
  case (Cons c cs)
  obtain s1 where "put1 c s = Some s1" "inv s1" "shown s1 = add_char c (shown s)"
    using put_law [OF Cons.prems] by blast
  with Cons.IH [of s1] show ?case by auto
qed simp

lemma written_and_flushed:
  assumes "inv s"
  shows "\<exists>s1 s2. put_all put1 cs s = Some s1 \<and> flush1 s1 = Some s2 \<and> inv s2 \<and> clean s2 \<and>
    shown s2 = fold add_char cs (shown s)"
proof -
  obtain s1 where s1: "put_all put1 cs s = Some s1" "inv s1" "shown s1 = fold add_char cs (shown s)"
    using put_all_shown [OF assms] by blast
  with flush_law [of s1] show ?thesis by auto
qed

text \<open>Flushing in between makes no difference.\<close>

lemma flushed_between:
  assumes "inv s"
  shows "\<exists>s1 s2 s3. put_all put1 as s = Some s1 \<and> flush1 s1 = Some s2 \<and> put_all put1 bs s2 = Some s3 \<and>
    inv s3 \<and> shown s3 = fold add_char (as @ bs) (shown s)"
proof -
  obtain s1 s2 where s: "put_all put1 as s = Some s1" "flush1 s1 = Some s2" "inv s2" "shown s2 = fold add_char as (shown s)"
    using written_and_flushed [OF assms] by blast
  with put_all_shown [of s2 bs] show ?thesis by auto
qed

end

lemma fold_snoc: "fold (\<lambda>c t. t @ [c]) cs t = t @ cs"
  by (induction cs arbitrary: t) simp_all

end
