(* ===== verification/Socket_Stream.thy ===== *)
theory Socket_Stream
  imports Streams Buffered_Output
begin

text \<open>
  The stream buffer over a socket and its stream (\<open>socketstream.h\<close>).  The socket is given by what
  happens on it: \<open>sb_recvs\<close> is what the next calls of \<open>recv\<close> return, \<open>None\<close> for the end of the
  connection, an error, or no data on a socket that does not block; \<open>sb_sends\<close> is what the next
  calls of \<open>send\<close> return, as far as the buffer is that long, and a negative number for an error.
  When the lists are used up, \<open>recv\<close> finds the end and \<open>send\<close> takes everything.  \<open>sb_wire\<close> is what
  the peer has got, \<open>sb_live\<close> says that the descriptor is that of a connection, and \<open>sb_closed\<close> is the list
  of the descriptors that were closed.
\<close>

record sockbuf =
  sb_sock :: nat
  sb_live :: bool
  sb_in :: string
  sb_out :: string
  sb_recvs :: "string option list"
  sb_sends :: "int list"
  sb_wire :: string
  sb_closed :: "nat list"

definition BUF_SIZE :: nat where "BUF_SIZE = 128"

definition new_sockbuf :: sockbuf where
  "new_sockbuf = \<lparr>sb_sock = 0, sb_live = False, sb_in = [], sb_out = [], sb_recvs = [], sb_sends = [], sb_wire = [], sb_closed = []\<rparr>"

definition set_socket :: "nat \<Rightarrow> sockbuf \<Rightarrow> sockbuf" where
  "set_socket fd s = s\<lparr>sb_sock := fd, sb_live := True\<rparr>"

subsection \<open>The buffer\<close>

text \<open>\<open>send\<close>: the number of bytes taken, or -1; a closed socket takes none.\<close>

definition sock_send :: "string \<Rightarrow> sockbuf \<Rightarrow> int \<times> sockbuf" where
  "sock_send data s =
     (if \<not> sb_live s then (-1, s)
      else let n = int (length data);
               r = (case sb_sends s of [] \<Rightarrow> n | t # _ \<Rightarrow> if t < 0 then -1 else min t n)
           in (r, s\<lparr>sb_sends := tl (sb_sends s), sb_wire := sb_wire s @ take (nat r) data\<rparr>))"

text \<open>\<open>output_buffer\<close>: whether it returns the number of characters rather than \<open>eof\<close>.\<close>

definition output_buffer :: "sockbuf \<Rightarrow> bool \<times> sockbuf" where
  "output_buffer s =
     (case sock_send (sb_out s) s of (r, s1) \<Rightarrow>
        if r \<noteq> int (length (sb_out s)) then (False, s1) else (True, s1\<lparr>sb_out := []\<rparr>))"

text \<open>Writing behind the end of \<open>obuf\<close> is an error.\<close>

datatype buf_error = Overrun

definition overflow :: "char \<Rightarrow> sockbuf \<Rightarrow> buf_error + (bool \<times> sockbuf)" where
  "overflow c s =
     (if BUF_SIZE \<le> length (sb_out s) then Inl Overrun
      else Inr (output_buffer (s\<lparr>sb_out := sb_out s @ [c]\<rparr>)))"

definition sync :: "sockbuf \<Rightarrow> bool \<times> sockbuf" where
  "sync s = output_buffer s"

text \<open>\<open>sputc\<close> of the base class, with the put area that the constructor sets.\<close>

definition sputc :: "char \<Rightarrow> sockbuf \<Rightarrow> buf_error + (bool \<times> sockbuf)" where
  "sputc c s =
     (if length (sb_out s) < BUF_SIZE - 1 then Inr (True, s\<lparr>sb_out := sb_out s @ [c]\<rparr>) else overflow c s)"

text \<open>\<open>recv\<close> of at most \<open>SIZE\<close> bytes.\<close>

definition sock_recv :: "sockbuf \<Rightarrow> string option \<times> sockbuf" where
  "sock_recv s =
     (case sb_recvs s of
        [] \<Rightarrow> (None, s)
      | None # rs \<Rightarrow> (None, s\<lparr>sb_recvs := rs\<rparr>)
      | Some d # rs \<Rightarrow>
          if d = [] then (None, s\<lparr>sb_recvs := rs\<rparr>)
          else (Some (take BUF_SIZE d),
                s\<lparr>sb_recvs := (if length d \<le> BUF_SIZE then rs else Some (drop BUF_SIZE d) # rs)\<rparr>))"

text \<open>\<open>underflow\<close> returns a \<open>char\<close> where an \<open>int_type\<close> is meant; \<open>eof\<close> is -1.\<close>

definition underflow :: "sockbuf \<Rightarrow> int \<times> sockbuf" where
  "underflow s =
     (if sb_in s \<noteq> [] then (schar (hd (sb_in s)), s)
      else case sock_recv s of
        (None, s1) \<Rightarrow> (-1, s1)
      | (Some d, s1) \<Rightarrow> (schar (hd d), s1\<lparr>sb_in := d\<rparr>))"

text \<open>\<open>sbumpc\<close> of the base class, with its \<open>uflow\<close>: \<open>None\<close> is \<open>eof\<close>.\<close>

definition sbumpc :: "sockbuf \<Rightarrow> char option \<times> sockbuf" where
  "sbumpc s =
     (if sb_in s \<noteq> [] then (Some (hd (sb_in s)), s\<lparr>sb_in := tl (sb_in s)\<rparr>)
      else case underflow s of (c, s1) \<Rightarrow>
        if c = -1 then (None, s1) else (Some (hd (sb_in s1)), s1\<lparr>sb_in := tl (sb_in s1)\<rparr>))"

subsection \<open>The stream\<close>

record sockstream = sockbuf +
  st_bad :: bool

definition new_sockstream :: sockstream where
  "new_sockstream = sockbuf.extend new_sockbuf \<lparr>st_bad = False\<rparr>"

text \<open>An operation of the buffer inside the stream.\<close>

definition on_buf :: "(sockbuf \<Rightarrow> bool \<times> sockbuf) \<Rightarrow> sockstream \<Rightarrow> sockstream" where
  "on_buf f s =
     (case f (sockbuf.truncate s) of (r, b) \<Rightarrow> sockbuf.extend b \<lparr>st_bad = (st_bad s \<or> \<not> r)\<rparr>)"

text \<open>\<open>os << text\<close> and \<open>os << std::flush\<close>: nothing happens on a stream that is bad.\<close>

fun put_chars :: "string \<Rightarrow> sockstream \<Rightarrow> buf_error + sockstream" where
  "put_chars [] s = Inr s"
| "put_chars (c # cs) s =
     (if st_bad s then Inr s
      else case sputc c (sockbuf.truncate s) of
        Inl e \<Rightarrow> Inl e
      | Inr (r, b) \<Rightarrow> put_chars cs (sockbuf.extend b \<lparr>st_bad = \<not> r\<rparr>))"

definition flush :: "sockstream \<Rightarrow> sockstream" where
  "flush s = (if st_bad s then s else on_buf sync s)"

definition ss_close :: "sockstream \<Rightarrow> sockstream" where
  "ss_close s =
     (if sb_sock s \<noteq> 0 then s\<lparr>sb_live := False, sb_closed := sb_closed s @ [sb_sock s], st_bad := False\<rparr> else s\<lparr>st_bad := False\<rparr>)"

text \<open>\<open>open\<close>: the descriptor of the new connection, or \<open>None\<close> when one of its system calls fails.\<close>

definition ss_open :: "nat option \<Rightarrow> sockstream \<Rightarrow> bool \<times> sockstream" where
  "ss_open fd s =
     (let s1 = ss_close s
      in case fd of None \<Rightarrow> (False, s1\<lparr>st_bad := True\<rparr>) | Some n \<Rightarrow> (True, s1\<lparr>sb_sock := n, sb_live := True\<rparr>))"

text \<open>The destructor of the stream, then that of its buffer.\<close>

definition ss_destroy :: "sockstream \<Rightarrow> sockstream" where
  "ss_destroy s = on_buf sync (ss_close s)"

text \<open>The stream of an accepted connection.\<close>

definition socket_stream :: "nat \<Rightarrow> sockstream" where
  "socket_stream fd = sockbuf.extend (set_socket fd new_sockbuf) \<lparr>st_bad = False\<rparr>"

subsection \<open>Writing\<close>

lemma send_all:
  "sb_live s \<Longrightarrow> sb_sends s = [] \<Longrightarrow> output_buffer s = (True, s\<lparr>sb_out := [], sb_wire := sb_wire s @ sb_out s\<rparr>)"
  by (simp add: output_buffer_def sock_send_def)

definition writable :: "sockstream \<Rightarrow> bool" where
  "writable s = (sb_live s \<and> sb_sends s = [] \<and> \<not> st_bad s \<and> length (sb_out s) < BUF_SIZE)"

text \<open>One character and one flush that do not fail; what the peer has when the buffer is empty.\<close>

definition sock_put :: "char \<Rightarrow> sockstream \<Rightarrow> sockstream option" where
  "sock_put c s =
     (if st_bad s then None
      else case sputc c (sockbuf.truncate s) of
        Inl e \<Rightarrow> None
      | Inr (r, b) \<Rightarrow> (if r then Some (sockbuf.extend b \<lparr>st_bad = False\<rparr>) else None))"

definition sock_flush :: "sockstream \<Rightarrow> sockstream option" where
  "sock_flush s = (let s1 = flush s in if st_bad s1 then None else Some s1)"

definition sock_shown :: "sockstream \<Rightarrow> string" where
  "sock_shown s = sb_wire s @ sb_out s"

lemma put_chars_put_all: "put_all sock_put t s = Some s' \<Longrightarrow> put_chars t s = Inr s'"
  by (induction t arbitrary: s) (auto simp: sock_put_def split: option.splits sum.splits if_splits prod.splits)

lemma sock_put_law:
  assumes "writable s"
  shows "\<exists>s'. sock_put c s = Some s' \<and> writable s' \<and> sock_shown s' = sock_shown s @ [c]"
proof (cases "length (sb_out s) < BUF_SIZE - 1")
  case True
  then have "sock_put c s = Some (s\<lparr>sb_out := sb_out s @ [c]\<rparr>)"
    using assms by (cases s) (simp add: writable_def sock_put_def sputc_def sockbuf.defs)
  then show ?thesis using True assms by (simp add: writable_def sock_shown_def)
next
  case False
  then have "sock_put c s = Some (s\<lparr>sb_out := [], sb_wire := sb_wire s @ sb_out s @ [c]\<rparr>)"
    using assms by (cases s) (simp add: writable_def sock_put_def sputc_def overflow_def send_all sockbuf.defs)
  then show ?thesis using assms by (simp add: writable_def sock_shown_def BUF_SIZE_def)
qed

lemma sock_flush_law:
  "writable s \<Longrightarrow> \<exists>s'. sock_flush s = Some s' \<and> writable s' \<and> sb_out s' = [] \<and> sock_shown s' = sock_shown s"
  by (simp add: sock_flush_def flush_def on_buf_def sync_def writable_def send_all sock_shown_def BUF_SIZE_def
      sockbuf.defs Let_def)

interpretation sock_out: buffered_output sock_put sock_flush writable "\<lambda>s. sb_out s = []" sock_shown "\<lambda>c t. t @ [c]"
  by unfold_locales (simp_all add: sock_put_law sock_flush_law)

lemma written_exactly':
  assumes "writable s"
  shows "\<exists>s'. put_chars text s = Inr s' \<and> \<not> st_bad (flush s') \<and> sb_out (flush s') = [] \<and>
    sb_wire (flush s') = sb_wire s @ sb_out s @ text"
proof -
  obtain s1 s2 where s: "put_all sock_put text s = Some s1" "sock_flush s1 = Some s2" "sb_out s2 = []"
    "sock_shown s2 = sock_shown s @ text"
    using sock_out.written_and_flushed [OF assms, of "text"] by (auto simp: fold_snoc)
  have "s2 = flush s1" "\<not> st_bad (flush s1)" using s(2) by (auto simp: sock_flush_def Let_def split: if_splits)
  then show ?thesis using s put_chars_put_all [OF s(1)] by (auto simp: sock_shown_def)
qed

text \<open>C9: 
  On a connection that takes whatever is sent, a text that is written and flushed reaches the peer as
  it is, behind what was written before, whatever its length and however it is cut at the size of
  the buffer.
\<close>

theorem written_exactly:
  assumes "writable s"
  shows "\<exists>s'. put_chars text s = Inr s' \<and> \<not> st_bad (flush s') \<and> sb_out (flush s') = [] \<and>
    sb_wire (flush s') = sb_wire s @ sb_out s @ text"
  using assms by (rule written_exactly')

theorem written_exactly_witness:
  "\<exists>s'. put_chars (replicate 300 (CHR ''x'')) (socket_stream 5) = Inr s' \<and> \<not> st_bad (flush s') \<and> sb_out (flush s') = [] \<and>
    sb_wire (flush s') = replicate 300 (CHR ''x'')"
  using written_exactly [of "socket_stream 5" "replicate 300 (CHR ''x'')"]
  by (simp add: writable_def socket_stream_def set_socket_def new_sockbuf_def sockbuf.defs BUF_SIZE_def)

text \<open>When \<open>send\<close> takes a part, the stream fails and keeps the whole buffer: once its state is cleared,
  the next flush sends the part again.\<close>

lemma short_send_repeats:
  assumes "sb_live s" "\<not> st_bad s" "sb_sends s = [t]" "0 \<le> t" "t < int (length (sb_out s))"
  shows "st_bad (flush s)" "sb_wire (flush ((flush s)\<lparr>st_bad := False\<rparr>)) = sb_wire s @ take (nat t) (sb_out s) @ sb_out s"
  using assms by (simp_all add: flush_def on_buf_def sync_def output_buffer_def sock_send_def sockbuf.defs)

text \<open>
  A character for which the buffer has no room left and whose sending fails stays in the last place
  of the buffer.  Opening the stream again clears its state but not the buffer: the next
  character is written behind its end.
\<close>

theorem reopened_overrun:
  assumes "\<not> st_bad s" "length (sb_out s) = BUF_SIZE - 1" "sb_live s" "sb_sends s = (- 1) # ts"
  shows "\<exists>s'. put_chars [c] s = Inr s' \<and> st_bad s' \<and> put_chars [d] (snd (ss_open (Some fd) s')) = Inl Overrun"
proof -
  define s' where "s' = s\<lparr>sb_out := sb_out s @ [c], sb_sends := ts, st_bad := True\<rparr>"
  have "put_chars [c] s = Inr s'"
    using assms by (cases s) (simp add: s'_def sputc_def overflow_def output_buffer_def sock_send_def sockbuf.defs BUF_SIZE_def)
  moreover have "put_chars [d] (snd (ss_open (Some fd) s')) = Inl Overrun"
    using assms by (simp add: s'_def ss_open_def ss_close_def sputc_def overflow_def sockbuf.defs BUF_SIZE_def)
  ultimately show ?thesis by (intro exI [of _ s']) (simp add: s'_def)
qed

text \<open>The destructor closes the connection first and then flushes: what was not flushed is lost.  A stream
  that was closed closes its descriptor again, whoever has it by then.\<close>

lemma unflushed_lost: "sb_wire (ss_destroy s) = sb_wire s" if "sb_sock s \<noteq> 0"
  using that by (simp add: ss_destroy_def ss_close_def on_buf_def sync_def output_buffer_def sock_send_def sockbuf.defs)

lemma closed_twice: "sb_sock s \<noteq> 0 \<Longrightarrow> sb_closed (ss_close (ss_close s)) = sb_closed s @ [sb_sock s, sb_sock s]"
  by (simp add: ss_close_def)

subsection \<open>Reading\<close>

definition pending :: "sockbuf \<Rightarrow> nat" where
  "pending s = length (sb_in s) + sum_list (map (\<lambda>r. case r of None \<Rightarrow> 0 | Some d \<Rightarrow> length d) (sb_recvs s))"

lemma sbumpc_pending: "sbumpc s = (Some c, s') \<Longrightarrow> pending s' < pending s"
  by (auto simp: sbumpc_def underflow_def sock_recv_def pending_def BUF_SIZE_def neq_Nil_conv
      split: if_splits list.splits option.splits prod.splits)

text \<open>Everything the stream reads up to its first \<open>eof\<close>.\<close>

function drain :: "sockbuf \<Rightarrow> string \<times> sockbuf" where
  "drain s =
     (case sbumpc s of
        (None, s1) \<Rightarrow> ([], s1)
      | (Some c, s1) \<Rightarrow> (case drain s1 of (t, s2) \<Rightarrow> (c # t, s2)))"
  by pat_completeness auto
termination
  by (relation "measure pending") (auto dest: sbumpc_pending [OF sym])

declare drain.simps [simp del]

text \<open>The characters in front of the end, and chunks that no byte 255 begins.\<close>

definition content :: "sockbuf \<Rightarrow> string" where
  "content s = sb_in s @ concat (map the (takeWhile (\<lambda>r. r \<noteq> None) (sb_recvs s)))"

definition plain_chunk :: "string option \<Rightarrow> bool" where
  "plain_chunk r = (case r of None \<Rightarrow> True | Some d \<Rightarrow> d \<noteq> [] \<and> length d \<le> BUF_SIZE \<and> hd d \<noteq> CHR 0xFF)"

lemma schar_eof: "schar c = - 1 \<longleftrightarrow> c = CHR 0xFF"
  using schar_inj [of c "CHR 0xFF"] by (simp add: schar_def code_def)

lemma sbumpc_content:
  assumes "list_all plain_chunk (sb_recvs s)" "sbumpc s = (c, s')"
  shows "list_all plain_chunk (sb_recvs s')"
    "case c of None \<Rightarrow> content s = [] | Some x \<Rightarrow> content s = x # content s'"
proof -
  note defs = sbumpc_def underflow_def sock_recv_def content_def plain_chunk_def schar_eof
  have "list_all plain_chunk (sb_recvs s') \<and> (case c of None \<Rightarrow> content s = [] | Some x \<Rightarrow> content s = x # content s')"
  proof (cases "sb_in s")
    case Nil
    then show ?thesis using assms
      by (auto simp: defs neq_Nil_conv split: if_splits list.splits option.splits prod.splits)
  next
    case (Cons y ys)
    then show ?thesis using assms by (auto simp: sbumpc_def content_def)
  qed
  then show "list_all plain_chunk (sb_recvs s')"
    "case c of None \<Rightarrow> content s = [] | Some x \<Rightarrow> content s = x # content s'" by simp_all
qed

lemma drain_content: "list_all plain_chunk (sb_recvs s) \<Longrightarrow> fst (drain s) = content s"
proof (induction s rule: drain.induct)
  case (1 s)
  obtain c s1 where b: "sbumpc s = (c, s1)" by fastforce
  note n = sbumpc_content [OF "1.prems" b]
  show ?case
  proof (cases c)
    case None
    then show ?thesis using b n by (subst drain.simps) simp
  next
    case (Some x)
    then have "fst (drain s1) = content s1" using "1.IH" b n(1) by simp
    then show ?thesis using b n Some by (subst drain.simps) (simp add: split_def)
  qed
qed

text \<open>
  The stream gives the bytes of the connection in their order, whatever pieces they arrive in, up to
  the end, and reading a character is reading it from the abstract stream of the bytes that are left;
  as long as no piece begins with the byte 255.
\<close>

theorem socket_reads_stream:
  assumes "list_all plain_chunk (sb_recvs s)" "sbumpc s = (c, s')"
  shows "fst (drain s) = content s \<and> fst (get_ch (str_stream (content s))) = c \<and>
    (case c of None \<Rightarrow> True | Some x \<Rightarrow> snd (get_ch (str_stream (content s))) = str_stream (content s'))"
  using drain_content [OF assms(1)] sbumpc_content [OF assms] by (auto split: option.splits)

text \<open>A piece that begins with the byte 255 ends the stream, although it has arrived.\<close>

lemma byte_255_ends: "sb_in s = [] \<Longrightarrow> sb_recvs s = Some (CHR 0xFF # d) # rs \<Longrightarrow> fst (drain s) = []"
  by (subst drain.simps) (simp add: sbumpc_def underflow_def sock_recv_def schar_eof BUF_SIZE_def)

theorem socket_reads_stream_witness:
  "fst (drain (new_sockbuf\<lparr>sb_recvs := [Some ''PI'', Some ''NG'', None, Some ''x'']\<rparr>)) = ''PING''"
proof -
  let ?s = "new_sockbuf\<lparr>sb_recvs := [Some ''PI'', Some ''NG'', None, Some ''x'']\<rparr>"
  have "list_all plain_chunk (sb_recvs ?s)" by (simp add: plain_chunk_def BUF_SIZE_def)
  from socket_reads_stream [OF this surjective_pairing] show ?thesis by (simp add: content_def new_sockbuf_def)
qed

theorem reopened_overrun_witness:
  "\<exists>s'. put_chars ''x'' ((socket_stream 5)\<lparr>sb_out := replicate 127 (CHR ''a''), sb_sends := [- 1]\<rparr>) = Inr s' \<and> st_bad s' \<and>
    put_chars ''y'' (snd (ss_open (Some 6) s')) = Inl Overrun"
  by (rule reopened_overrun) (simp_all add: socket_stream_def set_socket_def new_sockbuf_def sockbuf.defs BUF_SIZE_def)

end
