(* ===== verification/Remote_Console.thy ===== *)
theory Remote_Console
  imports Bot_Facts Socket_Stream
begin

text \<open>
  The console over the network: the plugin that serves it (\<open>plugin-rserver.h\<close>, \<open>plugin-rserver.cpp\<close>) and its
  two clients (\<open>skivvy-client.cpp\<close>, \<open>skivvy-client-nc.cpp\<close>).  A request is a command up to a NUL, the answer
  the output of \<open>IrcBot::exec\<close> up to a NUL.  The sockets are those of \<open>Socket_Stream\<close>; what a
  connection accepted by the plugin has not received yet counts as its end, since its socket does
  not block.  The members \<open>port\<close> and \<open>host\<close> are arguments of the system calls only.
\<close>

subsection \<open>The plugin\<close>

text \<open>\<open>while(ss.get(c) && c) cmd.append(1, c);\<close> and whether the loop met the end.\<close>

function read_nul :: "sockbuf \<Rightarrow> string \<times> bool \<times> sockbuf" where
  "read_nul s =
     (case sbumpc s of
        (None, s1) \<Rightarrow> ([], True, s1)
      | (Some c, s1) \<Rightarrow>
          if c = NUL then ([], False, s1) else (case read_nul s1 of (t, e, s2) \<Rightarrow> (c # t, e, s2)))"
  by pat_completeness auto
termination
  by (relation "measure pending") (auto dest: sbumpc_pending [OF sym])

declare read_nul.simps [simp del]

text \<open>The stream after the loop; an answer is put into the stream the command was read from.\<close>

definition process :: "bot_sys \<Rightarrow> int \<Rightarrow> sockstream \<Rightarrow> bot \<Rightarrow> (buf_error + (sockstream \<times> bot_error option \<times> bot)) option" where
  "process y now s b =
     (case read_nul (sockbuf.truncate s) of (cmd, ended, sb) \<Rightarrow>
        let s1 = sockbuf.extend sb \<lparr>st_bad = (st_bad s \<or> ended)\<rparr>; cmd1 = h_trim (y_hol y) cmd
        in if cmd1 = [] then Some (Inr (ss_destroy s1, None, b))
           else case exec y now cmd1 True b of
             None \<Rightarrow> None
           | Some (out, Some e, b1) \<Rightarrow> Some (Inr (ss_destroy s1, Some e, b1))
           | Some (out, None, b1) \<Rightarrow>
               (case put_chars (out @ [NUL]) s1 of
                  Inl e \<Rightarrow> Some (Inl e)
                | Inr s2 \<Rightarrow> Some (Inr (ss_destroy (flush s2), None, b1))))"

text \<open>
  \<open>listen\<close> behind \<open>bind\<close>: what the calls of \<open>accept4\<close> return, and \<open>exit\<close> as an event between them.  The
  future of \<open>std::async\<close> is a temporary whose destructor waits, so a connection is served before
  the next one is accepted; an exception stays in it.  \<open>served\<close> collects what the peers got.
\<close>

datatype accepted = Connection nat "string option list" | Would_Block | Accept_Error | Exit

record rserver =
  rs_done :: bool
  rs_served :: "string list"
  rs_bot :: bot

definition rs_exit :: "rserver \<Rightarrow> rserver" where
  "rs_exit s = s\<lparr>rs_done := True\<rparr>"

text \<open>The result of \<open>listen\<close>, \<open>None\<close> while it waits for the next event.\<close>

fun listen_loop :: "bot_sys \<Rightarrow> int \<Rightarrow> accepted list \<Rightarrow> rserver \<Rightarrow> (buf_error + (bool option \<times> rserver)) option" where
  "listen_loop y now [] s = Some (Inr (if rs_done s then Some True else None, s))"
| "listen_loop y now (a # as) s =
     (if rs_done s then Some (Inr (Some True, s))
      else case a of
        Exit \<Rightarrow> listen_loop y now as (rs_exit s)
      | Would_Block \<Rightarrow> listen_loop y now as s
      | Accept_Error \<Rightarrow> Some (Inr (Some False, s))
      | Connection fd recvs \<Rightarrow>
          (case process y now ((socket_stream fd)\<lparr>sb_recvs := recvs\<rparr>) (rs_bot s) of
             None \<Rightarrow> None
           | Some (Inl e) \<Rightarrow> Some (Inl e)
           | Some (Inr (ss, _, b)) \<Rightarrow> listen_loop y now as (s\<lparr>rs_bot := b, rs_served := rs_served s @ [sb_wire ss]\<rparr>)))"

definition rs_listen ::
  "bot_sys \<Rightarrow> int \<Rightarrow> bool \<Rightarrow> bool \<Rightarrow> accepted list \<Rightarrow> rserver \<Rightarrow> (buf_error + (bool option \<times> rserver)) option" where
  "rs_listen y now bound listening as s =
     (if \<not> bound \<or> \<not> listening then Some (Inr (Some False, s)) else listen_loop y now as s)"

text \<open>The member \<open>done\<close> is not initialized.\<close>

definition new_rserver :: "bool \<Rightarrow> bot \<Rightarrow> rserver" where
  "new_rserver junk b = \<lparr>rs_done = junk, rs_served = [], rs_bot = b\<rparr>"

subsection \<open>The clients\<close>

text \<open>\<open>skivvy-client-nc.cpp\<close>: \<open>send\<close> with the descriptor of its connection; \<open>recvs\<close> is the answer.\<close>

definition nc_send :: "nat option \<Rightarrow> string option list \<Rightarrow> string \<Rightarrow> string \<Rightarrow> buf_error + (bool \<times> string \<times> string)" where
  "nc_send fd recvs cmd res =
     (case ss_open fd new_sockstream of
        (False, s) \<Rightarrow> Inr (False, res, [])
      | (True, s) \<Rightarrow>
          (case put_chars (cmd @ [NUL]) s of
             Inl e \<Rightarrow> Inl e
           | Inr s1 \<Rightarrow>
               let s2 = flush s1
               in if st_bad s2 then Inr (False, res, sb_wire s2)
                  else case read_nul ((sockbuf.truncate s2)\<lparr>sb_recvs := recvs\<rparr>) of (t, ended, _) \<Rightarrow>
                    Inr (\<not> (ended \<and> t = []), t, sb_wire s2)))"

text \<open>\<open>skivvy-client.cpp\<close>.  \<open>cmd + "\0"\<close> appends an empty string.\<close>

definition client_bytes :: "string \<Rightarrow> string" where
  "client_bytes cmd = cmd @ []"

text \<open>\<open>send\<close>: what the calls of \<open>write_some\<close> return, a negative number for an error; the error and the bytes.\<close>

fun asio_send :: "int list \<Rightarrow> string \<Rightarrow> bool \<times> string" where
  "asio_send [] msg = (False, msg)"
| "asio_send (t # ts) msg =
     (if t < 0 then (True, [])
      else if length msg \<le> nat t then (False, msg)
      else case asio_send ts (drop (nat t) msg) of (e, w) \<Rightarrow> (e, take (nat t) msg @ w))"

text \<open>\<open>recv\<close>: the pieces that arrive, then the end, which is an error.\<close>

function asio_recv :: "string list \<Rightarrow> string \<Rightarrow> bool \<times> string" where
  "asio_recv [] msg = (True, msg)"
| "asio_recv (d # ds) msg =
     (if length d < 1024 then (False, msg @ d)
      else asio_recv (if length d = 1024 then ds else drop 1024 d # ds) (msg @ take 1024 d))"
  by pat_completeness auto
termination
  by (relation "measure (\<lambda>(ds, msg). length (concat ds) + length ds)") auto

definition client_send :: "bool \<Rightarrow> int list \<Rightarrow> string list \<Rightarrow> string \<Rightarrow> string \<Rightarrow> bool \<times> string" where
  "client_send connected writes reads cmd res =
     (if \<not> connected then (False, res)
      else if fst (asio_send writes (client_bytes cmd)) then (False, res)
      else case asio_recv reads [] of (e, msg) \<Rightarrow> if e then (False, res) else (True, msg))"

subsection \<open>A session of a client\<close>

record client =
  cl_line :: string
  cl_prev :: string
  cl_prompts :: "string list"
  cl_history :: "string list"
  cl_out :: "string list"
  cl_sent :: "string list"

text \<open>\<open>answer n cmd\<close> is what the \<open>n\<close>-th \<open>send\<close> gives, \<open>None\<close> when it fails.\<close>

definition cl_send :: "(nat \<Rightarrow> string \<Rightarrow> string option) \<Rightarrow> string \<Rightarrow> client \<Rightarrow> string option \<times> client" where
  "cl_send answer cmd c = (answer (length (cl_sent c)) cmd, c\<lparr>cl_sent := cl_sent c @ [cmd]\<rparr>)"

definition cl_prompt :: "string \<Rightarrow> client \<Rightarrow> client" where
  "cl_prompt p c = c\<lparr>cl_prompts := cl_prompts c @ [p]\<rparr>"

text \<open>The body of the loop of \<open>run\<close> for a line that was read and trimmed; \<open>p\<close> is the prompt of before.\<close>

definition client_turn :: "hol \<Rightarrow> (nat \<Rightarrow> string \<Rightarrow> string option) \<Rightarrow> string \<Rightarrow> client \<Rightarrow> string \<times> client" where
  "client_turn h answer p c =
     (if cl_line c = [] then (p, c)
      else let c1 = (if cl_line c \<noteq> cl_prev c
                     then c\<lparr>cl_history := cl_history c @ [cl_line c], cl_prev := cl_line c\<rparr> else c);
               (res, c2) = cl_send answer (cl_line c) c1;
               c3 = (case res of None \<Rightarrow> c2
                     | Some t \<Rightarrow> if h_trim h t = [] then c2 else c2\<lparr>cl_out := cl_out c2 @ [h_trim h t @ [LF]]\<rparr>);
               (name, c4) = cl_send answer ''/botnick'' c3
           in ((case name of None \<Rightarrow> p | Some n \<Rightarrow> ''<'' @ n @ ''>: ''), c4))"

text \<open>The loop; the list holds what \<open>readline\<close> returns up to the end of the input.\<close>

fun client_loop :: "hol \<Rightarrow> (nat \<Rightarrow> string \<Rightarrow> string option) \<Rightarrow> string list \<Rightarrow> string \<Rightarrow> client \<Rightarrow> client" where
  "client_loop h answer [] p c = c"
| "client_loop h answer (i # is) p c =
     (if cl_line c = ''/die'' then c
      else let c1 = c\<lparr>cl_line := h_trim h i\<rparr>
           in if cl_line c1 = ''exit'' then c1
              else case client_turn h answer p c1 of (p1, c2) \<Rightarrow> client_loop h answer is p1 (cl_prompt p1 c2))"

definition client_run :: "hol \<Rightarrow> (nat \<Rightarrow> string \<Rightarrow> string option) \<Rightarrow> string list \<Rightarrow> string list \<Rightarrow> client" where
  "client_run h answer history inputs =
     (let c = \<lparr>cl_line = [], cl_prev = [], cl_prompts = [], cl_history = history, cl_out = [], cl_sent = []\<rparr>;
          (name, c1) = cl_send answer ''/botnick'' c;
          p = (case name of None \<Rightarrow> ''unknown: '' | Some n \<Rightarrow> n @ '': '')
      in client_loop h answer inputs p (cl_prompt p c1))"

subsection \<open>The command line of a client\<close>

record client_args =
  ca_config :: string
  ca_host :: string
  ca_port :: string

definition default_args :: client_args where
  "default_args = \<lparr>ca_config = ''$HOME/.skivvy'', ca_host = ''localhost'', ca_port = ''7334''\<rparr>"

text \<open>One \<open>if\<close> of the loop: \<open>*arg\<close>, the arguments behind it and the values; \<open>None\<close> ends the program.\<close>

definition take_option ::
  "string \<Rightarrow> (string \<Rightarrow> client_args \<Rightarrow> client_args) \<Rightarrow> string \<times> string list \<times> client_args \<Rightarrow>
    (string \<times> string list \<times> client_args) option" where
  "take_option key set_value st =
     (case st of (arg, rest, a) \<Rightarrow>
        if arg = key then (case rest of [] \<Rightarrow> None | v # vs \<Rightarrow> Some (v, vs, set_value v a)) else Some (arg, rest, a))"

definition take_options :: "string \<Rightarrow> string list \<Rightarrow> client_args \<Rightarrow> (string list \<times> client_args) option" where
  "take_options arg rest a =
     Option.bind (take_option ''--config'' (\<lambda>v a. a\<lparr>ca_config := v\<rparr>) (arg, rest, a)) (\<lambda>s1.
     Option.bind (take_option ''--host'' (\<lambda>v a. a\<lparr>ca_host := v\<rparr>) s1) (\<lambda>s2.
     Option.bind (take_option ''--port'' (\<lambda>v a. a\<lparr>ca_port := v\<rparr>) s2) (\<lambda>s3. Some (snd s3))))"

lemma take_option_length:
  "take_option key f (arg, rest, a) = Some (arg', rest', a') \<Longrightarrow> length rest' \<le> length rest"
  by (auto simp: take_option_def split: if_splits list.splits)

lemma take_options_length: "take_options arg rest a = Some (rest', a') \<Longrightarrow> length rest' \<le> length rest"
  by (auto simp: take_options_def bind_eq_Some_conv dest!: take_option_length)

function parse_args :: "string list \<Rightarrow> client_args \<Rightarrow> client_args option" where
  "parse_args [] a = Some a"
| "parse_args (arg # rest) a =
     (case take_options arg rest a of None \<Rightarrow> None | Some (rest1, a1) \<Rightarrow> parse_args rest1 a1)"
  by pat_completeness auto
termination
  by (relation "measure (\<lambda>(as, a). length as)") (auto dest!: take_options_length)

subsection \<open>A command and its answer\<close>

definition write_side :: "sockbuf \<Rightarrow> nat \<times> bool \<times> string \<times> int list \<times> string" where
  "write_side s = (sb_sock s, sb_live s, sb_out s, sb_sends s, sb_wire s)"

lemma sbumpc_writes: "sbumpc s = (c, s') \<Longrightarrow> write_side s' = write_side s"
  by (auto simp: write_side_def sbumpc_def underflow_def sock_recv_def
      split: if_splits list.splits option.splits prod.splits)

lemma read_nul_writes: "write_side (snd (snd (read_nul s))) = write_side s"
proof (induction s rule: read_nul.induct)
  case (1 s)
  obtain c s1 where b: "sbumpc s = (c, s1)" by fastforce
  note w = sbumpc_writes [OF b]
  show ?case
  proof (cases "c = None \<or> c = Some NUL")
    case True
    then show ?thesis using b w by (subst read_nul.simps) auto
  next
    case False
    then obtain x where x: "c = Some x" "x \<noteq> NUL" by (cases c) auto
    then have "write_side (snd (snd (read_nul s1))) = write_side s1" using "1.IH" b by simp
    then show ?thesis using b w x by (subst read_nul.simps) (simp add: split_def)
  qed
qed

text \<open>Reading a command that a NUL ends, and one that the end of the connection ends.\<close>

lemma read_nul_text:
  assumes "list_all plain_chunk (sb_recvs s)" "NUL \<notin> set t"
  shows "content s = t @ NUL # r \<Longrightarrow> \<exists>s'. read_nul s = (t, False, s')"
    "content s = t \<Longrightarrow> \<exists>s'. read_nul s = (t, True, s')"
  using assms
proof (induction s arbitrary: t rule: read_nul.induct)
  case (1 s)
  obtain c s1 where b: "sbumpc s = (c, s1)" by fastforce
  { case 1
    then show ?case
    proof (cases t)
      case Nil
      then have "c = Some NUL" using sbumpc_content [OF 1(2) b] 1(1) by (auto split: option.splits)
      then show ?thesis using b Nil by (subst read_nul.simps) simp
    next
      case (Cons x xs)
      then have c: "c = Some x" "x \<noteq> NUL" "content s1 = xs @ NUL # r"
        using sbumpc_content [OF 1(2) b] 1(1,3) by (auto split: option.splits)
      then obtain s' where "read_nul s1 = (xs, False, s')"
        using "1.IH"(1) [OF b [symmetric] c(1,2,3)] sbumpc_content(1) [OF 1(2) b] 1(3) Cons by auto
      then show ?thesis using b c Cons by (subst read_nul.simps) simp
    qed
  next
    case 2
    then show ?case
    proof (cases t)
      case Nil
      then have "c = None" using sbumpc_content [OF 2(2) b] 2(1) by (auto split: option.splits)
      then show ?thesis using b Nil by (subst read_nul.simps) simp
    next
      case (Cons x xs)
      then have c: "c = Some x" "x \<noteq> NUL" "content s1 = xs"
        using sbumpc_content [OF 2(2) b] 2(1,3) by (auto split: option.splits)
      then obtain s' where "read_nul s1 = (xs, True, s')"
        using "1.IH"(2) [OF b [symmetric] c(1,2,3)] sbumpc_content(1) [OF 2(2) b] 2(3) Cons by auto
      then show ?thesis using b c Cons by (subst read_nul.simps) simp
    qed
  }
qed

text \<open>The connection as the two ends see it.\<close>

definition arrives :: "string option list \<Rightarrow> string \<Rightarrow> bool" where
  "arrives recvs text = (list_all plain_chunk recvs \<and> concat (map the (takeWhile (\<lambda>r. r \<noteq> None) recvs)) = text)"

lemma content_accepted: "arrives recvs text \<Longrightarrow> content (sockbuf.truncate ((socket_stream fd)\<lparr>sb_recvs := recvs\<rparr>)) = text"
  by (simp add: arrives_def content_def socket_stream_def set_socket_def new_sockbuf_def sockbuf.defs)

lemma destroyed: "sb_out s = [] \<Longrightarrow> sb_wire (ss_destroy s) = sb_wire s"
  by (auto simp: ss_destroy_def ss_close_def on_buf_def sync_def output_buffer_def sock_send_def sockbuf.defs split: list.splits)

lemma answered:
  assumes "arrives recvs (cmd @ [NUL])" "NUL \<notin> set cmd" "h_trim (y_hol y) cmd \<noteq> []"
    and "exec y now (h_trim (y_hol y) cmd) True b = Some (out, None, b1)"
  shows "\<exists>ss. process y now ((socket_stream fd)\<lparr>sb_recvs := recvs\<rparr>) b = Some (Inr (ss, None, b1)) \<and> sb_wire ss = out @ [NUL]"
proof -
  let ?s = "(socket_stream fd)\<lparr>sb_recvs := recvs\<rparr>"
  have p: "list_all plain_chunk (sb_recvs (sockbuf.truncate ?s))" using assms(1) by (simp add: arrives_def sockbuf.defs)
  obtain sb where r: "read_nul (sockbuf.truncate ?s) = (cmd, False, sb)"
    using read_nul_text(1) [OF p assms(2)] content_accepted [OF assms(1)] by auto
  let ?t = "sockbuf.extend sb \<lparr>st_bad = False\<rparr>"
  have "write_side sb = write_side (sockbuf.truncate ?s)" using read_nul_writes [of "sockbuf.truncate ?s"] r by simp
  then have "writable ?t" "sb_wire ?t = []" "sb_out ?t = []"
    by (simp_all add: write_side_def writable_def socket_stream_def set_socket_def new_sockbuf_def sockbuf.defs BUF_SIZE_def)
  then obtain s' where s': "put_chars (out @ [NUL]) ?t = Inr s'" "sb_out (flush s') = []" "sb_wire (flush s') = out @ [NUL]"
    using written_exactly' [of ?t "out @ [NUL]"] by auto
  have "\<not> st_bad ?s" by (simp add: socket_stream_def sockbuf.defs)
  then show ?thesis using assms(3,4) s' destroyed [OF s'(2)] by (simp add: process_def r Let_def)
qed

lemma output_buffer_in: "sb_in (snd (output_buffer s)) = sb_in s"
  by (simp add: output_buffer_def sock_send_def Let_def split: prod.split)

lemma flush_in: "sb_in (flush s) = sb_in s"
  using output_buffer_in [of "sockbuf.truncate s"]
  by (auto simp: flush_def on_buf_def sync_def sockbuf.defs split: prod.split)

lemma sputc_in: "sputc c s = Inr (r, s') \<Longrightarrow> sb_in s' = sb_in s"
  using output_buffer_in [of "s\<lparr>sb_out := sb_out s @ [c]\<rparr>"]
  by (auto simp: sputc_def overflow_def split: if_splits)

lemma put_chars_in: "put_chars t s = Inr s' \<Longrightarrow> sb_in s' = sb_in s"
proof (induction t arbitrary: s)
  case (Cons c t)
  show ?case
  proof (cases "st_bad s")
    case False
    then obtain r b where "sputc c (sockbuf.truncate s) = Inr (r, b)" "put_chars t (sockbuf.extend b \<lparr>st_bad = \<not> r\<rparr>) = Inr s'"
      using Cons.prems by (auto split: sum.splits prod.splits)
    then show ?thesis using Cons.IH sputc_in by (fastforce simp: sockbuf.defs)
  qed (use Cons.prems in simp)
qed simp

text \<open>C8: A command of \<open>skivvy-client-nc\<close> that is not blank and has no NUL reaches \<open>exec\<close> of the bot, trimmed, and what \<open>exec\<close> writes, if it
  writes no NUL and throws nothing, is what the client gets, provided that each of the two has wholly arrived before its
  reader first finds the socket empty, in any pieces that fit the buffer and do not begin with the byte 255.  (The bot
  reads from a socket that does not wait: what comes later is cut off, and a piece that begins with the byte 255 ends
  the stream.)\<close>

theorem console_round_trip:
  assumes "arrives recvs (cmd @ [NUL])" "NUL \<notin> set cmd" "h_trim (y_hol y) cmd \<noteq> []"
    and "exec y now (h_trim (y_hol y) cmd) True b = Some (out, None, b1)"
    and "arrives replies (out @ [NUL])" "NUL \<notin> set out"
  shows "\<exists>ss. process y now ((socket_stream fd)\<lparr>sb_recvs := recvs\<rparr>) b = Some (Inr (ss, None, b1)) \<and>
    sb_wire ss = out @ [NUL] \<and> nc_send (Some fd') replies cmd res = Inr (True, out, cmd @ [NUL])"
proof -
  obtain ss where ss: "process y now ((socket_stream fd)\<lparr>sb_recvs := recvs\<rparr>) b = Some (Inr (ss, None, b1))"
    "sb_wire ss = out @ [NUL]" using answered [OF assms(1-4)] by blast
  obtain s where s: "ss_open (Some fd') new_sockstream = (True, s)" "writable s" "sb_wire s = []" "sb_out s = []"
    by (simp add: ss_open_def ss_close_def new_sockstream_def new_sockbuf_def writable_def sockbuf.defs BUF_SIZE_def)
  obtain s' where s': "put_chars (cmd @ [NUL]) s = Inr s'" "\<not> st_bad (flush s')" "sb_wire (flush s') = cmd @ [NUL]"
    using written_exactly' [OF s(2), of "cmd @ [NUL]"] s(3,4) by auto
  have "sb_in s = []" using s(1) by (auto simp: ss_open_def ss_close_def new_sockstream_def new_sockbuf_def sockbuf.defs Let_def)
  then have i: "sb_in (flush s') = []" using put_chars_in [OF s'(1)] by (simp add: flush_in)
  let ?c = "(sockbuf.truncate (flush s'))\<lparr>sb_recvs := replies\<rparr>"
  have "list_all plain_chunk (sb_recvs ?c)" "content ?c = out @ [NUL]"
    using assms(5) i by (simp_all add: arrives_def content_def sockbuf.defs)
  from read_nul_text(1) [OF this(1) assms(6) this(2)] obtain t where "read_nul ?c = (out, False, t)" by blast
  then have "nc_send (Some fd') replies cmd res = Inr (True, out, cmd @ [NUL])"
    using s' by (simp add: nc_send_def s Let_def)
  with ss show ?thesis by blast
qed

text \<open>C30: 
  \<open>skivvy-client\<close> does not send the NUL.  When its bytes have arrived the bot executes the command, but the
  loop has met the end of the stream, and nothing can be written into it any more: the client reads
  the end of the connection and reports a failure.
\<close>

theorem client_unanswered:
  assumes "arrives recvs (snd (asio_send writes (client_bytes cmd)))" "\<not> fst (asio_send writes (client_bytes cmd))"
    and "NUL \<notin> set cmd" "h_trim (y_hol y) cmd \<noteq> []"
    and "exec y now (h_trim (y_hol y) cmd) True b = Some (out, None, b1)"
  shows "\<exists>ss. process y now ((socket_stream fd)\<lparr>sb_recvs := recvs\<rparr>) b = Some (Inr (ss, None, b1)) \<and>
    sb_wire ss = [] \<and> client_send True writes [] cmd res = (False, res)"
proof -
  have all: "\<not> fst (asio_send ts m) \<Longrightarrow> snd (asio_send ts m) = m" for ts m
    by (induction ts m rule: asio_send.induct) (auto split: if_splits prod.splits)
  let ?s = "(socket_stream fd)\<lparr>sb_recvs := recvs\<rparr>"
  have a: "arrives recvs cmd" using assms(1) all [OF assms(2)] by (simp add: client_bytes_def)
  have p: "list_all plain_chunk (sb_recvs (sockbuf.truncate ?s))" using a by (simp add: arrives_def sockbuf.defs)
  obtain sb where r: "read_nul (sockbuf.truncate ?s) = (cmd, True, sb)"
    using read_nul_text(2) [OF p assms(3)] content_accepted [OF a] by auto
  let ?t = "sockbuf.extend sb \<lparr>st_bad = True\<rparr>"
  have "write_side sb = write_side (sockbuf.truncate ?s)" using read_nul_writes [of "sockbuf.truncate ?s"] r by simp
  then have t: "sb_wire ?t = []" "sb_out ?t = []"
    by (simp_all add: write_side_def socket_stream_def set_socket_def new_sockbuf_def sockbuf.defs)
  have "put_chars (out @ [NUL]) ?t = Inr ?t" by (cases out) (simp_all add: sockbuf.defs)
  moreover have "flush ?t = ?t" by (simp add: flush_def sockbuf.defs)
  ultimately have "process y now ?s b = Some (Inr (ss_destroy ?t, None, b1))"
    using assms(4,5) by (simp add: process_def r Let_def)
  then show ?thesis using destroyed [OF t(2)] t(1) assms(2) by (simp add: client_send_def)
qed

text \<open>An answer longer than what one read returns is cut there: the bot sends in pieces of 128 bytes.\<close>

lemma answer_cut: "length d < 1024 \<Longrightarrow> snd (client_send True [] (d # ds) cmd res) = d"
  by (simp add: client_send_def)

subsection \<open>The commands of a session\<close>

text \<open>The lines that count: not empty, in front of \<open>exit\<close>, and up to the first \<open>/die\<close>.\<close>

fun session :: "hol \<Rightarrow> string list \<Rightarrow> string list" where
  "session h [] = []"
| "session h (i # is) =
     (let l = h_trim h i
      in if l = ''exit'' then [] else if l = ''/die'' then [l] else if l = [] then session h is else l # session h is)"

lemma client_loop_sent:
  "cl_sent (client_loop h answer is p c) =
    cl_sent c @ (if cl_line c = ''/die'' then [] else concat (map (\<lambda>l. [l, ''/botnick'']) (session h is)))"
proof (induction "is" arbitrary: p c)
  case (Cons i "is")
  have die: "cl_line c = ''/die'' \<Longrightarrow> cl_sent (client_loop h answer is p c) = cl_sent c" for p c
    by (cases "is") simp_all
  let ?c = "c\<lparr>cl_line := h_trim h i\<rparr>"
  obtain p1 c2 where t: "client_turn h answer p ?c = (p1, c2)" by fastforce
  have "cl_line c2 = h_trim h i \<and> cl_sent c2 = cl_sent c @ (if h_trim h i = [] then [] else [h_trim h i, ''/botnick''])"
    using t by (auto simp: client_turn_def cl_send_def Let_def split: if_splits option.splits)
  then show ?case using Cons.IH [of p1 "cl_prompt p1 c2"] die [of "cl_prompt p1 c2" p1] t
    by (simp add: Let_def cl_prompt_def)
qed simp

text \<open>
  A session sends every line that is not empty, in order and once, up to \<open>exit\<close> or behind the first
  \<open>/die\<close>, and asks for the name of the bot at its start and after each of them.
\<close>

theorem session_sends:
  "cl_sent (client_run h answer history inputs) =
    ''/botnick'' # concat (map (\<lambda>l. [l, ''/botnick'']) (session h inputs))"
  by (simp add: client_run_def cl_send_def cl_prompt_def client_loop_sent Let_def split: prod.splits)

text \<open>A value is looked at as an option again: \<open>--config --host x\<close> sets both.\<close>

lemma value_as_option:
  "parse_args [''--config'', ''--host'', ''x''] default_args =
    Some (default_args\<lparr>ca_config := ''--host'', ca_host := ''x''\<rparr>)"
  by (simp add: take_options_def take_option_def default_args_def)

lemma botnick_demo: "exec demo_sys 0 ''/botnick'' True (demo_bot []) = Some (''bot'', None, demo_bot [])"
proof -
  have "read_word [] (str_stream ''/botnick'') = (''/botnick'', hit_eof (str_stream ''/botnick''))"
    by (rule read_word_last [where ws = "[]"]) (simp_all add: isspace_def char_consts)
  moreover have "h_lower (y_hol demo_sys) ''/botnick'' = ''/botnick''"
    by (simp add: demo_sys_def hol_ref_def tolower_def code_def)
  ultimately show ?thesis by (simp add: exec_def exec_ok_def out_if_def Let_def) (simp add: demo_bot_def)
qed

lemma trim_demo: "h_trim (y_hol demo_sys) ''/botnick'' = ''/botnick''"
  using trim_trimmed [OF hol_ref_ok(2), of "''/botnick''"] by (simp add: demo_sys_def trimmed_def isspace_def char_consts)

theorem console_round_trip_witness:
  "\<exists>ss. process demo_sys 0 ((socket_stream 5)\<lparr>sb_recvs := [Some ''/bot'', Some (''nick'' @ [NUL])]\<rparr>) (demo_bot []) =
      Some (Inr (ss, None, demo_bot [])) \<and> sb_wire ss = ''bot'' @ [NUL] \<and>
    nc_send (Some 4) [Some ''bot'', Some [NUL]] ''/botnick'' [] = Inr (True, ''bot'', ''/botnick'' @ [NUL])"
  by (rule console_round_trip)
    (simp_all add: trim_demo botnick_demo arrives_def plain_chunk_def BUF_SIZE_def NUL_def)

theorem client_unanswered_witness:
  "\<exists>ss. process demo_sys 0 ((socket_stream 5)\<lparr>sb_recvs := [Some ''/botnick'']\<rparr>) (demo_bot []) =
      Some (Inr (ss, None, demo_bot [])) \<and> sb_wire ss = [] \<and> client_send True [3] [] ''/botnick'' ''x'' = (False, ''x'')"
  by (rule client_unanswered [where out = "''bot''"])
    (simp_all add: trim_demo botnick_demo arrives_def plain_chunk_def BUF_SIZE_def NUL_def client_bytes_def)

end
