(* ===== verification/Smtp.thy ===== *)
theory Smtp
  imports Plugin_Web
begin

text \<open>
  \<open>mail.h\<close>: sending a mail over SMTP.  The connection is a stream of the lines the server answers and
  the text that was sent; both fail together, as the two directions of one stream do.  The
  address of the server is an argument of \<open>open\<close> only.
\<close>

record smtp =
  sm_mailfrom :: string
  sm_rcptto :: string
  sm_from :: string
  sm_to :: string
  sm_replyto :: string

record smtp_io =
  io_in :: istream
  io_out :: string

text \<open>\<open>os << data << "\r\n" << std::flush\<close>.\<close>

definition tx :: "string \<Rightarrow> smtp_io \<Rightarrow> smtp_io" where
  "tx data io =
     (if good (io_in io) then io\<lparr>io_out := io_out io @ data @ CRLF\<rparr> else io\<lparr>io_in := set_fail (io_in io)\<rparr>)"

text \<open>The position that \<open>find\<close> returns counts as true unless it is 0.\<close>

definition rx :: "hol \<Rightarrow> string \<Rightarrow> smtp_io \<Rightarrow> bool \<times> smtp_io" where
  "rx h num io =
     (case getline LF [] (io_in io) of (reply, is) \<Rightarrow>
        (ok is \<and> find_str num (h_trim h reply) = Some 0, io\<lparr>io_in := is\<rparr>))"

text \<open>\<open>tx\<close> followed by \<open>rx\<close>, as long as the answers are right.\<close>

definition ask :: "hol \<Rightarrow> string list \<Rightarrow> string \<Rightarrow> bool \<times> smtp_io \<Rightarrow> bool \<times> smtp_io" where
  "ask h datas num r = (case r of (b, io) \<Rightarrow> if b then rx h num (fold tx datas io) else (False, io))"

definition mail_lines :: "smtp \<Rightarrow> string \<Rightarrow> string \<Rightarrow> string \<Rightarrow> string list" where
  "mail_lines sm time subject data =
     [''From: '' @ sm_mailfrom sm, ''To: '' @ sm_rcptto sm, ''Date: '' @ time, ''Subject: '' @ subject] @
     (if sm_replyto sm \<noteq> [] then [''Reply-To: '' @ sm_replyto sm] else []) @ [[], data]"

text \<open>\<open>conn\<close> is what the server answers in all, \<open>None\<close> when the connection cannot be opened.\<close>

definition sendmail :: "hol \<Rightarrow> smtp \<Rightarrow> string \<Rightarrow> string option \<Rightarrow> string \<Rightarrow> string \<Rightarrow> bool \<times> smtp_io" where
  "sendmail h sm time conn subject data =
     ask h [''QUIT''] ''221''
       (ask h (mail_lines sm time subject data @ [''.'']) ''250''
         (ask h [''DATA''] ''354''
           (ask h [''RCPT TO: '' @ sm_rcptto sm] ''250''
             (ask h [''MAIL FROM: '' @ sm_mailfrom sm] ''250''
               (ask h [''HELO sookee.dyndns.org''] ''250''
                 (ask h [] ''220'' (True, \<lparr>io_in = sock conn, io_out = []\<rparr>)))))))"

subsection \<open>The dialogue\<close>

definition codes :: "string list" where
  "codes = [''220'', ''250'', ''250'', ''250'', ''354'', ''250'', ''221'']"

definition right_reply :: "hol \<Rightarrow> string \<Rightarrow> string \<Rightarrow> bool" where
  "right_reply h num reply = starts_with num (h_trim h reply)"

lemma find_str_start: "find_str k s = Some 0 \<longleftrightarrow> starts_with k s"
  by (cases s) (auto simp: starts_with_iff)

lemma tx_all: "good (io_in io) \<Longrightarrow> fold tx ds io = io\<lparr>io_out := io_out io @ concat (map (\<lambda>d. d @ CRLF) ds)\<rparr>"
  by (induction ds arbitrary: io) (simp_all add: tx_def)

lemma ask_line:
  assumes "LF \<notin> set reply"
  shows "ask h ds num (True, \<lparr>io_in = str_stream (reply @ LF # r), io_out = t\<rparr>) =
    (right_reply h num reply, \<lparr>io_in = str_stream r, io_out = t @ concat (map (\<lambda>d. d @ CRLF) ds)\<rparr>)"
  using assms by (simp add: ask_def tx_all rx_def getline_found [where l = reply] right_reply_def find_str_start)

lemma ask_failed: "ask h ds num (False, io) = (False, io)"
  by (simp add: ask_def)

text \<open>What the client sends in a dialogue that goes well.\<close>

definition dialogue :: "smtp \<Rightarrow> string \<Rightarrow> string \<Rightarrow> string \<Rightarrow> string list" where
  "dialogue sm time subject data =
     [''HELO sookee.dyndns.org'', ''MAIL FROM: '' @ sm_mailfrom sm, ''RCPT TO: '' @ sm_rcptto sm, ''DATA''] @
     mail_lines sm time subject data @ [''.'', ''QUIT'']"

text \<open>
  Against a server that answers a line to every step, sending a mail succeeds exactly when every
  answer begins with the code of its step, and then the whole dialogue was sent, each line
  ended by CR LF.
\<close>

theorem mail_sent_iff:
  assumes "rs = [r1, r2, r3, r4, r5, r6, r7]" "list_all (\<lambda>r. LF \<notin> set r) rs"
  shows "case sendmail h sm time (Some (lines_text rs)) subject data of (sent, io) \<Rightarrow>
    (sent \<longleftrightarrow> list_all2 (right_reply h) codes rs) \<and>
    (sent \<longrightarrow> io_out io = concat (map (\<lambda>d. d @ CRLF) (dialogue sm time subject data)))"
proof -
  note a = ask_line [where h = h] ask_failed
  have n: "LF \<notin> set r1" "LF \<notin> set r2" "LF \<notin> set r3" "LF \<notin> set r4" "LF \<notin> set r5" "LF \<notin> set r6" "LF \<notin> set r7"
    using assms by simp_all
  show ?thesis
    unfolding sendmail_def assms(1) codes_def
    by (cases "right_reply h ''220'' r1"; cases "right_reply h ''250'' r2"; cases "right_reply h ''250'' r3";
        cases "right_reply h ''250'' r4"; cases "right_reply h ''354'' r5"; cases "right_reply h ''250'' r6";
        cases "right_reply h ''221'' r7"; simp add: a n sock_def ask_failed dialogue_def)
qed

subsection \<open>What a server takes from the dialogue\<close>

text \<open>The lines of a mail as SMTP defines them: up to a line of one dot, and a dot at the front of a line is
  taken away.\<close>

definition unstuff :: "string \<Rightarrow> string" where
  "unstuff l = (if l \<noteq> [] \<and> hd l = CHR ''.'' then tl l else l)"

definition server_lines :: "string \<Rightarrow> string list" where
  "server_lines t = map unstuff (takeWhile (\<lambda>l. l \<noteq> ''.'') (map butlast (lines_of (str_stream t))))"

lemma unstuffed: "map unstuff (takeWhile (\<lambda>l. l \<noteq> ''.'') ls) = ls \<longleftrightarrow> list_all (\<lambda>l. l = [] \<or> hd l \<noteq> CHR ''.'') ls"
proof (induction ls)
  case (Cons l ls)
  have "unstuff l = l \<longleftrightarrow> l = [] \<or> hd l \<noteq> CHR ''.''" by (cases l) (auto simp: unstuff_def)
  then show ?case using Cons.IH by auto
qed simp

lemma CRLF_lines: "concat (map (\<lambda>d. d @ CRLF) ls) = lines_text (map (\<lambda>d. d @ [CR]) ls)"
  by (induction ls) (simp_all add: CRLF_def)

text \<open>
  A server gets the text of a mail, line by line, exactly when none of its lines begins with a dot: they
  are sent as they are.  A line of one dot ends the mail, and the rest of the text is taken for commands.
\<close>

theorem mail_received_iff:
  assumes "data @ CRLF = concat (map (\<lambda>d. d @ CRLF) ls)" "list_all (\<lambda>d. LF \<notin> set d) ls"
    and "list_all (\<lambda>d. LF \<notin> set d) [sm_mailfrom sm, sm_rcptto sm, sm_replyto sm, time, subject]"
  shows "server_lines (concat (map (\<lambda>d. d @ CRLF) (mail_lines sm time subject data @ [''.'']))) =
      butlast (mail_lines sm time subject data) @ ls \<longleftrightarrow> list_all (\<lambda>l. l = [] \<or> hd l \<noteq> CHR ''.'') ls"
proof -
  define hs where "hs = butlast (mail_lines sm time subject data)"
  have m: "mail_lines sm time subject data = hs @ [data]" by (simp add: hs_def mail_lines_def)
  have h: "\<forall>l\<in>set hs. LF \<notin> set l \<and> (l = [] \<or> hd l \<noteq> CHR ''.'')"
    using assms(3) by (auto simp: hs_def mail_lines_def char_consts)
  have "concat (map (\<lambda>d. d @ CRLF) (mail_lines sm time subject data @ [''.''])) =
      lines_text (map (\<lambda>d. d @ [CR]) (hs @ ls @ [''.'']))"
    using assms(1) unfolding m CRLF_lines [symmetric] by simp
  moreover have "\<forall>l\<in>set (map (\<lambda>d. d @ [CR]) (hs @ ls @ [''.''])). LF \<notin> set l"
    using h assms(2) by (auto simp: list_all_iff char_consts)
  ultimately have "server_lines (concat (map (\<lambda>d. d @ CRLF) (mail_lines sm time subject data @ [''.'']))) =
      map unstuff (takeWhile (\<lambda>l. l \<noteq> ''.'') (hs @ ls @ [''.'']))"
    by (simp add: server_lines_def lines_of_text comp_def)
  also have "takeWhile (\<lambda>l. l \<noteq> ''.'') (hs @ ls @ [''.'']) = takeWhile (\<lambda>l. l \<noteq> ''.'') (hs @ ls)"
    by (simp add: takeWhile_tail flip: append_assoc)
  finally show ?thesis using h unfolding hs_def [symmetric] by (simp add: unstuffed list_all_iff) blast
qed

definition demo_smtp :: smtp where
  "demo_smtp = \<lparr>sm_mailfrom = ''<a@h>'', sm_rcptto = ''<b@h>'', sm_from = [], sm_to = [], sm_replyto = []\<rparr>"

theorem mail_received_iff_witness:
  "server_lines (concat (map (\<lambda>d. d @ CRLF) (mail_lines demo_smtp ''now'' ''s'' (''Hi'' @ CRLF @ ''.'' @ CRLF @ ''QUIT'') @ [''.'']))) \<noteq>
     butlast (mail_lines demo_smtp ''now'' ''s'' (''Hi'' @ CRLF @ ''.'' @ CRLF @ ''QUIT'')) @ [''Hi'', ''.'', ''QUIT'']"
proof -
  have "\<not> list_all (\<lambda>l. l = [] \<or> hd l \<noteq> CHR ''.'') [''Hi'', ''.'', ''QUIT'']" by simp
  then show ?thesis
    by (subst mail_received_iff) (simp_all add: demo_smtp_def char_consts)
qed

lemma demo_replies:
  "list_all2 (right_reply hol_ref) codes [''220 h'', ''250 h'', ''250 ok'', ''250 ok'', ''354 go'', ''250 ok'', ''221 bye'']"
  by code_simp

theorem mail_sent_iff_witness:
  "fst (sendmail hol_ref demo_smtp ''now'' (Some (lines_text
     [''220 h'', ''250 h'', ''250 ok'', ''250 ok'', ''354 go'', ''250 ok'', ''221 bye''])) ''s'' ''Hi'')"
  using mail_sent_iff [of "[''220 h'', ''250 h'', ''250 ok'', ''250 ok'', ''354 go'', ''250 ok'', ''221 bye'']"
      "''220 h''" "''250 h''" "''250 ok''" "''250 ok''" "''354 go''" "''250 ok''" "''221 bye''" hol_ref demo_smtp "''now''" "''s''" "''Hi''"]
    demo_replies
  by (auto simp: char_consts split: prod.splits)

end
