(* ===== verification/Irc_Numerics.thy ===== *)
theory Irc_Numerics
  imports Std_Map
begin

text \<open>
  The command words and the numeric replies of the protocol (\<open>irc-constants.h\<close>), each a string constant:
  tables of the names with their values, and the ranges of the code_values.
\<close>

definition KEYWORDS :: "(string \<times> string) list" where
  "KEYWORDS =
    [(''PASS'', ''PASS''), (''NICK'', ''NICK''), (''USER'', ''USER''), (''JOIN'', ''JOIN''),
     (''INVITE'', ''INVITE''), (''KICK'', ''KICK''), (''PART'', ''PART''), (''PING'', ''PING''),
     (''PONG'', ''PONG''), (''PRIVMSG'', ''PRIVMSG''), (''NOTICE'', ''NOTICE''), (''ACTION'', ''ACTION''),
     (''QUERY'', ''QUERY''), (''WHOIS'', ''WHOIS''), (''QUIT'', ''QUIT''), (''MODE'', ''MODE''),
     (''AUTH'', ''AUTH'')]"

definition numeric_replies :: "(string \<times> string) list" where
  "numeric_replies =
    [(''RPL_WELCOME'', ''001''), (''RPL_YOURHOST'', ''002''), (''RPL_CREATED'', ''003''),
     (''RPL_MYINFO'', ''004''), (''RPL_BOUNCE'', ''005''), (''RPL_TRACELINK'', ''200''),
     (''RPL_TRACECONNECTING'', ''201''), (''RPL_TRACEHANDSHAKE'', ''202''), (''RPL_TRACEUNKNOWN'', ''203''),
     (''RPL_TRACEOPERATOR'', ''204''), (''RPL_TRACEUSER'', ''205''), (''RPL_TRACESERVER'', ''206''),
     (''RPL_TRACESERVICE'', ''207''), (''RPL_TRACENEWTYPE'', ''208''), (''RPL_TRACECLASS'', ''209''),
     (''RPL_TRACERECONNECT'', ''210''), (''RPL_STATSLINKINFO'', ''211''), (''RPL_STATSCOMMANDS'', ''212''),
     (''RPL_STATSCLINE'', ''213''), (''RPL_STATSNLINE'', ''214''), (''RPL_STATSILINE'', ''215''),
     (''RPL_STATSKLINE'', ''216''), (''RPL_STATSQLINE'', ''217''), (''RPL_STATSYLINE'', ''218''),
     (''RPL_ENDOFSTATS'', ''219''), (''RPL_UMODEIS'', ''221''), (''RPL_SERVICEINFO'', ''231''),
     (''RPL_ENDOFSERVICES'', ''232''), (''RPL_SERVICE'', ''233''), (''RPL_SERVLIST'', ''234''),
     (''RPL_SERVLISTEND'', ''235''), (''RPL_STATSVLINE'', ''240''), (''RPL_STATSLLINE'', ''241''),
     (''RPL_STATSUPTIME'', ''242''), (''RPL_STATSOLINE'', ''243''), (''RPL_STATSHLINE'', ''244''),
     (''RPL_STATSSLINE'', ''244''), (''RPL_STATSPING'', ''246''), (''RPL_STATSBLINE'', ''247''),
     (''RPL_STATSDLINE'', ''250''), (''RPL_LUSERCLIENT'', ''251''), (''RPL_LUSEROP'', ''252''),
     (''RPL_LUSERUNKNOWN'', ''253''), (''RPL_LUSERCHANNELS'', ''254''), (''RPL_LUSERME'', ''255''),
     (''RPL_ADMINME'', ''256''), (''RPL_ADMINLOC1'', ''257''), (''RPL_ADMINLOC2'', ''258''),
     (''RPL_ADMINEMAIL'', ''259''), (''RPL_TRACELOG'', ''261''), (''RPL_TRACEEND'', ''262''),
     (''RPL_TRYAGAIN'', ''263''), (''RPL_NONE'', ''300''), (''RPL_AWAY'', ''301''), (''RPL_USERHOST'', ''302''),
     (''RPL_ISON'', ''303''), (''RPL_UNAWAY'', ''305''), (''RPL_NOWAWAY'', ''306''), (''RPL_WHOISUSER'', ''311''),
     (''RPL_WHOISSERVER'', ''312''), (''RPL_WHOISOPERATOR'', ''313''), (''RPL_WHOWASUSER'', ''314''),
     (''RPL_ENDOFWHO'', ''315''), (''RPL_WHOISCHANOP'', ''316''), (''RPL_WHOISIDLE'', ''317''),
     (''RPL_ENDOFWHOIS'', ''318''), (''RPL_WHOISCHANNELS'', ''319''), (''RPL_LISTSTART'', ''321''),
     (''RPL_LIST'', ''322''), (''RPL_LISTEND'', ''323''), (''RPL_CHANNELMODEIS'', ''324''),
     (''RPL_UNIQOPIS'', ''325''), (''RPL_NOTOPIC'', ''331''), (''RPL_TOPIC'', ''332''),
     (''RPL_INVITING'', ''341''), (''RPL_SUMMONING'', ''342''), (''RPL_INVITELIST'', ''346''),
     (''RPL_ENDOFINVITELIST'', ''347''), (''RPL_EXCEPTLIST'', ''348''), (''RPL_ENDOFEXCEPTLIST'', ''349''),
     (''RPL_VERSION'', ''351''), (''RPL_WHOREPLY'', ''352''), (''RPL_NAMREPLY'', ''353''),
     (''RPL_KILLDONE'', ''361''), (''RPL_CLOSING'', ''362''), (''RPL_CLOSEEND'', ''363''),
     (''RPL_LINKS'', ''364''), (''RPL_ENDOFLINKS'', ''365''), (''RPL_ENDOFNAMES'', ''366''),
     (''RPL_BANLIST'', ''367''), (''RPL_ENDOFBANLIST'', ''368''), (''RPL_ENDOFWHOWAS'', ''369''),
     (''RPL_INFO'', ''371''), (''RPL_MOTD'', ''372''), (''RPL_INFOSTART'', ''373''), (''RPL_ENDOFINFO'', ''374''),
     (''RPL_MOTDSTART'', ''375''), (''RPL_ENDOFMOTD'', ''376''), (''RPL_YOUREOPER'', ''381''),
     (''RPL_REHASHING'', ''382''), (''RPL_YOURESERVICE'', ''383''), (''RPL_MYPORTIS'', ''384''),
     (''RPL_TIME'', ''391''), (''RPL_USERSSTART'', ''392''), (''RPL_USERS'', ''393''),
     (''RPL_ENDOFUSERS'', ''394''), (''RPL_NOUSERS'', ''395'')]"

definition error_replies :: "(string \<times> string) list" where
  "error_replies =
    [(''ERR_NOSUCHNICK'', ''401''), (''ERR_NOSUCHSERVER'', ''402''), (''ERR_NOSUCHCHANNEL'', ''403''),
     (''ERR_CANNOTSENDTOCHAN'', ''404''), (''ERR_TOOMANYCHANNELS'', ''405''), (''ERR_WASNOSUCHNICK'', ''406''),
     (''ERR_TOOMANYTARGETS'', ''407''), (''ERR_NOSUCHSERVICE'', ''408''), (''ERR_NOORIGIN'', ''409''),
     (''ERR_NORECIPIENT'', ''411''), (''ERR_NOTEXTTOSEND'', ''412''), (''ERR_NOTOPLEVEL'', ''413''),
     (''ERR_WILDTOPLEVEL'', ''414''), (''ERR_BADMASK'', ''415''), (''ERR_UNKNOWNCOMMAND'', ''421''),
     (''ERR_NOMOTD'', ''422''), (''ERR_NOADMININFO'', ''423''), (''ERR_FILEERROR'', ''424''),
     (''ERR_NONICKNAMEGIVEN'', ''431''), (''ERR_ERRONEUSNICKNAME'', ''432''), (''ERR_NICKNAMEINUSE'', ''433''),
     (''ERR_NICKCOLLISION'', ''436''), (''ERR_UNAVAILRESOURCE'', ''437''), (''ERR_USERNOTINCHANNEL'', ''441''),
     (''ERR_NOTONCHANNEL'', ''442''), (''ERR_USERONCHANNEL'', ''443''), (''ERR_NOLOGIN'', ''444''),
     (''ERR_SUMMONDISABLED'', ''445''), (''ERR_USERSDISABLED'', ''446''), (''ERR_NOTREGISTERED'', ''451''),
     (''ERR_NEEDMOREPARAMS'', ''461''), (''ERR_ALREADYREGISTRED'', ''462''), (''ERR_NOPERMFORHOST'', ''463''),
     (''ERR_PASSWDMISMATCH'', ''464''), (''ERR_YOUREBANNEDCREEP'', ''465''), (''ERR_YOUWILLBEBANNED'', ''466''),
     (''ERR_KEYSET'', ''467''), (''ERR_CHANNELISFULL'', ''471''), (''ERR_UNKNOWNMODE'', ''472''),
     (''ERR_INVITEONLYCHAN'', ''473''), (''ERR_BANNEDFROMCHAN'', ''474''), (''ERR_BADCHANNELKEY'', ''475''),
     (''ERR_BADCHANMASK'', ''476''), (''ERR_NOCHANMODES'', ''477''), (''ERR_BANLISTFULL'', ''478''),
     (''ERR_NOPRIVILEGES'', ''481''), (''ERR_CHANOPRIVSNEEDED'', ''482''), (''ERR_CANTKILLSERVER'', ''483''),
     (''ERR_RESTRICTED'', ''484''), (''ERR_UNIQOPPRIVSNEEDED'', ''485''), (''ERR_NOOPERHOST'', ''491''),
     (''ERR_NOSERVICEHOST'', ''492''), (''ERR_UMODEUNKNOWNFLAG'', ''501''), (''ERR_USERSDONTMATCH'', ''502'')]"

definition numerics :: "(string \<times> string) list" where
  "numerics = numeric_replies @ error_replies"

definition numeric :: "string \<Rightarrow> string" where
  "numeric name = (case map_of numerics name of None \<Rightarrow> [] | Some c \<Rightarrow> c)"

text \<open>Three digits.\<close>

definition is_numeric :: "string \<Rightarrow> bool" where
  "is_numeric c = (length c = 3 \<and> list_all isdigit c)"

definition code_values :: "(string \<times> string) list \<Rightarrow> nat list" where
  "code_values t = map (\<lambda>e. digits_val (snd e)) t"

lemma codes_ascending: "sorted_wrt (<) (code_values (filter (\<lambda>e. fst e \<noteq> ''RPL_STATSSLINE'') numerics))"
proof -
  have "successively (<) (code_values (filter (\<lambda>e. fst e \<noteq> ''RPL_STATSSLINE'') numerics))" by code_simp
  then show ?thesis by (simp add: successively_conv_sorted_wrt transp_on_def)
qed

text \<open>
  Every numeric is three digits, the replies are below 400 and the errors above, and no code but the
  244 of the two names of the statistics is used twice.
\<close>

theorem numerics_typed:
  "list_all (\<lambda>e. is_numeric (snd e)) numerics \<and> list_all (\<lambda>n. n < 400) (code_values numeric_replies) \<and>
   list_all (\<lambda>n. 400 < n) (code_values error_replies) \<and>
   distinct (code_values (filter (\<lambda>e. fst e \<noteq> ''RPL_STATSSLINE'') numerics)) \<and>
   numeric ''RPL_STATSSLINE'' = numeric ''RPL_STATSHLINE''"
proof (intro conjI)
  show "distinct (code_values (filter (\<lambda>e. fst e \<noteq> ''RPL_STATSSLINE'') numerics))"
    using codes_ascending strict_sorted_iff by blast
qed code_simp+

end
