(* ===== verification/Irc_Client.thy ===== *)
theory Irc_Client
  imports Message "HOL-Library.Multiset"
begin

text \<open>
  \<open>test-server.cpp\<close>: the second design of the connection to a server, with its two service loops.
  A thread reads the server's lines and queues them (\<open>irc_server::async_queue\<close>): the replies
  to commands in \<open>responses\<close>, everything else in \<open>traffic\<close>; \<open>main\<close> takes the traffic, answers
  it and collects the responses of a WHOIS.  The two threads are a step relation whose steps go
  from one wait to the next; an event says which message moved.  The stream to the server is what
  has been written while it was good (\<open>ic_ok\<close>, \<open>ic_out\<close>).  \<open>st_clk::now()\<close> is the argument
  \<open>now\<close> of a step, in seconds.
\<close>

subsection \<open>The service loops\<close>

text \<open>\<open>echo_service\<close>: the bytes it writes.\<close>

function echo_loop :: "istream \<Rightarrow> string" where
  "echo_loop is =
     (case getline LF [] is of (line, is1) \<Rightarrow>
        if ok is1 \<and> line \<noteq> ''END'' then ''ECHO: '' @ line @ [LF] @ echo_loop is1 else [])"
  by pat_completeness auto
termination
  by (relation "measure (\<lambda>is. length (buf is))") (auto dest!: getline_length [OF sym])

declare echo_loop.simps [simp del]

definition echo_service :: "istream \<Rightarrow> string" where
  "echo_service is = echo_loop is @ ''END:'' @ [LF]"

text \<open>\<open>irc_service\<close>: \<open>operator>>\<close> reads a message in braces, so a plain IRC line ends the service.\<close>

function service_loop :: "hol \<Rightarrow> int \<Rightarrow> istream \<Rightarrow> message \<Rightarrow> string" where
  "service_loop h now is m =
     (case getline LF [] is of (line, is1) \<Rightarrow>
        if \<not> ok is1 then []
        else case read_message h now (str_stream line) m of (m1, iss) \<Rightarrow>
          if \<not> ok iss then []
          else if msg_command m1 = ''QUIT''
          then '':'' @ ''skivvy_irc_test_server'' @ '' ERROR Client terminated.'' @ [CR, LF]
          else service_loop h now is1 m1)"
  by pat_completeness auto
termination
  by (relation "measure (\<lambda>(h, now, is, m). length (buf is))") (auto dest!: getline_length [OF sym])

declare service_loop.simps [simp del]

definition irc_service :: "hol \<Rightarrow> int \<Rightarrow> istream \<Rightarrow> string" where
  "irc_service h now is = service_loop h now is new_message"

subsection \<open>The state of the client\<close>

datatype ic_pc =
    I_start
  | I_call
  | I_wait int
  | I_whois int "message list"
  | I_exit nat

text \<open>\<open>ic_msg\<close> is the variable of \<open>async_queue\<close>, which keeps what a line does not set.\<close>

record irc_client =
  ic_traffic :: "message list"
  ic_responses :: "message list"
  ic_done :: bool
  ic_logged_in :: bool
  ic_response_mode :: bool
  ic_reading :: bool
  ic_msg :: message
  ic_ok :: bool
  ic_out :: string
  ic_log :: "string list"
  ic_pc :: ic_pc

definition new_irc_client :: irc_client where
  "new_irc_client =
     \<lparr>ic_traffic = [], ic_responses = [], ic_done = False, ic_logged_in = False,
      ic_response_mode = False, ic_reading = False, ic_msg = new_message, ic_ok = True, ic_out = [],
      ic_log = [], ic_pc = I_start\<rparr>"

datatype ic_event =
    Silent
  | Queued message
  | Stored message
  | Took message
  | Claimed "message list"

subsection \<open>The reader\<close>

definition is_response :: "string \<Rightarrow> bool" where
  "is_response c = (\<not> str_lt c ''200'' \<and> \<not> str_lt ''399'' c)"

definition async_queue :: "hol \<Rightarrow> int \<Rightarrow> string \<Rightarrow> irc_client \<Rightarrow> ic_event \<times> irc_client" where
  "async_queue h now line s =
     (case parsemsg h now line (ic_msg s) of (b, m) \<Rightarrow>
        let s1 = s\<lparr>ic_msg := m\<rparr>
        in if \<not> b then (Silent, s1)
           else if ic_response_mode s1 \<and> is_response (msg_command m)
           then (if \<not> ic_done s1 then (Stored m, s1\<lparr>ic_responses := ic_responses s1 @ [m]\<rparr>)
                 else (Silent, s1))
           else (if \<not> ic_done s1 then (Queued m, s1\<lparr>ic_traffic := ic_traffic s1 @ [m]\<rparr>)
                 else (Silent, s1)))"

subsection \<open>Requests\<close>

definition async_send :: "string \<Rightarrow> irc_client \<Rightarrow> bool \<times> irc_client" where
  "async_send m s =
     (ic_ok s, if ic_ok s then s\<lparr>ic_out := ic_out s @ m @ [CR, LF]\<rparr> else s)"

definition whois_responses :: "string list" where
  "whois_responses = [''311'', ''319'', ''312'', ''318'']"

definition whois_is_mine :: "string \<Rightarrow> string \<Rightarrow> message \<Rightarrow> bool" where
  "whois_is_mine caller_nick nick m =
     (let params = get_params m
      in msg_command m \<in> set whois_responses \<and> \<not> length params < 2 \<and>
         params ! 0 = caller_nick \<and> params ! 1 = nick)"

definition whois_is_last :: "message \<Rightarrow> bool" where
  "whois_is_last m = (msg_command m = ''318'')"

text \<open>One pass over \<open>responses\<close>: what is appended to \<open>res\<close>, \<open>complete\<close>, what stays.\<close>

fun claim_loop :: "(message \<Rightarrow> bool) \<Rightarrow> (message \<Rightarrow> bool) \<Rightarrow> message list \<Rightarrow> message list \<times> bool \<times> message list" where
  "claim_loop mine final [] = ([], False, [])"
| "claim_loop mine final (m # ms) =
     (case claim_loop mine final ms of (res, complete, rest) \<Rightarrow>
        if mine m then (m # res, final m \<or> complete, rest) else (res, complete, m # rest))"

lemma claim_loop_filter [simp]:
  "claim_loop mine final ms = (filter mine ms, (\<exists>m\<in>set ms. mine m \<and> final m), filter (\<lambda>m. \<not> mine m) ms)"
  by (induction ms) auto

text \<open>One turn of the loop of \<open>async_request\<close>; \<open>None\<close> while it goes on.\<close>

definition request_turn ::
  "int \<Rightarrow> int \<Rightarrow> (message \<Rightarrow> bool) \<Rightarrow> (message \<Rightarrow> bool) \<Rightarrow> message list \<Rightarrow> irc_client \<Rightarrow>
    bool option \<times> ic_event \<times> message list \<times> irc_client" where
  "request_turn now end_point mine final res s =
     (if ic_done s then (Some False, Silent, res, s)
      else if ic_responses s = [] then (None, Silent, res, s)
      else if now > end_point then (Some False, Silent, res, s)
      else case claim_loop mine final (ic_responses s) of (r, complete, rest) \<Rightarrow>
        ((if complete then Some True else None), Claimed r, res @ r, s\<lparr>ic_responses := rest\<rparr>))"

subsection \<open>The main thread\<close>

text \<open>What \<open>main\<close> does with the result of \<open>async_whois\<close>.\<close>

definition whois_done :: "bool \<Rightarrow> message list \<Rightarrow> irc_client \<Rightarrow> irc_client" where
  "whois_done got res s =
     (let s1 = s\<lparr>ic_pc := I_call\<rparr>
      in if \<not> got \<and> res = [] then s1\<lparr>ic_log := ic_log s1 @ [''ERROR: calling whois()'']\<rparr>
         else let s2 = (if \<not> got
                        then s1\<lparr>ic_log := ic_log s1 @ [''WARNING: Partial response from whois()'']\<rparr>
                        else s1)
              in s2\<lparr>ic_log := ic_log s2 @ map (\<lambda>m. ''WHOIS RESPONSE: '' @ msg_line m) res\<rparr>)"

definition handle_traffic :: "int \<Rightarrow> message \<Rightarrow> irc_client \<Rightarrow> irc_client" where
  "handle_traffic now m s =
     (if msg_command m = ''376''
      then let s1 = snd (async_send ''JOIN #skivvy'' (s\<lparr>ic_response_mode := True\<rparr>))
           in case async_send (''WHOIS '' @ ''SooKee'') s1 of
                (False, s2) \<Rightarrow> whois_done False [] s2
              | (True, s2) \<Rightarrow> s2\<lparr>ic_pc := I_whois (now + 60) []\<rparr>
      else if msg_command m = ''PING''
      then (snd (async_send (''PONG '' @ get_trailing m) s))\<lparr>ic_pc := I_call\<rparr>
      else s\<lparr>ic_pc := I_call\<rparr>)"

text \<open>After the wait of \<open>async_get_traffic\<close>: \<open>None\<close> when the call returns \<open>false\<close>.\<close>

definition take_traffic :: "int \<Rightarrow> int \<Rightarrow> irc_client \<Rightarrow> (message \<times> irc_client) option" where
  "take_traffic now end_point s =
     (if ic_done s \<or> now > end_point then None
      else let m = hd (ic_traffic s); s1 = s\<lparr>ic_traffic := tl (ic_traffic s)\<rparr>
           in Some (m, if msg_command m = ''001'' then s1\<lparr>ic_logged_in := True\<rparr> else s1))"

definition ic_connect :: "bool \<Rightarrow> irc_client \<Rightarrow> irc_client" where
  "ic_connect up s =
     (if \<not> up then s\<lparr>ic_pc := I_exit 1\<rparr>
      else case async_send ''PASS none'' (s\<lparr>ic_reading := True\<rparr>) of (b1, s1) \<Rightarrow>
           case async_send ''NICK Squig'' s1 of (b2, s2) \<Rightarrow>
           case async_send ''USER Squig 0 * :Squig'' s2 of (b3, s3) \<Rightarrow>
             if \<not> b1 \<or> \<not> b2 \<or> \<not> b3 then s3\<lparr>ic_pc := I_exit 1\<rparr> else s3\<lparr>ic_pc := I_call\<rparr>)"

definition ic_turn :: "bool \<Rightarrow> int \<Rightarrow> irc_client \<Rightarrow> ic_event \<times> irc_client" where
  "ic_turn up now s =
     (case ic_pc s of
        I_start \<Rightarrow> (Silent, ic_connect up s)
      | I_call \<Rightarrow> (Silent, s\<lparr>ic_pc := if ic_done s then I_exit 0 else I_wait (now + 60)\<rparr>)
      | I_wait end_point \<Rightarrow>
          if \<not> ic_done s \<and> ic_traffic s = [] then (Silent, s)
          else (case take_traffic now end_point s of
                  None \<Rightarrow> (Silent, s\<lparr>ic_pc := I_exit 0\<rparr>)
                | Some (m, s1) \<Rightarrow> (Took m, handle_traffic now m s1))
      | I_whois end_point res \<Rightarrow>
          (case request_turn now end_point (whois_is_mine ''Squig'' ''SooKee'') whois_is_last res s of
             (None, e, res1, s1) \<Rightarrow> (e, s1\<lparr>ic_pc := I_whois end_point res1\<rparr>)
           | (Some got, e, res1, s1) \<Rightarrow> (e, whois_done got res1 s1))
      | I_exit n \<Rightarrow> (Silent, s))"

subsection \<open>The two threads\<close>

inductive ic_step :: "hol \<Rightarrow> irc_client \<Rightarrow> ic_event \<Rightarrow> irc_client \<Rightarrow> bool" for h where
  line: "ic_reading s \<Longrightarrow> \<not> ic_done s \<Longrightarrow> async_queue h now l s = (e, s') \<Longrightarrow> ic_step h s e s'"
| hangup: "ic_reading s \<Longrightarrow> ic_step h s Silent (s\<lparr>ic_reading := False\<rparr>)"
| broken: "ic_step h s Silent (s\<lparr>ic_ok := False\<rparr>)"
| main: "ic_turn up now s = (e, s') \<Longrightarrow> ic_step h s e s'"

inductive_cases ic_stepE: "ic_step h s e s'"

inductive ic_run :: "hol \<Rightarrow> irc_client \<Rightarrow> ic_event list \<Rightarrow> irc_client \<Rightarrow> bool" for h where
  stop: "ic_run h s [] s"
| more: "ic_run h s es t \<Longrightarrow> ic_step h t e u \<Longrightarrow> ic_run h s (es @ [e]) u"

subsection \<open>What the runs keep\<close>

fun took_of :: "ic_event \<Rightarrow> message list" where
  "took_of (Took m) = [m]"
| "took_of _ = []"

fun queued_of :: "ic_event \<Rightarrow> message list" where
  "queued_of (Queued m) = [m]"
| "queued_of _ = []"

fun stored_of :: "ic_event \<Rightarrow> message list" where
  "stored_of (Stored m) = [m]"
| "stored_of _ = []"

fun claimed_of :: "ic_event \<Rightarrow> message list" where
  "claimed_of (Claimed ms) = ms"
| "claimed_of _ = []"

abbreviation events :: "(ic_event \<Rightarrow> message list) \<Rightarrow> ic_event list \<Rightarrow> message list" where
  "events f es \<equiv> concat (map f es)"

named_theorems ic_defs

lemmas [ic_defs] = ic_turn_def ic_connect_def handle_traffic_def take_traffic_def whois_done_def
  request_turn_def async_send_def async_queue_def Let_def

text \<open>The queue of traffic, step by step; then the responses.\<close>

lemma step_traffic:
  "ic_step h s e s' \<Longrightarrow> ic_traffic s @ queued_of e = took_of e @ ic_traffic s'"
  by (erule ic_stepE)
    (auto simp: ic_defs split: prod.splits if_splits ic_pc.splits option.splits)

lemma mset_parted: "mset (filter P xs) + mset (filter (\<lambda>x. \<not> P x) xs) = mset xs"
  by (induction xs) simp_all

lemma step_responses:
  "ic_step h s e s' \<Longrightarrow>
    mset (ic_responses s) + mset (stored_of e) = mset (claimed_of e) + mset (ic_responses s')"
  by (erule ic_stepE)
    (auto simp: ic_defs mset_parted simp del: mset_filter split: prod.splits if_splits ic_pc.splits option.splits)

lemma step_claims:
  "ic_step h s e s' \<Longrightarrow> list_all (whois_is_mine ''Squig'' ''SooKee'') (claimed_of e)"
  by (erule ic_stepE)
    (auto simp: ic_defs list_all_iff split: prod.splits if_splits ic_pc.splits option.splits)

lemma step_stored:
  "ic_step h s e s' \<Longrightarrow> list_all (\<lambda>m. is_response (msg_command m)) (stored_of e)"
  by (erule ic_stepE)
    (auto simp: ic_defs split: prod.splits if_splits ic_pc.splits option.splits)

lemma step_done: "ic_step h s e s' \<Longrightarrow> ic_done s' = ic_done s"
  by (erule ic_stepE)
    (auto simp: ic_defs split: prod.splits if_splits ic_pc.splits option.splits)

text \<open>What the client answers to a message it takes.\<close>

definition ic_answer :: "message \<Rightarrow> string list" where
  "ic_answer m =
     (if msg_command m = ''376'' then [''JOIN #skivvy'', ''WHOIS SooKee'']
      else if msg_command m = ''PING'' then [''PONG '' @ get_trailing m] else [])"

definition crlf_text :: "string list \<Rightarrow> string" where
  "crlf_text ls = concat (map (\<lambda>l. l @ [CR, LF]) ls)"

lemma crlf_text_simps [simp]:
  "crlf_text [] = []" "crlf_text (l # ls) = l @ [CR, LF] @ crlf_text ls"
  "crlf_text (ks @ ls) = crlf_text ks @ crlf_text ls"
  by (simp_all add: crlf_text_def)

definition ic_login :: "string list" where
  "ic_login = [''PASS none'', ''NICK Squig'', ''USER Squig 0 * :Squig'']"

lemma step_says:
  "ic_step h s e s' \<Longrightarrow> ic_ok s' \<Longrightarrow> ic_pc s \<noteq> I_start \<Longrightarrow>
    ic_ok s \<and> ic_pc s' \<noteq> I_start \<and> ic_out s' = ic_out s @ crlf_text (concat (map ic_answer (took_of e)))"
  by (erule ic_stepE)
    (auto simp: ic_defs ic_answer_def split: prod.splits if_splits ic_pc.splits option.splits)

lemma first_says:
  "ic_step h s e s' \<Longrightarrow> ic_ok s' \<Longrightarrow> ic_pc s = I_start \<Longrightarrow> ic_out s = [] \<Longrightarrow>
    took_of e = [] \<and> ic_ok s \<and>
    (ic_pc s' = I_start \<and> ic_out s' = [] \<or> ic_pc s' = I_exit 1 \<and> ic_out s' = [] \<or>
     ic_pc s' = I_call \<and> ic_out s' = crlf_text ic_login)"
  by (erule ic_stepE)
    (auto simp: ic_defs ic_login_def split: prod.splits if_splits ic_pc.splits option.splits)

subsection \<open>Runs\<close>

lemma run_traffic:
  "ic_run h s es s' \<Longrightarrow> ic_traffic s @ events queued_of es = events took_of es @ ic_traffic s'"
proof (induction rule: ic_run.induct)
  case (more s es t e u)
  have "ic_traffic s @ events queued_of (es @ [e]) = (ic_traffic s @ events queued_of es) @ queued_of e"
    by simp
  also have "\<dots> = events took_of es @ (ic_traffic t @ queued_of e)" by (simp add: more.IH)
  also have "\<dots> = events took_of es @ took_of e @ ic_traffic u"
    by (simp add: step_traffic [OF more.hyps(2)])
  finally show ?case by simp
qed simp

lemma run_responses:
  "ic_run h s es s' \<Longrightarrow>
    mset (ic_responses s) + mset (events stored_of es) = mset (events claimed_of es) + mset (ic_responses s')"
proof (induction rule: ic_run.induct)
  case (more s es t e u)
  have "mset (ic_responses s) + mset (events stored_of (es @ [e]))
      = (mset (events claimed_of es) + mset (ic_responses t)) + mset (stored_of e)"
    by (simp add: more.IH flip: add.assoc)
  also have "\<dots> = mset (events claimed_of es) + (mset (claimed_of e) + mset (ic_responses u))"
    by (simp only: add.assoc step_responses [OF more.hyps(2)])
  finally show ?case by (simp add: add.assoc)
qed simp

lemma run_classes:
  "ic_run h s es s' \<Longrightarrow>
    list_all (whois_is_mine ''Squig'' ''SooKee'') (events claimed_of es) \<and>
    list_all (\<lambda>m. is_response (msg_command m)) (events stored_of es)"
  by (induction rule: ic_run.induct) (simp_all add: step_claims step_stored)

lemma run_done: "ic_run h s es s' \<Longrightarrow> ic_done s' = ic_done s"
  by (induction rule: ic_run.induct) (simp_all add: step_done)

definition said :: "irc_client \<Rightarrow> message list \<Rightarrow> bool" where
  "said s ms =
     (if ic_pc s = I_start \<or> ic_pc s = I_exit 1 then ic_out s = [] \<and> ms = []
      else ic_out s = crlf_text (ic_login @ concat (map ic_answer ms)))"

lemma exit_stays:
  "ic_step h s e s' \<Longrightarrow> ic_pc s = I_exit n \<Longrightarrow> ic_pc s' = I_exit n \<and> took_of e = [] \<and> ic_out s' = ic_out s"
  by (erule ic_stepE) (auto simp: ic_turn_def async_queue_def Let_def split: prod.splits if_splits)

lemma not_exit1:
  "ic_step h s e s' \<Longrightarrow> ic_pc s \<noteq> I_start \<Longrightarrow> ic_pc s' = I_exit 1 \<Longrightarrow> ic_pc s = I_exit 1"
  by (erule ic_stepE)
    (auto simp: ic_defs split: prod.splits if_splits ic_pc.splits option.splits)

lemma step_said:
  assumes "ic_step h s e s'" "ic_ok s'" "said s ms"
  shows "ic_ok s \<and> said s' (ms @ took_of e)"
proof (cases "ic_pc s = I_start \<or> ic_pc s = I_exit 1")
  case True
  then show ?thesis
    using first_says [OF assms(1,2)] exit_stays [OF assms(1), of 1] step_says [OF assms(1,2)] assms(3)
    by (auto simp: said_def)
next
  case False
  then show ?thesis
    using step_says [OF assms(1,2)] not_exit1 [OF assms(1)] assms(3) by (auto simp: said_def)
qed

lemma step_ok: "ic_step h s e s' \<Longrightarrow> ic_ok s' \<Longrightarrow> ic_ok s"
  by (erule ic_stepE)
    (auto simp: ic_defs split: prod.splits if_splits ic_pc.splits option.splits)

lemma run_said:
  "ic_run h s es s' \<Longrightarrow> said s [] \<Longrightarrow> ic_ok s' \<Longrightarrow> said s' (events took_of es)"
proof (induction rule: ic_run.induct)
  case (more s es t e u)
  then show ?case using step_said [of h t e u] step_ok [of h t e u] by simp
qed (simp add: said_def)

text \<open>C28: in every run of the client of test-server.cpp, the traffic handed to the main thread is
  the queued messages in the order of arrival, with the rest still in the queue; no response is
  lost or invented between those stored, those claimed by the WHOIS and those still held; what is
  stored has a code from 200 to 399 and what is claimed names the client and the nick asked for.\<close>

theorem client_in_order:
  assumes "ic_run h new_irc_client es s"
  shows "events queued_of es = events took_of es @ ic_traffic s \<and>
    mset (events stored_of es) = mset (events claimed_of es) + mset (ic_responses s) \<and>
    list_all (\<lambda>m. is_response (msg_command m)) (events stored_of es) \<and>
    list_all (whois_is_mine ''Squig'' ''SooKee'') (events claimed_of es)"
  using run_traffic [OF assms] run_responses [OF assms] run_classes [OF assms]
  by (simp add: new_irc_client_def)

text \<open>C29: while the stream to the server has not failed, what the client of test-server.cpp has
  written is its login followed by its answer to every message it has taken, in that order: the
  JOIN and the WHOIS after the end of the message of the day, a PONG with the token after a PING,
  nothing after any other message.\<close>

theorem client_says:
  assumes "ic_run h new_irc_client es s" "ic_ok s" "ic_pc s \<noteq> I_start" "ic_pc s \<noteq> I_exit 1"
  shows "ic_out s = crlf_text (ic_login @ concat (map ic_answer (events took_of es)))"
  using run_said [OF assms(1) _ assms(2)] assms(3,4) by (simp add: said_def new_irc_client_def)

text \<open>The condition variables are waited for with a deadline, in a loop that does not look at it.\<close>

lemma step_waits:
  "ic_step h s e s' \<Longrightarrow> ic_pc s = I_wait d \<Longrightarrow> ic_traffic s = [] \<Longrightarrow> \<not> ic_done s \<Longrightarrow> queued_of e = [] \<Longrightarrow>
    ic_pc s' = I_wait d \<and> ic_traffic s' = [] \<and> ic_out s' = ic_out s"
  by (erule ic_stepE)
    (auto simp: ic_turn_def async_queue_def Let_def split: prod.splits if_splits)

lemma step_whois_waits:
  "ic_step h s e s' \<Longrightarrow> ic_pc s = I_whois d res \<Longrightarrow> ic_responses s = [] \<Longrightarrow> \<not> ic_done s \<Longrightarrow> stored_of e = [] \<Longrightarrow>
    ic_pc s' = I_whois d res \<and> ic_responses s' = [] \<and> ic_out s' = ic_out s"
  by (erule ic_stepE)
    (auto simp: ic_turn_def request_turn_def async_queue_def Let_def split: prod.splits if_splits)

lemma run_waits:
  "ic_run h s es s' \<Longrightarrow> ic_pc s = I_wait d \<Longrightarrow> ic_traffic s = [] \<Longrightarrow> \<not> ic_done s \<Longrightarrow> events queued_of es = [] \<Longrightarrow>
    ic_pc s' = I_wait d \<and> ic_traffic s' = [] \<and> ic_out s' = ic_out s"
proof (induction rule: ic_run.induct)
  case (more s es t e u)
  then show ?case using step_waits [OF more.hyps(2)] run_done [OF more.hyps(1)] by simp
qed simp

lemma whois_waits:
  "ic_run h s es s' \<Longrightarrow> ic_pc s = I_whois d res \<Longrightarrow> ic_responses s = [] \<Longrightarrow> \<not> ic_done s \<Longrightarrow> events stored_of es = [] \<Longrightarrow>
    ic_pc s' = I_whois d res \<and> ic_responses s' = [] \<and> ic_out s' = ic_out s"
proof (induction rule: ic_run.induct)
  case (more s es t e u)
  then show ?case using step_whois_waits [OF more.hyps(2)] run_done [OF more.hyps(1)] by simp
qed simp

text \<open>a client that waits for traffic goes on waiting for as long as nothing is queued, whatever
  the time; and if the next message is seen after the deadline of the wait, the client stops
  without taking it: a PING that follows a silence of more than a minute is not answered.\<close>

theorem late_traffic_lost:
  assumes "ic_run h s es t" "ic_pc s = I_wait d" "ic_traffic s = []" "\<not> ic_done s"
    and "events queued_of es = []" "async_queue h now l t = (Queued m, u)" "now' > d"
  shows "ic_pc t = I_wait d \<and> ic_out u = ic_out s \<and> ic_turn up now' u = (Silent, u\<lparr>ic_pc := I_exit 0\<rparr>)"
proof -
  have t: "ic_pc t = I_wait d" "ic_traffic t = []" "ic_out t = ic_out s"
    using run_waits [OF assms(1-5)] by auto
  have "ic_pc u = I_wait d \<and> ic_traffic u = [m] \<and> ic_out u = ic_out s"
    using assms(6) t by (auto simp: async_queue_def Let_def split: prod.splits if_splits)
  then show ?thesis using t assms(7) by (simp add: ic_turn_def take_traffic_def)
qed

text \<open>The WHOIS ends when its last reply comes in time; a reply of another kind that stays in the
  list (the names of the channel just joined) keeps the loop turning until the deadline.\<close>

lemma whois_completes:
  assumes "\<not> ic_done s" "now \<le> d" "m \<in> set (ic_responses s)" "mine m" "final m"
  shows "request_turn now d mine final res s =
    (Some True, Claimed (filter mine (ic_responses s)), res @ filter mine (ic_responses s),
     s\<lparr>ic_responses := filter (\<lambda>m. \<not> mine m) (ic_responses s)\<rparr>)"
  using assms by (cases "ic_responses s") (auto simp: request_turn_def)

lemma whois_spins:
  assumes "\<not> ic_done s" "now \<le> d" "ic_responses s \<noteq> []" "list_all (\<lambda>m. \<not> mine m) (ic_responses s)"
  shows "request_turn now d mine final res s = (None, Claimed [], res, s)"
  using assms by (auto simp: request_turn_def list_all_iff filter_empty_conv)

subsection \<open>The services\<close>

lemma echo_loop_text:
  "list_all (\<lambda>l. LF \<notin> set l \<and> l \<noteq> ''END'') ls \<Longrightarrow>
    echo_loop (str_stream (lines_text ls)) = concat (map (\<lambda>l. ''ECHO: '' @ l @ [LF]) ls)"
proof (induction ls)
  case Nil
  show ?case by (subst echo_loop.simps) (simp add: stream_simps)
next
  case (Cons l ls)
  then show ?case
    by (subst echo_loop.simps) (simp add: getline_found [where l = l and r = "lines_text ls"])
qed

lemma echo_text:
  "list_all (\<lambda>l. LF \<notin> set l \<and> l \<noteq> ''END'') ls \<Longrightarrow>
    echo_service (str_stream (lines_text ls)) = concat (map (\<lambda>l. ''ECHO: '' @ l @ [LF]) ls) @ ''END:'' @ [LF]"
  by (simp add: echo_service_def echo_loop_text)

lemma plain_line_ends_service:
  assumes "LF \<notin> set l" "l = [] \<or> hd l \<noteq> CHR ''{''"
  shows "irc_service h now (str_stream (l @ LF # r)) = []"
proof -
  have "\<not> ok (snd (read_message h now (str_stream l) m))" for m
    using assms(2) by (cases l) (auto simp: read_message_def getobject_def)
  then show ?thesis
    unfolding irc_service_def
    by (subst service_loop.simps)
      (auto simp: getline_found [where l = l and r = r] assms(1) split: prod.split, (metis snd_conv)+)
qed

subsection \<open>A run\<close>

definition demo_client :: irc_client where
  "demo_client = snd (ic_turn True 0 (snd (ic_turn True 0 new_irc_client)))"

definition demo_ping :: irc_client where
  "demo_ping = snd (async_queue hol_ref 1 ''PING :x'' demo_client)"

lemma demo_queue: "async_queue hol_ref 1 ''PING :x'' demo_client = (Queued (hd (ic_traffic demo_ping)), demo_ping)"
  by code_simp

lemma demo_ic_run:
  "ic_run hol_ref new_irc_client [Silent, Silent] demo_client"
  "ic_run hol_ref new_irc_client [Silent, Silent, Queued (hd (ic_traffic demo_ping)), Took (hd (ic_traffic demo_ping))]
    (snd (ic_turn True 2 demo_ping))"
proof -
  have t: "ic_turn True 0 new_irc_client = (Silent, snd (ic_turn True 0 new_irc_client))"
    "ic_turn True 0 (snd (ic_turn True 0 new_irc_client)) = (Silent, demo_client)"
    "ic_turn True 2 demo_ping = (Took (hd (ic_traffic demo_ping)), snd (ic_turn True 2 demo_ping))"
    by code_simp+
  have "ic_run hol_ref new_irc_client [] new_irc_client" by (rule stop)
  from more [OF this main [OF t(1)]] have "ic_run hol_ref new_irc_client [Silent] (snd (ic_turn True 0 new_irc_client))"
    by simp
  from more [OF this main [OF t(2)]] show r: "ic_run hol_ref new_irc_client [Silent, Silent] demo_client" by simp
  have "ic_reading demo_client" "\<not> ic_done demo_client" by code_simp+
  from more [OF more [OF r line [OF this demo_queue]] main [OF t(3)]]
  show "ic_run hol_ref new_irc_client [Silent, Silent, Queued (hd (ic_traffic demo_ping)), Took (hd (ic_traffic demo_ping))]
    (snd (ic_turn True 2 demo_ping))"
    by simp
qed

theorem client_in_order_witness:
  "events took_of [Silent, Silent, Queued (hd (ic_traffic demo_ping)), Took (hd (ic_traffic demo_ping))]
    = [hd (ic_traffic demo_ping)] \<and> ic_traffic (snd (ic_turn True 2 demo_ping)) = []"
  using client_in_order [OF demo_ic_run(2)] by simp

lemma demo_says:
  "ic_ok (snd (ic_turn True 2 demo_ping))" "ic_pc (snd (ic_turn True 2 demo_ping)) \<noteq> I_start"
  "ic_pc (snd (ic_turn True 2 demo_ping)) \<noteq> I_exit 1" "ic_answer (hd (ic_traffic demo_ping)) = [''PONG x'']"
  by code_simp+

theorem client_says_witness:
  "ic_out (snd (ic_turn True 2 demo_ping)) = crlf_text (ic_login @ [''PONG x''])"
  using client_says [OF demo_ic_run(2) demo_says(1-3)] demo_says(4) by simp

lemma demo_waits: "ic_pc demo_client = I_wait 60" "ic_traffic demo_client = []" "\<not> ic_done demo_client"
  by code_simp+

theorem late_traffic_lost_witness:
  "ic_turn True 61 demo_ping = (Silent, demo_ping\<lparr>ic_pc := I_exit 0\<rparr>)"
  using late_traffic_lost [OF stop demo_waits _ demo_queue, of 61 True] by simp

end
