(* ===== verification/Ansi.thy ===== *)
theory Ansi
  imports Buffered_Output
begin

text \<open>
  ANSI attributes in the text of the console (\<open>ansi.h\<close>): the markup \<open>_*/~#\<close> and \<open>^\<close> with a code letter,
  the machine that replaces it with escape sequences (\<open>ansi_fsm\<close>), and the stream buffer that feeds
  the machine (\<open>basic_ansibuf\<close>, for \<open>char\<close>).  \<open>None\<close> is an access behind the end of an array.
\<close>

subsection \<open>Codes\<close>

definition BOLD_ON :: int where "BOLD_ON = 1"
definition FAINT_ON :: int where "FAINT_ON = 2"
definition ITALIC_ON :: int where "ITALIC_ON = 3"
definition UNDERLINE_ON :: int where "UNDERLINE_ON = 4"
definition NEGATIVE :: int where "NEGATIVE = 7"
definition BOLD_OFF :: int where "BOLD_OFF = 22"
definition FAINT_OFF :: int where "FAINT_OFF = 22"
definition ITALIC_OFF :: int where "ITALIC_OFF = 23"
definition UNDERLINE_OFF :: int where "UNDERLINE_OFF = 24"
definition POSITIVE :: int where "POSITIVE = 27"

lemmas ansi_consts = BOLD_ON_def FAINT_ON_def ITALIC_ON_def UNDERLINE_ON_def NEGATIVE_def BOLD_OFF_def
  FAINT_OFF_def ITALIC_OFF_def UNDERLINE_OFF_def POSITIVE_def

definition ESC :: char where "ESC = CHR 0x1B"

definition norm_seq :: string where "norm_seq = ESC # ''[0m''"

fun esc_codes :: "string \<Rightarrow> int list \<Rightarrow> string" where
  "esc_codes sep [] = []"
| "esc_codes sep (c # cs) = sep @ show_int c @ esc_codes '';'' cs"

definition ansi_esc :: "int list \<Rightarrow> string" where
  "ansi_esc codes = ESC # ''['' @ esc_codes [] codes @ ''m''"

definition code_to_int :: "char \<Rightarrow> nat" where
  "code_to_int c =
     (if 48 \<le> code c \<and> code c \<le> 57 then code c - 48
      else if 97 \<le> code c \<and> code c \<le> 122 then (code c - 97) + 10
      else if 65 \<le> code c \<and> code c \<le> 90 then (code c - 65) + 10
      else 0)"

definition ansi_keys :: string where "ansi_keys = ''_*/~#''"

definition ansi_map :: "int list" where
  "ansi_map =
     [30, 31, 32, 33, 34, 35, 36, 37,
      40, 41, 42, 43, 44, 45, 46, 47,
      0, 0, ITALIC_ON, 0, 0, 0, 0, NEGATIVE,
      0, POSITIVE, 0, 0, 0, 0, UNDERLINE_ON, 0,
      0, 0, 0, 0]"

text \<open>\<open>sizeof(map)\<close> counts bytes, four for each \<open>int\<close>.\<close>

definition map_at :: "nat \<Rightarrow> int option" where
  "map_at n =
     (let i = n mod (4 * length ansi_map)
      in if i < length ansi_map then Some (ansi_map ! i) else None)"

subsection \<open>The machine\<close>

record ansi_fsm =
  an_esc :: bool
  an_u :: bool
  an_i :: bool
  an_b :: bool
  an_f :: bool

definition new_fsm :: ansi_fsm where
  "new_fsm = \<lparr>an_esc = False, an_u = False, an_i = False, an_b = False, an_f = False\<rparr>"

definition fsm_char :: "char \<Rightarrow> ansi_fsm \<Rightarrow> (string \<times> ansi_fsm) option" where
  "fsm_char c s =
     (if c = CHR ''^''
      then (if an_esc s then Some (''^'', s\<lparr>an_esc := False\<rparr>) else Some ([], s\<lparr>an_esc := True\<rparr>))
      else if an_esc s
      then (if c \<in> set ansi_keys then Some ([c], s\<lparr>an_esc := False\<rparr>)
            else case map_at (code_to_int c) of
                   None \<Rightarrow> None
                 | Some n \<Rightarrow> Some (ansi_esc [n], s\<lparr>an_esc := False\<rparr>))
      else if c = CHR ''_''
      then Some ((if \<not> an_u s then ansi_esc [UNDERLINE_ON] else ansi_esc [UNDERLINE_OFF]), s\<lparr>an_u := \<not> an_u s\<rparr>)
      else if c = CHR ''/''
      then Some ((if \<not> an_i s then ansi_esc [ITALIC_ON] else ansi_esc [ITALIC_OFF]), s\<lparr>an_i := \<not> an_i s\<rparr>)
      else if c = CHR ''*''
      then Some ((if \<not> an_b s then ansi_esc [BOLD_ON] else ansi_esc [BOLD_OFF]), s\<lparr>an_b := \<not> an_b s\<rparr>)
      else if c = CHR ''~''
      then Some ((if \<not> an_f s then ansi_esc [FAINT_ON] else ansi_esc [FAINT_OFF]), s\<lparr>an_f := \<not> an_f s\<rparr>)
      else if c = CHR ''#'' then Some (norm_seq, s)
      else Some ([c], s))"

text \<open>\<open>write\<close>: what it puts on the stream, and the machine after it.\<close>

fun fsm_write :: "string \<Rightarrow> ansi_fsm \<Rightarrow> (string \<times> ansi_fsm) option" where
  "fsm_write [] s = Some ([], s)"
| "fsm_write (c # cs) s =
     (case fsm_char c s of
        None \<Rightarrow> None
      | Some (t, s1) \<Rightarrow> (case fsm_write cs s1 of None \<Rightarrow> None | Some (u, s2) \<Rightarrow> Some (t @ u, s2)))"

subsection \<open>The buffer\<close>

definition OBUF_SIZE :: nat where "OBUF_SIZE = 128"

text \<open>The stream behind the buffer: whether it is good, and what it has got.\<close>

record ansibuf =
  ab_obuf :: string
  ab_ofsm :: ansi_fsm
  ab_os_ok :: bool
  ab_os :: string

definition new_ansibuf :: ansibuf where
  "new_ansibuf = \<lparr>ab_obuf = [], ab_ofsm = new_fsm, ab_os_ok = True, ab_os = []\<rparr>"

definition ab_output_buffer :: "ansibuf \<Rightarrow> (bool \<times> ansibuf) option" where
  "ab_output_buffer s =
     (case fsm_write (ab_obuf s) (ab_ofsm s) of
        None \<Rightarrow> None
      | Some (t, m) \<Rightarrow>
          let s1 = s\<lparr>ab_ofsm := m, ab_os := (if ab_os_ok s then ab_os s @ t else ab_os s)\<rparr>
          in Some (if \<not> ab_os_ok s1 then (False, s1) else (True, s1\<lparr>ab_obuf := []\<rparr>)))"

definition ab_overflow :: "char \<Rightarrow> ansibuf \<Rightarrow> (bool \<times> ansibuf) option" where
  "ab_overflow c s =
     (if OBUF_SIZE \<le> length (ab_obuf s) then None
      else ab_output_buffer (s\<lparr>ab_obuf := ab_obuf s @ [c]\<rparr>))"

definition ab_sync :: "ansibuf \<Rightarrow> (bool \<times> ansibuf) option" where
  "ab_sync s = ab_output_buffer s"

text \<open>\<open>sputc\<close> of the base class with the put area of the constructor; the stream stops at a failure.\<close>

definition ab_sputc :: "char \<Rightarrow> ansibuf \<Rightarrow> (bool \<times> ansibuf) option" where
  "ab_sputc c s =
     (if length (ab_obuf s) < OBUF_SIZE - 1 then Some (True, s\<lparr>ab_obuf := ab_obuf s @ [c]\<rparr>)
      else ab_overflow c s)"

fun ab_put :: "string \<Rightarrow> ansibuf \<Rightarrow> (bool \<times> ansibuf) option" where
  "ab_put [] s = Some (True, s)"
| "ab_put (c # cs) s =
     (case ab_sputc c s of
        None \<Rightarrow> None
      | Some (False, s1) \<Rightarrow> Some (False, s1)
      | Some (True, s1) \<Rightarrow> ab_put cs s1)"

subsection \<open>The table is never left\<close>

lemma code_to_int_less: "code_to_int c < length ansi_map"
  by (auto simp: code_to_int_def ansi_map_def)

lemma map_at_defined: "map_at (code_to_int c) = Some (ansi_map ! code_to_int c)"
  using code_to_int_less [of c] by (simp add: map_at_def Let_def)

lemma fsm_char_defined: "fsm_char c s \<noteq> None"
  by (simp add: fsm_char_def map_at_defined)

lemma fsm_write_defined': "\<exists>t m. fsm_write cs s = Some (t, m)"
proof (induction cs arbitrary: s)
  case (Cons c cs)
  obtain t s1 where c: "fsm_char c s = Some (t, s1)" using fsm_char_defined [of c s] by auto
  obtain u s2 where "fsm_write cs s1 = Some (u, s2)" using Cons by blast
  with c show ?case by simp
qed simp

text \<open>the machine never reads behind the end of its table, although it takes the remainder by the
  size of the table in bytes: every character written yields some text.\<close>

theorem ansi_table_safe:
  "(\<exists>t m. fsm_write cs s = Some (t, m)) \<and> map_at (code_to_int c) = Some (ansi_map ! code_to_int c)"
  using fsm_write_defined' map_at_defined by blast

subsection \<open>Quoted text\<close>

text \<open>Every character with a meaning behind a \<open>^\<close>.\<close>

definition ansi_quote :: "string \<Rightarrow> string" where
  "ansi_quote s = concat (map (\<lambda>c. if c \<in> set (CHR ''^'' # ansi_keys) then [CHR ''^'', c] else [c]) s)"

lemma fsm_plain: "c \<notin> set (CHR ''^'' # ansi_keys) \<Longrightarrow> \<not> an_esc s \<Longrightarrow> fsm_char c s = Some ([c], s)"
  by (simp add: fsm_char_def ansi_keys_def)

lemma fsm_caret: "\<not> an_esc s \<Longrightarrow> fsm_char (CHR ''^'') s = Some ([], s\<lparr>an_esc := True\<rparr>)"
  by (simp add: fsm_char_def)

lemma fsm_escaped:
  "c \<in> set (CHR ''^'' # ansi_keys) \<Longrightarrow> \<not> an_esc s \<Longrightarrow> fsm_char c (s\<lparr>an_esc := True\<rparr>) = Some ([c], s)"
  by (cases s) (auto simp: fsm_char_def)

text \<open>text in which every character with a meaning is behind a caret comes out as it is, and
  the attributes stay as they were.\<close>

theorem ansi_quote_exact: "\<not> an_esc s \<Longrightarrow> fsm_write (ansi_quote t) s = Some (t, s)"
proof (induction t)
  case (Cons c t)
  then show ?case
    by (cases "c \<in> set (CHR ''^'' # ansi_keys)")
      (auto simp: ansi_quote_def fsm_plain fsm_caret fsm_escaped simp del: set_simps(2) list.set(2))
qed (simp add: ansi_quote_def)

theorem ansi_quote_exact_witness: "fsm_write (ansi_quote ''a_b^c#'') new_fsm = Some (''a_b^c#'', new_fsm)"
  using ansi_quote_exact [of new_fsm "''a_b^c#''"] by (simp add: new_fsm_def)

text \<open>The mark \<open>#\<close> ends all attributes on the terminal but not in the machine: the next mark of an
  attribute that was on switches it off.\<close>

lemma norm_keeps_flags: "\<not> an_esc s \<Longrightarrow> an_u s \<Longrightarrow>
    fsm_write ''#_'' s = Some (norm_seq @ ansi_esc [UNDERLINE_OFF], s\<lparr>an_u := False\<rparr>)"
  by (simp add: fsm_char_def)

subsection \<open>Text through the buffer\<close>

lemma fsm_write_append:
  "fsm_write (as @ bs) s =
    (case fsm_write as s of
       None \<Rightarrow> None
     | Some (t, s1) \<Rightarrow> (case fsm_write bs s1 of None \<Rightarrow> None | Some (u, s2) \<Rightarrow> Some (t @ u, s2)))"
  by (induction as arbitrary: s) (auto split: option.splits)

text \<open>What the stream will have when the buffer is empty, and the machine then.\<close>

definition ab_shown :: "ansibuf \<Rightarrow> (string \<times> ansi_fsm) option" where
  "ab_shown s = map_option (\<lambda>(t, m). (ab_os s @ t, m)) (fsm_write (ab_obuf s) (ab_ofsm s))"

definition ab_inv :: "ansibuf \<Rightarrow> bool" where
  "ab_inv s = (ab_os_ok s \<and> length (ab_obuf s) < OBUF_SIZE)"

lemma output_buffer_shown:
  assumes "ab_os_ok s"
  shows "\<exists>s'. ab_output_buffer s = Some (True, s') \<and> ab_shown s' = ab_shown s \<and> ab_obuf s' = [] \<and> ab_os_ok s'"
proof -
  obtain t m where "fsm_write (ab_obuf s) (ab_ofsm s) = Some (t, m)" using fsm_write_defined' by blast
  then show ?thesis using assms by (simp add: ab_output_buffer_def ab_shown_def Let_def)
qed

text \<open>The abstract buffer: one more character behind the text.\<close>

definition shown_char :: "char \<Rightarrow> (string \<times> ansi_fsm) option \<Rightarrow> (string \<times> ansi_fsm) option" where
  "shown_char c r =
     (case r of None \<Rightarrow> None
      | Some (t, m) \<Rightarrow> (case fsm_char c m of None \<Rightarrow> None | Some (u, m1) \<Rightarrow> Some (t @ u, m1)))"

lemma shown_snoc: "ab_shown (s\<lparr>ab_obuf := ab_obuf s @ [c]\<rparr>) = shown_char c (ab_shown s)"
  by (auto simp: ab_shown_def shown_char_def fsm_write_append split: option.splits)

lemma sputc_shown:
  assumes "ab_inv s"
  shows "\<exists>s'. ab_sputc c s = Some (True, s') \<and> ab_shown s' = shown_char c (ab_shown s) \<and> ab_inv s'"
proof (cases "length (ab_obuf s) < OBUF_SIZE - 1")
  case True
  then show ?thesis
    using assms by (simp add: ab_sputc_def shown_snoc ab_inv_def)
next
  case False
  obtain s' where "ab_output_buffer (s\<lparr>ab_obuf := ab_obuf s @ [c]\<rparr>) = Some (True, s')"
    "ab_shown s' = shown_char c (ab_shown s)" "ab_obuf s' = []" "ab_os_ok s'"
    using output_buffer_shown [of "s\<lparr>ab_obuf := ab_obuf s @ [c]\<rparr>"] assms shown_snoc
    by (auto simp: ab_inv_def)
  then show ?thesis
    using False assms by (simp add: ab_sputc_def ab_overflow_def ab_inv_def OBUF_SIZE_def)
qed

definition ab_put1 :: "char \<Rightarrow> ansibuf \<Rightarrow> ansibuf option" where
  "ab_put1 c s = (case ab_sputc c s of Some (True, s1) \<Rightarrow> Some s1 | _ \<Rightarrow> None)"

definition ab_flush1 :: "ansibuf \<Rightarrow> ansibuf option" where
  "ab_flush1 s = (case ab_sync s of Some (True, s1) \<Rightarrow> Some s1 | _ \<Rightarrow> None)"

lemma ab_put_all: "put_all ab_put1 cs s = Some s' \<Longrightarrow> ab_put cs s = Some (True, s')"
  by (induction cs arbitrary: s) (auto simp: ab_put1_def split: option.splits bool.splits prod.splits)

lemma ab_put_law: "ab_inv s \<Longrightarrow> \<exists>s'. ab_put1 c s = Some s' \<and> ab_inv s' \<and> ab_shown s' = shown_char c (ab_shown s)"
  using sputc_shown [of s c] by (auto simp: ab_put1_def)

lemma ab_flush_law: "ab_inv s \<Longrightarrow> \<exists>s'. ab_flush1 s = Some s' \<and> ab_inv s' \<and> ab_obuf s' = [] \<and> ab_shown s' = ab_shown s"
  using output_buffer_shown [of s] by (auto simp: ab_flush1_def ab_sync_def ab_inv_def OBUF_SIZE_def)

interpretation ansi_out: buffered_output ab_put1 ab_flush1 ab_inv "\<lambda>s. ab_obuf s = []" ab_shown shown_char
  by unfold_locales (simp_all add: ab_put_law ab_flush_law)

lemma fold_shown_char:
  "fold shown_char cs (Some (t, m)) = map_option (\<lambda>(u, m1). (t @ u, m1)) (fsm_write cs m)"
proof (induction cs arbitrary: t m)
  case (Cons c cs)
  obtain u m1 where "fsm_char c m = Some (u, m1)" using fsm_char_defined [of c m] by auto
  with Cons show ?case by (auto simp: shown_char_def split: option.splits)
qed simp

text \<open>C37: text written through the buffer, in any number of pieces of it, and flushed is on the stream
  exactly as the machine writes the whole text at once: the 127 characters of the put area never
  split a mark or an escape.\<close>

theorem ansi_buffer_exact:
  assumes "ab_os_ok s" "ab_obuf s = []" "fsm_write cs (ab_ofsm s) = Some (t, m)"
  shows "\<exists>s1 s2. ab_put cs s = Some (True, s1) \<and> ab_sync s1 = Some (True, s2) \<and>
    ab_os s2 = ab_os s @ t \<and> ab_ofsm s2 = m \<and> ab_obuf s2 = []"
proof -
  have i: "ab_inv s" using assms by (simp add: ab_inv_def OBUF_SIZE_def)
  obtain s1 s2 where s12: "put_all ab_put1 cs s = Some s1" "ab_flush1 s1 = Some s2" "ab_obuf s2 = []"
    "ab_shown s2 = fold shown_char cs (ab_shown s)"
    using ansi_out.written_and_flushed [OF i, of cs] by blast
  have "ab_shown s2 = Some (ab_os s @ t, m)"
    using s12(4) assms by (simp add: ab_shown_def fold_shown_char)
  then have "ab_os s2 = ab_os s @ t \<and> ab_ofsm s2 = m" using s12(3) by (auto simp: ab_shown_def)
  moreover have "ab_sync s1 = Some (True, s2)"
    using s12(2) by (auto simp: ab_flush1_def split: option.splits bool.splits prod.splits)
  ultimately show ?thesis using ab_put_all [OF s12(1)] s12(3) by auto
qed

theorem ansi_buffer_exact_witness:
  "\<exists>s1 s2. ab_put ''a_b'' new_ansibuf = Some (True, s1) \<and> ab_sync s1 = Some (True, s2) \<and>
    ab_os s2 = ''a'' @ ansi_esc [4] @ ''b''"
  using ansi_buffer_exact [of new_ansibuf "''a_b''" "''a'' @ ansi_esc [4] @ ''b''" "new_fsm\<lparr>an_u := True\<rparr>"]
  by (auto simp: new_ansibuf_def new_fsm_def fsm_char_def ansi_consts)

text \<open>On a stream that has failed the text stays in the buffer, while the machine has gone on over it.\<close>

lemma failed_stream: "\<not> ab_os_ok s \<Longrightarrow> fsm_write (ab_obuf s) (ab_ofsm s) = Some (t, m) \<Longrightarrow>
    ab_sync s = Some (False, s\<lparr>ab_ofsm := m\<rparr>)"
  by (simp add: ab_sync_def ab_output_buffer_def Let_def)

end
