(* ===== verification/Compile.thy ===== *)
theory Compile
  imports Plugin_Web
begin

text \<open>
  \<open>plugin-compile.cpp\<close>: the command that compiles and runs the text of a message.  The shell is an
  argument, as what \<open>std::system\<close> returns and does to the files of the directory; \<open>cy_writable\<close> says
  whether \<open>compile.cpp\<close> can be written.  Like the other plugins of its age the file is written for a
  class of messages that the repository no longer has (\<open>plugin_msg\<close>).
\<close>

type_synonym cp_files = "string \<Rightarrow> string option"

record cp_sys =
  cy_sh :: "string \<Rightarrow> cp_files \<Rightarrow> int \<times> cp_files"
  cy_writable :: bool

record compiler =
  cp_files :: cp_files
  cp_calls :: "string list"
  cp_replies :: replies

definition HEADERS :: string where
  "HEADERS =
     concat (map (\<lambda>h. ''#include <'' @ h @ ''>'' @ [LF])
       [''map'', ''set'', ''list'', ''array'', ''cmath'', ''ctime'', ''deque'', ''queue'', ''stack'',
        ''bitset'', ''cstdio'', ''vector'', ''string'', ''future'', ''thread'', ''cstdlib'', ''cstring'',
        ''fstream'', ''sstream'', ''iostream'', ''iterator'', ''algorithm'', ''exception'',
        ''stdexcept'', ''functional'']) @ [LF]"

definition PREAMBLE :: string where "PREAMBLE = ''using namespace std;'' @ [LF]"

definition MAIN :: string where "MAIN = ''int main()'' @ [LF]"

definition cp_system :: "cp_sys \<Rightarrow> string \<Rightarrow> compiler \<Rightarrow> int \<times> compiler" where
  "cp_system y cmd s =
     (case cy_sh y cmd (cp_files s) of (r, f) \<Rightarrow> (r, s\<lparr>cp_files := f, cp_calls := cp_calls s @ [cmd]\<rparr>))"

definition cp_reply :: "plugin_msg \<Rightarrow> string \<Rightarrow> compiler \<Rightarrow> compiler" where
  "cp_reply msg text s = s\<lparr>cp_replies := cp_replies s @ [(msg, text)]\<rparr>"

definition rm_cmd :: "string \<Rightarrow> string" where
  "rm_cmd f = ''rm -f '' @ f"

definition cp_temps :: "string list" where
  "cp_temps = [''compile'', ''compile.cpp'', ''compile.logfile.txt'', ''compile.errors.txt'', ''compile.output.txt'']"

definition cp_clean :: "cp_sys \<Rightarrow> compiler \<Rightarrow> compiler" where
  "cp_clean y s =
     fold (\<lambda>f s. snd (cp_system y (rm_cmd f) s)) cp_temps s"

definition cp_write :: "cp_sys \<Rightarrow> string \<Rightarrow> compiler \<Rightarrow> compiler" where
  "cp_write y text s =
     (if cy_writable y then s\<lparr>cp_files := (cp_files s)(''compile.cpp'' \<mapsto> text)\<rparr> else s)"

text \<open>The lines of a file; none when it cannot be opened.\<close>

definition file_lines :: "string option \<Rightarrow> string list" where
  "file_lines f = (case f of None \<Rightarrow> [] | Some t \<Rightarrow> lines_of (str_stream t))"

text \<open>The loop over the error messages of the compiler.\<close>

fun error_loop :: "nat \<Rightarrow> string \<Rightarrow> string \<Rightarrow> string list \<Rightarrow> string" where
  "error_loop n sep oss [] = oss"
| "error_loop n sep oss (l # ls) =
     (if \<not> n < 10 then oss
      else case (if l = [] then None else find_str ''error: '' l) of
             None \<Rightarrow> error_loop n sep oss ls
           | Some pos \<Rightarrow> error_loop (n + 1) '', '' (oss @ sep @ drop (pos + 7) l) ls)"

definition cut_line :: "string \<Rightarrow> string" where
  "cut_line l = (if 100 < length l then take 97 l @ ''...'' else l)"

text \<open>The loop over the output of the program: the count and the state after it.\<close>

fun output_loop :: "plugin_msg \<Rightarrow> nat \<Rightarrow> string list \<Rightarrow> compiler \<Rightarrow> nat \<times> compiler" where
  "output_loop msg n [] s = (n, s)"
| "output_loop msg n (l # ls) s =
     (if \<not> n < 5 then (n, s)
      else if l \<noteq> [] then output_loop msg (n + 1) ls (cp_reply msg (cut_line l) s)
      else output_loop msg n ls s)"

definition show_output :: "plugin_msg \<Rightarrow> compiler \<Rightarrow> compiler" where
  "show_output msg s =
     (case cp_files s ''compile.output.txt'' of
        None \<Rightarrow> cp_reply msg ''Output not found.'' s
      | Some t \<Rightarrow>
          (case output_loop msg 0 (file_lines (Some t)) s of (n, s1) \<Rightarrow>
             if 5 \<le> n then cp_reply msg ''... <--- flood control prevents further output.'' s1 else s1))"

definition compile_cmd :: "bool \<Rightarrow> string" where
  "compile_cmd cpp11 =
     (if cpp11 then ''/extra/gcc-trunk-4.7/bin/g++ -std=gnu++11'' else ''g++'') @
     '' -o compile compile.cpp > compile.logfile.txt 2> compile.errors.txt''"

definition run_cmd :: "bool \<Rightarrow> string" where
  "run_cmd cpp11 =
     ''LD_LIBRARY_PATH='' @ (if cpp11 then ''/extra/gcc-trunk-4.7/lib'' else []) @
     '' timeout 15s ./compile > compile.output.txt 2>&1''"

definition cpp :: "cp_sys \<Rightarrow> plugin_msg \<Rightarrow> bool \<Rightarrow> compiler \<Rightarrow> compiler" where
  "cpp y msg cpp11 s =
     (let text = pm_user_params msg
      in if text \<noteq> [] \<and> hd text = CHR ''{''
         then (let s1 = cp_write y (HEADERS @ PREAMBLE @ MAIN @ text) (cp_clean y s)
               in case cp_system y (compile_cmd cpp11) s1 of (r, s2) \<Rightarrow>
                    if r = -1 then cp_reply msg ''g++ failed to run.'' s2
                    else if cp_files s2 ''compile'' = None
                    then cp_reply msg (error_loop 0 [] [] (file_lines (cp_files s2 ''compile.errors.txt'')))
                           (cp_reply msg ''Compile failed.'' s2)
                    else case cp_system y (run_cmd cpp11) s2 of (r, s3) \<Rightarrow>
                           if r = -1 then cp_reply msg ''Program failed to run.'' s3
                           else show_output msg s3)
         else s)"

definition cp_actions :: "(string \<times> string \<times> bool) list" where
  "cp_actions =
     [(''!c++'', ''!c++ { cout << '' @ [DQUOTE] @ ''Hello IRC'' @ [BSL] @ ''n'' @ [DQUOTE] @ ''; } - Compile & run c++ code.'', False),
      (''!c++11'', ''!c++11 { cout << '' @ [DQUOTE] @ ''Hello IRC'' @ [BSL] @ ''n'' @ [DQUOTE] @ ''; } - Compile & run c++11 code.'', True)]"

subsection \<open>What is replied\<close>

lemma cp_reply_simps [simp]:
  "cp_replies (cp_reply msg t s) = cp_replies s @ [(msg, t)]"
  "cp_files (cp_reply msg t s) = cp_files s" "cp_calls (cp_reply msg t s) = cp_calls s"
  by (simp_all add: cp_reply_def)

lemma cp_system_replies [simp]: "cp_replies (snd (cp_system y cmd s)) = cp_replies s"
  by (simp add: cp_system_def split: prod.split)

lemma cp_system_case: "cp_system y cmd s = (r, s') \<Longrightarrow> cp_replies s' = cp_replies s"
  using cp_system_replies [of y cmd s] by simp

lemma cp_clean_replies [simp]: "cp_replies (cp_clean y s) = cp_replies s"
  by (simp add: cp_clean_def cp_temps_def)

lemma cp_write_replies [simp]: "cp_replies (cp_write y t s) = cp_replies s"
  by (simp add: cp_write_def)

lemma output_loop_eq:
  "n \<le> 5 \<Longrightarrow> output_loop msg n ls s =
    (n + length (take (5 - n) (filter (\<lambda>l. l \<noteq> []) ls)),
     s\<lparr>cp_replies := cp_replies s @ map (\<lambda>l. (msg, cut_line l)) (take (5 - n) (filter (\<lambda>l. l \<noteq> []) ls))\<rparr>)"
proof (induction ls arbitrary: n s)
  case (Cons l ls)
  show ?case
  proof (cases "n < 5 \<and> l \<noteq> []")
    case True
    then have "5 - n = Suc (5 - (n + 1))" by arith
    then show ?thesis using True Cons.IH [of "n + 1"] by (simp add: cp_reply_def)
  next
    case False
    then show ?thesis using Cons by auto
  qed
qed simp

text \<open>The replies to the output of a program.\<close>

definition output_replies :: "string list \<Rightarrow> string list" where
  "output_replies ls =
     (let shown = filter (\<lambda>l. l \<noteq> []) ls
      in map cut_line (take 5 shown) @
         (if 5 \<le> length shown then [''... <--- flood control prevents further output.''] else []))"

lemma show_output_replies:
  "cp_files s ''compile.output.txt'' = Some t \<Longrightarrow>
    cp_replies (show_output msg s) =
    cp_replies s @ map (Pair msg) (output_replies (lines_of (str_stream t)))"
  by (simp add: show_output_def file_lines_def output_loop_eq output_replies_def Let_def)

lemma cut_line_length: "length (cut_line l) \<le> 100"
  by (simp add: cut_line_def)

lemma output_replies_bound:
  "length (output_replies ls) \<le> 6 \<and> list_all (\<lambda>t. length t \<le> 100) (output_replies ls)"
  by (simp add: output_replies_def Let_def list_all_iff cut_line_length)

lemma show_output_bound:
  "\<exists>ts. cp_replies (show_output msg s) = cp_replies s @ map (Pair msg) ts \<and> length ts \<le> 6 \<and> list_all (\<lambda>t. length t \<le> 100) ts"
proof (cases "cp_files s ''compile.output.txt''")
  case None
  then show ?thesis
    by (intro exI [of _ "[''Output not found.'']"]) (simp add: show_output_def)
next
  case (Some t)
  then show ?thesis
    using output_replies_bound show_output_replies [OF Some] by blast
qed

text \<open>whatever the compiler and the program do, the command sends at most six replies, all of
  them to the message it answers, and none when the text does not begin with a brace.\<close>

theorem cpp_replies_few:
  "\<exists>ts. cp_replies (cpp y msg c s) = cp_replies s @ map (Pair msg) ts \<and> length ts \<le> 6"
proof -
  let ?go = "pm_user_params msg \<noteq> [] \<and> hd (pm_user_params msg) = CHR ''{''"
  let ?s1 = "cp_write y (HEADERS @ PREAMBLE @ MAIN @ pm_user_params msg) (cp_clean y s)"
  obtain r2 s2 where c2: "cp_system y (compile_cmd c) ?s1 = (r2, s2)" by fastforce
  obtain r3 s3 where c3: "cp_system y (run_cmd c) s2 = (r3, s3)" by fastforce
  have r: "cp_replies s2 = cp_replies s" "cp_replies s3 = cp_replies s"
    using cp_system_case [OF c2] cp_system_case [OF c3] by simp_all
  have one: "\<exists>ts. cp_replies (cp_reply msg t u) = cp_replies s @ map (Pair msg) ts \<and> length ts \<le> 6"
    if "cp_replies u = cp_replies s" for t u
    using that by (intro exI [of _ "[t]"]) simp
  have two: "\<exists>ts. cp_replies (cp_reply msg t (cp_reply msg t' u)) = cp_replies s @ map (Pair msg) ts \<and> length ts \<le> 6"
    if "cp_replies u = cp_replies s" for t t' u
    using that by (intro exI [of _ "[t', t]"]) simp
  have many: "\<exists>ts. cp_replies (show_output msg s3) = cp_replies s @ map (Pair msg) ts \<and> length ts \<le> 6"
    using show_output_bound [of msg s3] r(2) by auto
  show ?thesis
  proof (cases ?go)
    case True
    then show ?thesis using one [OF r(1)] one [OF r(2)] two [OF r(1)] many by (simp add: cpp_def Let_def c2 c3)
  next
    case False
    then show ?thesis by (auto simp: cpp_def Let_def)
  qed
qed

text \<open>What \<open>rm -f\<close> is relied on for.\<close>

definition rm_works :: "cp_sys \<Rightarrow> bool" where
  "rm_works y = list_all (\<lambda>f. \<forall>fs. snd (cy_sh y (rm_cmd f) fs) = fs(f := None)) cp_temps"

lemma rm_files:
  assumes "rm_works y" "f \<in> set cp_temps"
  shows "cp_files (snd (cp_system y (rm_cmd f) s)) = (cp_files s)(f := None)"
proof -
  have "snd (cy_sh y (rm_cmd f) (cp_files s)) = (cp_files s)(f := None)"
    using assms by (simp add: rm_works_def list_all_iff)
  then show ?thesis by (simp add: cp_system_def split: prod.split) (metis snd_conv)
qed

lemma rm_all_files:
  "rm_works y \<Longrightarrow> set gs \<subseteq> set cp_temps \<Longrightarrow>
    cp_files (fold (\<lambda>f s. snd (cp_system y (rm_cmd f) s)) gs s) f = (if f \<in> set gs then None else cp_files s f)"
  by (induction gs arbitrary: s) (auto simp: rm_files)

lemma cp_clean_files:
  "rm_works y \<Longrightarrow> cp_files (cp_clean y s) f = (if f \<in> set cp_temps then None else cp_files s f)"
  by (simp add: cp_clean_def rm_all_files)

lemma cp_system_calls [simp]: "cp_calls (snd (cp_system y cmd s)) = cp_calls s @ [cmd]"
  by (simp add: cp_system_def split: prod.split)

lemma cp_clean_calls: "cp_calls (cp_clean y s) = cp_calls s @ map rm_cmd cp_temps"
  by (simp add: cp_clean_def cp_temps_def)

definition braced :: "plugin_msg \<Rightarrow> bool" where
  "braced msg = (pm_user_params msg \<noteq> [] \<and> hd (pm_user_params msg) = CHR ''{'')"

lemma cpp_braced:
  "braced msg \<Longrightarrow> cpp y msg c s =
    (let s1 = cp_write y (HEADERS @ PREAMBLE @ MAIN @ pm_user_params msg) (cp_clean y s)
     in case cp_system y (compile_cmd c) s1 of (r, s2) \<Rightarrow>
          if r = -1 then cp_reply msg ''g++ failed to run.'' s2
          else if cp_files s2 ''compile'' = None
          then cp_reply msg (error_loop 0 [] [] (file_lines (cp_files s2 ''compile.errors.txt'')))
                 (cp_reply msg ''Compile failed.'' s2)
          else case cp_system y (run_cmd c) s2 of (r, s3) \<Rightarrow>
                 if r = -1 then cp_reply msg ''Program failed to run.'' s3
                 else show_output msg s3)"
  by (simp add: cpp_def braced_def)

text \<open>What the reply to a failed compilation is meant to be: the texts behind the first ten errors.\<close>

definition error_text :: "string \<Rightarrow> string option" where
  "error_text l = map_option (\<lambda>pos. drop (pos + 7) l) (find_str ''error: '' l)"

definition errors_of :: "string list \<Rightarrow> string" where
  "errors_of ls = join_with '', '' (take 10 (List.map_filter error_text ls))"

lemma join_with_Cons: "join_with sep (x # xs) = x @ (if xs = [] then [] else sep @ join_with sep xs)"
  by (cases xs) (simp_all add: join_with_def)

lemma error_loop_eq:
  "n \<le> 10 \<Longrightarrow> error_loop n sep oss ls =
    (let xs = take (10 - n) (List.map_filter error_text ls) in oss @ (if xs = [] then [] else sep @ join_with '', '' xs))"
proof (induction ls arbitrary: n sep oss)
  case Nil
  then show ?case by (simp add: map_filter_simps)
next
  case (Cons l ls)
  have e: "error_text l = None \<longleftrightarrow> (if l = [] then None else find_str ''error: '' l) = None"
    by (simp add: error_text_def)
  show ?case
  proof (cases "n < 10")
    case False
    with Cons.prems show ?thesis by simp
  next
    case True
    then have d: "10 - n = Suc (10 - (n + 1))" by arith
    show ?thesis
    proof (cases "error_text l")
      case None
      with True Cons.IH [of n] e show ?thesis by (simp add: map_filter_simps)
    next
      case (Some t)
      then obtain pos where "l \<noteq> []" "find_str ''error: '' l = Some pos" "t = drop (pos + 7) l"
        by (cases l) (auto simp: error_text_def split: if_splits)
      with True Cons.IH [of "n + 1"] Some d show ?thesis
        by (simp add: map_filter_simps Let_def join_with_Cons del: diff_Suc_Suc)
    qed
  qed
qed

lemma error_loop_errors: "error_loop 0 [] [] ls = errors_of ls"
  by (auto simp: error_loop_eq errors_of_def Let_def join_with_def)

text \<open>C36: When removing a file works, \<open>system\<close> can run the compiler (it does not return -1), and the compiler leaves
  no program behind where there was none, nothing is run, not even the program of an earlier message: the shell gets the
  removals and the compilation, and the replies are the failure and the texts of the first ten errors in what this
  compilation has written, since the errors of an earlier one have been removed before it.\<close>

theorem failed_compile_runs_nothing:
  assumes "rm_works y" "braced msg"
    and "before = cp_files (cp_write y (HEADERS @ PREAMBLE @ MAIN @ pm_user_params msg) (cp_clean y s))"
    and "cy_sh y (compile_cmd c) before = (r, after)" "r \<noteq> -1" "before ''compile'' = None \<longrightarrow> after ''compile'' = None"
  shows "cp_calls (cpp y msg c s) = cp_calls s @ map rm_cmd cp_temps @ [compile_cmd c] \<and>
    before ''compile'' = None \<and> before ''compile.errors.txt'' = None \<and>
    cp_replies (cpp y msg c s) =
      cp_replies s @ [(msg, ''Compile failed.''), (msg, errors_of (file_lines (after ''compile.errors.txt'')))]"
proof -
  let ?s1 = "cp_write y (HEADERS @ PREAMBLE @ MAIN @ pm_user_params msg) (cp_clean y s)"
  obtain r2 s2 where c2: "cp_system y (compile_cmd c) ?s1 = (r2, s2)" by fastforce
  have n1: "before ''compile'' = None" "before ''compile.errors.txt'' = None"
    using cp_clean_files [OF assms(1), of s] by (simp_all add: assms(3) cp_write_def cp_temps_def)
  have f: "r2 = r" "cp_files s2 = after" using c2 assms(3,4) by (auto simp: cp_system_def)
  have s2: "s2 = snd (cp_system y (compile_cmd c) ?s1)" using c2 by simp
  have k: "cp_calls s2 = cp_calls s @ map rm_cmd cp_temps @ [compile_cmd c]"
    by (simp add: s2 cp_write_def cp_clean_calls)
  have "cp_replies s2 = cp_replies s" using cp_system_case [OF c2] by simp
  then show ?thesis
    using f k n1 assms(5,6) by (simp add: cpp_braced [OF assms(2)] c2 error_loop_errors)
qed

text \<open>when a program was compiled and has run, the replies are its first five lines that are not
  empty, each cut to a hundred characters, with the note about flood control behind the fifth.\<close>

theorem cpp_shows_output:
  assumes "braced msg"
    and "cp_system y (compile_cmd c) (cp_write y (HEADERS @ PREAMBLE @ MAIN @ pm_user_params msg) (cp_clean y s)) = (r2, s2)"
    and "r2 \<noteq> -1" "cp_files s2 ''compile'' \<noteq> None"
    and "cp_system y (run_cmd c) s2 = (r3, s3)" "r3 \<noteq> -1" "cp_files s3 ''compile.output.txt'' = Some out"
  shows "cp_replies (cpp y msg c s) = cp_replies s @ map (Pair msg) (output_replies (lines_of (str_stream out)))"
  using show_output_replies [OF assms(7), of msg] cp_system_case [OF assms(2)] cp_system_case [OF assms(5)]
  by (simp add: cpp_braced [OF assms(1)] assms(2-6))

subsection \<open>A shell\<close>

definition demo_sh :: "bool \<Rightarrow> string \<Rightarrow> cp_files \<Rightarrow> int \<times> cp_files" where
  "demo_sh good_source cmd fs =
     (0, if take 6 cmd = ''rm -f '' then fs(drop 6 cmd := None)
         else if cmd = compile_cmd False
         then (if good_source then fs(''compile'' \<mapsto> ''program'') else fs(''compile.errors.txt'' \<mapsto> ''a: error: no'' @ [LF]))
         else if cmd = run_cmd False then fs(''compile.output.txt'' \<mapsto> ''hi'' @ [LF]) else fs)"

definition demo_shell :: "bool \<Rightarrow> cp_sys" where
  "demo_shell good_source = \<lparr>cy_sh = demo_sh good_source, cy_writable = True\<rparr>"

definition demo_request :: plugin_msg where
  "demo_request = \<lparr>pm_cmd = ''PRIVMSG'', pm_text = [], pm_nick = ''a'', pm_reply_to = ''#c'', pm_user_cmd = ''!c++'',
    pm_user_params = ''{}''\<rparr>"

definition demo_compiler :: compiler where
  "demo_compiler = \<lparr>cp_files = (\<lambda>_. None), cp_calls = [], cp_replies = []\<rparr>"

lemma demo_rm: "rm_works (demo_shell g)"
  by (simp add: rm_works_def list_all_iff demo_shell_def demo_sh_def rm_cmd_def)

lemma demo_braced: "braced demo_request"
  by (simp add: braced_def demo_request_def)

theorem failed_compile_runs_nothing_witness:
  "cp_calls (cpp (demo_shell False) demo_request False demo_compiler) = map rm_cmd cp_temps @ [compile_cmd False] \<and>
   cp_replies (cpp (demo_shell False) demo_request False demo_compiler) =
     [(demo_request, ''Compile failed.''), (demo_request, errors_of (lines_of (str_stream (''a: error: no'' @ [LF]))))]"
proof -
  let ?y = "demo_shell False"
  let ?before = "cp_files (cp_write ?y (HEADERS @ PREAMBLE @ MAIN @ pm_user_params demo_request) (cp_clean ?y demo_compiler))"
  have "cy_sh ?y (compile_cmd False) ?before = (0, ?before(''compile.errors.txt'' \<mapsto> ''a: error: no'' @ [LF]))"
    by (simp add: demo_shell_def demo_sh_def compile_cmd_def)
  from failed_compile_runs_nothing [OF demo_rm demo_braced refl this] show ?thesis
    by (simp add: demo_compiler_def file_lines_def)
qed

lemma demo_not_rm: "take 6 (compile_cmd False) \<noteq> ''rm -f ''" "take 6 (run_cmd False) \<noteq> ''rm -f ''"
  "run_cmd False \<noteq> compile_cmd False"
  by (simp_all add: compile_cmd_def run_cmd_def)

theorem cpp_shows_output_witness:
  "cp_replies (cpp (demo_shell True) demo_request False demo_compiler)
    = map (Pair demo_request) (output_replies (lines_of (str_stream (''hi'' @ [LF]))))"
proof -
  let ?s1 = "cp_write (demo_shell True) (HEADERS @ PREAMBLE @ MAIN @ pm_user_params demo_request) (cp_clean (demo_shell True) demo_compiler)"
  obtain r2 s2 where s2: "cp_system (demo_shell True) (compile_cmd False) ?s1 = (r2, s2)" by fastforce
  obtain r3 s3 where s3: "cp_system (demo_shell True) (run_cmd False) s2 = (r3, s3)" by fastforce
  have "r2 \<noteq> -1" "cp_files s2 ''compile'' \<noteq> None"
    using s2 by (auto simp: cp_system_def demo_shell_def demo_sh_def demo_not_rm)
  moreover have "r3 \<noteq> -1" "cp_files s3 ''compile.output.txt'' = Some (''hi'' @ [LF])"
    using s3 by (auto simp: cp_system_def demo_shell_def demo_sh_def demo_not_rm)
  ultimately show ?thesis
    using cpp_shows_output [OF demo_braced s2 _ _ s3] by (simp add: demo_compiler_def)
qed

end
