(* ===== verification/Tools.thy ===== *)
theory Tools
  imports Bot_Loop
begin

text \<open>
  The programs around the bot: what \<open>main\<close> of \<open>skivvy.cpp\<close> returns and the filters of its log, and
  the converter of \<open>convert-cvars.cpp\<close>.  \<open>isprint\<close> is that of the locale a process starts in; \<open>char\<close>
  is signed.
\<close>

subsection \<open>The log filters\<close>

definition isprint :: "char \<Rightarrow> bool" where
  "isprint c = (32 \<le> code c \<and> code c \<le> 126)"

definition loggable :: "char \<Rightarrow> bool" where
  "loggable c = (isprint c \<or> c = CR \<or> c = LF \<or> c = TAB)"

definition unprintable_filter2 :: "string \<Rightarrow> string" where
  "unprintable_filter2 s = map (\<lambda>c. if \<not> isprint c \<and> c \<noteq> CR \<and> c \<noteq> LF \<and> c \<noteq> TAB then CHR ''?'' else c) s"

definition hex_digits :: string where "hex_digits = ''0123456789ABCDEF''"

text \<open>\<open>d[i]\<close> for an \<open>int\<close>: \<open>None\<close> outside the literal.\<close>

definition digit_at :: "int \<Rightarrow> char option" where
  "digit_at i = (if 0 \<le> i \<and> i < int (length hex_digits) then Some (hex_digits ! nat i) else None)"

text \<open>\<open>c >> 4\<close> and \<open>c & 0x0F\<close> after the promotion to \<open>int\<close>.\<close>

definition hex_byte :: "char \<Rightarrow> string option" where
  "hex_byte c =
     (case (digit_at (schar c div 16), digit_at (schar c mod 16)) of
        (Some a, Some b) \<Rightarrow> Some (''[0x'' @ [a, b] @ '']'')
      | _ \<Rightarrow> None)"

fun unprintable_filter :: "string \<Rightarrow> string option" where
  "unprintable_filter [] = Some []"
| "unprintable_filter (c # cs) =
     (case (if isprint c \<or> c = CR \<or> c = LF \<or> c = TAB then Some [c] else hex_byte c) of
        None \<Rightarrow> None
      | Some t \<Rightarrow> (case unprintable_filter cs of None \<Rightarrow> None | Some o1 \<Rightarrow> Some (t @ o1)))"

subsection \<open>\<open>main\<close>\<close>

text \<open>The status of the process, from what \<open>init\<close> and \<open>exit\<close> threw and the bot they left.\<close>

definition main_status :: "bot_error option \<Rightarrow> bot \<Rightarrow> int" where
  "main_status e b = (case e of Some x \<Rightarrow> 1 | None \<Rightarrow> (if b_restart b then 6 else 0))"

subsection \<open>The converter\<close>

record cvar_t =
  cv_name :: string
  cv_desc :: string
  cv_dflt :: string
  cv_type :: string

definition cvar_less :: "cvar_t \<Rightarrow> cvar_t \<Rightarrow> bool" where
  "cvar_less a b = str_lt (cv_name a) (cv_name b)"

definition read_cvar :: "istream \<Rightarrow> cvar_t \<Rightarrow> cvar_t \<times> istream" where
  "read_cvar is c =
     (case getline LF (cv_name c) is of (n, i1) \<Rightarrow>
      case getline LF (cv_desc c) i1 of (d, i2) \<Rightarrow>
      case getline LF (cv_dflt c) i2 of (f, i3) \<Rightarrow>
      case getline LF (cv_type c) i3 of (t, i4) \<Rightarrow>
        (\<lparr>cv_name = n, cv_desc = d, cv_dflt = f, cv_type = t\<rparr>, i4))"

definition write_cvar :: "cvar_t \<Rightarrow> string" where
  "write_cvar c = cv_name c @ [LF] @ cv_desc c @ [LF] @ cv_dflt c @ [LF] @ cv_type c"

definition bold_mark :: string where "bold_mark = [BSL] @ ''002''"

text \<open>A position behind a failed extraction is \<open>npos\<close>, from which nothing more is found.\<close>

definition cvar_fields :: "hol \<Rightarrow> string \<Rightarrow> cvar_t option" where
  "cvar_fields h line =
     (case h_extract h line bold_mark bold_mark 0 of None \<Rightarrow> None | Some (n, p1) \<Rightarrow>
      case h_extract h line ''|'' bold_mark p1 of None \<Rightarrow> None | Some (d, p2) \<Rightarrow>
      case h_extract h line bold_mark bold_mark p2 of None \<Rightarrow> None | Some (f, p3) \<Rightarrow>
      case find_str bold_mark (drop p3 line) of None \<Rightarrow> None | Some i \<Rightarrow>
        Some \<lparr>cv_name = h_trim h n, cv_desc = h_trim h d, cv_dflt = h_trim h f,
              cv_type = h_trim h (drop (p3 + i + 4) line)\<rparr>)"

definition convert_line :: "hol \<Rightarrow> string \<Rightarrow> string" where
  "convert_line h line =
     (if find_str bold_mark line = None then []
      else case getline DQUOTE line (str_stream line) of (l1, i1) \<Rightarrow>
           case getline DQUOTE l1 i1 of (l2, i2) \<Rightarrow>
             if l2 = [] then []
             else (case cvar_fields h l2 of None \<Rightarrow> [] | Some c \<Rightarrow> write_cvar c @ [LF]))"

definition convert_cvars :: "hol \<Rightarrow> istream \<Rightarrow> string" where
  "convert_cvars h is = concat (map (convert_line h) (lines_of is))"

subsection \<open>The filters\<close>

lemma digit_at_defined: "digit_at i \<noteq> None \<longleftrightarrow> 0 \<le> i \<and> i < 16"
  by (simp add: digit_at_def hex_digits_def)

lemma hex_byte_defined: "hex_byte c \<noteq> None \<longleftrightarrow> code c < 128"
proof (cases "code c < 128")
  case True
  then have "0 \<le> schar c div 16" "schar c div 16 < 16" "0 \<le> schar c mod 16" "schar c mod 16 < 16"
    by (simp_all add: schar_def)
  then have "digit_at (schar c div 16) \<noteq> None" "digit_at (schar c mod 16) \<noteq> None"
    using digit_at_defined by blast+
  then show ?thesis using True by (auto simp: hex_byte_def)
next
  case False
  have "int (code c) - 256 < 0" using code_less_256 [of c] by linarith
  with False have "schar c < 0" by (simp add: schar_def)
  then have "schar c div 16 < 0" by simp
  then have "digit_at (schar c div 16) = None" by (simp add: digit_at_def)
  then show ?thesis using False by (simp add: hex_byte_def)
qed

lemma loggable_ascii: "loggable c \<Longrightarrow> code c < 128"
  by (auto simp: loggable_def isprint_def char_consts code_def)

lemma digit_loggable: "digit_at i = Some d \<Longrightarrow> loggable d"
proof -
  assume "digit_at i = Some d"
  then have "d \<in> set hex_digits" by (auto simp: digit_at_def split: if_splits)
  then show ?thesis by (auto simp: hex_digits_def loggable_def isprint_def code_def)
qed

lemma hex_byte_loggable: "hex_byte c = Some t \<Longrightarrow> list_all loggable t"
  by (auto simp: hex_byte_def digit_loggable split: option.splits)
    (simp_all add: loggable_def isprint_def code_def)

lemma filter_Cons:
  "unprintable_filter (c # cs) =
    (case (if loggable c then Some [c] else hex_byte c) of
       None \<Rightarrow> None
     | Some t \<Rightarrow> map_option (\<lambda>o1. t @ o1) (unprintable_filter cs))"
  by (auto simp: loggable_def split: option.split)

lemma filter_defined: "unprintable_filter s = None \<longleftrightarrow> \<not> list_all (\<lambda>c. code c < 128) s"
proof (induction s)
  case (Cons c s)
  then show ?case
    using hex_byte_defined [of c] loggable_ascii [of c]
    by (cases "loggable c"; cases "hex_byte c") (simp_all add: filter_Cons del: unprintable_filter.simps)
qed simp

lemma filter_loggable: "unprintable_filter s = Some t \<Longrightarrow> list_all loggable t"
proof (induction s arbitrary: t)
  case (Cons c s)
  then show ?case
    using hex_byte_loggable [of c]
    by (cases "loggable c"; cases "hex_byte c"; cases "unprintable_filter s")
      (auto simp: filter_Cons simp del: unprintable_filter.simps)
qed simp

text \<open>C27: the filter of the log reads before its table of digits exactly when the text has a byte from
  128 on, as any text in UTF-8 that is not plain ASCII has: \<open>char\<close> is signed and \<open>c >> 4\<close> is negative.
  On other texts its output can be printed.\<close>

theorem log_filter_safe:
  "(unprintable_filter s = None \<longleftrightarrow> \<not> list_all (\<lambda>c. code c < 128) s) \<and>
    list_all loggable (case unprintable_filter s of None \<Rightarrow> [] | Some t \<Rightarrow> t)"
  using filter_defined [of s] filter_loggable by (auto split: option.splits)

lemma filter2_loggable: "list_all loggable (unprintable_filter2 s) \<and> length (unprintable_filter2 s) = length s"
  by (auto simp: unprintable_filter2_def list_all_iff loggable_def isprint_def code_def)

subsection \<open>Converted lines\<close>

lemma find_str_skip: "x \<notin> set a \<Longrightarrow> find_str (x # p) (a @ x # p @ b) = Some (length a)"
  by (induction a) (auto simp: starts_with_iff)

lemma extract_found:
  assumes "drop pos s = a @ (x # d1) @ t @ (y # d2) @ r" "x \<notin> set a" "y \<notin> set t"
  shows "extract_between s (x # d1) (y # d2) pos
    = Some (t, pos + length a + Suc (length d1) + length t + Suc (length d2))"
proof -
  have f: "find_str (x # d1) (drop pos s) = Some (length a)"
    using find_str_skip [OF assms(2), of d1 "t @ (y # d2) @ r"] assms(1) by simp
  have "drop (pos + length a + Suc (length d1)) s = drop (length a + Suc (length d1)) (drop pos s)"
    by (simp add: add.commute add.left_commute)
  also have "\<dots> = t @ y # d2 @ r" by (simp add: assms(1))
  finally have d: "drop (pos + length a + Suc (length d1)) s = t @ y # d2 @ r" .
  show ?thesis
    unfolding extract_between_def f by (simp only: option.case Let_def length_Cons d find_str_skip [OF assms(3)]) simp
qed

lemma drop_front: "length a = k \<Longrightarrow> drop k (a @ b) = b"
  by auto

text \<open>The table row of a variable, as in the comment of the converter.\<close>

definition cvar_row :: "string \<Rightarrow> string \<Rightarrow> string \<Rightarrow> string \<Rightarrow> string \<Rightarrow> string \<Rightarrow> string \<Rightarrow> string" where
  "cvar_row n m1 d m2 f m3 t =
     bold_mark @ n @ bold_mark @ m1 @ ''|'' @ d @ bold_mark @ m2 @ bold_mark @ f @ bold_mark @ m3 @ bold_mark @ t"

lemma cvar_fields_row:
  assumes "extracts h" "BSL \<notin> set (n @ d @ m2 @ f @ m3)" "CHR ''|'' \<notin> set m1"
  shows "cvar_fields h (cvar_row n m1 d m2 f m3 t) =
    Some \<lparr>cv_name = h_trim h n, cv_desc = h_trim h d, cv_dflt = h_trim h f, cv_type = h_trim h t\<rparr>"
proof -
  let ?row = "cvar_row n m1 d m2 f m3 t"
  let ?p1 = "8 + length n" let ?p2 = "?p1 + length m1 + 1 + length d + 4"
  let ?p3 = "?p2 + length m2 + 4 + length f + 4"
  have e: "h_extract h s a b p = extract_between s a b p" for s a b p
    using assms(1) by (simp add: extracts_def)
  have d1: "drop ?p1 ?row = m1 @ ''|'' @ d @ bold_mark @ m2 @ bold_mark @ f @ bold_mark @ m3 @ bold_mark @ t"
    using drop_front [of "bold_mark @ n @ bold_mark" ?p1] by (simp add: cvar_row_def bold_mark_def)
  have "drop ?p2 ?row = drop (length m1 + 1 + length d + 4) (drop ?p1 ?row)" by (simp add: ac_simps)
  also have "\<dots> = m2 @ bold_mark @ f @ bold_mark @ m3 @ bold_mark @ t"
    unfolding d1 using drop_front [of "m1 @ ''|'' @ d @ bold_mark" "length m1 + 1 + length d + 4"] by (simp add: bold_mark_def)
  finally have d2: "drop ?p2 ?row = m2 @ bold_mark @ f @ bold_mark @ m3 @ bold_mark @ t" .
  have "drop ?p3 ?row = drop (length m2 + 4 + length f + 4) (drop ?p2 ?row)" by (simp add: ac_simps)
  also have "\<dots> = m3 @ bold_mark @ t" 
    unfolding d2 using drop_front [of "m2 @ bold_mark @ f @ bold_mark" "length m2 + 4 + length f + 4"] by (simp add: bold_mark_def)
  finally have d3: "drop ?p3 ?row = m3 @ bold_mark @ t" .
  have x1: "extract_between ?row bold_mark bold_mark 0 = Some (n, ?p1)"
    using extract_found [of 0 ?row "[]" BSL "''002''" n BSL "''002''"] assms(2)
    by (simp add: cvar_row_def bold_mark_def)
  have x2: "extract_between ?row ''|'' bold_mark ?p1 = Some (d, ?p2)"
    using extract_found [of ?p1 ?row m1 "CHR ''|''" "[]" d BSL "''002''"] assms(2,3) d1
    by (simp add: bold_mark_def)
  have x3: "extract_between ?row bold_mark bold_mark ?p2 = Some (f, ?p3)"
    using extract_found [of ?p2 ?row m2 BSL "''002''" f BSL "''002''"] assms(2) d2
    by (simp add: bold_mark_def)
  have x4: "find_str bold_mark (drop ?p3 ?row) = Some (length m3)"
    using find_str_skip [of BSL m3 "''002''" t] assms(2) by (simp only: d3) (simp add: bold_mark_def)
  have "drop (?p3 + length m3 + 4) ?row = drop (length m3 + 4) (drop ?p3 ?row)" by (simp add: ac_simps)
  also have "\<dots> = t" 
    unfolding d3 using drop_front [of "m3 @ bold_mark" "length m3 + 4"] by (simp add: bold_mark_def)
  finally have x5: "drop (?p3 + length m3 + 4) ?row = t" .
  show ?thesis by (simp only: cvar_fields_def e x1 x2 x3 x4 x5 option.case prod.case)
qed

text \<open>a row of the table between the first two quotes of a line becomes the record of the
  variable: its trimmed name, description, default and type, on four lines, which \<open>operator>>\<close>
  of the record reads back.\<close>

theorem cvar_converted:
  assumes "extracts h" "BSL \<notin> set (n @ d @ m2 @ f @ m3)" "CHR ''|'' \<notin> set m1"
    and "DQUOTE \<notin> set (pre @ n @ m1 @ d @ m2 @ f @ m3 @ t)"
  shows "convert_line h (pre @ [DQUOTE] @ cvar_row n m1 d m2 f m3 t @ [DQUOTE] @ rest) =
    lines_text [h_trim h n, h_trim h d, h_trim h f, h_trim h t]"
proof -
  let ?row = "cvar_row n m1 d m2 f m3 t"
  have q: "DQUOTE \<notin> set ?row" "DQUOTE \<notin> set pre" "?row \<noteq> []"
    using assms(4) by (auto simp: cvar_row_def bold_mark_def char_consts)
  have "find_str bold_mark (pre @ [DQUOTE] @ ?row @ [DQUOTE] @ rest) \<noteq> None"
    using find_str_not_None [of bold_mark "pre @ [DQUOTE]"] by (simp add: cvar_row_def bold_mark_def)
  then show ?thesis
    using q by (auto simp: convert_line_def getline_found [where l = pre and r = "?row @ DQUOTE # rest"]
        getline_found [where l = ?row and r = rest] cvar_fields_row [OF assms(1-3)] write_cvar_def)
qed

lemma read_back:
  assumes "LF \<notin> set (a @ b @ c @ d)"
  shows "fst (read_cvar (str_stream (lines_text [a, b, c, d])) x) = \<lparr>cv_name = a, cv_desc = b, cv_dflt = c, cv_type = d\<rparr>"
  using assms
  by (simp add: read_cvar_def getline_found [where l = a and r = "lines_text [b, c, d]"]
      getline_found [where l = b and r = "lines_text [c, d]"] getline_found [where l = c and r = "lines_text [d]"]
      getline_found [where l = d and r = "[]"])

theorem cvar_converted_witness:
  "convert_line hol_ref (''bind '' @ [DQUOTE] @ cvar_row ''cg_accX'' '' '' '' No Info '' ''Default Value:'' '' 450 '' '' Data Type:'' '' integer'' @ [DQUOTE] @ [])
    = lines_text [trim_both ''cg_accX'', trim_both '' No Info '', trim_both '' 450 '', trim_both '' integer'']"
  using cvar_converted [of hol_ref "''cg_accX''" "'' No Info ''" "''Default Value:''" "'' 450 ''" "'' Data Type:''" "'' ''" "''bind ''" "'' integer''" "[]"]
  by (simp add: hol_ref_def extracts_def BSL_def DQUOTE_def)

end
