(* ===== verification/Nc_Client.thy ===== *)
theory Nc_Client
  imports Streams Hol_Lib
begin

text \<open>
  \<open>SkivvyClient::run\<close> of \<open>skivvy-client-nc.cpp\<close>: the thread that reads and sends commands, and the thread
  that polls the bot for its status lines, as a step relation.  Both write to the terminal through
  \<open>this_thread::out\<close>, which locks one insertion: a step is one insertion, one request or one wait.
  What \<open>send\<close> and \<open>readline\<close> give is chosen by the environment in the step that calls them; a
  failed \<open>send\<close> is \<open>None\<close>.  An inserted piece is kept with the thread that wrote it.
\<close>

datatype nc_pc = N_start | N_read | N_send | N_newline | N_name | N_close | N_wait int | N_get | N_end

datatype nc_poll = Q_test | Q_ask | Q_lines "string list" | Q_newline "string list" | Q_sleep | Q_end

datatype nc_writer = By_run | By_poll

record nc_client =
  nc_line :: string
  nc_prev :: string
  nc_prompt :: string
  nc_history :: "string list"
  nc_out :: "(nc_writer \<times> string) list"
  nc_log :: "string list"
  nc_done :: bool
  nc_dusted :: bool
  nc_pc :: nc_pc
  nc_poll :: nc_poll

definition new_nc :: "string list \<Rightarrow> nc_client" where
  "new_nc history =
     \<lparr>nc_line = [], nc_prev = [], nc_prompt = ''unknown: '', nc_history = history, nc_out = [], nc_log = [],
      nc_done = False, nc_dusted = False, nc_pc = N_start, nc_poll = Q_test\<rparr>"

definition nc_put :: "nc_writer \<Rightarrow> string \<Rightarrow> nc_client \<Rightarrow> nc_client" where
  "nc_put w text s = s\<lparr>nc_out := nc_out s @ [(w, text)]\<rparr>"

subsection \<open>The polling thread\<close>

definition parse_status :: "string \<Rightarrow> string list" where
  "parse_status text = lines_of (str_stream text)"

text \<open>One turn of \<open>poll\<close>; \<open>answer\<close> is what a request that ends in this turn gets.  The request may take any time: it is a turn
  of its own behind the test of \<open>done\<close>, and until the thread takes it the other thread may go on, and set \<open>done\<close>.\<close>

definition poll_turn :: "string option \<Rightarrow> nc_client \<Rightarrow> nc_client" where
  "poll_turn answer s =
     (case nc_poll s of
        Q_test \<Rightarrow>
          if nc_done s then s\<lparr>nc_dusted := True, nc_poll := Q_end\<rparr>
          else s\<lparr>nc_poll := Q_ask\<rparr>
      | Q_ask \<Rightarrow>
          (case answer of None \<Rightarrow> s\<lparr>nc_poll := Q_sleep\<rparr> | Some t \<Rightarrow> s\<lparr>nc_poll := Q_lines (parse_status t)\<rparr>)
      | Q_lines [] \<Rightarrow> s\<lparr>nc_poll := Q_sleep\<rparr>
      | Q_lines (l # ls) \<Rightarrow> (nc_put By_poll l s)\<lparr>nc_poll := Q_newline ls\<rparr>
      | Q_newline ls \<Rightarrow> (nc_put By_poll [LF] s)\<lparr>nc_poll := Q_lines ls\<rparr>
      | Q_sleep \<Rightarrow> s\<lparr>nc_poll := Q_test\<rparr>
      | Q_end \<Rightarrow> s)"

subsection \<open>The thread of \<open>run\<close>\<close>

text \<open>A line that was read, behind the test for \<open>exit\<close>.\<close>

definition got_line :: "string \<Rightarrow> nc_client \<Rightarrow> nc_client" where
  "got_line line s =
     (let s1 = s\<lparr>nc_line := line\<rparr>
      in if line = ''exit'' then s1\<lparr>nc_pc := N_close\<rparr>
         else if line = [] then s1\<lparr>nc_pc := N_read\<rparr>
         else (if line \<noteq> nc_prev s1 then s1\<lparr>nc_history := nc_history s1 @ [line], nc_prev := line\<rparr> else s1)\<lparr>nc_pc := N_send\<rparr>)"

definition run_turn :: "hol \<Rightarrow> int \<Rightarrow> string option \<Rightarrow> string option \<Rightarrow> nc_client \<Rightarrow> nc_client" where
  "run_turn h now input answer s =
     (case nc_pc s of
        N_start \<Rightarrow>
          (case answer of None \<Rightarrow> s | Some name \<Rightarrow> s\<lparr>nc_prompt := name @ '': ''\<rparr>)\<lparr>nc_pc := N_read\<rparr>
      | N_read \<Rightarrow> (case input of None \<Rightarrow> s\<lparr>nc_pc := N_close\<rparr> | Some i \<Rightarrow> got_line (h_trim h i) s)
      | N_send \<Rightarrow>
          (case answer of None \<Rightarrow> s\<lparr>nc_pc := N_name\<rparr>
           | Some r \<Rightarrow>
               let s1 = s\<lparr>nc_line := h_trim h r\<rparr>
               in if nc_line s1 = [] then s1\<lparr>nc_pc := N_name\<rparr>
                  else (nc_put By_run (nc_line s1) s1)\<lparr>nc_pc := N_newline\<rparr>)
      | N_newline \<Rightarrow> (nc_put By_run [LF] s)\<lparr>nc_pc := N_name\<rparr>
      | N_name \<Rightarrow>
          (case answer of None \<Rightarrow> s | Some name \<Rightarrow> s\<lparr>nc_prompt := ''<'' @ name @ ''>: ''\<rparr>)\<lparr>nc_pc := N_read\<rparr>
      | N_close \<Rightarrow> s\<lparr>nc_done := True, nc_pc := N_wait (now + 10)\<rparr>
      | N_wait timeout \<Rightarrow>
          if \<not> nc_dusted s \<and> timeout < now then s
          else (if \<not> nc_dusted s
                then s\<lparr>nc_log := nc_log s @ [''ERROR: client timed out waiting for response'']\<rparr> else s)\<lparr>nc_pc := N_get\<rparr>
      | N_get \<Rightarrow> if nc_poll s = Q_end then s\<lparr>nc_pc := N_end\<rparr> else s
      | N_end \<Rightarrow> s)"

inductive nc_step :: "hol \<Rightarrow> nc_client \<Rightarrow> nc_client \<Rightarrow> bool" for h where
  run: "nc_step h s (run_turn h now input answer s)"
| poll: "nc_step h s (poll_turn answer s)"

inductive nc_reach :: "hol \<Rightarrow> string list \<Rightarrow> nc_client \<Rightarrow> bool" for h hist where
  start: "nc_reach h hist (new_nc hist)"
| step: "nc_reach h hist s \<Longrightarrow> nc_step h s t \<Longrightarrow> nc_reach h hist t"

inductive_cases nc_stepE: "nc_step h s t"

lemmas nc_defs = run_turn_def poll_turn_def got_line_def nc_put_def Let_def

subsection \<open>What each thread has written\<close>

definition written_by :: "nc_writer \<Rightarrow> nc_client \<Rightarrow> string list" where
  "written_by w s = map snd (filter (\<lambda>p. fst p = w) (nc_out s))"

text \<open>Lines, each with its newline behind it, and one more without it when \<open>open\<close>.\<close>

fun line_pieces :: "bool \<Rightarrow> string list \<Rightarrow> bool" where
  "line_pieces op [] = (\<not> op)"
| "line_pieces op [l] = op"
| "line_pieces op (l # n # ps) = (n = [LF] \<and> line_pieces op ps)"

lemma line_pieces_snoc: "line_pieces False ps \<Longrightarrow> line_pieces True (ps @ [l])"
  by (induction False ps rule: line_pieces.induct) auto

lemma line_pieces_newline: "line_pieces True ps \<Longrightarrow> line_pieces False (ps @ [[LF]])"
  by (induction True ps rule: line_pieces.induct) auto

definition nc_inv :: "nc_client \<Rightarrow> bool" where
  "nc_inv s =
     (line_pieces (nc_pc s = N_newline) (written_by By_run s) \<and>
      line_pieces (\<exists>ls. nc_poll s = Q_newline ls) (written_by By_poll s) \<and>
      (nc_dusted s \<longleftrightarrow> nc_poll s = Q_end) \<and>
      (nc_dusted s \<longrightarrow> nc_done s) \<and>
      (nc_done s \<longleftrightarrow> (\<exists>d. nc_pc s = N_wait d) \<or> nc_pc s = N_get \<or> nc_pc s = N_end) \<and>
      (nc_pc s = N_end \<longrightarrow> nc_dusted s))"

lemma written_simps [simp]:
  "written_by w (nc_put v t s) = written_by w s @ (if v = w then [t] else [])"
  "written_by w (s\<lparr>nc_line := a\<rparr>) = written_by w s" "written_by w (s\<lparr>nc_prev := a\<rparr>) = written_by w s"
  "written_by w (s\<lparr>nc_prompt := a\<rparr>) = written_by w s" "written_by w (s\<lparr>nc_history := hs\<rparr>) = written_by w s"
  "written_by w (s\<lparr>nc_log := hs\<rparr>) = written_by w s" "written_by w (s\<lparr>nc_done := b\<rparr>) = written_by w s"
  "written_by w (s\<lparr>nc_dusted := b\<rparr>) = written_by w s" "written_by w (s\<lparr>nc_pc := p\<rparr>) = written_by w s"
  "written_by w (s\<lparr>nc_poll := q\<rparr>) = written_by w s"
  by (simp_all add: written_by_def nc_put_def)

lemma put_fields [simp]:
  "nc_pc (nc_put v t s) = nc_pc s" "nc_poll (nc_put v t s) = nc_poll s" "nc_done (nc_put v t s) = nc_done s"
  "nc_dusted (nc_put v t s) = nc_dusted s"
  by (simp_all add: nc_put_def)

lemma run_inv: "nc_inv s \<Longrightarrow> nc_inv (run_turn h now input answer s)"
  by (cases "nc_pc s")
    (auto simp: nc_inv_def run_turn_def got_line_def Let_def line_pieces_snoc line_pieces_newline split: option.splits)

lemma poll_inv: "nc_inv s \<Longrightarrow> nc_inv (poll_turn answer s)"
  by (cases "nc_poll s")
    (auto simp: nc_inv_def poll_turn_def line_pieces_snoc line_pieces_newline split: option.splits list.splits)

lemma reach_inv: "nc_reach h hist s \<Longrightarrow> nc_inv s"
proof (induction rule: nc_reach.induct)
  case start
  show ?case by (simp add: nc_inv_def new_nc_def written_by_def)
next
  case (step s t)
  then show ?case by (auto elim: nc_stepE simp: run_inv poll_inv)
qed

text \<open>the client ends only when its polling thread has ended, and then each of the two threads has
  written whole lines, each with its newline behind it.\<close>

theorem nc_clean_end:
  assumes "nc_reach h hist s" "nc_pc s = N_end"
  shows "nc_poll s = Q_end \<and> line_pieces False (written_by By_run s) \<and> line_pieces False (written_by By_poll s)"
  using reach_inv [OF assms(1)] assms(2) by (auto simp: nc_inv_def)

subsection \<open>The end of the polling thread\<close>

text \<open>The turns that are left, from the answers to come: a request under way adds the lines of its answer.\<close>

fun poll_left :: "nc_poll \<Rightarrow> string option list \<Rightarrow> nat" where
  "poll_left Q_end as = 0"
| "poll_left Q_test as = 1"
| "poll_left Q_sleep as = 2"
| "poll_left (Q_lines ls) as = 3 + 2 * length ls"
| "poll_left (Q_newline ls) as = 4 + 2 * length ls"
| "poll_left Q_ask [] = 1"
| "poll_left Q_ask (a # as) = (case a of None \<Rightarrow> 3 | Some t \<Rightarrow> 4 + 2 * length (parse_status t))"

lemma poll_left_turn:
  "nc_done s \<Longrightarrow> nc_done (poll_turn a s) \<and> poll_left (nc_poll (poll_turn a s)) as \<le> poll_left (nc_poll s) (a # as) - 1"
  by (cases "nc_poll s") (auto simp: poll_turn_def nc_put_def split: list.splits option.splits)

lemma run_keeps_poll:
  "nc_poll (run_turn h now input answer s) = nc_poll s \<and> (nc_done s \<longrightarrow> nc_done (run_turn h now input answer s))"
  by (cases "nc_pc s") (auto simp: run_turn_def got_line_def nc_put_def Let_def split: option.splits)

text \<open>C39: Once the client is done, its polling thread ends: after at most two turns for every status
  line it still has to write, those of the answer to a request under way included, and four more,
  whatever the requests give.\<close>

theorem poll_ends:
  assumes "nc_done s" "poll_left (nc_poll s) answers \<le> length answers"
  shows "nc_poll (fold poll_turn answers s) = Q_end \<and> nc_done (fold poll_turn answers s)"
  using assms
proof (induction answers arbitrary: s)
  case Nil
  then show ?case by (cases "nc_poll s") auto
next
  case (Cons a as)
  then have "nc_done (poll_turn a s)" "poll_left (nc_poll (poll_turn a s)) as \<le> length as"
    using poll_left_turn [of s a as] by auto
  then show ?case using Cons.IH by simp
qed

subsection \<open>Lines of two threads\<close>

text \<open>The loop that waits for the polling thread runs only when its deadline is over: it never waits
  before its deadline, and the error is logged although the thread may end a moment later.\<close>

lemma wait_does_not_wait:
  "nc_pc s = N_wait d \<Longrightarrow> \<not> nc_dusted s \<Longrightarrow> now \<le> d \<Longrightarrow>
    nc_pc (run_turn h now input answer s) = N_get \<and>
    nc_log (run_turn h now input answer s) = nc_log s @ [''ERROR: client timed out waiting for response'']"
  by (simp add: run_turn_def)

definition demo_turns :: "(nc_client \<Rightarrow> nc_client) list" where
  "demo_turns =
     [run_turn hol_ref 0 None None, run_turn hol_ref 0 (Some ''x'') None,
      poll_turn None, poll_turn (Some ''b''), run_turn hol_ref 0 None (Some ''a''), poll_turn None,
      run_turn hol_ref 0 None None, poll_turn None, run_turn hol_ref 0 None None,
      run_turn hol_ref 0 None None, run_turn hol_ref 0 None None,
      poll_turn None, poll_turn None, poll_turn None,
      run_turn hol_ref 0 None None, run_turn hol_ref 0 None None]"

definition demo_nc :: "nat \<Rightarrow> nc_client" where
  "demo_nc n = fold (\<lambda>f. f) (take n demo_turns) (new_nc [])"

lemma turns_reach:
  "list_all (\<lambda>f. \<forall>s. nc_step h s (f s)) fs \<Longrightarrow> nc_reach h hist s \<Longrightarrow> nc_reach h hist (fold (\<lambda>f. f) fs s)"
  by (induction fs arbitrary: s) (auto intro: nc_reach.step)

lemma demo_nc_reach: "nc_reach hol_ref [] (demo_nc n)"
proof -
  have "list_all (\<lambda>f. \<forall>s. nc_step hol_ref s (f s)) demo_turns"
    by (simp add: demo_turns_def run poll)
  then have "list_all (\<lambda>f. \<forall>s. nc_step hol_ref s (f s)) (take n demo_turns)"
    by (auto simp: list_all_iff dest: in_set_takeD)
  from turns_reach [OF this start] show ?thesis by (simp add: demo_nc_def)
qed

text \<open>A line and a newline are two insertions, so two lines may come before their newlines.\<close>

lemma lines_glued:
  "nc_reach hol_ref [] (demo_nc 8) \<and> concat (map snd (nc_out (demo_nc 8))) = ''ab'' @ [LF, LF]"
proof
  show "nc_reach hol_ref [] (demo_nc 8)" by (rule demo_nc_reach)
  show "concat (map snd (nc_out (demo_nc 8))) = ''ab'' @ [LF, LF]" by code_simp
qed

lemma demo_ends: "nc_pc (demo_nc 16) = N_end" "nc_done (demo_nc 11)" "poll_left (nc_poll (demo_nc 11)) [None, None, None] \<le> 3"
  by code_simp+

theorem nc_clean_end_witness: "nc_poll (demo_nc 16) = Q_end \<and> line_pieces False (written_by By_run (demo_nc 16))"
  using nc_clean_end [OF demo_nc_reach demo_ends(1)] by simp

theorem poll_ends_witness: "nc_poll (fold poll_turn [None, None, None] (demo_nc 11)) = Q_end"
  using poll_ends [of "demo_nc 11" "[None, None, None]"] demo_ends by simp

end
