(* ===== verification/Rpc_Copy.thy ===== *)
theory Rpc_Copy
  imports Rpc
begin

text \<open>
  The service of \<open>test-rpc.cpp\<close>: a function with a result and a parameter by reference, called through
  \<open>local_call\<close>.  Both sides are there, the dispatcher of the service and the stub of the caller, at any
  of the types of \<open>Rpc\<close>.
\<close>

text \<open>\<open>copy_container\<close>: the result and the new value of \<open>rp\<close>.\<close>

definition copy_container :: "val \<Rightarrow> val \<Rightarrow> val \<times> val" where
  "copy_container p rp = (p, p)"

definition rpc_dispatch :: "ty \<Rightarrow> siz \<Rightarrow> call \<Rightarrow> bool \<times> call" where
  "rpc_dispatch ty junk c =
     (case get_func c of (func, c1) \<Rightarrow>
        if func = ''copy_container''
        then (case get_param ty junk c1 of (p, c2) \<Rightarrow>
              case get_param ty junk c2 of (rp, c3) \<Rightarrow>
              case copy_container p rp of (ret, rp1) \<Rightarrow>
                (True, add_return_param rp1 (set_return_value ret c3)))
        else (False, c1))"

text \<open>\<open>rpc_copy_container\<close>: the result and the new value of \<open>rp\<close>, as the caller gets them.\<close>

definition rpc_copy_container :: "ty \<Rightarrow> siz \<Rightarrow> val \<Rightarrow> val \<Rightarrow> val \<times> val" where
  "rpc_copy_container ty junk p rp =
     (case rpc_dispatch ty junk (add_param rp (add_param p (set_func ''copy_container'' new_call))) of (_, c) \<Rightarrow>
      case get_return_value ty junk c of (ret, c1) \<Rightarrow>
      case get_return_param ty junk c1 of (rp1, c2) \<Rightarrow> (ret, rp1))"

text \<open>The operators of a pair of strings in the same file.\<close>

definition write_pair :: "string \<times> string \<Rightarrow> string" where
  "write_pair p = fst p @ [LF] @ snd p @ [LF]"

definition read_pair :: "istream \<Rightarrow> string \<times> string \<Rightarrow> (string \<times> string) \<times> istream" where
  "read_pair is p =
     (case inputter (fst p) is of (a, i1) \<Rightarrow> case inputter a i1 of (b, i2) \<Rightarrow> ((b, snd p), i2))"

subsection \<open>A call through the stub\<close>

text \<open>calling through the stub, the streams and the dispatcher is calling the function itself: the
  caller gets the result and the value of the reference parameter that \<open>copy_container\<close> gives, for
  every value of every type that can be passed.\<close>

theorem stub_is_call:
  assumes "val_ok p" "val_ok rp" "ty_of rp = ty_of p"
  shows "rpc_copy_container (ty_of p) junk p rp = copy_container p rp"
proof -
  let ?call = "add_param rp (add_param p (set_func ''copy_container'' new_call))"
  have f: "LF \<notin> set ''copy_container''" by (simp add: LF_def)
  have c: "?call = \<lparr>c_in = str_stream (''copy_container'' @ LF # val_text p @ LF # val_text rp @ [LF]), c_out = str_stream []\<rparr>"
    by (simp add: add_param_def set_func_def new_call_def put_val_text)
  have g: "get_func ?call =
      (''copy_container'', \<lparr>c_in = str_stream (val_text p @ LF # val_text rp @ [LF]), c_out = str_stream []\<rparr>)"
    using f by (simp only: c) (simp add: get_func_def getline_found [where l = "''copy_container''"] del: append.simps)
  have p: "get_val (ty_of p) junk (str_stream (val_text p @ LF # r)) = (p, str_stream r)" for r
    using get_val_text [OF assms(1)] by simp
  have q: "get_val (ty_of p) junk (str_stream (val_text rp @ LF # r)) = (rp, str_stream r)" for r
    using get_val_text [OF assms(2)] assms(3) by simp
  have "rpc_dispatch (ty_of p) junk ?call =
      (True, \<lparr>c_in = str_stream [], c_out = str_stream (val_text p @ LF # val_text p @ [LF])\<rparr>)"
    unfolding rpc_dispatch_def g
    by (simp add: get_param_def p q copy_container_def set_return_value_def add_return_param_def put_val_text)
  then show ?thesis
    by (simp add: rpc_copy_container_def get_return_value_def get_return_param_def p copy_container_def)
qed

theorem stub_is_call_witness: "rpc_copy_container T_Vec 0 (V_Vec [''1'', ''2'']) (V_Vec []) = (V_Vec [''1'', ''2''], V_Vec [''1'', ''2''])"
  using stub_is_call [of "V_Vec [''1'', ''2'']" "V_Vec []" 0] by (simp add: copy_container_def LF_def)

text \<open>The second member of a pair is read into the first.\<close>

lemma pair_second_lost:
  assumes "LF \<notin> set a" "LF \<notin> set b"
  shows "fst (read_pair (str_stream (write_pair (a, b))) (x, y)) = (b, y)"
  using assms
  by (simp add: read_pair_def write_pair_def inputter_def getline_found [where l = a and r = "b @ [LF]"]
      getline_found [where l = b and r = "[]"])

end
