(* ===== verification/Ssl_Stream.thy ===== *)
theory Ssl_Stream
  imports Buffered_Output
begin

text \<open>
  The stream over an encrypted connection (\<open>ssl_socketstream.h\<close>).  The state holds the stream and
  what the process owns: open descriptors and the objects of OpenSSL that are alive.  The results of the
  calls to the system and to OpenSSL are arguments; a call on a null pointer or on an object that was
  freed is an error.  \<open>SSL_write\<close> takes all of its text or fails, and what it returns for an empty
  text, which its manual leaves open, is \<open>sl_zero\<close>.  \<open>open\<close> does not compile, since it calls
  \<open>ssl_connect\<close> with two arguments, and is left out; \<open>char_type\<close> is \<open>char\<close>.
\<close>

datatype ssl_error = Null_Pointer | Use_After_Free | Ssl_Overrun

record ssl_connection =
  cn_sock :: nat
  cn_ssl :: "nat option"
  cn_ctx :: "nat option"

definition new_ssl_connection :: ssl_connection where
  "new_ssl_connection = \<lparr>cn_sock = 0, cn_ssl = None, cn_ctx = None\<rparr>"

record ssl_stream =
  sl_conn :: ssl_connection
  sl_in :: string
  sl_out :: string
  sl_bad :: bool
  sl_reads :: "string option list"
  sl_writes :: "bool list"
  sl_zero :: int
  sl_wire :: string
  sl_socks :: "nat list"
  sl_ssls :: "nat list"
  sl_ctxs :: "nat list"
  sl_next :: nat

definition SSL_SIZE :: nat where "SSL_SIZE = 128"

definition set_ssl_connection :: "ssl_connection \<Rightarrow> ssl_stream \<Rightarrow> ssl_stream" where
  "set_ssl_connection conn s = s\<lparr>sl_conn := conn\<rparr>"

subsection \<open>The buffer\<close>

text \<open>A use of the object behind \<open>conn.ssl\<close>.\<close>

definition use_ssl :: "ssl_stream \<Rightarrow> ssl_error option" where
  "use_ssl s =
     (case cn_ssl (sl_conn s) of
        None \<Rightarrow> Some Null_Pointer
      | Some p \<Rightarrow> if p \<in> set (sl_ssls s) then None else Some Use_After_Free)"

definition ssl_write :: "string \<Rightarrow> ssl_stream \<Rightarrow> ssl_error + (int \<times> ssl_stream)" where
  "ssl_write data s =
     (case use_ssl s of
        Some e \<Rightarrow> Inl e
      | None \<Rightarrow>
          Inr (if data = [] then (sl_zero s, s)
               else case sl_writes s of
                 [] \<Rightarrow> (int (length data), s\<lparr>sl_wire := sl_wire s @ data\<rparr>)
               | sent # ws \<Rightarrow>
                   if sent then (int (length data), s\<lparr>sl_wire := sl_wire s @ data, sl_writes := ws\<rparr>)
                   else (-1, s\<lparr>sl_writes := ws\<rparr>)))"

definition ssl_output_buffer :: "ssl_stream \<Rightarrow> ssl_error + (bool \<times> ssl_stream)" where
  "ssl_output_buffer s =
     (case ssl_write (sl_out s) s of
        Inl e \<Rightarrow> Inl e
      | Inr (r, s1) \<Rightarrow> Inr (if r \<noteq> int (length (sl_out s)) then (False, s1) else (True, s1\<lparr>sl_out := []\<rparr>)))"

definition ssl_overflow :: "char \<Rightarrow> ssl_stream \<Rightarrow> ssl_error + (bool \<times> ssl_stream)" where
  "ssl_overflow c s =
     (if SSL_SIZE \<le> length (sl_out s) then Inl Ssl_Overrun
      else ssl_output_buffer (s\<lparr>sl_out := sl_out s @ [c]\<rparr>))"

definition ssl_sync :: "ssl_stream \<Rightarrow> ssl_error + (bool \<times> ssl_stream)" where
  "ssl_sync s = ssl_output_buffer s"

text \<open>\<open>sputc\<close> of the base class with the put area of the constructor.\<close>

definition ssl_sputc :: "char \<Rightarrow> ssl_stream \<Rightarrow> ssl_error + (bool \<times> ssl_stream)" where
  "ssl_sputc c s =
     (if length (sl_out s) < SSL_SIZE - 1 then Inr (True, s\<lparr>sl_out := sl_out s @ [c]\<rparr>) else ssl_overflow c s)"

text \<open>\<open>underflow\<close>: the next character as an \<open>int\<close>, which is \<open>eof\<close> for the byte 0xFF.\<close>

definition ssl_underflow :: "ssl_stream \<Rightarrow> ssl_error + (int \<times> ssl_stream)" where
  "ssl_underflow s =
     (if sl_in s \<noteq> [] then Inr (schar (hd (sl_in s)), s)
      else case use_ssl s of
        Some e \<Rightarrow> Inl e
      | None \<Rightarrow>
          Inr (case sl_reads s of
             [] \<Rightarrow> (-1, s)
           | None # rs \<Rightarrow> (-1, s\<lparr>sl_reads := rs\<rparr>)
           | Some d # rs \<Rightarrow>
               if d = [] then (-1, s\<lparr>sl_reads := rs\<rparr>)
               else (schar (hd d), s\<lparr>sl_in := take SSL_SIZE d,
                       sl_reads := (if length d \<le> SSL_SIZE then rs else Some (drop SSL_SIZE d) # rs)\<rparr>)))"

subsection \<open>Connections\<close>

definition close_sock :: "nat \<Rightarrow> ssl_stream \<Rightarrow> ssl_stream" where
  "close_sock fd s = s\<lparr>sl_socks := removeAll fd (sl_socks s)\<rparr>"

definition free_ssl :: "nat \<Rightarrow> ssl_stream \<Rightarrow> ssl_error + ssl_stream" where
  "free_ssl p s = (if p \<in> set (sl_ssls s) then Inr (s\<lparr>sl_ssls := removeAll p (sl_ssls s)\<rparr>) else Inl Use_After_Free)"

definition free_ctx :: "nat \<Rightarrow> ssl_stream \<Rightarrow> ssl_error + ssl_stream" where
  "free_ctx q s = (if q \<in> set (sl_ctxs s) then Inr (s\<lparr>sl_ctxs := removeAll q (sl_ctxs s)\<rparr>) else Inl Use_After_Free)"

definition free_opt :: "(nat \<Rightarrow> ssl_stream \<Rightarrow> ssl_error + ssl_stream) \<Rightarrow> nat option \<Rightarrow> ssl_stream \<Rightarrow> ssl_error + ssl_stream" where
  "free_opt f p s = (case p of None \<Rightarrow> Inr s | Some x \<Rightarrow> f x s)"

text \<open>\<open>SSL_shutdown\<close> uses the object that \<open>SSL_free\<close> then frees.\<close>

definition ssl_disconnect :: "ssl_stream \<Rightarrow> ssl_error + ssl_stream" where
  "ssl_disconnect s =
     (let conn = sl_conn s; s1 = (if cn_sock conn \<noteq> 0 then close_sock (cn_sock conn) s else s)
      in case free_opt free_ssl (cn_ssl conn) s1 of
           Inl e \<Rightarrow> Inl e
         | Inr s2 \<Rightarrow> free_opt free_ctx (cn_ctx conn) s2)"

definition ssl_close :: "ssl_stream \<Rightarrow> ssl_error + ssl_stream" where
  "ssl_close s =
     (case (if cn_sock (sl_conn s) \<noteq> 0 then ssl_disconnect s else Inr s) of
        Inl e \<Rightarrow> Inl e
      | Inr s1 \<Rightarrow> Inr (s1\<lparr>sl_bad := False\<rparr>))"

text \<open>The destructor of the stream, then that of its buffer.\<close>

definition ssl_destroy :: "ssl_stream \<Rightarrow> ssl_error + ssl_stream" where
  "ssl_destroy s =
     (case ssl_close s of
        Inl e \<Rightarrow> Inl e
      | Inr s1 \<Rightarrow> (case ssl_sync s1 of Inl e \<Rightarrow> Inl e | Inr (r, s2) \<Rightarrow> Inr s2))"

text \<open>Which calls of a connection attempt succeed.\<close>

record ssl_calls =
  sc_socket :: bool
  sc_host :: bool
  sc_connect :: bool
  sc_ctx_new :: bool
  sc_ssl_new :: bool
  sc_set_fd :: bool
  sc_ssl_connect :: bool

text \<open>The descriptor is stored through the reference also when the attempt fails.\<close>

definition tcp_connect ::
  "ssl_calls \<Rightarrow> ssl_connection \<Rightarrow> ssl_stream \<Rightarrow> ssl_error + (bool \<times> ssl_connection \<times> ssl_stream)" where
  "tcp_connect y conn s =
     (case ssl_close s of
        Inl e \<Rightarrow> Inl e
      | Inr s1 \<Rightarrow>
          if \<not> sc_socket y then Inr (False, conn, s1\<lparr>sl_bad := True\<rparr>)
          else let sd = sl_next s1; conn1 = conn\<lparr>cn_sock := sd\<rparr>;
                   s2 = s1\<lparr>sl_next := sd + 1, sl_socks := sd # sl_socks s1\<rparr>
               in if \<not> sc_host y then Inr (False, conn1, (close_sock sd s2)\<lparr>sl_bad := True\<rparr>)
                  else if \<not> sc_connect y then Inr (False, conn1, (close_sock sd s2)\<lparr>sl_bad := True\<rparr>)
                  else Inr (True, conn1, s2))"

definition ssl_failed :: "ssl_error + ssl_stream \<Rightarrow> ssl_connection \<Rightarrow> ssl_error + (bool \<times> ssl_connection \<times> ssl_stream)" where
  "ssl_failed r conn = (case r of Inl e \<Rightarrow> Inl e | Inr s \<Rightarrow> Inr (False, conn, s\<lparr>sl_bad := True\<rparr>))"

definition ssl_connect ::
  "ssl_calls \<Rightarrow> ssl_connection \<Rightarrow> ssl_stream \<Rightarrow> ssl_error + (bool \<times> ssl_connection \<times> ssl_stream)" where
  "ssl_connect y conn s =
     (case tcp_connect y conn s of
        Inl e \<Rightarrow> Inl e
      | Inr (False, conn1, s1) \<Rightarrow> Inr (False, conn1, s1\<lparr>sl_bad := True\<rparr>)
      | Inr (True, conn1, s1) \<Rightarrow>
          if \<not> sc_ctx_new y then ssl_failed (Inr s1) (conn1\<lparr>cn_ctx := None\<rparr>)
          else let q = sl_next s1; conn2 = conn1\<lparr>cn_ctx := Some q\<rparr>;
                   s2 = s1\<lparr>sl_next := q + 1, sl_ctxs := q # sl_ctxs s1\<rparr>
               in if \<not> sc_ssl_new y then ssl_failed (free_ctx q s2) (conn2\<lparr>cn_ssl := None\<rparr>)
                  else let p = sl_next s2; conn3 = conn2\<lparr>cn_ssl := Some p\<rparr>;
                           s3 = s2\<lparr>sl_next := p + 1, sl_ssls := p # sl_ssls s2\<rparr>
                       in if \<not> sc_set_fd y \<or> \<not> sc_ssl_connect y
                          then ssl_failed (case free_ssl p s3 of Inl e \<Rightarrow> Inl e | Inr s4 \<Rightarrow> free_ctx q s4) conn3
                          else Inr (True, conn3, s3))"

subsection \<open>What an attempt leaves\<close>

definition ssl_fresh :: "ssl_stream \<Rightarrow> bool" where
  "ssl_fresh s = list_all (\<lambda>x. x < sl_next s) (sl_socks s @ sl_ssls s @ sl_ctxs s)"

definition sc_tcp :: "ssl_calls \<Rightarrow> bool" where
  "sc_tcp y = (sc_socket y \<and> sc_host y \<and> sc_connect y)"

definition sc_all :: "ssl_calls \<Rightarrow> bool" where
  "sc_all y = (sc_tcp y \<and> sc_ctx_new y \<and> sc_ssl_new y \<and> sc_set_fd y \<and> sc_ssl_connect y)"

lemma fresh_notin: "ssl_fresh s \<Longrightarrow> sl_next s \<le> x \<Longrightarrow> x \<notin> set (sl_socks s) \<and> x \<notin> set (sl_ssls s) \<and> x \<notin> set (sl_ctxs s)"
  by (auto simp: ssl_fresh_def list_all_iff ball_Un dest: bspec leD)

lemma tcp_connect_leaves:
  assumes "cn_sock (sl_conn s) = 0" "ssl_fresh s"
  shows "\<exists>b. tcp_connect y conn s =
    Inr (sc_tcp y, (if sc_socket y then conn\<lparr>cn_sock := sl_next s\<rparr> else conn),
      s\<lparr>sl_bad := b, sl_next := (if sc_socket y then sl_next s + 1 else sl_next s),
        sl_socks := (if sc_tcp y then sl_next s # sl_socks s else sl_socks s)\<rparr>)"
  using assms(1) fresh_notin [OF assms(2), of "sl_next s"]
  by (cases s) (auto simp: tcp_connect_def ssl_close_def sc_tcp_def close_sock_def Let_def)

text \<open>an attempt to connect a stream that has no connection never uses an object that is not alive;
  it succeeds exactly when all of its calls do, and then owns one descriptor and one object of each
  kind; when it fails it has freed its objects, but not the descriptor of a connection that was
  made before OpenSSL failed.\<close>

theorem ssl_connect_owns:
  assumes "cn_sock (sl_conn s) = 0" "ssl_fresh s"
  shows "\<exists>c s'. ssl_connect y new_ssl_connection s = Inr (sc_all y, c, s') \<and>
    sl_socks s' = (if sc_tcp y then cn_sock c # sl_socks s else sl_socks s) \<and>
    sl_ssls s' = (if sc_all y then the (cn_ssl c) # sl_ssls s else sl_ssls s) \<and>
    sl_ctxs s' = (if sc_all y then the (cn_ctx c) # sl_ctxs s else sl_ctxs s)"
proof -
  obtain b where t: "tcp_connect y new_ssl_connection s =
    Inr (sc_tcp y, (if sc_socket y then new_ssl_connection\<lparr>cn_sock := sl_next s\<rparr> else new_ssl_connection),
      s\<lparr>sl_bad := b, sl_next := (if sc_socket y then sl_next s + 1 else sl_next s),
        sl_socks := (if sc_tcp y then sl_next s # sl_socks s else sl_socks s)\<rparr>)"
    using tcp_connect_leaves [OF assms] by blast
  have n: "Suc (sl_next s) \<notin> set (sl_ctxs s)" "Suc (Suc (sl_next s)) \<notin> set (sl_ssls s)"
    using fresh_notin [OF assms(2)] by simp_all
  have k: "sc_tcp y \<Longrightarrow> sc_socket y" by (simp add: sc_tcp_def)
  show ?thesis
    by (cases "sc_tcp y"; cases "sc_ctx_new y"; cases "sc_ssl_new y"; cases "sc_set_fd y \<and> sc_ssl_connect y")
      (auto simp: ssl_connect_def t k sc_all_def ssl_failed_def free_ctx_def free_ssl_def Let_def n)
qed

subsection \<open>The end of a stream\<close>

lemma free_opt_cases: "free_opt f p s = Inr s' \<Longrightarrow> (case p of None \<Rightarrow> s' = s | Some x \<Rightarrow> f x s = Inr s')"
  by (simp add: free_opt_def split: option.splits)

text \<open>no stream can be destroyed without an error: the destructor of the buffer flushes it after
  the connection was freed, and on a stream that was never connected the pointer it
  flushes through is null.\<close>

theorem ssl_destroy_faults:
  assumes "cn_sock (sl_conn s) \<noteq> 0 \<or> cn_ssl (sl_conn s) = None"
  shows "\<exists>e. ssl_destroy s = Inl e"
proof (cases "ssl_close s")
  case (Inl e)
  then show ?thesis by (simp add: ssl_destroy_def)
next
  case (Inr s1)
  have "use_ssl s1 \<noteq> None"
  proof (cases "cn_ssl (sl_conn s)")
    case None
    then have "cn_ssl (sl_conn s1) = None"
      using Inr by (auto simp: ssl_close_def ssl_disconnect_def free_opt_def free_ctx_def close_sock_def Let_def
          split: if_splits sum.splits option.splits)
    then show ?thesis by (simp add: use_ssl_def)
  next
    case (Some p)
    then have "cn_ssl (sl_conn s1) = Some p \<and> p \<notin> set (sl_ssls s1)"
      using Inr assms by (auto simp: ssl_close_def ssl_disconnect_def free_opt_def free_ctx_def free_ssl_def close_sock_def Let_def
          split: if_splits sum.splits option.splits)
    then show ?thesis by (simp add: use_ssl_def)
  qed
  then show ?thesis
    using Inr by (auto simp: ssl_destroy_def ssl_sync_def ssl_output_buffer_def ssl_write_def)
qed

subsection \<open>Writing\<close>

definition ssl_writable :: "ssl_stream \<Rightarrow> bool" where
  "ssl_writable s = (use_ssl s = None \<and> sl_writes s = [] \<and> \<not> sl_bad s \<and> length (sl_out s) < SSL_SIZE \<and> sl_zero s = 0)"

definition ssl_put :: "char \<Rightarrow> ssl_stream \<Rightarrow> ssl_stream option" where
  "ssl_put c s = (if sl_bad s then None else case ssl_sputc c s of Inr (True, s1) \<Rightarrow> Some s1 | _ \<Rightarrow> None)"

definition ssl_flush :: "ssl_stream \<Rightarrow> ssl_stream option" where
  "ssl_flush s = (if sl_bad s then None else case ssl_sync s of Inr (True, s1) \<Rightarrow> Some s1 | _ \<Rightarrow> None)"

definition ssl_shown :: "ssl_stream \<Rightarrow> string" where
  "ssl_shown s = sl_wire s @ sl_out s"

lemma use_ssl_buffer [simp]:
  "use_ssl (s\<lparr>sl_out := t\<rparr>) = use_ssl s" "use_ssl (s\<lparr>sl_wire := t\<rparr>) = use_ssl s"
  by (simp_all add: use_ssl_def split: option.split)

lemma ssl_write_all:
  "use_ssl s = None \<Longrightarrow> sl_writes s = [] \<Longrightarrow> sl_zero s = 0 \<Longrightarrow>
    ssl_output_buffer s = Inr (True, s\<lparr>sl_wire := sl_wire s @ sl_out s, sl_out := []\<rparr>)"
  by (cases s) (simp add: ssl_output_buffer_def ssl_write_def)

lemma ssl_put_law:
  "ssl_writable s \<Longrightarrow> \<exists>s'. ssl_put c s = Some s' \<and> ssl_writable s' \<and> ssl_shown s' = ssl_shown s @ [c]"
  by (cases "length (sl_out s) < SSL_SIZE - 1")
    (simp_all add: ssl_writable_def ssl_put_def ssl_sputc_def ssl_overflow_def ssl_write_all ssl_shown_def SSL_SIZE_def)

lemma ssl_flush_law:
  "ssl_writable s \<Longrightarrow> \<exists>s'. ssl_flush s = Some s' \<and> ssl_writable s' \<and> sl_out s' = [] \<and> ssl_shown s' = ssl_shown s"
  by (simp add: ssl_writable_def ssl_flush_def ssl_sync_def ssl_write_all ssl_shown_def SSL_SIZE_def)

interpretation ssl_out: buffered_output ssl_put ssl_flush ssl_writable "\<lambda>s. sl_out s = []" ssl_shown "\<lambda>c t. t @ [c]"
  by unfold_locales (simp_all add: ssl_put_law ssl_flush_law)

lemma ssl_written_exactly:
  assumes "ssl_writable s"
  shows "\<exists>s1 s2. put_all ssl_put cs s = Some s1 \<and> ssl_flush s1 = Some s2 \<and> sl_wire s2 = sl_wire s @ sl_out s @ cs"
  using ssl_out.written_and_flushed [OF assms, of cs] by (auto simp: fold_snoc ssl_shown_def)

subsection \<open>A connection\<close>

definition demo_ssl :: ssl_stream where
  "demo_ssl =
     \<lparr>sl_conn = new_ssl_connection, sl_in = [], sl_out = [], sl_bad = False, sl_reads = [], sl_writes = [], sl_zero = 0,
      sl_wire = [], sl_socks = [0], sl_ssls = [], sl_ctxs = [], sl_next = 1\<rparr>"

theorem ssl_connect_owns_witness:
  "\<exists>c s'. ssl_connect \<lparr>sc_socket = True, sc_host = True, sc_connect = True, sc_ctx_new = True, sc_ssl_new = True,
      sc_set_fd = True, sc_ssl_connect = False\<rparr> new_ssl_connection demo_ssl = Inr (False, c, s') \<and>
    sl_socks s' = [cn_sock c, 0] \<and> sl_ssls s' = []"
  using ssl_connect_owns [of demo_ssl "\<lparr>sc_socket = True, sc_host = True, sc_connect = True, sc_ctx_new = True,
      sc_ssl_new = True, sc_set_fd = True, sc_ssl_connect = False\<rparr>"]
  by (auto simp: demo_ssl_def new_ssl_connection_def ssl_fresh_def sc_all_def sc_tcp_def)

theorem ssl_destroy_faults_witness: "\<exists>e. ssl_destroy demo_ssl = Inl e"
  by (rule ssl_destroy_faults) (simp add: demo_ssl_def new_ssl_connection_def)

end
