(* ===== verification/Flat_Text.thy ===== *)
theory Flat_Text
  imports Bot_Safe
begin

text \<open>
  Where line feeds can come from.  A string without one is \<open>flat\<close>; what is read from a stream by words or
  by lines is flat, and so are the parts of a parsed message, the values of the configuration, whatever
  files and environment it is read from, the values of a store read from a file, and the names of the
  plugin table.
\<close>

definition flat :: "string \<Rightarrow> bool" where "flat s = (LF \<notin> set s)"

lemma flat_simps [simp]:
  "flat []" "flat (c # s) = (c \<noteq> LF \<and> flat s)" "flat (s @ t) = (flat s \<and> flat t)"
  by (auto simp: flat_def)

lemma LF_Char [simp]:
  "(LF = Char b0 b1 b2 b3 b4 b5 b6 b7) = (\<not> b0 \<and> b1 \<and> \<not> b2 \<and> b3 \<and> \<not> b4 \<and> \<not> b5 \<and> \<not> b6 \<and> \<not> b7)"
  "(Char b0 b1 b2 b3 b4 b5 b6 b7 = LF) = (\<not> b0 \<and> b1 \<and> \<not> b2 \<and> b3 \<and> \<not> b4 \<and> \<not> b5 \<and> \<not> b6 \<and> \<not> b7)"
  by (auto simp: LF_def)

lemma flat_sub: "set s \<subseteq> set t \<Longrightarrow> flat t \<Longrightarrow> flat s" "set s \<subseteq> set t \<union> set u \<Longrightarrow> flat t \<Longrightarrow> flat u \<Longrightarrow> flat s"
  by (auto simp: flat_def)

subsection \<open>Strings\<close>

lemma flat_trim: "trims h \<Longrightarrow> flat s \<Longrightarrow> flat (h_trim h s)"
  using flat_sub(1) [OF set_trim_both] by (simp add: trims_def)

lemma tolower_LF: "tolower c = LF \<longleftrightarrow> c = LF"
proof -
  have "code (char_of (code c + 32)) = code c + 32" if "code c \<le> 90" using that by (simp add: code_def)
  moreover have "code LF = 10" by (simp add: code_def LF_def)
  ultimately show ?thesis by (auto simp: tolower_def simp flip: code_inj)
qed

lemma flat_lower: "lowers h \<Longrightarrow> flat s \<Longrightarrow> flat (h_lower h s)"
  using tolower_LF by (auto simp: lowers_def flat_def) metis

lemma set_subst_all: "set (subst_all a b s) \<subseteq> set s \<union> set b"
proof (induction a b s rule: subst_all.induct)
  case (1 a b s)
  show ?case
  proof (cases "s \<noteq> [] \<and> \<not> (a \<noteq> [] \<and> starts_with a s)")
    case True
    with 1 show ?thesis by (subst subst_all.simps) (auto dest: list.set_sel(2))
  next
    case False
    with 1 show ?thesis by (subst subst_all.simps) (auto dest: in_set_dropD)
  qed
qed

lemma flat_replace: "replaces_all h \<Longrightarrow> a \<noteq> [] \<Longrightarrow> flat s \<Longrightarrow> flat b \<Longrightarrow> flat (h_replace_all h s a b)"
  using flat_sub(2) [OF set_subst_all] by (simp add: replaces_all_def)

lemma flat_join: "flat sep \<Longrightarrow> \<forall>x\<in>set xs. flat x \<Longrightarrow> flat (join_with sep xs)"
  by (auto simp: join_with_def flat_def split: list.split)

lemma flat_show_nat [simp]: "flat (show_nat n)"
  using show_nat_digits [of LF n] by (auto simp: flat_def isdigit_def code_def char_consts)

lemma flat_show_int [simp]: "flat (show_int n)"
  by (simp add: show_int_def)

lemma flat_duration [simp]: "flat (print_duration t)"
  by (simp add: print_duration_def Let_def)

lemma flat_substr [simp]: "flat s \<Longrightarrow> flat (substr s p n)" "flat s \<Longrightarrow> flat (substr_from s p)"
  by (auto simp: flat_def substr_def substr_from_def dest: in_set_takeD in_set_dropD)

subsection \<open>Streams\<close>

lemma flat_getline: "flat x \<Longrightarrow> flat (fst (getline LF x is))"
  using getline_no_delim [of "is" LF x] by (cases "good is") (auto simp: flat_def getline_bad)

lemma getline_sub:
  "set (fst (getline d x is)) \<subseteq> set x \<union> set (buf is)" "set (buf (snd (getline d x is))) \<subseteq> set (buf is)"
proof -
  have "set (buf (snd (getline d x is))) \<subseteq> set (dropWhile (\<lambda>c. c \<noteq> d) (buf is)) \<union> set (buf is)"
    by (auto simp: getline_def Let_def split: list.splits)
  then show "set (buf (snd (getline d x is))) \<subseteq> set (buf is)" using set_dropWhileD by fastforce
  show "set (fst (getline d x is)) \<subseteq> set x \<union> set (buf is)"
    by (auto simp: getline_def Let_def split: list.splits dest: set_takeWhileD)
qed

lemma flat_getline_any: "flat x \<Longrightarrow> flat (buf is) \<Longrightarrow> flat (fst (getline d x is))"
  "flat (buf is) \<Longrightarrow> flat (buf (snd (getline d x is)))"
  using getline_sub [of d x "is"] by (auto simp: flat_def)

lemma flat_word: "flat x \<Longrightarrow> flat (fst (read_word x is))"
  by (auto simp: flat_def read_word_def Let_def split: list.splits dest: set_takeWhileD)

lemma flat_skip_ws: "flat (buf is) \<Longrightarrow> flat (buf (skip_ws is))"
proof -
  have "set (dropWhile isspace (buf is)) \<subseteq> set (buf is)" using set_dropWhileD by fastforce
  then show "flat (buf is) \<Longrightarrow> flat (buf (skip_ws is))" by (auto simp: flat_def skip_ws_def split: list.splits)
qed

lemma flat_peek: "flat (buf (snd (peek is))) = flat (buf is)"
  using peek_buf [of "is" "fst (peek is)" "snd (peek is)"] by simp

lemma flat_get_ch: "get_ch is = (p, is1) \<Longrightarrow> flat (buf is) \<Longrightarrow> flat (buf is1) \<and> p \<noteq> Some LF"
  by (auto simp: flat_def get_ch_def split: if_splits list.splits)

lemma flat_getstring_loop:
  "flat (buf is) \<Longrightarrow> flat n \<Longrightarrow>
    flat (fst (getstring_loop t n is)) \<and> flat (buf (snd (getstring_loop t n is)))"
proof (induction t n "is" rule: getstring_loop.induct)
  case (1 t n str)
  obtain p is1 where g: "get_ch str = (p, is1)" by fastforce
  with flat_get_ch [OF g] 1 show ?case by (subst (1 2) getstring_loop.simps) (auto split: option.split)
qed

lemma flat_quote_term: "flat (buf is) \<Longrightarrow> flat (buf (snd (quote_term is)))"
proof -
  have "flat (buf (snd (take_quote i)))" if "flat (buf i)" for i
    using that flat_get_ch [of i] by (cases "get_ch i") (auto simp: take_quote_def split: option.split)
  then show "flat (buf is) \<Longrightarrow> flat (buf (snd (quote_term is)))"
    using flat_skip_ws by (simp add: quote_term_def split_beta flat_peek)
qed

lemma flat_getstring:
  "flat (buf is) \<Longrightarrow> flat s \<Longrightarrow> flat (fst (getstring is s)) \<and> flat (buf (snd (getstring is s)))"
  using flat_getstring_loop [OF flat_quote_term] by (simp add: getstring_def split_beta)

lemma flat_getstrings: "flat (buf is) \<Longrightarrow> flat v \<Longrightarrow> w \<in> set (getstrings is v) \<Longrightarrow> flat w"
proof (induction "is" v rule: getstrings.induct)
  case (1 str v)
  obtain v1 is1 where g: "getstring str v = (v1, is1)" by fastforce
  with 1 flat_getstring [of str v] show ?case by (subst (asm) getstrings.simps) (auto split: if_splits)
qed

subsection \<open>Messages\<close>

definition flat_msg :: "message \<Rightarrow> bool" where
  "flat_msg m = (flat (msg_prefix m) \<and> flat (msg_command m) \<and> flat (msg_params m))"

lemma flat_parse: "parse h now line m = (r, m1) \<Longrightarrow> flat_msg m \<Longrightarrow> flat_msg m1"
  by (auto simp: parse_def flat_msg_def Let_def split_beta flat_word flat_getline split: if_splits)

lemma flat_gettrailing_loop:
  "flat (buf is) \<Longrightarrow> flat t \<Longrightarrow> flat (snd (gettrailing_loop is t)) \<and> flat (buf (fst (gettrailing_loop is t)))"
proof (induction "is" t rule: gettrailing_loop.induct)
  case (1 str t)
  obtain p is1 c is2 where pk: "peek str = (p, is1)" and g: "get_ch is1 = (c, is2)"
    by (metis surj_pair)
  with 1 flat_peek [of str] flat_get_ch [OF g] show ?case
    by (subst (1 2) gettrailing_loop.simps) (auto split: option.split)
qed

lemma flat_gettrailing:
  "flat (buf is) \<Longrightarrow> flat (snd (gettrailing is)) \<and> flat (buf (fst (gettrailing is)))"
  using flat_gettrailing_loop [of "is" "[]"] by (auto simp: gettrailing_def split_beta)

lemma flat_byte: "p \<noteq> Some LF \<Longrightarrow> byte_of p \<noteq> LF"
  by (cases p) (auto simp: byte_of_def char_consts)

lemma flat_getmiddle_loop:
  "flat (buf is) \<Longrightarrow> flat m \<Longrightarrow> flat (snd (getmiddle_loop is m)) \<and> flat (buf (fst (getmiddle_loop is m)))"
proof (induction "is" m rule: getmiddle_loop.induct)
  case (1 str m)
  obtain p is1 c is2 where pk: "peek str = (p, is1)" and g: "get_ch is1 = (c, is2)"
    by (metis surj_pair)
  with 1 flat_peek [of str] flat_get_ch [OF g] flat_byte [of None] show ?case
    by (subst (1 2) getmiddle_loop.simps) (auto split: option.split)
qed

lemma flat_getmiddle:
  assumes "flat (buf is)" "flat m"
  shows "flat (snd (getmiddle is m)) \<and> flat (buf (fst (getmiddle is m)))"
proof -
  obtain p is1 where p: "(if ok is then peek is else (None, is)) = (p, is1)" by fastforce
  then have b: "flat (buf is1)" using assms(1) flat_peek [of "is"] by (auto split: if_splits)
  obtain c is2 where g: "get_ch is1 = (c, is2)" by fastforce
  from flat_get_ch [OF g b] flat_getmiddle_loop [of is2 "[byte_of c]"] flat_byte [of c] assms b show ?thesis
    by (simp add: getmiddle_def p g)
qed

lemma flat_getparams_loop:
  "flat (buf is) \<Longrightarrow> \<forall>m\<in>set ms. flat m \<Longrightarrow>
    (case getparams_loop is n ms of
       Inl (i, l, t) \<Rightarrow> (\<forall>m\<in>set l. flat m) \<and> flat t
     | Inr (i, k, l) \<Rightarrow> flat (buf i) \<and> (\<forall>m\<in>set l. flat m))"
proof (induction "is" n ms rule: getparams_loop.induct)
  case (1 str n ms)
  obtain p is1 c is2 q is3 where pk: "peek str = (p, is1)" and g: "get_ch is1 = (c, is2)" and q: "peek is2 = (q, is3)"
    by (metis surj_pair)
  have b1: "flat (buf is1)" using 1(3) flat_peek [of str] pk by simp
  then have b3: "flat (buf is3)" using flat_get_ch [OF g] flat_peek [of is2] q by simp
  obtain d is5 where g3: "get_ch is3 = (d, is5)" by fastforce
  then have b5: "flat (buf is5)" using flat_get_ch [OF g3 b3] by simp
  obtain is4 m where m: "getmiddle is3 [] = (is4, m)" by fastforce
  note fm = flat_getmiddle [OF b3, of "[]", unfolded m, simplified]
  show ?case
  proof (cases "ok str \<and> n < 14 \<and> p = Some SPC \<and> c \<noteq> None")
    case False
    with 1 pk g b1 flat_get_ch [OF g b1] show ?thesis by (subst getparams_loop.simps) auto
  next
    case True
    then obtain x where x: "c = Some x" by auto
    have h: "\<not> \<not> (ok str \<and> n < 14)" "\<not> p \<noteq> Some SPC" using True by auto
    note ih = 1(1,2) [OF h(1) pk [symmetric] h(2) g [symmetric] x q [symmetric]]
    show ?thesis
      using True x pk g q g3 m fm ih 1(4) flat_gettrailing [OF b5]
      by (subst getparams_loop.simps) (auto simp: split_beta)
  qed
qed

lemma flat_getparams:
  assumes "flat (buf is)" "getparams is = (is1, ms, t)"
  shows "(\<forall>m\<in>set ms. flat m) \<and> flat t"
proof (cases "getparams_loop is 0 []")
  case (Inl r)
  with assms flat_getparams_loop [of "is" "[]" 0] show ?thesis by (auto simp: getparams_def)
next
  case (Inr r)
  then obtain i k l where r: "getparams_loop is 0 [] = Inr (i, k, l)" by (cases r) auto
  with assms(1) flat_getparams_loop [of "is" "[]" 0] have l: "flat (buf i)" "\<forall>m\<in>set l. flat m" by auto
  obtain p i2 c i3 q i4 d i5 where s: "peek i = (p, i2)" "get_ch i2 = (c, i3)" "peek i3 = (q, i4)" "get_ch i4 = (d, i5)"
    by (metis surj_pair)
  then have "flat (buf i4)" "flat (buf i5)"
    using l(1) flat_peek [of i] flat_peek [of i3] flat_get_ch by (metis snd_conv)+
  with r s l assms(2) show ?thesis
    by (auto simp: getparams_def split_beta flat_gettrailing split: if_splits)
qed

lemma flat_params:
  assumes "flat_msg m"
  shows "\<forall>p\<in>set (get_params m). flat p" "flat (get_trailing m)"
proof -
  obtain i ms t where g: "getparams (str_stream (msg_params m)) = (i, ms, t)" using prod_cases3 by blast
  from flat_getparams [OF _ g] assms show "\<forall>p\<in>set (get_params m). flat p" "flat (get_trailing m)"
    by (auto simp: flat_msg_def get_params_def get_trailing_def get_params_mt_def g)
qed

lemma flat_msg_parts:
  assumes "flat_msg m"
  shows "flat (get_to m)" "flat (get_nickname m)" "flat (reply_from m)"
proof -
  show "flat (get_to m)" using flat_params(1) [OF assms] by (cases "get_params m") (auto simp: get_to_def)
  show "flat (get_nickname m)" "flat (reply_from m)"
    using assms by (auto simp: get_nickname_def allow_nick_def reply_from_def flat_msg_def split: option.split)
qed

lemma flat_user_parts:
  assumes "flat_msg m" "trims h"
  shows "flat (get_user_cmd h m)" "flat (get_user_params h m)"
proof -
  have b: "flat (buf (str_stream (get_trailing m)))" using flat_params(2) [OF assms(1)] by simp
  show "flat (get_user_cmd h m)"
    unfolding get_user_cmd_def using flat_getline_any(1) [OF _ b] by (simp add: flat_trim [OF assms(2)])
  show "flat (get_user_params h m)"
    using flat_getline_any(1) [OF _ b, of "[]" SPC]
    by (simp add: get_user_params_def split_beta flat_trim [OF assms(2)] flat_getline)
qed

subsection \<open>Maps, the configuration and the store\<close>

definition flat_vals :: "('k \<times> string list) list \<Rightarrow> bool" where
  "flat_vals m = (\<forall>p\<in>set m. \<forall>v\<in>set (snd p). flat v)"

lemma cm_find_in: "cm_find lt k m = Some v \<Longrightarrow> v \<in> snd ` set m"
  by (induction lt k m rule: cm_find.induct) (auto split: if_splits)

lemma set_cm_set: "set (cm_set lt k v m) \<subseteq> set m \<union> {(k', v) | k'. True}"
  by (induction lt k v m rule: cm_set.induct) auto

lemma flat_cm_keys: "x \<in> set (cm_set lt k v m) \<Longrightarrow> fst x = k \<or> fst x \<in> fst ` set m"
  by (induction lt k v m rule: cm_set.induct) (auto split: if_splits)

lemma flat_keys_touch:
  "\<forall>a\<in>set m. flat (fst a) \<Longrightarrow> flat k \<Longrightarrow> \<forall>a\<in>set (cm_touch lt d k m). flat (fst a)"
  by (auto simp: cm_touch_def split: option.splits dest!: flat_cm_keys)

lemma set_cm_erase: "set (cm_erase lt k m) \<subseteq> set m"
  by (induction lt k m rule: cm_erase.induct) auto

lemma set_cs_erase_sub: "set (cs_erase lt k s) \<subseteq> set s"
  by (induction lt k s rule: cs_erase.induct) auto

lemma flat_vals_set: "flat_vals m \<Longrightarrow> \<forall>x\<in>set v. flat x \<Longrightarrow> flat_vals (cm_set lt k v m)"
  using set_cm_set [of lt k v m] by (fastforce simp: flat_vals_def)

lemma flat_vals_at: "flat_vals m \<Longrightarrow> x \<in> set (cm_at lt [] k m) \<Longrightarrow> flat x"
  by (auto simp: cm_at_def flat_vals_def split: option.splits dest!: cm_find_in [OF sym])

lemma flat_vals_touch: "flat_vals m \<Longrightarrow> flat_vals (cm_touch lt [] k m)"
  by (simp add: cm_touch_def flat_vals_set split: option.split)

lemma flat_vals_erase: "flat_vals m \<Longrightarrow> flat_vals (cm_erase lt k m)"
  using set_cm_erase [of lt k m] by (auto simp: flat_vals_def)

lemma flat_vals_push: "flat_vals m \<Longrightarrow> flat v \<Longrightarrow> flat_vals (push_back lt k v m)"
  by (auto simp: push_back_def intro!: flat_vals_set dest: flat_vals_at)

definition flat_conf :: "'a conf_scheme \<Rightarrow> bool" where
  "flat_conf c = (flat_vals (cf_props c) \<and> (\<forall>n\<in>set (cf_nicks c). flat n) \<and> flat (cf_user c) \<and>
     flat (cf_mode c) \<and> flat (cf_real c))"

lemma flat_conf_get:
  assumes "flat_vals (cf_props c)"
  shows "v \<in> set (conf_get_vec s c) \<Longrightarrow> flat v" "flat d \<Longrightarrow> flat (conf_get s d c)"
    "v \<in> set (conf_get_set s c) \<Longrightarrow> flat v"
proof -
  have v: "flat v" if "v \<in> set (conf_get_vec s c)" for v
    using assms that by (auto simp: conf_get_vec_def flat_vals_def split: option.splits if_splits dest!: cm_find_in [OF sym])
  then show "v \<in> set (conf_get_vec s c) \<Longrightarrow> flat v" "v \<in> set (conf_get_set s c) \<Longrightarrow> flat v"
    by (auto simp: conf_get_set_def)
  show "flat d \<Longrightarrow> flat (conf_get s d c)"
    using v [of "conf_get s d c"] by (auto simp: conf_get_def conf_get_vec_def split: option.split)
qed

lemma flat_key_val: "key_val line = Some (key, val) \<Longrightarrow> flat val"
  using flat_getline [of "[]"] by (auto simp: key_val_def split_beta split: if_splits)

lemma flat_set_prop:
  assumes "trims h" "flat val"
  shows "set_prop h key val c vars pre = Next c1 vars1 pre1 \<Longrightarrow> flat_conf c \<Longrightarrow> flat_conf c1"
    "set_prop h key val c vars pre = Include name c1 vars1 pre1 \<Longrightarrow> flat_conf c \<Longrightarrow> flat_conf c1"
  using flat_trim [OF assms] by (auto simp: set_prop_def Let_def flat_conf_def flat_vals_push split: if_splits)

lemma flat_expanded_line:
  assumes "trims h"
  shows "expanded_line h line c vars pre = Next c1 vars1 pre1 \<Longrightarrow> flat_conf c \<Longrightarrow> flat_conf c1"
    "expanded_line h line c vars pre = Include name c1 vars1 pre1 \<Longrightarrow> flat_conf c \<Longrightarrow> flat_conf c1"
  by (auto simp: expanded_line_def Let_def split: if_splits option.splits
      dest: flat_key_val flat_set_prop [OF assms, rotated])

lemma flat_props_line:
  assumes "trims (y_hol y)"
  shows "props_line y line c vars pre = Some (Inr (Next c1 vars1 pre1)) \<Longrightarrow> flat_conf c \<Longrightarrow> flat_conf c1"
    "props_line y line c vars pre = Some (Inr (Include name c1 vars1 pre1)) \<Longrightarrow> flat_conf c \<Longrightarrow> flat_conf c1"
  by (auto simp: props_line_def Let_def bind_eq_Some_conv sum_case_Inr split: if_splits
      dest: flat_expanded_line [OF assms])

lemma flat_read_conf:
  assumes "trims (y_hol y)" "read_conf y name c = Some (e, g, c1)" "flat_conf c"
  shows "flat_conf c1"
proof -
  obtain i vars pre where "load_props y (open_in y name) c [] [] = Some (e, i, c1, vars, pre)"
    using assms(2) by (auto simp: read_conf_def)
  then have "flat_conf c \<longrightarrow> flat_conf c1"
    by (rule load_props_rel [where R = "\<lambda>c c1. flat_conf c \<longrightarrow> flat_conf c1", rotated -1])
      (auto dest: flat_props_line [OF assms(1)])
  with assms(3) show ?thesis by blast
qed

lemma flat_load_lines: "flat_vals m \<Longrightarrow> flat l \<Longrightarrow> flat_vals (load_lines ci l ifs m)"
proof (induction ci l ifs m rule: load_lines.induct)
  case (1 ci l ifs m)
  obtain l1 i where g: "getline LF l ifs = (l1, i)" by fastforce
  have "flat l1" using flat_getline [OF 1(3), of ifs] g by simp
  moreover from this 1(2) have "flat_vals (load_line ci l1 m)"
    by (auto simp: load_line_def flat_vals_push split: option.split)
  ultimately show ?case using 1(1) [OF g [symmetric]] g 1(2) by (subst load_lines.simps) simp
qed

text \<open>Reading the invitations leaves a store in its invariant and with the same values.\<close>

lemma get_set_elems: "set (fst (get_set k s)) = set (store_vec s k)"
  by (cases "get_vec k s") (simp add: get_set_def store_vec_def)

lemma get_set_inv:
  assumes "store_inv s" "legal_key k"
  shows "store_inv (snd (get_set k s))" "ms_ci (snd (get_set k s)) = ms_ci s"
    "store_vec (snd (get_set k s)) k' = store_vec s k'"
proof -
  have g: "snd (get_set k s) = touch_key k (ensure_loaded s)" by (simp add: get_set_def get_vec_def Let_def)
  note i = inv_ensure [OF assms(1)]
  have l: "load (touch_key k t) = load t" for t
    by (cases "f_content (bs_file t)") (simp_all add: load_def touch_key_def)
  show inv: "store_inv (snd (get_set k s))"
    using i assms(2) unfolding g
    by (simp add: store_inv_def l) (simp add: touch_key_def key_cmp.sorted_touch legal_touch)
  show "ms_ci (snd (get_set k s)) = ms_ci s" unfolding g by (simp add: touch_key_def)
  show "store_vec (snd (get_set k s)) k' = store_vec s k'"
    using vec_ensure [OF inv, of k'] vec_ensure [OF assms(1), of k'] unfolding g
    by (simp add: store_vec_alt)
qed

lemma ms_ci_add [simp]: "ms_ci (snd (add k v s)) = ms_ci s"
  by (simp add: add_def Let_def put_vec_def)

lemma open_ok:
  assumes "fst (open_store f) = None"
  shows "store_inv (snd (open_store f))" "\<not> ms_ci (snd (open_store f))"
proof -
  let ?s = "load \<lparr>ms_store = [], ms_ci = False, bs_file = f\<rparr>"
  have w: "f_writable f" using assms by (auto simp: open_store_def reload_def save_def split: if_splits)
  show "store_inv (snd (open_store f))"
    unfolding open_store_def reload_def
    by (rule inv_save) (use w sorted_load [of "\<lparr>ms_store = [], ms_ci = False, bs_file = f\<rparr>"] legal_load in simp_all)
  show "\<not> ms_ci (snd (open_store f))" by (simp add: open_store_def reload_def)
qed

text \<open>A store without line feeds; with \<open>Some C\<close> also one in its invariant that holds the invitations \<open>C\<close>.\<close>

definition flat_store :: "string set option \<Rightarrow> backup_store \<Rightarrow> bool" where
  "flat_store V s = (flat_vals (ms_store s) \<and>
     (case V of None \<Rightarrow> True | Some C \<Rightarrow> store_inv s \<and> \<not> ms_ci s \<and> C \<subseteq> set (store_vec s ''invite'')))"

lemma invite_key: "legal_key ''invite''"
  by (simp add: legal_key_def LF_def)

lemma flat_load: "flat_vals (ms_store (load s))"
  using flat_load_lines [of "[]" "[]"] by (cases "f_content (bs_file s)") (simp_all add: load_def, simp_all add: flat_vals_def)

lemma flat_ensure: "flat_vals (ms_store s) \<Longrightarrow> flat_vals (ms_store (ensure_loaded s))"
  by (simp add: ensure_loaded_def flat_load)

lemma flat_get_set: "flat_store V s \<Longrightarrow> flat_store V (snd (get_set ''invite'' s))"
  "flat_store V s \<Longrightarrow> v \<in> set (fst (get_set ''invite'' s)) \<Longrightarrow> flat v"
proof -
  assume s: "flat_store V s"
  have t: "flat_vals (ms_store (touch_key ''invite'' (ensure_loaded s)))"
    using flat_ensure [of s] s by (simp add: touch_key_def flat_store_def flat_vals_touch)
  then have "flat_vals (ms_store (snd (get_set ''invite'' s)))" by (simp add: get_set_def get_vec_def Let_def)
  then show "flat_store V (snd (get_set ''invite'' s))"
    using s get_set_inv [OF _ invite_key, of s] by (auto simp: flat_store_def split: option.splits)
  show "v \<in> set (fst (get_set ''invite'' s)) \<Longrightarrow> flat v"
    using flat_vals_at [OF t] by (simp add: get_set_def get_vec_def Let_def vec_at_def)
qed

lemma flat_add: "flat_store V s \<Longrightarrow> flat v \<Longrightarrow> flat_store V (snd (add ''invite'' v s))"
proof -
  assume s: "flat_store V s" and v: "flat v"
  have "flat_vals (ms_store (snd (add ''invite'' v s)))"
    using flat_ensure [of s] s v
    by (auto simp: add_def save_def put_vec_def vec_at_def flat_store_def Let_def intro!: flat_vals_set
        dest: flat_vals_at)
  moreover have "legal_entry ''invite'' v" using v by (simp add: legal_entry_def invite_key legal_value_def flat_def)
  ultimately show ?thesis
    using s backup.inv_app [of s "''invite''" v] backup.vec_app [of s "''invite''" v "''invite''"] backup.same_refl
    by (auto simp: flat_store_def split: option.splits)
qed

lemma flat_open_store: "flat_store None (snd (open_store f))"
  using flat_load by (simp add: open_store_def reload_def save_def flat_store_def)

subsection \<open>The plugin table\<close>

definition flat_plugin :: "plugin \<Rightarrow> bool" where
  "flat_plugin p = (flat (pl_name p) \<and> flat (pl_version p) \<and> (\<forall>a\<in>set (pl_actions p). flat (fst a)))"

definition flat_plugs :: "'a plugs_scheme \<Rightarrow> bool" where
  "flat_plugs s = (\<forall>p\<in>set (pg_plugins s). flat_plugin p)"

text \<open>What plugins call themselves and their commands has no line feed.\<close>

definition flat_code :: "plug_sys \<Rightarrow> bool" where
  "flat_code ps = ((\<forall>path i n v. ps_dlopen ps path = Some (i, n, v) \<longrightarrow> flat n \<and> flat v) \<and>
     (\<forall>a n. \<forall>x\<in>set (fst (snd (ps_init ps a n))). flat (fst x)))"

lemma del_loop_sub: "set (fst (del_loop i l m)) \<subseteq> set l"
  by (induction i l m rule: del_loop.induct) (auto split: prod.splits)

lemma flat_plugs_del: "flat_plugs s \<Longrightarrow> flat_plugs (del_plugin i s)"
  using del_loop_sub [of i "pg_plugins s" "pg_monitors s"]
  by (auto simp: flat_plugs_def del_plugin_def split: prod.split)

lemma flat_load_plugin:
  assumes "flat_code ps" "flat_plugs s"
  shows "flat_plugs (snd (load_plugin ps path s))"
proof -
  have s: "flat_plugs (s\<lparr>pg_next := n\<rparr>)" for n using assms(2) by (simp add: flat_plugs_def)
  show ?thesis
    using assms flat_plugs_del [OF s]
    by (auto simp: load_plugin_def Let_def add_plugin_def flat_plugs_def flat_plugin_def flat_code_def
        split: option.split prod.split)
qed

lemma flat_access_loop: "flat_plugs (access_loop h n iss ch s) = flat_plugs s"
  by (simp add: flat_plugs_def access_loop_fields)

lemma flat_load_from_dirs:
  "flat_code ps \<Longrightarrow> flat_plugs s \<Longrightarrow> flat_plugs (snd (load_from_dirs ps h p access dirs ids s))"
proof (induction dirs arbitrary: s)
  case (Cons dir dirs)
  obtain r s1 where l: "load_plugin ps (dir @ ''/'' @ p) s = (r, s1)" by fastforce
  then have "flat_plugs s1" using flat_load_plugin [OF Cons.prems, of "dir @ ''/'' @ p"] by simp
  with l Cons show ?case by (auto simp: flat_access_loop flat_plugs_del split: option.split)
qed simp

lemma flat_load_lines_plugs:
  "flat_code ps \<Longrightarrow> flat_plugs s \<Longrightarrow> flat_plugs (load_lines_plugs ps h dirs pv ids s)"
proof (induction pv arbitrary: ids s)
  case (Cons line pv)
  obtain p access where l: "plugin_line h line = (p, access)" by fastforce
  obtain ids1 s1 where d: "load_from_dirs ps h p access dirs ids s = (ids1, s1)" by fastforce
  with l Cons flat_load_from_dirs [OF Cons.prems, of h p access dirs ids] show ?case by simp
qed simp

lemma flat_load_plugins: "flat_code ps \<Longrightarrow> flat_plugs s \<Longrightarrow> flat_plugs (load_plugins ps h now s)"
  using flat_load_lines_plugs [of ps "s\<lparr>pg_loaded := now\<rparr>"] by (simp add: load_plugins_def Let_def flat_plugs_def)

lemma flat_plugin_add: "flat_plugin p \<Longrightarrow> flat (fst a) \<Longrightarrow> flat_plugin (plugin_add a p)"
  using flat_keys_touch [of "pl_actions p" "fst a"] by (simp add: flat_plugin_def plugin_add_def cm_insert_def)

lemma flat_plugin_init:
  assumes "flat_code ps" "flat_plugin p" "plugin_init ps irc n p = (b, p1, mon)"
  shows "flat_plugin p1"
proof -
  obtain b' acts mon' where a: "ps_init ps (pl_addr p) n = (b', acts, mon')" using prod_cases3 by blast
  then have f: "flat (fst x)" if "x \<in> set acts" for x
    using assms(1) that by (metis flat_code_def fst_conv snd_conv)
  have "flat_plugin (fold plugin_add acts (p\<lparr>pl_actions := []\<rparr>))"
    by (rule fold_all [where P = flat_plugin])
      (use assms(2) f in \<open>simp_all add: flat_plugin_add, simp add: flat_plugin_def\<close>)
  with assms(2,3) a show ?thesis by (auto simp: plugin_init_def split: if_splits)
qed

lemma flat_init_loop:
  "flat_code ps \<Longrightarrow> \<forall>p\<in>set l. flat_plugin p \<Longrightarrow> \<forall>p\<in>set (fst (init_loop ps irc l s)). flat_plugin p"
proof (induction l arbitrary: s)
  case (Cons p l)
  obtain b p1 mon where i: "plugin_init ps irc (pg_inits s) p = (b, p1, mon)" using prod_cases3 by blast
  have "flat_plugin p1" using flat_plugin_init [OF Cons.prems(1) _ i] Cons.prems(2) by simp
  with i Cons show ?case by (auto simp: Let_def split_beta)
qed simp

lemma flat_init_plugins: "flat_code ps \<Longrightarrow> flat_plugs s \<Longrightarrow> flat_plugs (init_plugins ps irc s)"
  using flat_init_loop [of ps "pg_plugins s" irc s] by (simp add: flat_plugs_def init_plugins_def split_beta)

lemma flat_find_alias: "find_alias h cmd ch l = Alias_of to \<Longrightarrow> flat to"
  by (induction l) (auto simp: split_beta flat_word split: if_splits)

lemma flat_update_plug: "flat_plugin p \<Longrightarrow> \<forall>q\<in>set l. flat_plugin q \<Longrightarrow> \<forall>q\<in>set (update_plug p l). flat_plugin q"
  by (induction p l rule: update_plug.induct) auto

lemma flat_run_command:
  assumes "run_command cmd msg s = (e, s')" "flat_plugs s" "flat cmd"
  shows "flat_plugs s'"
proof (cases "cm_find str_lt cmd (pg_commands s)")
  case (Some a)
  obtain r s1 where r: "allow_cmd_access cmd msg s = (r, s1)" by fastforce
  then have k: "flat_plugs s1" using allow_cmd_access_keeps [OF r] assms(2) by (simp add: flat_plugs_def)
  have p: "flat_plugin (snd (plugin_execute cmd p))" if "flat_plugin p" for p
    using that assms(3) flat_keys_touch [of "pl_actions p" cmd] by (simp add: plugin_execute_def flat_plugin_def)
  from assms(1) Some r show ?thesis
  proof (cases rule: run_command_cases)
    case (ran p)
    have "pg_plugins s' = update_plug (snd (plugin_execute cmd p)) (pg_plugins s1)" by (subst ran(2)) simp
    moreover have "flat_plugin p" using k find_plug_in [OF ran(1)] by (simp add: flat_plugs_def)
    ultimately show ?thesis
      unfolding flat_plugs_def using flat_update_plug [OF p k [unfolded flat_plugs_def]] by metis
  qed (use k in simp)
qed (use assms in \<open>simp add: run_command_def\<close>)

lemma flat_bot_execute: "bot_execute h cmd msg s = (e, s') \<Longrightarrow> flat_plugs s \<Longrightarrow> flat cmd \<Longrightarrow> flat_plugs s'"
  by (auto simp: bot_execute_def Let_def split: alias_result.splits if_splits dest: flat_run_command flat_find_alias)

end
