(* ===== verification/Bot_Lines.thy ===== *)
theory Bot_Lines
  imports Bot_Machine Flat_Text
begin

text \<open>
  No line feed gets from a message, a file or the environment into a command.  A command the bot sends
  is one line of the protocol; a line feed inside it would be a second command.  \<open>clean\<close> says of a
  bot that nothing it keeps and uses in a command has a line feed, and every operation keeps it, so it
  holds in every state of the running machine.
\<close>

subsection \<open>What the bot relies on\<close>

text \<open>\<open>split_fold\<close> returns parts of the string; none holds the delimiter.\<close>

definition splits :: "hol \<Rightarrow> bool" where
  "splits h = ((\<forall>s d. \<forall>p\<in>set (h_split_fold h s d). set p \<subseteq> set s) \<and>
     (\<forall>s. \<forall>p\<in>set (h_split_fold h s (Some [LF])). flat p))"

definition line_lib :: "hol \<Rightarrow> bool" where
  "line_lib h = (replaces_all h \<and> trims h \<and> lowers h \<and> picks h \<and> joins h \<and> splits h)"

lemma split_on_parts: "w \<in> set (split_on P acc s) \<Longrightarrow> set w \<subseteq> set acc \<union> set s"
  by (induction P acc s rule: split_on.induct) (auto split: if_splits)

lemma split_on_clear: "w \<in> set (split_on P acc s) \<Longrightarrow> c \<in> set w \<Longrightarrow> P c \<Longrightarrow> c \<in> set acc"
  by (induction P acc s rule: split_on.induct) (auto split: if_splits)

lemma hol_ref_line_lib: "line_lib hol_ref"
proof -
  have "flat p" if "p \<in> set (split_on (\<lambda>c. c \<in> set [LF]) [] s)" for p s
    using split_on_clear [OF that, of LF] by (auto simp: flat_def)
  then have "splits hol_ref"
    using split_on_parts [of _ _ "[]"] by (fastforce simp: splits_def hol_ref_def split: option.split)
  then show ?thesis by (simp add: line_lib_def hol_ref_ok)
qed

lemma flat_lib:
  assumes "line_lib h"
  shows "flat s \<Longrightarrow> flat (h_trim h s)" "flat s \<Longrightarrow> flat (h_lower h s)"
    "a \<noteq> [] \<Longrightarrow> flat s \<Longrightarrow> flat b \<Longrightarrow> flat (h_replace_all h s a b)"
    "xs \<noteq> [] \<Longrightarrow> \<forall>x\<in>set xs. flat x \<Longrightarrow> flat (h_random h n xs)"
    "flat s \<Longrightarrow> w \<in> set (h_split_fold h s d) \<Longrightarrow> flat w" "w \<in> set (h_split_fold h s (Some [LF])) \<Longrightarrow> flat w"
  using assms unfolding line_lib_def splits_def
  by (auto intro: flat_trim flat_lower flat_replace simp: picks_def) (metis flat_sub(1))

lemma flat_wire:
  "flat p \<Longrightarrow> flat (wire h (Pass p))" "flat n \<Longrightarrow> flat (wire h (Nick n))"
  "flat u \<Longrightarrow> flat d \<Longrightarrow> flat r \<Longrightarrow> flat (wire h (User u d r))" "flat c \<Longrightarrow> flat k \<Longrightarrow> flat (wire h (Join c k))"
  "flat c \<Longrightarrow> flat t \<Longrightarrow> flat (wire h (Part c t))" "flat t \<Longrightarrow> flat (wire h (Ping t))"
  "flat t \<Longrightarrow> flat (wire h (Pong t))" "flat c \<Longrightarrow> flat t \<Longrightarrow> flat (wire h (Say c t))"
  "flat c \<Longrightarrow> flat t \<Longrightarrow> flat (wire h (Ctcp c t))" "line_lib h \<Longrightarrow> flat n \<Longrightarrow> flat (wire h (Whois [n]))"
  "flat t \<Longrightarrow> flat (wire h (Quit t))" "flat u \<Longrightarrow> flat p \<Longrightarrow> flat (wire h (Auth u p))"
  "flat c \<Longrightarrow> flat t \<Longrightarrow> flat (wire h (Me c t))" "flat n \<Longrightarrow> flat d \<Longrightarrow> flat (wire h (Mode_nick n d))"
  "flat t \<Longrightarrow> flat (wire h (Raw t))"
  by (auto simp: irc_keywords say_line_def ctcp_escape_def SOH_def line_lib_def joins_def join_with_def)

lemma flat_wire_reply:
  assumes "flat_msg m" "flat t"
  shows "flat (wire h (Reply m t))" "flat (wire h (Reply_pm m t))"
  using assms flat_msg_parts [OF assms(1)]
  by (auto simp: irc_keywords say_line_def reply_target_def get_nick_def)

subsection \<open>The invariant\<close>

text \<open>\<open>V\<close>: what is required of the store (\<open>flat_store\<close>).\<close>

definition clean :: "bot_sys \<Rightarrow> string set option \<Rightarrow> bot \<Rightarrow> bool" where
  "clean y V b = (line_lib (y_hol y) \<and> flat_code (bs_plug y) \<and> flat_conf b \<and> flat_plugs b \<and> flat_store V (b_store b) \<and>
     flat (b_nick b) \<and> (\<forall>c\<in>set (b_chans b). flat c) \<and> fl_inv (b_fc b) \<and>
     (\<forall>c. \<forall>op\<in>set (fl_pend (b_fc b) c). flat (wire (y_hol y) op)) \<and> (\<forall>op\<in>set (b_sent b). flat (wire (y_hol y) op)))"

lemma clean_lib: "clean y V b \<Longrightarrow> line_lib (y_hol y)" "clean y V b \<Longrightarrow> trims (y_hol y)"
  by (simp_all add: clean_def line_lib_def)

lemma clean_conf:
  assumes "clean y V b"
  shows "v \<in> set (conf_get_vec s b) \<Longrightarrow> flat v" "flat d \<Longrightarrow> flat (conf_get s d b)"
    "v \<in> set (conf_get_set s b) \<Longrightarrow> flat v" "n \<in> set (cf_nicks b) \<Longrightarrow> flat n"
    "flat (cf_user b)" "flat (cf_mode b)" "flat (cf_real b)"
  using assms flat_conf_get [of b] by (auto simp: clean_def flat_conf_def)

lemma clean_updates [simp]:
  "clean y V (b\<lparr>b_msgevents := x1\<rparr>) = clean y V b" "clean y V (b\<lparr>b_calls := x2\<rparr>) = clean y V b"
  "clean y V (b\<lparr>b_events := x3\<rparr>) = clean y V b" "clean y V (b\<lparr>b_debug := x4\<rparr>) = clean y V b"
  "clean y V (b\<lparr>b_done := x5\<rparr>) = clean y V b" "clean y V (b\<lparr>b_connected := x6\<rparr>) = clean y V b"
  "clean y V (b\<lparr>b_registered := x7\<rparr>) = clean y V b" "clean y V (b\<lparr>b_restart := x8\<rparr>) = clean y V b"
  "clean y V (b\<lparr>b_pinger_info := x9\<rparr>) = clean y V b" "clean y V (b\<lparr>b_nick_number := x10\<rparr>) = clean y V b"
  "clean y V (b\<lparr>b_nicks := x11\<rparr>) = clean y V b" "clean y V (b\<lparr>b_draws := x12\<rparr>) = clean y V b"
  "clean y V (b\<lparr>b_conns := x13\<rparr>) = clean y V b" "clean y V (b\<lparr>b_uptime := x14\<rparr>) = clean y V b"
  "clean y V (b\<lparr>b_config_loaded := x15\<rparr>) = clean y V b" "clean y V (b\<lparr>cf_file := x16\<rparr>) = clean y V b"
  by (simp_all add: clean_def flat_conf_def flat_plugs_def)

lemma clean_set:
  "clean y V b \<Longrightarrow> flat n \<Longrightarrow> clean y V (b\<lparr>b_nick := n\<rparr>)" "clean y V b \<Longrightarrow> flat_store V st \<Longrightarrow> clean y V (b\<lparr>b_store := st\<rparr>)"
  "clean y V b \<Longrightarrow> flat_vals ps \<Longrightarrow> clean y V (b\<lparr>cf_props := ps\<rparr>)"
  "clean y V b \<Longrightarrow> \<forall>c\<in>set cs. flat c \<Longrightarrow> clean y V (b\<lparr>b_chans := cs\<rparr>)"
  by (simp_all add: clean_def flat_conf_def flat_plugs_def)

lemma clean_send: "clean y V b \<Longrightarrow> flat (wire (y_hol y) op) \<Longrightarrow> clean y V (snd (send_op y op b))"
  by (auto simp: clean_def send_op_def flat_conf_def flat_plugs_def)

lemma clean_emit: "clean y V b \<Longrightarrow> flat (wire (y_hol y) op) \<Longrightarrow> clean y V (emit y op b)"
  by (simp add: emit_def clean_send)

lemma clean_draw: "clean y V b \<Longrightarrow> clean y V (snd (draw h xs b))"
  by (simp add: draw_def)

lemma clean_fc_do: "clean y V b \<Longrightarrow> flat (wire (y_hol y) op) \<Longrightarrow> clean y V (fc_do c op b)"
  by (auto simp: clean_def fc_do_def flat_conf_def flat_plugs_def fl_inv_send fl_pend_send)

lemma clean_fc_say: "clean y V b \<Longrightarrow> flat c \<Longrightarrow> flat t \<Longrightarrow> clean y V (fc_say c t b)"
  unfolding fc_say_def by (intro clean_fc_do flat_wire)

lemma clean_replies:
  assumes "clean y V b" "flat_msg msg" "flat t"
  shows "clean y V (fc_reply msg t b)" "clean y V (fc_reply_pm msg t b)"
  using assms by (auto simp: fc_reply_def fc_reply_pm_def intro!: clean_fc_do flat_wire_reply)

lemma clean_pm_help:
  assumes "clean y V b" "flat_msg msg" "flat pre"
  shows "clean y V (fc_reply_pm_help (y_hol y) msg t pre b)"
  unfolding fc_reply_pm_help_def
proof (rule fold_all [where P = "clean y V"])
  show "clean y V (fc_do (get_to msg) (Reply_pm msg (pre @ s)) b1)"
    if "s \<in> set (h_split_fold (y_hol y) t (Some [LF]))" "clean y V b1" for s b1
    using that assms flat_lib(6) [OF clean_lib(1) [OF that(2)] that(1)] by (intro clean_fc_do flat_wire_reply) auto
qed (rule assms)

lemma clean_bot_turn: "clean y V b \<Longrightarrow> clean y V (bot_turn y b)"
proof -
  assume c: "clean y V b"
  then have i: "fl_inv (b_fc b)" by (simp add: clean_def)
  obtain out fc1 where t: "turn (b_fc b) = (out, fc1)" by fastforce
  show ?thesis
  proof (cases out)
    case None
    with t fl.turn_none [OF i] have "fl_pend fc1 c = []" for c by simp
    with None t c fl_inv_turn [OF i] show ?thesis
      by (simp add: bot_turn_def clean_def flat_conf_def flat_plugs_def)
  next
    case (Some p)
    then obtain ch op where p: "turn (b_fc b) = (Some (ch, op), fc1)" using t by (cases p) simp
    have s: "set (fl_pend fc1 k) \<subseteq> set (fl_pend (b_fc b) k)" for k
      using fl.turn_some [OF i p, of k] by (cases "k = ch") auto
    have o: "op \<in> set (fl_pend (b_fc b) ch)" using fl.turn_some [OF i p, of ch] by simp
    have "clean y V (b\<lparr>b_fc := fc1\<rparr>)"
      using c fl_inv_turn [OF i] p
      by (simp add: clean_def flat_conf_def flat_plugs_def) (metis subsetD [OF s])
    then have "clean y V (emit y op (b\<lparr>b_fc := fc1\<rparr>))" using c o by (intro clean_emit) (auto simp: clean_def)
    then show ?thesis by (simp add: bot_turn_def p)
  qed
qed

subsection \<open>Channels, configuration and plugins\<close>

lemma clean_add_channel: "clean y V b \<Longrightarrow> flat c \<Longrightarrow> clean y V (add_channel c b)"
  unfolding add_channel_def by (rule clean_set(4)) (auto simp: clean_def)

lemma clean_if: "(a \<Longrightarrow> clean y V b) \<Longrightarrow> (\<not> a \<Longrightarrow> clean y V b') \<Longrightarrow> clean y V (if a then b else b')"
  by simp

lemma clean_say_one:
  assumes "clean y V b" "flat c" "ws \<noteq> []" "\<forall>w\<in>set ws. flat w"
  shows "clean y V (emit y (Say c (fst (draw (y_hol y) ws b))) (snd (draw (y_hol y) ws b)))"
proof -
  have "flat (fst (draw (y_hol y) ws b))"
    using flat_lib(4) [OF clean_lib(1) [OF assms(1)] assms(3,4)] by (simp add: draw_def)
  with assms show ?thesis by (intro clean_emit clean_draw flat_wire)
qed

lemma clean_join:
  assumes "clean y V b" "flat chan"
  shows "clean y V (official_join y chan b)"
proof -
  let ?b1 = "snd (send_op y (Join chan []) b)"
  have 1: "clean y V ?b1" using assms by (intro clean_send flat_wire) simp_all
  let ?b2 = "add_channel chan ?b1"
  have 2: "clean y V ?b2" using 1 assms(2) by (rule clean_add_channel)
  let ?b3 = "if conf_get_bool ''join.announce'' False ?b2 then emit y (Say chan (NAME @ '' v'' @ VERSION)) ?b2 else ?b2"
  have 3: "clean y V ?b3"
    using 2 assms(2) by (intro clean_if clean_emit flat_wire) (simp_all add: NAME_def VERSION_def)
  show ?thesis
    unfolding official_join_def Let_def split_beta
    by (intro clean_if 1 3 clean_say_one) (use assms(2) clean_conf(1) [OF 3] in blast)+
qed

lemma clean_leave:
  assumes "clean y V b"
  shows "clean y V (leave_all y b)"
  unfolding leave_all_def Let_def split_beta
proof (rule fold_all [where P = "clean y V"])
  fix c b1
  assume c: "c \<in> set (b_chans b)" and b1: "clean y V b1"
  have f: "flat c" using assms c by (simp add: clean_def)
  let ?g = "conf_get_vec ''goodbye'' b"
  show "clean y V (emit y (Part c [])
      (if ?g \<noteq> [] then emit y (Say c (fst (draw (y_hol y) ?g b1))) (snd (draw (y_hol y) ?g b1)) else b1))"
    using b1 f clean_conf(1) [OF assms] by (intro clean_emit clean_if clean_say_one flat_wire) auto
qed (rule assms)

lemma clean_conf_frame:
  assumes "clean y V b" "conf_frame b b'" "flat_conf b'"
  shows "clean y V b'"
proof -
  have "pg_plugins b' = pg_plugins b \<and> b_store b' = b_store b \<and> b_nick b' = b_nick b \<and> b_chans b' = b_chans b \<and>
      b_fc b' = b_fc b \<and> b_sent b' = b_sent b"
    using assms(2) by (cases b, cases b') (simp add: conf_frame_def)
  with assms show ?thesis by (simp add: clean_def flat_plugs_def)
qed

lemma clean_plugs_frame:
  assumes "clean y V b" "plugs_frame b b'" "flat_plugs b'"
  shows "clean y V b'"
proof -
  have "b_store b' = b_store b \<and> b_nick b' = b_nick b \<and> b_chans b' = b_chans b \<and> b_fc b' = b_fc b \<and> b_sent b' = b_sent b"
    using assms(2) by (cases b, cases b') (simp add: plugs_frame_def)
  with assms show ?thesis by (simp add: clean_def flat_conf_def plugs_frame_def)
qed

lemma clean_read_conf:
  assumes "clean y V b" "read_conf (sys.truncate y) name b = Some (e, g, b')"
  shows "clean y V b'"
proof (rule clean_conf_frame [OF assms(1) read_conf_frame [OF assms(2)]])
  have "trims (y_hol (sys.truncate y))" using clean_lib(2) [OF assms(1)] by (simp add: sys.truncate_def)
  from flat_read_conf [OF this assms(2)] assms(1) show "flat_conf b'" by (simp add: clean_def)
qed

lemma clean_reconfigure: "clean y V b \<Longrightarrow> res_all (clean y V) (reconfigure y now b)"
proof -
  assume c: "clean y V b"
  have "clean y V (b\<lparr>cf_props := []\<rparr>)" by (rule clean_set(3) [OF c]) (simp add: flat_vals_def)
  from clean_read_conf [OF this] show ?thesis
    by (auto simp: reconfigure_def res_all_def done_res_def split: option.splits prod.splits)
qed

lemma clean_load_plugins: "clean y V b \<Longrightarrow> clean y V (load_plugins (bs_plug y) (y_hol y) now b)"
  by (rule clean_plugs_frame [OF _ load_plugins_frame]) (auto simp: clean_def intro: flat_load_plugins)

lemma clean_init_plugins: "clean y V b \<Longrightarrow> clean y V (init_plugins (bs_plug y) irc b)"
  by (rule clean_plugs_frame [OF _ init_plugins_frame]) (auto simp: clean_def intro: flat_init_plugins)

lemma clean_reload: "clean y V b \<Longrightarrow> clean y V (reload_plugins y now b)"
  by (simp add: reload_plugins_def clean_load_plugins clean_init_plugins)

lemma clean_execute:
  assumes "clean y V b" "flat cmd" "bot_execute h cmd msg b = (e, b')"
  shows "clean y V b'"
proof (rule clean_plugs_frame [OF assms(1)])
  show "plugs_frame b b'" using bot_execute_keeps [OF assms(3)] by blast
  show "flat_plugs b'" using flat_bot_execute [OF assms(3)] assms(1,2) by (simp add: clean_def)
qed

subsection \<open>\<open>exec\<close>\<close>

lemma clean_exec_handlers:
  assumes "clean y V b" "flat line"
  shows "exec_all (clean y V) (exec_say y os line iss b)" "exec_all (clean y V) (exec_ctcp y os iss b)"
    "exec_all (clean y V) (exec_raw y iss b)" "exec_all (clean y V) (exec_nick y iss b)"
    "exec_all (clean y V) (exec_msg y iss b)" "exec_all (clean y V) (exec_auth y iss b)"
    "exec_all (clean y V) (exec_mode y iss b)" "exec_all (clean y V) (exec_whois y iss b)"
    "exec_all (clean y V) (exec_me y os line iss b)" "exec_all (clean y V) (exec_join y os iss b)"
    "exec_all (clean y V) (exec_part y os line iss b)" "exec_all (clean y V) (exec_ping y os iss b)"
    "exec_all (clean y V) (exec_reconnect y os b)"
proof -
  note l = flat_lib(1,2) [OF clean_lib(1) [OF assms(1)]] clean_lib(1) [OF assms(1)]
  note c = assms flat_getline flat_word l
  note i = clean_emit clean_send clean_fc_say flat_wire clean_add_channel
  have e: "clean y V (b\<lparr>b_chans := cs_erase str_lt c (b_chans b)\<rparr>)" for c
    using assms(1) set_cs_erase_sub [of str_lt c "b_chans b"] by (intro clean_set(4)) (auto simp: clean_def)
  show "exec_all (clean y V) (exec_say y os line iss b)" "exec_all (clean y V) (exec_ctcp y os iss b)"
    "exec_all (clean y V) (exec_raw y iss b)" "exec_all (clean y V) (exec_nick y iss b)"
    "exec_all (clean y V) (exec_msg y iss b)" "exec_all (clean y V) (exec_auth y iss b)"
    "exec_all (clean y V) (exec_mode y iss b)" "exec_all (clean y V) (exec_whois y iss b)"
    "exec_all (clean y V) (exec_me y os line iss b)" "exec_all (clean y V) (exec_join y os iss b)"
    "exec_all (clean y V) (exec_part y os line iss b)" "exec_all (clean y V) (exec_ping y os iss b)"
    "exec_all (clean y V) (exec_reconnect y os b)"
    using c e
    by (auto simp: exec_say_def exec_ctcp_def exec_raw_def exec_nick_def exec_msg_def exec_auth_def exec_mode_def
        exec_whois_def exec_me_def exec_join_def exec_part_def exec_ping_def exec_reconnect_def bot_connect_def
        Let_def split_beta split: sum.split intro!: i)
qed

lemma clean_exec: "clean y V b \<Longrightarrow> flat line \<Longrightarrow> exec_all (clean y V) (exec y now line os b)"
  by (simp add: exec_def Let_def split_beta clean_exec_handlers clean_reconfigure clean_reload clean_leave)

subsection \<open>Messages of the server\<close>

lemma clean_quiet: "clean y V b \<Longrightarrow> flat line \<Longrightarrow> res_all (clean y V) (exec_quiet y now line b)"
  by (intro res_all_quiet clean_exec)

lemma clean_welcome:
  assumes "clean y V b" "flat_msg msg"
  shows "res_all (clean y V) (on_welcome y now msg b)"
proof -
  let ?b1 = "b\<lparr>b_nick := get_to msg\<rparr>"
  have 1: "clean y V ?b1" using assms flat_msg_parts(1) by (intro clean_set(1))
  have "flat (h_replace_all (y_hol y) line ''$me'' (b_nick b2))"
    if "line \<in> set (conf_get_vec ''on_connect'' ?b1)" "clean y V b2" for line b2
    using that clean_conf(1) [OF 1] flat_lib(3) [OF clean_lib(1) [OF 1]] by (simp add: clean_def)
  then have "res_all (clean y V) (for_each (\<lambda>prop b. exec_quiet y now (h_replace_all (y_hol y) prop ''$me'' (b_nick b)) b)
      (conf_get_vec ''on_connect'' ?b1) ?b1)"
    by (intro res_all_for_each [where P = "clean y V"] clean_quiet 1)
  moreover have "clean y V (fold (official_join y) (conf_get_vec ''join'' b2) b2)" if "clean y V b2" for b2
    by (rule fold_all [where P = "clean y V"]) (use that clean_conf(1) [OF that] clean_join in blast)+
  moreover have "clean y V (fold (official_join y) (fst (get_set ''invite'' (b_store b3)))
      (b3\<lparr>b_store := snd (get_set ''invite'' (b_store b3))\<rparr>))" if "clean y V b3" for b3
  proof (rule fold_all [where P = "clean y V"])
    have s: "flat_store V (b_store b3)" using that by (simp add: clean_def)
    show "clean y V (b3\<lparr>b_store := snd (get_set ''invite'' (b_store b3))\<rparr>)" by (rule clean_set(2) [OF that flat_get_set(1) [OF s]])
    show "x \<in> set (fst (get_set ''invite'' (b_store b3))) \<Longrightarrow> clean y V b4 \<Longrightarrow> clean y V (official_join y x b4)" for x b4
      using flat_get_set(2) [OF s] by (intro clean_join)
  qed
  ultimately show ?thesis
    unfolding on_welcome_def Let_def split_beta by (intro res_all_and_then) simp_all
qed

lemma clean_namreply: "clean y V b \<Longrightarrow> clean y V (on_namreply msg b)"
  unfolding on_namreply_def Let_def
  by (rule fold_all [where P = "clean y V"]) (simp_all add: add_nick_def)

lemma clean_user:
  assumes "clean y V b"
  shows "clean y V (emit y (User (cf_user b) (cf_mode b) (cf_real b)) b)"
  using assms clean_conf(5-7) [OF assms] by (intro clean_emit flat_wire)

lemma clean_nick_in_use: "clean y V b \<Longrightarrow> clean y V (on_nick_in_use y b)"
  unfolding on_nick_in_use_def Let_def
  by (intro clean_if clean_user clean_emit flat_wire) (auto intro: clean_conf(4))

lemma clean_invite:
  assumes "clean y V b" "flat_msg msg"
  shows "res_all (clean y V) (on_invite y msg b)"
proof -
  let ?ps = "get_params msg"
  let ?chan = "if length ?ps > 1 then ?ps ! 1 else []"
  have c: "flat ?chan" using flat_params(1) [OF assms(2)] by simp
  let ?b1 = "emit y (Say ?chan (''I was invited by '' @ get_nickname msg)) (official_join y ?chan b)"
  have 1: "clean y V ?b1"
    using assms c flat_msg_parts(2) [OF assms(2)] by (intro clean_emit clean_join flat_wire) (simp_all del: if_split)
  then have s: "flat_store V (b_store ?b1)" by (simp add: clean_def)
  let ?b2 = "?b1\<lparr>b_store := snd (get_set ''invite'' (b_store ?b1))\<rparr>"
  have 2: "clean y V ?b2" by (rule clean_set(2) [OF 1 flat_get_set(1) [OF s]])
  have "clean y V (?b2\<lparr>b_store := snd (add ''invite'' ?chan (b_store ?b2))\<rparr>)"
    by (rule clean_set(2) [OF 2 flat_add [OF _ c]]) (use 2 in \<open>simp add: clean_def\<close>)
  with assms(1) 2 show ?thesis
    unfolding on_invite_def Let_def split_beta by (simp del: if_split add: if_split [where P = "res_all (clean y V)"])
qed

lemma clean_on_join:
  assumes "clean y V b" "flat_msg msg"
  shows "clean y V (on_join y msg b)"
proof (cases "get_params msg")
  case (Cons chan ps)
  then have "flat chan" using flat_params(1) [OF assms(2)] by simp
  then have "clean y V (emit y (Part chan ''Not authorized for this channel.'') b)"
    using assms(1) by (intro clean_emit flat_wire) simp_all
  with assms(1) Cons show ?thesis by (simp add: on_join_def Let_def)
qed (use assms(1) in \<open>simp add: on_join_def Let_def\<close>)

lemma clean_on_nick: "clean y V b \<Longrightarrow> flat_msg msg \<Longrightarrow> clean y V (on_nick msg b)"
  by (simp add: on_nick_def clean_set flat_params)

subsection \<open>Built-in commands\<close>

lemma clean_die: "clean y V b \<Longrightarrow> flat_msg msg \<Longrightarrow> flat cmd \<Longrightarrow> clean y V (do_die y cmd msg b)"
  by (simp add: do_die_def clean_replies clean_leave split: option.split)

lemma clean_uptime: "clean y V b \<Longrightarrow> flat_msg msg \<Longrightarrow> clean y V (do_uptime y now msg b)"
  by (simp add: do_uptime_def Let_def clean_replies flat_lib(1) [OF clean_lib(1)])

lemma clean_join_part:
  assumes "clean y V b" "flat_msg msg"
  shows "clean y V (do_join y msg b)" "clean y V (do_part y msg b)"
proof -
  let ?p = "h_split_fold (y_hol y) (get_user_params (y_hol y) msg) None"
  have f: "flat (?p ! 0)" if "length ?p = 2"
    using that flat_lib(5) [OF clean_lib(1) [OF assms(1)] flat_user_parts(2) [OF assms(2) clean_lib(2) [OF assms(1)]] nth_mem]
    by simp
  have n: "flat (b_nick b1)" if "clean y V b1" for b1 using that by (simp add: clean_def)
  have j: "clean y V (snd (send_op y (Join (?p ! 0) []) b))" "clean y V (snd (send_op y (Part (?p ! 0) []) b))"
    if "length ?p = 2" by (simp_all only: clean_send flat_wire assms(1) f [OF that] flat_simps)
  have r: "clean y V (fc_reply msg (b_nick b1 @ t @ ?p ! 0) (add_channel (?p ! 0) b1))"
    if "length ?p = 2" "clean y V b1" "flat t" for b1 t
    using that f [OF that(1)] n [OF that(2)] assms(2) by (intro clean_replies(1) clean_add_channel) simp_all
  show "clean y V (do_join y msg b)"
    unfolding do_join_def Let_def split_beta by (intro clean_if r j clean_replies(1) assms) simp_all
  show "clean y V (do_part y msg b)"
    unfolding do_part_def Let_def split_beta by (intro clean_if r j clean_replies(1) assms) simp_all
qed

lemma clean_restart_words:
  assumes "clean y V b" "flat_msg msg"
  shows "res_all (clean y V) (do_reconfigure y now msg b)" "clean y V (do_restart y msg b)" "clean y V (do_debug msg b)"
  using assms
  by (auto simp: do_reconfigure_def do_restart_def do_debug_def Let_def clean_replies split: option.split
      intro!: res_all_and_then clean_quiet)

lemma flat_read_pass:
  assumes "flat s"
  shows "flat (fst (getstring (str_stream s) []))" "flat (buf (snd (getstring (str_stream s) [])))"
  using flat_getstring [of "str_stream s" "[]"] assms by simp_all

lemma clean_pset:
  assumes "clean y V b" "flat_msg msg"
  shows "clean y V (do_pset y msg b)"
proof -
  note r = clean_replies(1) [OF _ assms(2)]
  obtain pass iss where p: "getstring (str_stream (get_user_params (y_hol y) msg)) [] = (pass, iss)" by fastforce
  have "flat (get_user_params (y_hol y) msg)" by (rule flat_user_parts(2) [OF assms(2) clean_lib(2) [OF assms(1)]])
  from flat_read_pass(2) [OF this] p have i: "flat (buf (skip_ws iss))" by (simp add: flat_skip_ws)
  obtain key0 iss1 where k: "getline (CHR '':'') [] (skip_ws iss) = (key0, iss1)" by fastforce
  let ?key = "h_trim (y_hol y) key0"
  have key: "flat ?key" and i1: "flat (buf iss1)"
    using flat_getline_any(1) [OF _ i, of "[]" "CHR '':''"] flat_getline_any(2) [OF i, of "CHR '':''" "[]"] k flat_lib(1) [OF clean_lib(1) [OF assms(1)]] by simp_all
  have v: "flat v" if "v \<in> set (getstrings iss1 [])" for v by (rule flat_getstrings [OF i1 _ that]) simp
  have props: "flat_vals (cf_props b)" using assms(1) by (simp add: clean_def flat_conf_def)
  let ?b1 = "b\<lparr>cf_props := cm_touch str_lt [] ?key (cf_props b)\<rparr>"
  have 1: "clean y V ?b1" by (rule clean_set(3) [OF assms(1) flat_vals_touch [OF props]])
  have "clean y V (fold (\<lambda>p b. fc_reply msg (?key @ ''['' @ show_nat (fst p) @ '']: '' @ snd p) b)
      (enumerate 0 (cm_at str_lt [] ?key (cf_props ?b1))) ?b1)"
  proof (rule fold_all [where P = "clean y V"])
    show "clean y V (fc_reply msg (?key @ ''['' @ show_nat (fst p) @ '']: '' @ snd p) b2)"
      if "p \<in> set (enumerate 0 (cm_at str_lt [] ?key (cf_props ?b1)))" "clean y V b2" for p b2
    proof -
      have "snd p \<in> set (cm_at str_lt [] ?key (cf_props ?b1))" using imageI [OF that(1), of snd] by (simp only: set_map [symmetric] map_snd_enumerate)
      then have "flat (snd p)" using flat_vals_at [of "cf_props ?b1"] 1 by (simp add: clean_def flat_conf_def)
      with that(2) key show ?thesis by (intro r) simp_all
    qed
  qed (rule 1)
  moreover have "clean y V (b\<lparr>cf_props := fold (\<lambda>val m. push_back str_lt ?key (h_trim (y_hol y) val) m) (getstrings iss1 [])
      (cm_erase str_lt ?key (cf_props b))\<rparr>)"
  proof (rule clean_set(3) [OF assms(1)], rule fold_all [where P = flat_vals])
    show "flat_vals (cm_erase str_lt ?key (cf_props b))" by (rule flat_vals_erase [OF props])
    show "flat_vals (push_back str_lt ?key (h_trim (y_hol y) x) m)" if "x \<in> set (getstrings iss1 [])" "flat_vals m" for x m
      by (rule flat_vals_push [OF that(2) flat_lib(1) [OF clean_lib(1) [OF assms(1)] v [OF that(1)]]])
  qed
  ultimately show ?thesis
    using assms(1) key r by (simp add: do_pset_def p k Let_def)
qed

lemma flat_words_of_key: "clean y V b \<Longrightarrow> flat (words_of_key b key)"
  using clean_conf(3) [of y V b] by (auto simp: words_of_key_def Let_def intro!: flat_join)

lemma clean_help:
  assumes "clean y V b" "flat_msg msg"
  shows "res_all (clean y V) (do_help y msg b)"
proof -
  note r = clean_replies(2) [OF _ assms(2)]
  let ?b2 = "fc_reply_pm msg ([TAB] @ ''Built in'') (fc_reply_pm msg ''List of commands:'' b)"
  have 2: "clean y V ?b2" by (intro r assms(1)) (simp_all add: TAB_def)
  let ?b3 = "fc_reply_pm msg ([TAB, TAB] @
      join_with '', '' (map (words_of_key ?b2) (get_wild_keys (y_match y) ''trigger.word'' ?b2))) ?b2"
  have "flat (join_with '', '' (map (words_of_key ?b2) ks))" for ks
    using flat_words_of_key [OF 2] by (intro flat_join) auto
  then have 3: "clean y V ?b3" by (intro r 2) (simp_all add: TAB_def)
  let ?b4 = "fold (\<lambda>p b. fc_reply_pm msg ([TAB, TAB] @ join_with '', '' (plugin_list p))
      (fc_reply_pm msg ([TAB] @ pl_name p @ '' '' @ pl_version p) b)) (pg_plugins ?b3) ?b3"
  have 4: "clean y V ?b4"
  proof (rule fold_all [where P = "clean y V"])
    fix p b4
    assume p: "p \<in> set (pg_plugins ?b3)" and b4: "clean y V b4"
    have f: "flat_plugin p" using 3 p by (simp add: clean_def flat_plugs_def)
    then have "flat (join_with '', '' (plugin_list p))"
      by (intro flat_join) (auto simp: plugin_list_def flat_plugin_def)
    with b4 f show "clean y V (fc_reply_pm msg ([TAB, TAB] @ join_with '', '' (plugin_list p))
        (fc_reply_pm msg ([TAB] @ pl_name p @ '' '' @ pl_version p) b4))"
      by (intro r) (simp_all add: TAB_def flat_plugin_def)
  qed (rule 3)
  let ?b5 = "if conf_has ''help.append'' ?b4 then fc_reply_pm msg ''Additional Info:'' ?b4 else ?b4"
  have 5: "clean y V ?b5" by (intro clean_if r 4) simp_all
  have "clean y V (fold (\<lambda>t b. fc_reply_pm msg ([TAB] @ h_replace_all (y_hol y) t ''$me'' (b_nick b)) b)
      (conf_get_vec ''help.append'' ?b5) ?b5)"
  proof (rule fold_all [where P = "clean y V"])
    fix t b6
    assume t: "t \<in> set (conf_get_vec ''help.append'' ?b5)" and b6: "clean y V b6"
    have "flat (b_nick b6)" "flat t" using b6 clean_conf(1) [OF 5 t] by (simp_all add: clean_def)
    then show "clean y V (fc_reply_pm msg ([TAB] @ h_replace_all (y_hol y) t ''$me'' (b_nick b6)) b6)"
      using b6 flat_lib(3) [OF clean_lib(1) [OF b6]] by (intro r) (simp_all add: TAB_def)
  qed (rule 5)
  then show ?thesis
    using assms(1) clean_pm_help [OF assms, of "[]"] by (auto simp: do_help_def Let_def split: sum.split)
qed

lemma clean_other:
  assumes "clean y V b" "flat cmd"
  shows "res_all (clean y V) (do_other y cmd msg b)"
proof -
  obtain e b' where "bot_execute (y_hol y) cmd msg b = (e, b')" by fastforce
  with clean_execute [OF assms this] show ?thesis by (simp add: do_other_def)
qed

lemma clean_privmsg:
  assumes "clean y V b" "flat_msg msg"
  shows "res_all (clean y V) (on_privmsg y now msg b)"
proof -
  have "flat (h_lower (y_hol y) (get_user_cmd (y_hol y) msg))"
    using flat_user_parts(1) [OF assms(2) clean_lib(2) [OF assms(1)]] flat_lib(2) [OF clean_lib(1) [OF assms(1)]] by blast
  with assms show ?thesis
    by (simp add: on_privmsg_def Let_def clean_die clean_uptime clean_join_part clean_restart_words clean_pset
        clean_help clean_other)
qed

subsection \<open>The main loop and the other threads\<close>

lemma clean_handle:
  assumes "clean y V b" "flat_msg msg"
  shows "res_all (clean y V) (handle y now msg b)"
proof -
  have "clean y V (emit y (Pong (get_trailing msg)) b)"
    using assms flat_params(2) [OF assms(2)] by (intro clean_emit flat_wire)
  with assms show ?thesis
    by (simp add: handle_def Let_def clean_welcome clean_namreply clean_nick_in_use clean_invite clean_on_join
        clean_on_nick clean_privmsg)
qed

lemma clean_monitor: "clean y V b \<Longrightarrow> res_all (clean y V) (monitor_event msg m b)"
  by (auto simp: monitor_event_def split: option.split)

lemma clean_dispatch: "clean y V b \<Longrightarrow> clean y V (dispatch_msgevent now msg b)"
  by (auto simp: dispatch_msgevent_def split_beta split: option.split)

lemma clean_process:
  assumes "clean y V b"
  shows "res_all (clean y V) (process y now line b)"
proof -
  let ?l = "h_trim (y_hol y) line"
  obtain r msg where p: "parsemsg (y_hol y) now ?l (clear_message new_message) = (r, msg)" by fastforce
  have "flat_msg (clear_message new_message)" by (simp add: flat_msg_def clear_message_def new_message_def)
  from flat_parse [OF p [unfolded parsemsg_def] this] have "flat_msg msg" .
  then show ?thesis
    using assms p by (auto simp: process_def Let_def intro!: res_all_and_then res_all_for_each [where P = "clean y V"]
        clean_handle clean_monitor clean_dispatch)
qed

lemma clean_main_turn: "clean y V b \<Longrightarrow> res_all (clean y V) (main_turn y now line b)"
  by (auto simp: main_turn_def split: option.split intro: clean_process)

lemma clean_exit: "clean y V b \<Longrightarrow> clean y V (bot_exit y ready b)"
proof -
  assume c: "clean y V b"
  have f: "fl_inv (fl_stop ready f) = fl_inv f" "fl_pend (fl_stop ready f) k = fl_pend f k" for f :: "irc_op flood" and k
    by (simp_all add: fl_stop_def fl_inv_def fl_pend_def Let_def)
  have "clean y V (b\<lparr>b_fc := fl_stop ready (b_fc b)\<rparr>)"
    using c by (simp add: clean_def flat_conf_def flat_plugs_def f)
  then show ?thesis unfolding bot_exit_def Let_def by (intro clean_emit flat_wire) (simp_all)
qed

lemma clean_main_thread:
  assumes "clean y V b" "main_thread y now line ready (pc, b) = (pc', b')"
  shows "clean y V b'"
  using assms clean_main_turn [OF assms(1), of now line] clean_exit [OF assms(1), of ready]
  by (cases pc) (auto simp: main_thread_def res_all_def split: option.splits prod.splits if_splits)

lemma clean_dial:
  assumes "clean y V b"
  shows "clean y V (snd (dial y attempt rt b))"
proof -
  have n: "clean y V (snd (first_nick y b))" if "clean y V b" for b
  proof -
    let ?b2 = "emit y (Nick (cf_nicks b ! b_nick_number b)) (b\<lparr>b_nick_number := b_nick_number b + 1\<rparr>)"
    have "clean y V ?b2" if "b_nick_number b < length (cf_nicks b)"
      using \<open>clean y V b\<close> that clean_conf(4) [OF \<open>clean y V b\<close> nth_mem] by (intro clean_emit flat_wire) simp_all
    from clean_user [OF this] that show ?thesis by (simp add: first_nick_def Let_def)
  qed
  have "clean y V (snd (dialled y attempt rt b))" if "clean y V b" for b
    unfolding dialled_def Let_def
    using that clean_conf(2) [of y V _ "[]" "''server.password''"]
    by (auto intro!: n clean_emit flat_wire simp del: wire.simps)
  with assms show ?thesis by (auto simp: dial_def bot_connect_def split: sum.split bool.split)
qed

lemma clean_verdict: "clean y V b \<Longrightarrow> clean y V (ping_verdict y tok b)"
  unfolding ping_verdict_def Let_def
  by (intro clean_if clean_emit flat_wire) (auto intro!: clean_conf(4) nth_mem)

lemma clean_pinger:
  assumes "clean y V b" "flat tok" "pinger y tok (pc, b) = (pc', b')"
  shows "clean y V b'"
proof -
  have "clean y V (emit y (Ping tok) b)" using assms by (intro clean_emit flat_wire)
  with assms clean_dial [OF assms(1)] clean_verdict [OF assms(1)] show ?thesis
    by (cases pc) (auto split: if_splits, metis snd_conv)
qed

subsection \<open>A bot that has come up\<close>

lemma clean_new_bot: "line_lib (y_hol y) \<Longrightarrow> flat_code (bs_plug y) \<Longrightarrow> clean y None (new_bot t)"
  by (simp add: clean_def new_bot_def flat_conf_def flat_plugs_def flat_store_def flat_vals_def fl_pend_def)

lemma clean_fc_same:
  assumes "clean y None b" "\<And>k. fl_pend fc k = fl_pend (b_fc b) k" "fl_inv fc = fl_inv (b_fc b)"
  shows "clean y None (b\<lparr>b_fc := fc\<rparr>)"
  using assms by (simp add: clean_def flat_conf_def flat_plugs_def)

lemma clean_init_flood: "clean y None b \<Longrightarrow> clean y None (init_flood b)"
  by (auto simp: init_flood_def Let_def set_time_between_checks_def fl_pend_def fl_inv_def intro!: clean_fc_same)

lemma clean_init_resources:
  assumes "clean y None b" "init_resources y now b = (e, r, b')"
  shows "clean y None b'"
proof -
  obtain e0 st where st: "open_store (bs_disk y (conf_getf (sys.truncate y) ''store.file'' ''store.txt'' b)) = (e0, st)"
    by fastforce
  have 1: "clean y None (b\<lparr>b_store := st\<rparr>)"
    using flat_open_store [of "bs_disk y (conf_getf (sys.truncate y) ''store.file'' ''store.txt'' b)"] st
    by (intro clean_set(2) assms(1)) simp
  have 2: "clean y None (load_plugins (bs_plug y) (y_hol y) now (b\<lparr>b_store := st\<rparr>))" by (rule clean_load_plugins [OF 1])
  have "clean y None (b1\<lparr>b_fc := fl_start (b_fc b1)\<rparr>)" if "clean y None b1" for b1
    by (rule clean_fc_same [OF that]) (simp_all add: fl_start_def fl_pend_def fl_inv_def)
  from clean_init_plugins [OF this [OF 2]] 1 2 assms st show ?thesis
    by (auto simp: init_resources_def Let_def split: option.splits if_splits)
qed

lemma clean_bot_init:
  assumes "clean y None b" "bot_init y now file b = Some (e, r, b')"
  shows "clean y None b'"
proof -
  let ?b1 = "init_flood b"
  have c: "clean y None ?b1" by (rule clean_init_flood [OF assms(1)])
  show ?thesis
  proof (cases "choose_config y file")
    case (Inl e1)
    with assms(2) c show ?thesis by (simp add: bot_init_def Let_def)
  next
    case (Inr f)
    then obtain e1 g b2 where r: "read_conf (sys.truncate y) f (?b1\<lparr>cf_file := f\<rparr>) = Some (e1, g, b2)"
      using assms(2) by (auto simp: bot_init_def Let_def split: option.splits)
    have 2: "clean y None b2" by (rule clean_read_conf [OF _ r]) (simp add: c)
    have "clean y None b3" if "init_resources y now (b2\<lparr>b_config_loaded := now\<rparr>) = (e, r, b3)" for b3
      by (rule clean_init_resources [OF _ that]) (simp add: 2)
    with 2 assms(2) Inr r show ?thesis by (auto simp: bot_init_def Let_def split: option.splits if_splits)
  qed
qed

text \<open>The store of a bot that has come up is in its invariant.\<close>

lemma init_store:
  assumes "bot_init y now file b = Some (e, True, b')"
  shows "\<exists>f. fst (open_store f) = None \<and> b_store b' = snd (open_store f)"
proof -
  let ?b1 = "init_flood b"
  obtain f e1 b2 where "init_resources y now (b2\<lparr>b_config_loaded := now\<rparr>) = (e, True, b')"
    using assms by (auto simp: bot_init_def Let_def split: sum.splits option.splits if_splits)
  then obtain b3 d where r: "init_resources y now b3 = (e, True, b')"
    "d = bs_disk y (conf_getf (sys.truncate y) ''store.file'' ''store.txt'' b3)" by blast
  obtain st where st: "open_store d = (None, st)"
    using r by (cases "open_store d") (auto simp: init_resources_def Let_def split: option.splits)
  let ?b2 = "load_plugins (bs_plug y) (y_hol y) now (b3\<lparr>b_store := st\<rparr>)"
  let ?b3 = "init_plugins (bs_plug y) True (?b2\<lparr>b_fc := fl_start (b_fc ?b2)\<rparr>)"
  have b': "b' = (if conf_get_bool ''irc.test.mode'' False ?b3 then ?b3\<lparr>b_connected := True\<rparr> else ?b3)"
    using r st by (auto simp: init_resources_def Let_def split: if_splits)
  have k: "plugs_frame a a' \<Longrightarrow> b_store a' = b_store a" for a a' :: bot
    by (cases a, cases a') (simp add: plugs_frame_def)
  have "b_store ?b2 = st" using k [OF load_plugins_frame] by simp
  then have "b_store ?b3 = st" using k [OF init_plugins_frame] by simp
  then show ?thesis using st b' by (intro exI [of _ d]) simp
qed

lemma clean_up:
  assumes "line_lib (y_hol y)" "flat_code (bs_plug y)" "bot_init y now file (new_bot t) = Some (e, True, b)"
  shows "clean y (Some {}) b"
proof -
  have "clean y None b" by (rule clean_bot_init [OF clean_new_bot [OF assms(1,2)] assms(3)])
  moreover obtain f where "fst (open_store f) = None" "b_store b = snd (open_store f)" using init_store [OF assms(3)] by blast
  ultimately show ?thesis using open_ok [of f] by (simp add: clean_def flat_store_def)
qed

text \<open>The machine with a console and plugins that hand over one line at a time.\<close>

fun flat_call :: "hol \<Rightarrow> bot_call \<Rightarrow> bool" where
  "flat_call h (Queue c op) = flat (wire h op)"
| "flat_call h (Send op) = flat (wire h op)"
| "flat_call h (Join_Officially c) = flat c"
| "flat_call h (Add_Channel c) = flat c"
| "flat_call h (On_Message cmd me) = True"
| "flat_call h (Watch m) = True"
| "flat_call h (Serve name sv) = True"

lemma clean_tables [simp]:
  "clean y V (b\<lparr>pg_monitors := x1\<rparr>) = clean y V b" "clean y V (b\<lparr>pg_services := x2\<rparr>) = clean y V b"
  by (simp_all add: clean_def flat_conf_def flat_plugs_def)

lemma clean_plug_call: "clean y V b \<Longrightarrow> flat_call (y_hol y) c \<Longrightarrow> clean y V (plug_call y c b)"
  by (cases c) (simp_all add: clean_fc_do clean_emit clean_join clean_add_channel add_msgevent_def add_monitor_def
    add_rpc_service_def)

inductive line_step :: "bot_sys \<Rightarrow> mach \<Rightarrow> mach \<Rightarrow> bool" for y where
  main: "main_thread y now line ready (mc_main m, mc_bot m) = (pc, b) \<Longrightarrow>
    line_step y m (m\<lparr>mc_main := pc, mc_bot := b\<rparr>)"
| ping: "flat tok \<Longrightarrow> pinger y tok (mc_png m, mc_bot m) = (pc, b) \<Longrightarrow> line_step y m (m\<lparr>mc_png := pc, mc_bot := b\<rparr>)"
| dispatch: "fl_dispatching (b_fc (mc_bot m)) \<Longrightarrow> line_step y m (m\<lparr>mc_bot := bot_turn y (mc_bot m)\<rparr>)"
| console: "flat line \<Longrightarrow> exec y now line True (mc_bot m) = Some (out, e, b) \<Longrightarrow> line_step y m (m\<lparr>mc_bot := b\<rparr>)"
| plugin: "flat_call (y_hol y) c \<Longrightarrow> line_step y m (m\<lparr>mc_bot := plug_call y c (mc_bot m)\<rparr>)"

lemma line_step_mach: "line_step y m m' \<Longrightarrow> mach_step y m m'"
  by (induction rule: line_step.induct) (blast intro: mach_step.intros)+

lemma clean_step: "line_step y m m' \<Longrightarrow> clean y V (mc_bot m) \<Longrightarrow> clean y V (mc_bot m')"
proof (induction rule: line_step.induct)
  case (console line now m out e b)
  with clean_exec [of y V "mc_bot m" line now True] show ?case by (auto simp: exec_all_def)
qed (auto intro: clean_main_thread clean_pinger clean_bot_turn clean_plug_call)

lemma clean_steps: "(line_step y)\<^sup>*\<^sup>* m m' \<Longrightarrow> clean y V (mc_bot m) \<Longrightarrow> clean y V (mc_bot m')"
  by (induction rule: rtranclp_induct) (auto intro: clean_step)

subsection \<open>One line for one command\<close>

lemma clean_reachable:
  assumes "line_lib (y_hol y)" "flat_code (bs_plug y)"
    and "bot_init y now file (new_bot t) = Some (e, True, b)" "(line_step y)\<^sup>*\<^sup>* (start b) m"
  shows "clean y (Some {}) (mc_bot m)"
  using clean_steps [OF assms(4)] clean_up [OF assms(1-3)] by (simp add: start_def)

text \<open>C2: Whatever the server and the users send, and whatever the configuration, the store and the environment
  hold: as long as the console is given one line at a time, the plugins hand over texts without a line
  feed and the names of plugins and their commands have none, no command the bot sends holds a line feed.  So on a new
  connection that does not fail, what arrives at the other end is one line for each command the bot has
  sent, and neither the server nor a user can make the bot send a command of theirs inside one of its own.\<close>

theorem one_line_each:
  assumes "line_lib (y_hol y)" "flat_code (bs_plug y)"
    and "bot_init y now file (new_bot t) = Some (e, True, b)" "(line_step y)\<^sup>*\<^sup>* (start b) m"
    and "remote_ready s" "rs_wire s = []"
  shows "\<exists>s'. remote_srv.send_ops (y_hol y) (b_sent (mc_bot m)) s = Some s' \<and>
    lines_of (str_stream (rs_wire s')) = map (\<lambda>op. wire (y_hol y) op @ [CR]) (b_sent (mc_bot m))"
  by (intro remote_lines assms(5,6)) (use clean_reachable [OF assms(1-4)] in \<open>simp add: clean_def flat_def\<close>)

theorem one_line_each_witness:
  "\<exists>m s'. (\<exists>b. (line_step (mach_sys (Inr True)))\<^sup>*\<^sup>* (start b) m) \<and> b_sent (mc_bot m) \<noteq> [] \<and>
     remote_srv.send_ops hol_ref (b_sent (mc_bot m))
       \<lparr>rs_open = True, rs_wire = [], rs_writes = (\<lambda>n. (1, False)), rs_calls = 0, rs_reads = []\<rparr> = Some s' \<and>
     length (lines_of (str_stream (rs_wire s'))) = length (b_sent (mc_bot m))"
proof -
  let ?y = "mach_sys (Inr True)"
  let ?s = "\<lparr>rs_open = True, rs_wire = [], rs_writes = (\<lambda>n. (1, False)), rs_calls = 0, rs_reads = []\<rparr>"
  obtain b where b: "bot_init ?y 0 ''/c'' (new_bot 0) = Some (None, True, b)" "\<not> conf_get_bool ''irc.test.mode'' False b"
    "0 < retries b"
    using ready_bot_init by blast
  have d: "\<not> b_done b" by (rule ready_invs(4) [OF b(1)])
  obtain p1 b1 where 1: "dial ?y 0 (retries b) b = (p1, b1)" by fastforce
  have "b_sent b1 \<noteq> []"
    using 1 d b(3) by (auto simp: dial_def bot_connect_def mach_sys_def dialled_def first_nick_def Let_def emit_def send_op_def
      split: if_splits)
  let ?m = "\<lambda>p b. \<lparr>mc_main = M_await, mc_png = p, mc_bot = b\<rparr>"
  have "line_step ?y (?m P_top b) (?m (P_dial 0 (retries b)) b)"
    using line_step.ping [of "[]" ?y "?m P_top b" "P_dial 0 (retries b)" b] d by simp
  moreover have "line_step ?y (?m (P_dial 0 (retries b)) b) (?m p1 b1)"
    using line_step.ping [of "[]" ?y "?m (P_dial 0 (retries b)) b" p1 b1] 1 by simp
  moreover have "start b = ?m P_top b" using b(2) by (simp add: start_def)
  ultimately have r: "(line_step ?y)\<^sup>*\<^sup>* (start b) (?m p1 b1)" by (simp add: converse_rtranclp_into_rtranclp)
  have l: "line_lib (y_hol ?y)" "flat_code (bs_plug ?y)" "y_hol ?y = hol_ref"
    by (simp_all add: mach_sys_def demo_sys_def hol_ref_line_lib flat_code_def)
  have "remote_ready ?s" by (simp add: remote_ready_def)
  from one_line_each [OF l(1,2) b(1) r this] obtain s' where
    "remote_srv.send_ops hol_ref (b_sent b1) ?s = Some s'"
    "lines_of (str_stream (rs_wire s')) = map (\<lambda>op. wire hol_ref op @ [CR]) (b_sent b1)"
    by (auto simp: l(3))
  with r \<open>b_sent b1 \<noteq> []\<close> show ?thesis
    by (intro exI [of _ "?m p1 b1"] exI [of _ s']) (auto)
qed

text \<open>The turns of the dispatcher at the bot and at its controller.\<close>

lemma bot_turns:
  "fl.run (replicate n Turn) (b_fc b) = (outs, fc) \<Longrightarrow>
    (bot_turn y ^^ n) b = b\<lparr>b_fc := fc, b_sent := b_sent b @ map snd outs\<rparr>"
proof (induction n arbitrary: b outs)
  case (Suc n)
  obtain out fc1 where t: "turn (b_fc b) = (out, fc1)" by fastforce
  obtain outs1 where r: "fl.run (replicate n Turn) fc1 = (outs1, fc)"
    using Suc.prems t by (auto split: prod.splits)
  have b1: "bot_turn y b = b\<lparr>b_fc := fc1, b_sent := b_sent b @ (case out of None \<Rightarrow> [] | Some p \<Rightarrow> [snd p])\<rparr>"
    using t by (auto simp: bot_turn_def Let_def emit_def send_op_def split: option.split)
  have o: "outs = (case out of None \<Rightarrow> outs1 | Some p \<Rightarrow> p # outs1)" using Suc.prems t r by simp
  have "fl.run (replicate n Turn) (b_fc (bot_turn y b)) = (outs1, fc)" using r b1 by simp
  from Suc.IH [OF this] show ?case
    by (simp add: funpow_Suc_right b1 o del: funpow.simps split: option.split)
qed simp

text \<open>C5: From every state the bot can reach with a console and plugins that hand over texts without a line feed, as
  plugins and their commands have names without one: once the dispatcher has made as many turns as there are queued
  calls, every queued reply is on a new connection that does not fail, each as one whole line, behind all that
  was sent before, and those of one channel in the order in which they were queued.\<close>

theorem replies_arrive:
  assumes "line_lib (y_hol y)" "flat_code (bs_plug y)"
    and "bot_init y now file (new_bot t) = Some (e, True, b)" "(line_step y)\<^sup>*\<^sup>* (start b) m"
    and "fl_size (b_fc (mc_bot m)) \<le> n" "remote_ready s" "rs_wire s = []"
  shows "\<exists>outs s'. b_sent ((bot_turn y ^^ n) (mc_bot m)) = b_sent (mc_bot m) @ map snd outs \<and>
    (\<forall>c. map snd (filter (\<lambda>p. fst p = c) outs) = fl_pend (b_fc (mc_bot m)) c) \<and>
    remote_srv.send_ops (y_hol y) (b_sent (mc_bot m) @ map snd outs) s = Some s' \<and>
    lines_of (str_stream (rs_wire s')) = map (\<lambda>op. wire (y_hol y) op @ [CR]) (b_sent (mc_bot m) @ map snd outs)"
proof -
  have c: "clean y (Some {}) (mc_bot m)" by (rule clean_reachable [OF assms(1-4)])
  obtain outs fc where r: "fl.run (replicate n Turn) (b_fc (mc_bot m)) = (outs, fc)" by fastforce
  let ?b = "(bot_turn y ^^ n) (mc_bot m)"
  have b: "?b = (mc_bot m)\<lparr>b_fc := fc, b_sent := b_sent (mc_bot m) @ map snd outs\<rparr>" by (rule bot_turns [OF r])
  have i: "fl_inv (b_fc (mc_bot m))" using c by (simp add: clean_def)
  have "fl.sent_to k (replicate n Turn) = []" for k :: string by (induction n) simp_all
  then have q: "map snd (filter (\<lambda>p. fst p = k) outs) = fl_pend (b_fc (mc_bot m)) k" for k
    using fl.run_fifo [OF i r, of k] run_turns_empty [OF i assms(5) r, of k] by simp
  have "clean y (Some {}) ?b" using c by (induction n) (simp_all add: clean_bot_turn)
  then obtain s' where "remote_srv.send_ops (y_hol y) (b_sent ?b) s = Some s'"
    "lines_of (str_stream (rs_wire s')) = map (\<lambda>op. wire (y_hol y) op @ [CR]) (b_sent ?b)"
    using remote_lines [OF assms(6,7), of "b_sent ?b" "y_hol y"] by (auto simp: clean_def flat_def)
  with b q show ?thesis by (intro exI [of _ outs] exI [of _ s']) simp
qed

lemma demo_say:
  "exec (mach_sys r) 0 ''/say #c hi'' True b = Some (''OK'', None, fc_say ''#c'' ''hi'' b)"
proof -
  have l: "read_word [] (str_stream ''/say #c hi'') = (''/say'', str_stream '' #c hi'')" by code_simp
  have "h_lower hol_ref ''/say'' = ''/say''" "h_trim hol_ref ''#c'' = ''#c''"
    "skip_ws (str_stream '' #c hi'') = str_stream ''#c hi''"
    "read_word [] (str_stream ''#c hi'') = (''#c'', str_stream '' hi'')"
    "skip_ws (str_stream '' hi'') = str_stream ''hi''" "fst (getline LF ''/say #c hi'' (str_stream ''hi'')) = ''hi''"
    by code_simp+
  then show ?thesis
    by (simp add: exec_def l exec_say_def exec_ok_def out_if_def mach_sys_def demo_sys_def split_beta)
qed

theorem replies_arrive_witness:
  "\<exists>(m :: mach) ops s'. b_sent ((bot_turn (mach_sys (Inr True)) ^^ 1) (mc_bot m)) = ops \<and>
     remote_srv.send_ops hol_ref ops
       \<lparr>rs_open = True, rs_wire = [], rs_writes = (\<lambda>n. (1, False)), rs_calls = 0, rs_reads = []\<rparr> = Some s' \<and>
     ''PRIVMSG #c :hi'' @ [CR] \<in> set (lines_of (str_stream (rs_wire s')))"
proof -
  let ?y = "mach_sys (Inr True)"
  let ?s = "\<lparr>rs_open = True, rs_wire = [], rs_writes = (\<lambda>n. (1, False)), rs_calls = 0, rs_reads = []\<rparr>"
  obtain b where b: "bot_init ?y 0 ''/c'' (new_bot 0) = Some (None, True, b)" using ready_bot_init by blast
  let ?b = "fc_say ''#c'' ''hi'' b"
  let ?m = "(start b)\<lparr>mc_bot := ?b\<rparr>"
  have r: "(line_step ?y)\<^sup>*\<^sup>* (start b) ?m"
    using line_step.console [of "''/say #c hi''" ?y 0 "start b" "''OK''" None ?b] demo_say [of "Inr True" b]
    by (auto simp: start_def)
  have f: "b_fc b = fl_start new_flood" "b_sent b = []"
    using bot_init_ready [OF b] by (simp_all add: init_flood_def new_bot_def conf_has_def)
  have n: "fl_keys (fl_start (new_flood :: irc_op flood)) = []" "fl_pend (fl_start new_flood) c = ([] :: irc_op list)" for c
    by (simp_all add: fl_start_def fl_pend_def new_flood_def cm_at_def)
  have q: "fl_keys (b_fc ?b) = [''#c'']" "fl_pend (b_fc ?b) ''#c'' = [Say ''#c'' ''hi'']"
    using n by (simp_all add: fc_say_def fc_do_def fl_pend_send f(1)) (simp add: fl_send_def)
  have z: "fl_size (b_fc (mc_bot ?m)) \<le> 1" using q by (simp add: fl_size_def)
  have l: "line_lib (y_hol ?y)" "flat_code (bs_plug ?y)" "y_hol ?y = hol_ref"
    by (simp_all add: mach_sys_def demo_sys_def hol_ref_line_lib flat_code_def)
  have "remote_ready ?s" by (simp add: remote_ready_def)
  from replies_arrive [OF l(1,2) b r z this] obtain outs s' where o:
    "b_sent ((bot_turn ?y ^^ 1) (mc_bot ?m)) = map snd outs"
    "map snd (filter (\<lambda>p. fst p = ''#c'') outs) = [Say ''#c'' ''hi'']"
    "remote_srv.send_ops hol_ref (map snd outs) ?s = Some s'"
    "lines_of (str_stream (rs_wire s')) = map (\<lambda>op. wire hol_ref op @ [CR]) (map snd outs)"
    using f q by (auto simp: l(3) fc_say_def fc_do_def)
  have "Say ''#c'' ''hi'' \<in> set (map snd (filter (\<lambda>p. fst p = ''#c'') outs))" by (simp only: o(2)) simp
  then have "Say ''#c'' ''hi'' \<in> set (map snd outs)" by auto
  then have "wire hol_ref (Say ''#c'' ''hi'') @ [CR] \<in> set (lines_of (str_stream (rs_wire s')))"
    unfolding o(4) set_map [of "\<lambda>op. wire hol_ref op @ [CR]"] by (rule imageI)
  then have "''PRIVMSG #c :hi'' @ [CR] \<in> set (lines_of (str_stream (rs_wire s')))"
    by (simp add: say_line_def PRIVMSG_def)
  with o(1,3) show ?thesis by (intro exI [of _ ?m] exI [of _ "map snd outs"] exI [of _ s'] conjI)
qed

text \<open>Not so a plugin that replies with a text of two lines, as those that quote a web page may: the second line is
  a line of its own on the connection, that is, a command.\<close>

theorem plugin_of_two_lines:
  assumes "flat c" "flat t" "flat w"
  shows "(\<exists>b. mach_step y m (m\<lparr>mc_bot := b\<rparr>) \<and>
      fl_pend (b_fc b) c = fl_pend (b_fc (mc_bot m)) c @ [Say c (t @ LF # w)]) \<and>
    lines_of (str_stream (remote_frame (wire (y_hol y) (Say c (t @ LF # w))))) =
      [PRIVMSG @ '' '' @ c @ '' :'' @ t, w @ [CR]]"
proof
  show "\<exists>b. mach_step y m (m\<lparr>mc_bot := b\<rparr>) \<and>
      fl_pend (b_fc b) c = fl_pend (b_fc (mc_bot m)) c @ [Say c (t @ LF # w)]"
    using mach_step.plugin [of y m "Queue c (Say c (t @ LF # w))"]
    by (intro exI [of _ "fc_do c (Say c (t @ LF # w)) (mc_bot m)"]) (simp add: fc_do_def fl_pend_send)
  have "lines_of (str_stream (lines_text [PRIVMSG @ '' '' @ c @ '' :'' @ t, w @ [CR]])) =
      [PRIVMSG @ '' '' @ c @ '' :'' @ t, w @ [CR]]"
    by (rule lines_of_text) (use assms in \<open>auto simp: flat_def PRIVMSG_def char_consts\<close>)
  moreover have "remote_frame (wire (y_hol y) (Say c (t @ LF # w))) = lines_text [PRIVMSG @ '' '' @ c @ '' :'' @ t, w @ [CR]]"
    by (simp add: remote_frame_def say_line_def CRLF_def)
  ultimately show "lines_of (str_stream (remote_frame (wire (y_hol y) (Say c (t @ LF # w))))) =
      [PRIVMSG @ '' '' @ c @ '' :'' @ t, w @ [CR]]" by simp
qed

text \<open>Not so a console that gets a line feed inside a line, as the commands of the remote server plugin
  may, which end with NUL: \<open>/say\<close>, a line feed and one word says the whole line to that word, and the
  word is a line of its own on the connection.\<close>

theorem say_of_two_lines:
  assumes "line_lib (y_hol y)" "plain_word w"
  shows "\<exists>b'. exec y now (''/say'' @ LF # w) True b = Some (''OK'', None, b') \<and>
    fl_pend (b_fc b') w = fl_pend (b_fc b) w @ [Say w (''/say'' @ LF # w)] \<and>
    lines_of (str_stream (remote_frame (wire (y_hol y) (Say w (''/say'' @ LF # w))))) =
      [PRIVMSG @ '' '' @ w @ '' :/say'', w @ [CR]]"
proof -
  let ?l = "''/say'' @ LF # w"
  have ws: "w \<noteq> []" "\<forall>x\<in>set w. \<not> isspace x" using assms(2) by (auto simp: plain_word_def list_all_iff)
  then have f: "flat w" by (auto simp: flat_def)
  have sp: "\<forall>x\<in>set ''/say''. \<not> isspace x" by (simp add: isspace_def char_consts)
  have 1: "read_word [] (str_stream ?l) = (''/say'', str_stream (LF # w))"
    using read_word_found [of "str_stream ?l" "[]" "''/say''" LF w "[]"] sp by simp
  have 2: "skip_ws (str_stream (LF # w)) = str_stream w"
    using ws by (cases w) (simp_all add: skip_ws_def)
  have 3: "h_lower (y_hol y) ''/say'' = ''/say''"
    using assms(1) by (simp add: line_lib_def lowers_def tolower_def code_def)
  have 4: "read_word [] (str_stream w) = (w, hit_eof (str_stream w))"
    using read_word_last [of "str_stream w" "[]" w "[]"] ws by simp
  have 5: "h_trim (y_hol y) w = w"
    using trim_trimmed [of "y_hol y" w] assms(1) ws by (simp add: trimmed_def line_lib_def)
  have 6: "getline LF ?l (skip_ws (hit_eof (str_stream w))) = (?l, set_fail (set_fail (hit_eof (str_stream w))))"
    by (simp add: skip_ws_bad getline_bad)
  have e: "exec y now ?l True b = Some (''OK'', None, fc_say w ?l b)"
    using ws by (simp add: exec_def 1 [simplified] 2 3 4 5 6 [simplified] exec_say_def exec_ok_def out_if_def Let_def)
  have "lines_of (str_stream (lines_text [PRIVMSG @ '' '' @ w @ '' :/say'', w @ [CR]])) =
      [PRIVMSG @ '' '' @ w @ '' :/say'', w @ [CR]]"
    by (rule lines_of_text) (use f in \<open>auto simp: flat_def PRIVMSG_def char_consts\<close>)
  moreover have "remote_frame (wire (y_hol y) (Say w ?l)) = lines_text [PRIVMSG @ '' '' @ w @ '' :/say'', w @ [CR]]"
    by (simp add: remote_frame_def say_line_def CRLF_def)
  ultimately show ?thesis
    using e by (simp add: fc_say_def fc_do_def fl_pend_send)
qed

theorem say_of_two_lines_witness:
  "\<exists>b'. exec demo_sys 0 (''/say'' @ LF # ''QUIT'') True (demo_bot []) = Some (''OK'', None, b') \<and>
     Say ''QUIT'' (''/say'' @ LF # ''QUIT'') \<in> set (fl_pend (b_fc b') ''QUIT'')"
  using say_of_two_lines [of demo_sys "''QUIT''" 0 "demo_bot []"] hol_ref_line_lib
  by (auto simp: demo_sys_def plain_word_def isspace_def char_consts)

end
