(* ===== verification/Quiz_Collect.thy ===== *)
theory Quiz_Collect
  imports Quiz_Rip
begin

text \<open>
  \<open>quiz-rip.cpp\<close>: a program that collects the quiz by itself.  Its functions are those of the plugin
  with another \<open>User-Agent\<close>, so the loops of \<open>Quiz_Rip\<close> are used with its own way to fetch a page; what
  the two collect is the same from a server that does not look at that header.
\<close>

definition VERSION :: string where "VERSION = ''0.1''"

definition request :: "cookie_jar \<Rightarrow> string \<Rightarrow> string \<Rightarrow> string" where
  "request cookies host path =
     ''GET /'' @ path @ '' HTTP/1.1'' @ CRLF @ ''Host: '' @ host @ CRLF @
     ''User-Agent: Skivvy: '' @ VERSION @ CRLF @ ''Accept: text/html'' @ CRLF @
     get_cookie_header cookies host @ CRLF @ CRLF"

definition get_http ::
  "hol \<Rightarrow> (tm6 \<Rightarrow> int) \<Rightarrow> net \<Rightarrow> string \<Rightarrow> string \<Rightarrow> web \<Rightarrow> bool \<times> string \<times> web" where
  "get_http h mktime serve url html w =
     (case url_parts url of (prot, host, path) \<Rightarrow>
        if prot \<noteq> ''http'' then (False, html, w)
        else case host_port host of
          None \<Rightarrow> (False, html, w)
        | Some (host, port) \<Rightarrow>
            (case http_exchange h mktime
                    (serve (wb_calls w) host (ucast port) (request (wb_cookies w) host path)) (wb_cookies w) html of
               (r, html1, cookies1) \<Rightarrow> (r, html1, w\<lparr>wb_cookies := cookies1, wb_calls := Suc (wb_calls w)\<rparr>)))"

text \<open>The text of its \<open>get_onlinequizarea_quiz\<close> is the plugin's, line for line.  The program writes what it
  has collected to a file and ignores the result.\<close>

definition collect_quiz :: "hol \<Rightarrow> (tm6 \<Rightarrow> int) \<Rightarrow> net \<Rightarrow> web \<Rightarrow> (string \<times> web) option" where
  "collect_quiz h mktime serve w = rip_quiz h (get_http h mktime serve) w"

definition rip_main :: "hol \<Rightarrow> (tm6 \<Rightarrow> int) \<Rightarrow> net \<Rightarrow> (string \<times> web) option" where
  "rip_main h mktime serve = collect_quiz h mktime serve new_web"

text \<open>The header the two requests differ in.\<close>

definition agents_agree :: "net \<Rightarrow> bool" where
  "agents_agree serve = (\<forall>n host port cookies path.
     serve n host port (request cookies host path) = serve n host port (http_request cookies host path))"

text \<open>From a server that answers both agents alike, the program collects exactly what the plugin does, or
  does not return either.\<close>

theorem collector_same:
  assumes "agents_agree serve"
  shows "rip_main h mktime serve = get_onlinequizarea_quiz h mktime serve new_web"
proof -
  have "get_http h mktime serve = Plugin_Web.get_http h mktime serve"
    using assms by (intro ext) (simp add: get_http_def Plugin_Web.get_http_def agents_agree_def split: prod.split option.split)
  then show ?thesis by (simp add: rip_main_def collect_quiz_def get_onlinequizarea_quiz_def)
qed

theorem collector_same_witness:
  "rip_main hol_ref (\<lambda>_. 0) (\<lambda>_ _ _ _. Some demo_page) =
     get_onlinequizarea_quiz hol_ref (\<lambda>_. 0) (\<lambda>_ _ _ _. Some demo_page) new_web"
  by (rule collector_same) (simp add: agents_agree_def)

end
