(* ===== verification/Test_Programs.thy ===== *)
theory Test_Programs
  imports Http Prop_Store
begin

text \<open>
  The test programs that have code of their own: the wild card matcher of \<open>test-wild.cpp\<close> with its table of
  cases, the reader of chunked files of \<open>test-net.cpp\<close>, and the run through a transaction of
  \<open>test-props.cpp\<close>.  Reading through the end iterator of a string or of a map is \<open>None\<close>.
\<close>

subsection \<open>\<open>test-wild.cpp\<close>\<close>

fun wildmatch :: "string \<Rightarrow> string \<Rightarrow> bool option" and wild_any :: "string \<Rightarrow> string \<Rightarrow> bool option" where
  "wildmatch [] s = Some (s = [])"
| "wildmatch (m # ms) s =
     (if m = CHR ''*'' then wild_any ms s
      else case s of [] \<Rightarrow> None | c # cs \<Rightarrow> if m \<noteq> c then Some False else wildmatch ms cs)"
| "wild_any ms [] = Some False"
| "wild_any ms (c # cs) =
     (case wildmatch ms (c # cs) of None \<Rightarrow> None | Some r \<Rightarrow> if r then Some True else wild_any ms cs)"

record tset =
  ts_match :: string
  ts_data :: string
  ts_ans :: bool

definition wild_tests :: "tset list" where
  "wild_tests =
     [\<lparr>ts_match = ''*!*AIM|MEGA@*'', ts_data = ''A|I|M!~AIM|MEGA@pool-74-102-184-218.nwrknj.east.verizon.net'', ts_ans = True\<rparr>,
      \<lparr>ts_match = ''wi*b'', ts_data = ''wobble'', ts_ans = False\<rparr>,
      \<lparr>ts_match = ''wi*b'', ts_data = ''wib'', ts_ans = True\<rparr>,
      \<lparr>ts_match = ''wi*b'', ts_data = ''winob'', ts_ans = True\<rparr>,
      \<lparr>ts_match = ''wi*b'', ts_data = ''wibbbb'', ts_ans = True\<rparr>,
      \<lparr>ts_match = ''wi*b'', ts_data = ''widble'', ts_ans = False\<rparr>]"

definition fit_to_width :: "string \<Rightarrow> nat \<Rightarrow> char \<Rightarrow> char \<Rightarrow> string" where
  "fit_to_width s w align fill =
     (if length s > w
      then (let diff = length s - w; liff = diff div 2
            in if align = CHR ''L'' then substr s 0 w
               else if align = CHR ''R'' then substr_from s diff
               else substr s liff (diff - liff))
      else (let diff = w - length s; liff = diff div 2; riff = diff - liff
            in if align = CHR ''L'' then s @ replicate diff fill
               else if align = CHR ''R'' then replicate diff fill @ s
               else replicate liff fill @ s @ replicate riff fill))"

definition show_bool :: "bool \<Rightarrow> string" where
  "show_bool b = (if b then ''true'' else ''false'')"

fun wild_main :: "tset list \<Rightarrow> string option" where
  "wild_main [] = Some []"
| "wild_main (p # ps) =
     (case wildmatch (ts_match p) (ts_data p) of
        None \<Rightarrow> None
      | Some r \<Rightarrow>
          map_option (\<lambda>out. ''m: '' @ ts_match p @ [LF] @ ''d: '' @ ts_data p @ [LF] @ ''a: '' @ show_bool (ts_ans p) @ [LF] @
            ''r: '' @ show_bool r @ [LF, LF] @ out) (wild_main ps))"

text \<open>What a mask means: a star stands for any string.\<close>

inductive glob :: "string \<Rightarrow> string \<Rightarrow> bool" where
  glob_end: "glob [] []"
| glob_star: "glob m t \<Longrightarrow> glob (CHR ''*'' # m) (u @ t)"
| glob_char: "c \<noteq> CHR ''*'' \<Longrightarrow> glob m s \<Longrightarrow> glob (c # m) (c # s)"

inductive_simps glob_simps: "glob [] s" "glob (c # m) s"

lemma glob_star_cases: "glob (CHR ''*'' # m) s \<longleftrightarrow> (\<exists>u t. s = u @ t \<and> glob m t)"
  by (auto simp: glob_simps)

lemma glob_star_step: "glob (CHR ''*'' # m) (c # s) \<longleftrightarrow> glob m (c # s) \<or> glob (CHR ''*'' # m) s"
proof -
  have "(\<exists>u t. c # s = u @ t \<and> glob m t) \<longleftrightarrow> glob m (c # s) \<or> (\<exists>u t. s = u @ t \<and> glob m t)"
    by (metis append_Cons append_Nil append_eq_Cons_conv)
  then show ?thesis by (simp add: glob_star_cases)
qed

definition open_mask :: "string \<Rightarrow> bool" where
  "open_mask m = (m \<noteq> [] \<and> last m = CHR ''*'')"

lemma open_mask_Cons: "open_mask (c # m) = (if m = [] then c = CHR ''*'' else open_mask m)"
  by (simp add: open_mask_def)

lemma glob_Nil: "glob m [] \<Longrightarrow> m = [] \<or> open_mask m"
  by (induction m "[] :: string" rule: glob.induct) (auto simp: open_mask_Cons)

lemma glob_star_drop: "glob (CHR ''*'' # m) s \<longleftrightarrow> (\<exists>k. glob m (drop k s))"
  unfolding glob_star_cases by (metis append_eq_conv_conj append_take_drop_id)

text \<open>A run off the end means that no rest of the string matches either, so it hides no match.\<close>

lemma wild_glob:
  "(wildmatch m s = Some True \<longleftrightarrow> glob m s \<and> \<not> open_mask m) \<and>
    (wildmatch m s = None \<longrightarrow> \<not> open_mask m \<longrightarrow> (\<forall>k. \<not> glob m (drop k s)))"
  "(wild_any m s = Some True \<longleftrightarrow> glob (CHR ''*'' # m) s \<and> \<not> open_mask (CHR ''*'' # m)) \<and>
    (wild_any m s = None \<longrightarrow> \<not> open_mask (CHR ''*'' # m) \<longrightarrow> (\<forall>k. \<not> glob (CHR ''*'' # m) (drop k s)))"
proof (induction m s and m s rule: wildmatch_wild_any.induct)
  case (1 s)
  show ?case by (auto simp: open_mask_def glob_simps)
next
  case (2 m ms s)
  show ?case
  proof (cases "m = CHR ''*''")
    case True
    with 2(1) show ?thesis by simp
  next
    case False
    show ?thesis
    proof (cases s)
      case Nil
      with False show ?thesis by (simp add: glob_simps)
    next
      case (Cons c cs)
      have g: "glob (m # ms) r \<longleftrightarrow> (\<exists>r'. r = m # r' \<and> glob ms r')" for r using False by (auto simp: glob_simps)
      have "\<not> glob (m # ms) (drop k s)" if "\<forall>k. \<not> glob ms (drop k cs)" for k
      proof
        assume "glob (m # ms) (drop k s)"
        then obtain r' where "drop k s = m # r'" "glob ms r'" unfolding g by blast
        then have "glob ms (drop (Suc k) s)" by (simp add: drop_Suc flip: tl_drop)
        with that Cons show False by simp
      qed
      with 2(2) [OF False Cons] False Cons show ?thesis by (auto simp: g open_mask_Cons open_mask_def [of "[]"])
    qed
  qed
next
  case (3 ms)
  show ?case using glob_Nil [of ms] by (auto simp: glob_star_cases open_mask_Cons)
next
  case (4 ms c cs)
  show ?case
  proof (cases "wildmatch ms (c # cs)")
    case None
    with 4(1) show ?thesis by (auto simp: glob_star_drop open_mask_Cons)
  next
    case (Some r)
    show ?thesis
    proof (cases r)
      case True
      with Some 4(1) have "glob ms (c # cs)" "\<not> open_mask ms" by simp_all
      moreover from this have "ms \<noteq> []" by (auto simp: glob_simps)
      ultimately show ?thesis using Some True by (simp add: glob_star_step open_mask_Cons)
    next
      case False
      have n: "\<not> (glob ms (c # cs) \<and> \<not> open_mask ms)" using 4(1) Some False by simp
      have d: "\<not> glob (CHR ''*'' # ms) (drop k (c # cs))"
        if "\<forall>k. \<not> glob (CHR ''*'' # ms) (drop k cs)" "\<not> open_mask (CHR ''*'' # ms)" for k
        using that that(1) [rule_format, of 0] n by (cases k) (auto simp: glob_star_step open_mask_Cons split: if_splits)
      from 4(2) [OF Some] False d n Some show ?thesis
        by (auto simp: glob_star_step open_mask_Cons split: if_splits)
    qed
  qed
qed

text \<open>The matcher is the usual one, except that a mask that ends in a star matches nothing: the loop over
  the rest of the string stops before its end.  Reading past the end of the string never hides a match.\<close>

theorem wildmatch_exact: "wildmatch m s = Some True \<longleftrightarrow> glob m s \<and> \<not> open_mask m"
  using wild_glob(1) by blast

text \<open>So the first case of the program's table, which expects a match, fails.\<close>

theorem first_case_fails:
  "wildmatch (ts_match (hd wild_tests)) (ts_data (hd wild_tests)) = Some False \<and> ts_ans (hd wild_tests) \<and>
    list_all (\<lambda>t. wildmatch (ts_match t) (ts_data t) = Some (ts_ans t)) (tl wild_tests)"
  by code_simp

text \<open>A text fitted to a width has that width, unless it is too long and centred: then the second argument
  of \<open>substr\<close>, a length, is the number of characters to cut off on the right.\<close>

theorem fit_width:
  "length (fit_to_width s w align fill) =
    (if w < length s \<and> align \<noteq> CHR ''L'' \<and> align \<noteq> CHR ''R''
     then (length s - w) - (length s - w) div 2 else w)"
proof -
  have "d - d div 2 \<le> n - d div 2" if "d \<le> n" for d n :: nat using that by simp
  from this [of "length s - w" "length s"] show ?thesis
    by (auto simp: fit_to_width_def Let_def substr_def substr_from_def)
qed

subsection \<open>\<open>test-net.cpp\<close>\<close>

definition net_files :: "string list" where
  "net_files = map (\<lambda>n. ''test-chunk-data-0'' @ show_nat n @ ''.txt'') [1..<6]"

text \<open>
  The output for one file, where \<open>file\<close> is what it holds, if it is there.  The entry that \<open>find\<close> returns is
  printed before it is compared with the end.
\<close>

definition net_file :: "hol \<Rightarrow> string \<Rightarrow> string option \<Rightarrow> string option" where
  "net_file h name file =
     (let ifs = (case file of None \<Rightarrow> set_fail (str_stream []) | Some t \<Rightarrow> str_stream t);
          out = ''file: '' @ name @ [LF] @ ''open: '' @ (if ok ifs then ''1'' else ''0'') @ [LF]
      in case read_http_headers h ifs [] of (headers, ifs1) \<Rightarrow>
           if \<not> ok ifs1 then Some out
           else let out1 = out @ concat (map (\<lambda>p. ''header: '' @ fst p @ '' = '' @ snd p @ [LF]) headers)
                in case List.find (\<lambda>p. fst p = ''transfer-encoding'') headers of
                     None \<Rightarrow> None
                   | Some p \<Rightarrow>
                       let out2 = out1 @ ''found: '' @ fst p @ '' = '' @ snd p @ [LF]
                       in if snd p = ''chunked''
                          then (case read_chunked_encoding ifs1 of (data, ifs2) \<Rightarrow>
                                  Some (if ok ifs2 then out2 @ ''DATA'' @ [LF] @ data @ [LF] else out2))
                          else Some out2)"

fun net_main :: "hol \<Rightarrow> (string \<Rightarrow> string option) \<Rightarrow> string list \<Rightarrow> string option" where
  "net_main h disk [] = Some []"
| "net_main h disk (f # fs) =
     (case net_file h f (disk f) of None \<Rightarrow> None | Some out \<Rightarrow> map_option (\<lambda>o2. out @ o2) (net_main h disk fs))"

text \<open>A file whose headers do not name a transfer encoding makes the program read through the end of the
  map; any other it reads to its end, and a missing file only prints its name.\<close>

theorem net_file_none:
  "net_file h name file = None \<longleftrightarrow>
    (\<exists>t hs is. file = Some t \<and> read_http_headers h (str_stream t) [] = (hs, is) \<and> ok is \<and>
      ''transfer-encoding'' \<notin> fst ` set hs)"
proof -
  have "getline LF [] (set_fail (str_stream [])) = ([], set_fail (set_fail (str_stream [])))" by (simp add: getline_bad)
  then have b: "read_http_headers h (set_fail (str_stream [])) [] = ([], set_fail (set_fail (str_stream [])))"
    by (simp add: read_http_headers_def)
  have f: "List.find (\<lambda>p. fst p = k) hs = None \<longleftrightarrow> k \<notin> fst ` set hs" for k and hs :: header_map
    by (force simp: find_None_iff image_iff)
  show ?thesis
  proof (cases "file")
    case None
    then show ?thesis by (simp add: net_file_def b)
  next
    case (Some t)
    obtain hs i where r: "read_http_headers h (str_stream t) [] = (hs, i)" by fastforce
    show ?thesis
      using f [of "''transfer-encoding''" hs] by (auto simp: net_file_def Some r Let_def split: option.split prod.split)
  qed
qed

subsection \<open>\<open>test-props.cpp\<close>\<close>

text \<open>The sets and the gets of the one transaction; at the end of \<open>main\<close> it commits.\<close>

definition props_sets :: "(string \<times> string) list" where
  "props_sets = [(''i1'', ''4''), (''i2'', ''7''), (''i3'', ''9''), (''i4'', ''2''), (''i5'', ''5''), (''i6'', ''8'')]"

definition props_main :: "string list \<times> props" where
  "props_main =
     (let p = fold (\<lambda>(k, v). pr_set k v) props_sets new_props
      in (map (\<lambda>k. pr_get k [] p) (map fst props_sets), pr_commit p))"

text \<open>The transaction sees what it has set, and the store has it after the transaction.\<close>

theorem props_main_result:
  "props_main = (map snd props_sets, \<lparr>pr_m = props_sets, pr_t = []\<rparr>)"
  by code_simp

end
