(* ===== verification/Spec2Isabelle.thy ===== *)
theory Spec2Isabelle
  imports Codec Message Stores Irc_Server Flood Text_Utils Bot_Props Plugins Bot Bot_Loop Bot_Facts Bot_Safe Bot_Machine Html Bot_Db Prop_Store Timers Server_Pool Skivlet Calendar Delays Irc_Colors Rpc File_Store Plugin_Web Trivial Quiz_Rip Diction Oa_Stats Oa_Top Oa_Text Socket_Stream Remote_Console Smtp Irc_Numerics Irc_Client Ansi Compile Tools Nc_Client Rpc_Copy Ssl_Stream Flat_Text Bot_Lines Quiz_Collect Test_Programs
begin

text \<open>
  Skivvy, an IRC bot that is extended by plugins (\<open>src/src\<close>, \<open>src/src/include/skivvy\<close>), modelled function
  by function.  A bot connects to a server (\<open>IrcServer\<close>), reads its lines, parses them
  (\<open>message\<close>), and answers its own commands and those of its plugins through a flood controller
  that spaces the replies out per channel.  Its configuration is a property map read from a file;
  what it must remember is in a store, a text file of keys and values.

  How the parts interact.  \<open>IrcBot::init\<close> reads the configuration (\<open>Bot_Props\<close>), opens the store
  (\<open>Stores\<close>), loads the plugins (\<open>Plugins\<close>) and starts the flood controller (\<open>Flood\<close>) and the pinger;
  its loop (\<open>Bot_Loop\<close>) hands each line from the server (\<open>Irc_Server\<close>) to the parser (\<open>Message\<close>), then to the
  message events, the monitors and the handler of the command; replies go through \<open>Flood\<close>, and
  built-in commands call \<open>exec\<close> (\<open>Bot\<close>), which a console may call too.

  The theories, in the order of their imports.
  \<^item> \<open>Prelude\<close>, \<open>Streams\<close>, \<open>Std_Map\<close>: the parts of the C++ library the code uses.  Character classes and
    string searches; \<open>istream\<close> with \<open>eofbit\<close> and \<open>failbit\<close>, \<open>getline\<close>, \<open>>>\<close>, \<open>peek\<close>, \<open>ws\<close>; \<open>std::map\<close> and
    \<open>std::set\<close> as lists sorted by a comparison that may identify keys, which is how the
    case-insensitive store works.
  \<^item> \<open>Hol_Lib\<close>: the functions of the header library \<open>hol\<close>, which is not in the repository, as a record
    that the definitions take as an argument; \<open>trims\<close>, \<open>extracts\<close>, \<open>lowers\<close>, \<open>picks\<close>, \<open>joins\<close> and
    \<open>replaces_all\<close> state what the code relies on, and \<open>hol_ref\<close> satisfies them all.
  \<^item> \<open>Codec\<close> (\<open>store.h\<close>, \<open>store.cpp\<close>): how containers, pairs and maps are written to one line of text and
    read back.
  \<^item> \<open>Message\<close> (\<open>message.h\<close>, \<open>message.cpp\<close>): the parser of IRC lines and every accessor.
  \<^item> \<open>Kv_Store\<close>, \<open>Stores\<close> (\<open>store.h\<close>): the interface of a durable key-value store as two locales, and
    \<open>MappedStore\<close> and \<open>BackupStore\<close>, which implement it.
  \<^item> \<open>Irc_Server\<close> (\<open>IrcServer.h\<close>, \<open>IrcServer.cpp\<close>): the command methods of \<open>BaseIrcServer\<close>, the test server
    and the remote server, with a locale for a transport that both implement.
  \<^item> \<open>Flood\<close> (\<open>FloodController.h\<close>, \<open>FloodController.cpp\<close>): the queues and the dispatcher, with a locale for an
    outbox that keeps the order within each channel.
  \<^item> \<open>Text_Utils\<close> (\<open>ios.h\<close>, \<open>ios.cpp\<close>, \<open>utils.h\<close>, \<open>utils.cpp\<close>): quoted strings, ranges, durations, wild cards.
  \<^item> \<open>Bot_Props\<close>, \<open>Plugins\<close>, \<open>Bot\<close>, \<open>Bot_Loop\<close>, \<open>Bot_Machine\<close> (\<open>ircbot.h\<close>, \<open>ircbot.cpp\<close>): the state of
    \<open>IrcBot\<close> as three records that extend each other (configuration, plugin tables, the bot), a definition per
    member function and per branch of the loop, and the threads as a step relation, in which the plugins make any
    call the bot offers them (\<open>plug_call\<close>).
  \<^item> \<open>Http\<close>, \<open>Html\<close> (\<open>network.h\<close>, \<open>network.cpp\<close>): what plugins use of the web.  Cookies, headers and bodies;
    URLs, entities, tags and elements.
  \<^item> \<open>Bot_Db\<close> (\<open>botdb.h\<close>, \<open>botdb.cpp\<close>), \<open>Prop_Store\<close> (\<open>props.h\<close>): the database of the plugins, a file per key, and the
    property store, both with transactions.
  \<^item> \<open>Timers\<close> (\<open>Timers.h\<close>, \<open>Timers.cpp\<close>), \<open>Server_Pool\<close> (\<open>server.h\<close>, \<open>server.cpp\<close>), \<open>Skivlet\<close> (\<open>skivlet.cpp\<close>): threads as
    step relations.
  \<^item> \<open>Calendar\<close> (\<open>cal.h\<close>, \<open>cal.cpp\<close>), \<open>Delays\<close> (\<open>types.h\<close>, \<open>types.cpp\<close>), \<open>Irc_Colors\<close> (\<open>irc.h\<close>, \<open>irc.cpp\<close>, \<open>utils.cpp\<close>),
    \<open>Rpc\<close> (\<open>rpc.h\<close>, \<open>bits/rpc.tcc\<close>, \<open>rpc.cpp\<close>): small components the rest of the repository is built on.
  \<^item> \<open>File_Store\<close> (\<open>store.h\<close>): \<open>FileStore\<close> and \<open>CacheStore\<close>, which read the file line by line; the bot uses neither.
  \<^item> \<open>Plugin_Web\<close>, \<open>Trivial\<close>, \<open>Quiz_Rip\<close> (\<open>plugin-trivial.h\<close>, \<open>plugin-trivial.cpp\<close>), \<open>Diction\<close> (\<open>plugin-diction.h\<close>,
    \<open>plugin-diction.cpp\<close>), \<open>Oa_Stats\<close>, \<open>Oa_Top\<close> (\<open>plugin-oastats.h\<close>, \<open>plugin-oastats.cpp\<close>): plugins.  Their sources are not in
    the build and use members of a message (\<open>get_user_params_cp\<close> and others) that \<open>message.h\<close> no longer has;
    these members are the fields of a record of their own.  \<open>Oa_Text\<close> is the other conversion of
    the colours of the game (\<open>openarena.h\<close>); \<open>Compile\<close> (\<open>plugin-compile.h\<close>, \<open>plugin-compile.cpp\<close>) is the plugin that
    compiles and runs the text of a message, with the shell as an argument.  \<open>Quiz_Collect\<close> (\<open>quiz-rip.cpp\<close>) is the
    program that collects the quiz of \<open>Trivial\<close> without a bot, with the loops of \<open>Quiz_Rip\<close>.
  \<^item> \<open>Socket_Stream\<close> (\<open>socketstream.h\<close>), \<open>Ssl_Stream\<close> (\<open>ssl_socketstream.h\<close>): the buffer over a socket and its
    stream, plain and encrypted, the latter with the objects it owns.  \<open>Remote_Console\<close>
    (\<open>plugin-rserver.h\<close>, \<open>plugin-rserver.cpp\<close>, \<open>skivvy-client.cpp\<close>, \<open>skivvy-client-nc.cpp\<close>) puts \<open>exec\<close> of \<open>Bot\<close> behind it: the
    plugin that serves commands and its two clients; \<open>Nc_Client\<close> has the two threads of the second one.
    \<open>Smtp\<close> (\<open>mail.h\<close>) sends a mail.  \<open>Buffered_Output\<close> is the contract of a buffered writer, a locale that the
    streams of the sockets and of the console interpret.
  \<^item> \<open>Rpc_Copy\<close> (\<open>test-rpc.cpp\<close>): a service and its stub on top of \<open>Rpc\<close>.  \<open>Irc_Client\<close> (\<open>test-server.cpp\<close>): the second design of a connection, a reading thread and the main thread
    as a step relation with events.  \<open>Irc_Numerics\<close> (\<open>irc-constants.h\<close>): the constants of the protocol.
  \<^item> \<open>Ansi\<close> (\<open>ansi.h\<close>), \<open>Tools\<close> (\<open>skivvy.cpp\<close>, \<open>convert-cvars.cpp\<close>): the markup of the console and its buffer, the
    filters of the log, the status of \<open>main\<close>, and the converter of a table of variables.
  \<^item> \<open>Test_Programs\<close> (\<open>test-wild.cpp\<close>, \<open>test-net.cpp\<close>, \<open>test-props.cpp\<close>): the tests that have code of their own.
  \<^item> \<open>Bot_Facts\<close>, \<open>Bot_Safe\<close>: what the built-in commands do, and what every operation keeps.  \<open>Flat_Text\<close>,
    \<open>Bot_Lines\<close>: where a line feed can come from, from the bytes of the server and of the files up to the wire,
    and the way of a reply from the queues of the dispatcher to the wire.

  What the groups of lemmas show.  Round trips of the codec, the message parser and the
  parameter parser; the store as an implementation of its interface, durable and with its error
  path; no call is lost, made twice or starved by the flood controller; commands reach the wire as
  whole lines; a plugin command runs only with a grant; a wrong password changes nothing but the
  queued replies; the invariants of the flood controller and of the plugin table hold in every
  reachable state of the running bot (\<open>safe\<close>, a lemma per operation, then rule induction), and the
  main thread returns only with \<open>QUIT\<close> sent, unless a turn throws.  As long as the files, the console and the plugins hand over
  single lines, what arrives at the server is one line for each command that was sent, so nobody can put a
  second command into a reply; and every reply that is
  queued is on the wire, whole and in the order of its channel, after as many turns as there are calls.  What a server sends in chunks and what a page nests is read back
  exactly; a database transaction is durable; a timer in use has one running thread, unless
  \<open>on\<close> waits for ever; every accepted socket is closed once by the pool.  The plugins: no
  parameter of a user adds a header to a request, a quiz gives no more points than it has asked
  questions, every date leads to a page, tables are listed in a known order, and ranks are what the
  counts of better players make them.  What is written on a socket stream arrives
  whole, so a command and its answer cross the network unchanged; the second client hands its
  messages on in order and says nothing but its answers; the buffered writer of the console
  is equal to the unbuffered one; a message that does not compile runs nothing.  Where the code does not do what it means to, a property says what
  it does instead.

  Loops and bounds.  A loop over a stream ends because the input shrinks; one that may not end
  (\<open>load_props\<close> on a file that includes itself, \<open>expand_env\<close>, the loop over a range, sending on a
  socket that takes nothing) is \<open>partial_function (option)\<close>, with theorems that say when it returns.
  There is no fuel.  \<open>siz\<close> is a 64-bit word; times are integers.

  Effects.  An operation takes the state and returns it updated; a thrown exception or an
  access to a null pointer, a destroyed object or an index out of range is an error value.
  Sockets, files, the environment, \<open>dlopen\<close>, plugin code, regular expressions and \<open>fnmatch\<close> are
  arguments.  Random choices are an argument with a counter.  Logging is left out.

  Not modelled: data races inside one step; the exits of plugins, and what plugins do beyond
  the calls they make to the bot; the subsystems listed as
  such in the manifest: \<open>open\<close> of \<open>ssl_socketstream.h\<close>, which does not compile, the colours of the
  log, \<open>test.cpp\<close> and \<open>test-irc-server.cpp\<close>, and wrappers of standard algorithms.
\<close>

section \<open>An invitation survives a restart\<close>

lemma get_set_mem: "cs_mem str_lt c (fst (get_set k s)) \<longleftrightarrow> c \<in> set (store_vec s k)"
  using str_cmp.mem_iff [OF str_cmp.sorted_of_list, of c "fst (get_vec k s)"]
  by (cases "get_vec k s") (simp add: get_set_def store_vec_def)

text \<open>The store as the next process opens it.\<close>

lemma open_store_vec:
  assumes "store_inv s" "\<not> ms_ci s"
  shows "store_vec (snd (open_store (bs_file s))) k = store_vec s k"
proof -
  let ?n = "\<lparr>ms_store = [], ms_ci = False, bs_file = bs_file s\<rparr>"
  have l: "load ?n = load s" using assms(2)
    by (cases s; cases "f_content (bs_file s)") (simp_all add: load_def)
  have f: "f_writable (bs_file (load s))" "cm_sorted (ci_cmp (ms_ci (load s))) (ms_store (load s))"
    "legal_map (ms_store (load s))"
    using inv_load [OF assms(1)] by (simp_all add: store_inv_def)
  note sv = inv_save [OF f]
  have "store_vec (snd (open_store (bs_file s))) k = vec_at k (load s)"
    using vec_ensure [OF sv(2), of k] by (simp add: open_store_def reload_def l store_vec_alt)
  also have "\<dots> = store_vec s k" using assms(1) vec_ensure [OF assms(1), of k]
    by (simp add: store_inv_def store_vec_alt)
  finally show ?thesis .
qed

lemma official_join_sends:
  "Join chan [] \<in> set (b_sent (official_join y chan b))" "b_store (official_join y chan b) = b_store b"
  by (auto simp: official_join_def send_op_def add_channel_def emit_def draw_def Let_def)

lemma joins_send:
  "chan \<in> set cs \<Longrightarrow> Join chan [] \<in> set (b_sent (fold (official_join y) cs b))"
proof (induction cs arbitrary: b)
  case (Cons c cs)
  show ?case
  proof (cases "chan = c")
    case True
    have "prefix (b_sent (official_join y c b)) (b_sent (fold (official_join y) cs (official_join y c b)))"
      using safe_fold [where a = "official_join y c b" and b = "official_join y c b" and f = "official_join y" and xs = cs]
      by (simp add: safe_join) (simp add: safe_def)
    with official_join_sends(1) [of c y b] True show ?thesis by (auto dest: set_mono_prefix)
  qed (use Cons in simp)
qed simp

lemma joins_store: "b_store (fold (official_join y) cs b) = b_store b"
  by (induction cs arbitrary: b) (simp_all add: official_join_sends)

lemma emit_store [simp]: "b_store (emit y op b) = b_store b"
  by (simp add: emit_def send_op_def)

lemma invite_stored:
  assumes "store_inv (b_store b)" "\<not> ms_ci (b_store b)" "legal_value chan"
    and "get_params msg = [b_nick b, chan]" "chan \<notin> set (conf_get_vec ''part'' b)"
  shows "\<exists>b'. on_invite y msg b = Some (None, b') \<and> store_inv (b_store b') \<and> \<not> ms_ci (b_store b') \<and>
    chan \<in> set (store_vec (b_store b') ''invite'')"
proof -
  have k: "legal_key ''invite''" by (simp add: legal_key_def LF_def)
  let ?b1 = "emit y (Say chan (''I was invited by '' @ get_nickname msg)) (official_join y chan b)"
  have b1: "b_store ?b1 = b_store b" by (simp add: official_join_sends)
  obtain inv st where g: "get_set ''invite'' (b_store b) = (inv, st)" by fastforce
  note gi = get_set_inv [OF assms(1) k, unfolded g, simplified]
  show ?thesis
  proof (cases "cs_mem str_lt chan inv")
    case True
    then have "chan \<in> set (store_vec st ''invite'')" using get_set_mem [of chan "''invite''" "b_store b"] g gi(3) by simp
    with True g gi assms b1 show ?thesis by (simp add: on_invite_def Let_def done_res_def)
  next
    case False
    obtain e st2 where a: "add ''invite'' chan st = (e, st2)" by fastforce
    have l: "legal_entry ''invite'' chan" using k assms(3) by (simp add: legal_entry_def)
    have "fst (add ''invite'' chan st) = None"
      using inv_put(1) [OF gi(1) k] legal_vec_at [OF inv_ensure [OF gi(1)]] assms(3) by (simp add: add_def Let_def)
    then have "e = None" using a by simp
    moreover have "store_inv st2" using backup.inv_app [OF gi(1) l] a by simp
    moreover have "chan \<in> set (store_vec st2 ''invite'')"
      using backup.vec_app [OF gi(1), of "''invite''" chan "''invite''"] backup.same_refl a by simp
    moreover have "ms_ci st2 = ms_ci st" using backup.same_app [of "''invite''" chan st] a ms_ci_save [of "put_vec ''invite'' (vec_at ''invite'' (ensure_loaded st) @ [chan]) (ensure_loaded st)"]
      by (simp add: add_def Let_def put_vec_def)
    ultimately show ?thesis using False g gi assms b1 a by (simp add: on_invite_def Let_def)
  qed
qed

text \<open>No command of \<open>exec\<close> touches the store.\<close>

lemma same_store:
  fixes b b' :: bot
  shows "conf_frame b b' \<Longrightarrow> b_store b' = b_store b" "plugs_frame b b' \<Longrightarrow> b_store b' = b_store b"
  by (cases b, cases b', simp add: conf_frame_def plugs_frame_def)+

lemma leave_store: "b_store (leave_all y b) = b_store b"
proof -
  have "b_store (leave_all y b) = b_store b"
    unfolding leave_all_def Let_def split_beta
    by (rule fold_all [where P = "\<lambda>b'. b_store b' = b_store b"]) (simp_all add: draw_def)
  then show ?thesis .
qed

lemma reload_store: "b_store (reload_plugins y now b) = b_store b"
  unfolding reload_plugins_def by (simp add: same_store(2) [OF load_plugins_frame] same_store(2) [OF init_plugins_frame])

lemma reconfigure_store: "res_all (\<lambda>b'. b_store b' = b_store b) (reconfigure y now b)"
  by (auto simp: reconfigure_def split: option.split prod.split dest!: read_conf_frame dest: same_store(1))

lemma exec_handlers_store:
  "exec_all (\<lambda>b'. b_store b' = b_store b) (exec_say y os line iss b)" "exec_all (\<lambda>b'. b_store b' = b_store b) (exec_ctcp y os iss b)"
  "exec_all (\<lambda>b'. b_store b' = b_store b) (exec_raw y iss b)" "exec_all (\<lambda>b'. b_store b' = b_store b) (exec_nick y iss b)"
  "exec_all (\<lambda>b'. b_store b' = b_store b) (exec_msg y iss b)" "exec_all (\<lambda>b'. b_store b' = b_store b) (exec_auth y iss b)"
  "exec_all (\<lambda>b'. b_store b' = b_store b) (exec_mode y iss b)" "exec_all (\<lambda>b'. b_store b' = b_store b) (exec_whois y iss b)"
  "exec_all (\<lambda>b'. b_store b' = b_store b) (exec_me y os line iss b)" "exec_all (\<lambda>b'. b_store b' = b_store b) (exec_join y os iss b)"
  "exec_all (\<lambda>b'. b_store b' = b_store b) (exec_part y os line iss b)" "exec_all (\<lambda>b'. b_store b' = b_store b) (exec_ping y os iss b)"
  "exec_all (\<lambda>b'. b_store b' = b_store b) (exec_reconnect y os b)"
  by (auto simp: exec_say_def exec_ctcp_def exec_raw_def exec_nick_def exec_msg_def exec_auth_def exec_mode_def
    exec_whois_def exec_me_def exec_join_def exec_part_def exec_ping_def exec_reconnect_def bot_connect_def
    fc_say_def fc_do_def send_op_def add_channel_def Let_def split_beta split: sum.split)

lemma exec_store: "exec_all (\<lambda>b'. b_store b' = b_store b) (exec y now line os b)"
  by (simp add: exec_def Let_def split_beta exec_handlers_store reconfigure_store reload_store leave_store)

lemma connect_store:
  "res_all (\<lambda>b'. b_store b' = b_store b) (for_each (\<lambda>prop b. exec_quiet y now (f prop b) b) props b)"
proof (rule res_all_for_each [where P = "\<lambda>b'. b_store b' = b_store b"])
  show "res_all (\<lambda>b'. b_store b' = b_store b) (exec_quiet y now (f x b1) b1)" if "b_store b1 = b_store b" for x b1
    using res_all_quiet [OF exec_store, of b1 y now "f x b1"] that by (auto simp: res_all_def)
qed simp

text \<open>The handler of the welcome joins every stored invitation, when no command of \<open>on_connect\<close> fails.\<close>

lemma welcome_joins:
  assumes "on_welcome y now wel b = Some (None, b')" "chan \<in> set (store_vec (b_store b) ''invite'')"
  shows "Join chan [] \<in> set (b_sent b') \<and> b_registered b'"
proof -
  let ?b1 = "b\<lparr>b_nick := get_to wel\<rparr>"
  let ?r = "for_each (\<lambda>prop b. exec_quiet y now (h_replace_all (y_hol y) prop ''$me'' (b_nick b)) b)
    (conf_get_vec ''on_connect'' ?b1) ?b1"
  have "res_all (\<lambda>b'. b_store b' = b_store ?b1) ?r" by (rule connect_store)
  moreover obtain b2 where r: "?r = Some (None, b2)"
    using assms(1) by (cases ?r) (auto simp: on_welcome_def Let_def and_then_def split: option.splits)
  ultimately have "b_store b2 = b_store b" by (simp add: res_all_def)
  then have "chan \<in> set (fst (get_set ''invite'' (b_store b2)))" using assms(2) by (simp add: get_set_elems)
  with assms(1) r show ?thesis
    by (auto simp: on_welcome_def Let_def and_then_def joins_store split_beta joins_send done_res_def)
qed

text \<open>C7: In whatever state a bot is that has come up and whose console and plugins hand over texts without a line feed
  (as plugins and their commands have names without one): when it is
  invited to a channel that its configuration does not list under part, the invitation is stored, and it stays
  stored whatever the bot does next.  A bot that is later started on the file of that store, with whatever configuration, joins the channel when
  the server welcomes it, provided that the commands of its \<open>on_connect\<close> run without an exception, as they do
  when there are none.\<close>

theorem invite_survives_restart:
  assumes "line_lib (y_hol y)" "flat_code (bs_plug y)"
    and "bot_init y now file (new_bot t) = Some (e, True, b0)" "(line_step y)\<^sup>*\<^sup>* (start b0) m"
    and "parsemsg (y_hol y) when line (clear_message new_message) = (True, msg)"
    and "get_params msg = [b_nick (mc_bot m), chan]" "chan \<notin> set (conf_get_vec ''part'' (mc_bot m))"
  shows "\<exists>b1. on_invite y msg (mc_bot m) = Some (None, b1) \<and>
    (\<forall>m2 b2 y2 now2 wel b3. (line_step y)\<^sup>*\<^sup>* (m\<lparr>mc_bot := b1\<rparr>) m2 \<and>
        b_store b2 = snd (open_store (bs_file (b_store (mc_bot m2)))) \<and>
        on_welcome y2 now2 wel b2 = Some (None, b3) \<longrightarrow> Join chan [] \<in> set (b_sent b3) \<and> b_registered b3) \<and>
    (\<forall>b2 y2 now2 wel. conf_get_vec ''on_connect'' b2 = [] \<longrightarrow> (\<exists>b3. on_welcome y2 now2 wel b2 = Some (None, b3)))"
proof -
  let ?b = "mc_bot m"
  have c: "clean y (Some {}) ?b" by (rule clean_reachable [OF assms(1-4)])
  have "flat_msg (clear_message new_message)" by (simp add: flat_msg_def clear_message_def new_message_def)
  from flat_parse [OF assms(5) [unfolded parsemsg_def] this] have fm: "flat_msg msg" .
  have "flat chan" using flat_params(1) [OF fm] assms(6) by simp
  then have v: "legal_value chan" by (simp add: legal_value_def flat_def)
  have s: "store_inv (b_store ?b)" "\<not> ms_ci (b_store ?b)" using c by (simp_all add: clean_def flat_store_def)
  obtain b1 where b1: "on_invite y msg ?b = Some (None, b1)" "chan \<in> set (store_vec (b_store b1) ''invite'')"
    using invite_stored [OF s v assms(6,7)] by blast
  have "clean y (Some {}) b1" using clean_invite [OF c fm] b1(1) by (simp add: res_all_def)
  with b1(2) have c1: "clean y (Some {chan}) b1" by (simp add: clean_def flat_store_def)
  have "Join chan [] \<in> set (b_sent b3) \<and> b_registered b3"
    if r: "(line_step y)\<^sup>*\<^sup>* (m\<lparr>mc_bot := b1\<rparr>) m2" and o: "b_store b2 = snd (open_store (bs_file (b_store (mc_bot m2))))"
      and w: "on_welcome y2 now2 wel b2 = Some (None, b3)" for m2 b2 y2 now2 wel b3
  proof (rule welcome_joins [OF w])
    have "clean y (Some {chan}) (mc_bot m2)" using clean_steps [OF r] c1 by simp
    then have "store_inv (b_store (mc_bot m2))" "\<not> ms_ci (b_store (mc_bot m2))" "chan \<in> set (store_vec (b_store (mc_bot m2)) ''invite'')"
      by (simp_all add: clean_def flat_store_def)
    then show "chan \<in> set (store_vec (b_store b2) ''invite'')" using open_store_vec [of "b_store (mc_bot m2)"] o by simp
  qed
  moreover have "\<exists>b3. on_welcome y2 now2 wel b2 = Some (None, b3)"
    if "conf_get_vec ''on_connect'' b2 = []" for b2 y2 now2 wel
    using that by (simp add: on_welcome_def Let_def conf_get_vec_def split_beta done_res_def and_then_def)
  ultimately show ?thesis using b1(1) by blast
qed

text \<open>A bot that has come up, been connected and welcomed.\<close>

definition main_turns :: "bot_sys \<Rightarrow> string option list \<Rightarrow> mach \<Rightarrow> mach" where
  "main_turns y ls m =
     fold (\<lambda>l m. case main_thread y 0 l True (mc_main m, mc_bot m) of (pc, b) \<Rightarrow> m\<lparr>mc_main := pc, mc_bot := b\<rparr>) ls m"

definition ping_turns :: "bot_sys \<Rightarrow> nat \<Rightarrow> mach \<Rightarrow> mach" where
  "ping_turns y n = ((\<lambda>m. case pinger y [] (mc_png m, mc_bot m) of (pc, b) \<Rightarrow> m\<lparr>mc_png := pc, mc_bot := b\<rparr>) ^^ n)"

lemma turns_line_steps: "(line_step y)\<^sup>*\<^sup>* m (main_turns y ls (ping_turns y n m))"
proof -
  have "(line_step y)\<^sup>*\<^sup>* m (ping_turns y n m)"
  proof (induction n)
    case (Suc n)
    obtain pc b where p: "pinger y [] (mc_png (ping_turns y n m), mc_bot (ping_turns y n m)) = (pc, b)" by fastforce
    from Suc line_step.ping [OF _ p] p show ?case by (auto simp: ping_turns_def)
  qed (simp add: ping_turns_def)
  moreover have "(line_step y)\<^sup>*\<^sup>* m1 (main_turns y ls m1)" for m1
  proof (induction ls arbitrary: m1)
    case (Cons l ls)
    obtain pc b where p: "main_thread y 0 l True (mc_main m1, mc_bot m1) = (pc, b)" by fastforce
    have "main_turns y (l # ls) m1 = main_turns y ls (m1\<lparr>mc_main := pc, mc_bot := b\<rparr>)"
      by (simp add: main_turns_def p)
    then show ?case using line_step.main [OF p] Cons by (metis converse_rtranclp_into_rtranclp)
  qed (simp add: main_turns_def)
  ultimately show ?thesis by (meson rtranclp_trans)
qed

definition welcomed :: mach where
  "welcomed = main_turns (mach_sys (Inr True)) [None, Some '':s 001 bot :hi''] (ping_turns (mach_sys (Inr True)) 2 (start (ready_bot (Inr True))))"

definition invite_msg :: message where
  "invite_msg = snd (parsemsg hol_ref 0 '':bob!b@h INVITE bot #d'' (clear_message new_message))"

theorem invite_survives_restart_witness:
  "\<exists>b1 b3. on_invite (mach_sys (Inr True)) invite_msg (mc_bot welcomed) = Some (None, b1) \<and>
     on_welcome demo_sys 0 invite_msg ((demo_bot [])\<lparr>b_store := snd (open_store (bs_file (b_store b1)))\<rparr>) = Some (None, b3) \<and>
     Join ''#d'' [] \<in> set (b_sent b3)"
proof -
  let ?y = "mach_sys (Inr True)"
  obtain b where b: "bot_init ?y 0 ''/c'' (new_bot 0) = Some (None, True, b)" using ready_bot_init by blast
  then have "ready_bot (Inr True) = b" by (simp add: ready_bot_def)
  then have r: "(line_step ?y)\<^sup>*\<^sup>* (start b) welcomed" unfolding welcomed_def by (simp add: turns_line_steps)
  have l: "line_lib (y_hol ?y)" "flat_code (bs_plug ?y)" "y_hol ?y = hol_ref"
    by (simp_all add: mach_sys_def demo_sys_def hol_ref_line_lib flat_code_def)
  have "fst (parsemsg hol_ref 0 '':bob!b@h INVITE bot #d'' (clear_message new_message))" by code_simp
  then have m: "parsemsg (y_hol ?y) 0 '':bob!b@h INVITE bot #d'' (clear_message new_message) = (True, invite_msg)"
    unfolding l(3) invite_msg_def by (metis prod.collapse)
  have n: "b_nick (mc_bot welcomed) = ''bot''" "conf_get_vec ''part'' (mc_bot welcomed) = []" by code_simp+
  have p: "get_params invite_msg = [b_nick (mc_bot welcomed), ''#d'']" unfolding n by code_simp
  have q: "''#d'' \<notin> set (conf_get_vec ''part'' (mc_bot welcomed))" by (simp add: n)
  have o: "conf_get_vec ''on_connect'' ((demo_bot [])\<lparr>b_store := x\<rparr>) = []" for x
    by (simp add: conf_get_vec_def demo_bot_def)
  from invite_survives_restart [OF l(1,2) b r m p q] obtain b1 where
    1: "on_invite ?y invite_msg (mc_bot welcomed) = Some (None, b1)"
    and 2: "\<And>m2 b2 y2 now2 wel b3. (line_step ?y)\<^sup>*\<^sup>* (welcomed\<lparr>mc_bot := b1\<rparr>) m2 \<Longrightarrow>
        b_store b2 = snd (open_store (bs_file (b_store (mc_bot m2)))) \<Longrightarrow>
        on_welcome y2 now2 wel b2 = Some (None, b3) \<Longrightarrow> Join ''#d'' [] \<in> set (b_sent b3)"
    and 3: "\<And>b2 y2 now2 wel. conf_get_vec ''on_connect'' b2 = [] \<Longrightarrow> \<exists>b3. on_welcome y2 now2 wel b2 = Some (None, b3)"
    by blast
  obtain b3 where "on_welcome demo_sys 0 invite_msg ((demo_bot [])\<lparr>b_store := snd (open_store (bs_file (b_store b1)))\<rparr>) = Some (None, b3)"
    using 3 [OF o] by blast
  moreover from this have "Join ''#d'' [] \<in> set (b_sent b3)" by (rule 2 [OF rtranclp.rtrancl_refl, rotated]) simp
  ultimately show ?thesis using 1 by blast
qed

end
